(* ===== verification/Prelude.thy ===== *)
theory Prelude
  imports Main "HOL-Library.Word"
begin

text \<open>
  The common ground of the development: the machine types of the C sources, the
  error numbers of \<^verbatim>\<open>kernel/errno.h\<close>, byte memory with the loops of
  \<^verbatim>\<open>kernel/kutil.h\<close>, and the bounded forward scans (\<^verbatim>\<open>for (i = lo; i < hi; i++)
  if (P i) ...\<close>) that most kernel tables are searched with.

  Conventions used by every theory: an address or an index is a \<open>nat\<close>, a machine
  word that the code masks, shifts or wraps is an \<open>n word\<close>, a C \<open>int\<close>/\<open>long\<close>
  result is an \<open>int\<close> (negative = negated error number), a C string is a HOL
  \<open>string\<close> without its terminator.
\<close>

unbundle bit_operations_syntax

type_synonym u8 = "8 word"
type_synonym u16 = "16 word"
type_synonym u32 = "32 word"
type_synonym u64 = "64 word"
type_synonym bytes = "8 word list"
type_synonym mem = "nat \<Rightarrow> 8 word"

named_theorems scan_simps \<open>facts about bounded scans\<close>
named_theorems mem_simps \<open>read-over-write facts of byte memory\<close>

section \<open>Error numbers\<close>

definition EPERM :: int where [simp]: "EPERM = 1"
definition ENOENT :: int where [simp]: "ENOENT = 2"
definition ESRCH :: int where [simp]: "ESRCH = 3"
definition EIO :: int where [simp]: "EIO = 5"
definition ENOEXEC :: int where [simp]: "ENOEXEC = 8"
definition EBADF :: int where [simp]: "EBADF = 9"
definition ECHILD :: int where [simp]: "ECHILD = 10"
definition EAGAIN :: int where [simp]: "EAGAIN = 11"
definition ENOMEM :: int where [simp]: "ENOMEM = 12"
definition EACCES :: int where [simp]: "EACCES = 13"
definition EEXIST :: int where [simp]: "EEXIST = 17"
definition ENODEV :: int where [simp]: "ENODEV = 19"
definition ENOTDIR :: int where [simp]: "ENOTDIR = 20"
definition EISDIR :: int where [simp]: "EISDIR = 21"
definition EINVAL :: int where [simp]: "EINVAL = 22"
definition ENFILE :: int where [simp]: "ENFILE = 23"
definition EMFILE :: int where [simp]: "EMFILE = 24"
definition ENOSPC :: int where [simp]: "ENOSPC = 28"
definition EROFS :: int where [simp]: "EROFS = 30"
definition ENOSYS :: int where [simp]: "ENOSYS = 38"
definition ENOTEMPTY :: int where [simp]: "ENOTEMPTY = 39"

section \<open>Bounded scans\<close>

text \<open>The first index of \<open>[lo, hi)\<close> that satisfies \<open>P\<close>: a \<^verbatim>\<open>for\<close> loop that
  returns (or breaks) at the first hit.\<close>

function scan_up :: "(nat \<Rightarrow> bool) \<Rightarrow> nat \<Rightarrow> nat \<Rightarrow> nat option" where
  "scan_up P lo hi =
     (if lo < hi then (if P lo then Some lo else scan_up P (Suc lo) hi) else None)"
  by pat_completeness auto
termination
  by (relation "measure (\<lambda>(P, lo, hi). hi - lo)") auto

declare scan_up.simps [simp del]

section \<open>Byte memory\<close>

text \<open>\<open>mem_fill\<close> and \<open>mem_write\<close> are the closed forms of the byte loops; the loops
  themselves follow.\<close>

definition mem_fill :: "mem \<Rightarrow> nat \<Rightarrow> nat \<Rightarrow> u8 \<Rightarrow> mem" where
  "mem_fill m a n v = (\<lambda>x. if a \<le> x \<and> x < a + n then v else m x)"

definition mem_write :: "mem \<Rightarrow> nat \<Rightarrow> bytes \<Rightarrow> mem" where
  "mem_write m a bs = (\<lambda>x. if a \<le> x \<and> x < a + length bs then bs ! (x - a) else m x)"

definition mem_read :: "mem \<Rightarrow> nat \<Rightarrow> nat \<Rightarrow> bytes" where
  "mem_read m a n = map m [a..<a + n]"

fun memset_from :: "nat \<Rightarrow> nat \<Rightarrow> u8 \<Rightarrow> nat \<Rightarrow> mem \<Rightarrow> mem" where
  "memset_from i dst v 0 m = m"
| "memset_from i dst v (Suc k) m = memset_from (Suc i) dst v k (m(dst + i := v))"

definition k_memset :: "nat \<Rightarrow> u8 \<Rightarrow> nat \<Rightarrow> mem \<Rightarrow> mem" where
  "k_memset dst v n m = memset_from 0 dst v n m"

fun memcpy_from :: "nat \<Rightarrow> nat \<Rightarrow> nat \<Rightarrow> nat \<Rightarrow> mem \<Rightarrow> mem" where
  "memcpy_from i dst src 0 m = m"
| "memcpy_from i dst src (Suc k) m = memcpy_from (Suc i) dst src k (m(dst + i := m (src + i)))"

definition k_memcpy :: "nat \<Rightarrow> nat \<Rightarrow> nat \<Rightarrow> mem \<Rightarrow> mem" where
  "k_memcpy dst src n m = memcpy_from 0 dst src n m"

text \<open>Little-endian integers: the value of a byte list, the bytes of a value, and the
  64-bit cells of memory.\<close>

fun le_val :: "bytes \<Rightarrow> u64" where
  "le_val [] = 0"
| "le_val (b # bs) = ucast b OR push_bit 8 (le_val bs)"

definition le_bytes :: "nat \<Rightarrow> u64 \<Rightarrow> bytes" where
  "le_bytes n v = map (\<lambda>i. ucast (drop_bit (8 * i) v)) [0..<n]"

definition rd64 :: "mem \<Rightarrow> nat \<Rightarrow> u64" where
  "rd64 m a = le_val (mem_read m a 8)"

definition wr64 :: "mem \<Rightarrow> nat \<Rightarrow> u64 \<Rightarrow> mem" where
  "wr64 m a v = mem_write m a (le_bytes 8 v)"

section \<open>C strings\<close>

text \<open>\<open>k_strcmp\<close>: the difference of the first bytes that differ, with the terminator
  read as 0.\<close>

definition uc :: "char \<Rightarrow> int" where
  "uc c = int (of_char c)"

fun k_strcmp :: "string \<Rightarrow> string \<Rightarrow> int" where
  "k_strcmp [] [] = 0"
| "k_strcmp [] (b # bs) = - uc b"
| "k_strcmp (a # as) [] = uc a"
| "k_strcmp (a # as) (b # bs) = (if a = b then k_strcmp as bs else uc a - uc b)"

definition no_nul :: "string \<Rightarrow> bool" where
  "no_nul s \<longleftrightarrow> CHR 0x00 \<notin> set s"

section \<open>Lemmas on scans\<close>

lemma scan_up_SomeD [scan_simps]:
  "scan_up P lo hi = Some i \<Longrightarrow> lo \<le> i \<and> i < hi \<and> P i \<and> (\<forall>j. lo \<le> j \<and> j < i \<longrightarrow> \<not> P j)"
proof (induction P lo hi rule: scan_up.induct)
  case (1 P lo hi)
  show ?case
  proof (cases "lo < hi \<and> \<not> P lo")
    case True
    with "1.prems" have "scan_up P (Suc lo) hi = Some i"
      by (simp add: scan_up.simps [of P lo hi])
    with True "1.IH" have ih: "Suc lo \<le> i \<and> i < hi \<and> P i \<and> (\<forall>j. Suc lo \<le> j \<and> j < i \<longrightarrow> \<not> P j)"
      by simp
    with True show ?thesis by (metis Suc_leD le_antisym not_less_eq_eq)
  next
    case False
    with "1.prems" show ?thesis by (auto simp: scan_up.simps [of P lo hi] split: if_splits)
  qed
qed

lemma scan_up_None_iff [scan_simps]:
  "scan_up P lo hi = None \<longleftrightarrow> (\<forall>i. lo \<le> i \<and> i < hi \<longrightarrow> \<not> P i)"
proof (induction P lo hi rule: scan_up.induct)
  case (1 P lo hi)
  show ?case
  proof (cases "lo < hi \<and> \<not> P lo")
    case True
    with "1" have "scan_up P (Suc lo) hi = None \<longleftrightarrow> (\<forall>i. Suc lo \<le> i \<and> i < hi \<longrightarrow> \<not> P i)"
      by simp
    with True show ?thesis
      by (simp add: scan_up.simps [of P lo hi]) (metis Suc_leD le_antisym not_less_eq_eq)
  next
    case False
    then show ?thesis by (auto simp: scan_up.simps [of P lo hi])
  qed
qed

lemma scan_up_total:
  assumes "lo \<le> i" "i < hi" "P i"
  obtains j where "scan_up P lo hi = Some j" "lo \<le> j" "j \<le> i" "P j"
proof -
  from assms have "scan_up P lo hi \<noteq> None" by (auto simp: scan_up_None_iff)
  then obtain j where j: "scan_up P lo hi = Some j" by auto
  with scan_up_SomeD [OF j] assms have "j \<le> i" by (meson not_le)
  with j scan_up_SomeD [OF j] that show thesis by blast
qed

lemma scan_up_cong:
  "(\<And>i. lo \<le> i \<Longrightarrow> i < hi \<Longrightarrow> P i = Q i) \<Longrightarrow> scan_up P lo hi = scan_up Q lo hi"
proof (induction P lo hi rule: scan_up.induct)
  case (1 P lo hi)
  show ?case
  proof (cases "lo < hi")
    case True
    have "\<not> P lo \<Longrightarrow> scan_up P (Suc lo) hi = scan_up Q (Suc lo) hi"
      using True "1.prems" by (intro "1.IH") auto
    with True "1.prems" show ?thesis
      by (simp add: scan_up.simps [of P lo hi] scan_up.simps [of Q lo hi])
  next
    case False
    then show ?thesis by (simp add: scan_up.simps [of P lo hi] scan_up.simps [of Q lo hi])
  qed
qed

lemma scan_up_skip:
  assumes "lo \<le> mid" "\<And>i. lo \<le> i \<Longrightarrow> i < mid \<Longrightarrow> \<not> P i"
  shows "scan_up P lo hi = scan_up P mid hi"
  using assms
proof (induction "mid - lo" arbitrary: lo)
  case 0
  then show ?case by simp
next
  case (Suc n)
  then have "scan_up P (Suc lo) hi = scan_up P mid hi" by auto
  moreover have "\<not> P lo" using Suc by auto
  moreover have "\<not> lo < hi \<Longrightarrow> scan_up P mid hi = None" using Suc.prems
    by (auto simp: scan_up.simps [of P mid hi])
  ultimately show ?case by (simp add: scan_up.simps [of P lo hi])
qed

section \<open>Lemmas on counting loops\<close>

lemma fold_upt_inv:
  assumes "P a s" "\<And>i s. a \<le> i \<Longrightarrow> i < b \<Longrightarrow> P i s \<Longrightarrow> P (Suc i) (f i s)" "a \<le> b"
  shows "P b (fold f [a..<b] s)"
  using assms(3,2)
proof (induction b)
  case (Suc b)
  show ?case
  proof (cases "a \<le> b")
    case True
    with Suc have "P b (fold f [a..<b] s)" by simp
    with True Suc.prems show ?thesis by simp
  next
    case False
    with Suc.prems assms(1) show ?thesis by (simp add: le_Suc_eq)
  qed
qed (use assms(1) in simp)

section \<open>Lemmas on memory\<close>

lemma memset_from_apply:
  "memset_from i dst v k m x = (if dst + i \<le> x \<and> x < dst + i + k then v else m x)"
proof (induction i dst v k m rule: memset_from.induct)
  case (2 i dst v k m)
  then show ?case unfolding memset_from.simps 2 by auto
qed auto

lemma k_memset_fill [simp]: "k_memset dst v n m = mem_fill m dst n v"
  by (simp add: k_memset_def memset_from_apply mem_fill_def fun_eq_iff)

text \<open>The forward copy loop reads a source byte before any earlier iteration can have
  overwritten it when the regions are disjoint or the destination lies below the source.\<close>

lemma memcpy_from_apply:
  assumes "dst \<le> src \<or> src + i + k \<le> dst"
  shows "memcpy_from i dst src k m x =
    (if dst + i \<le> x \<and> x < dst + i + k then m (src + (x - dst)) else m x)"
  using assms
proof (induction i dst src k m rule: memcpy_from.induct)
  case (2 i dst src k m)
  let ?m = "m(dst + i := m (src + i))"
  have ih: "memcpy_from (Suc i) dst src k ?m x =
      (if dst + Suc i \<le> x \<and> x < dst + Suc i + k then ?m (src + (x - dst)) else ?m x)"
    by (rule "2.IH") (use "2.prems" in auto)
  show ?case
  proof (cases "dst + Suc i \<le> x \<and> x < dst + Suc i + k")
    case True
    with "2.prems" have "src + (x - dst) \<noteq> dst + i" by auto
    with True show ?thesis unfolding memcpy_from.simps ih by simp
  next
    case False
    then show ?thesis unfolding memcpy_from.simps ih by auto
  qed
qed auto

lemma k_memcpy_write:
  assumes "dst \<le> src \<or> src + n \<le> dst"
  shows "k_memcpy dst src n m = mem_write m dst (mem_read m src n)"
  using assms by (auto simp: k_memcpy_def memcpy_from_apply mem_write_def mem_read_def fun_eq_iff)

lemma mem_read_length [simp]: "length (mem_read m a n) = n"
  by (simp add: mem_read_def)

lemma mem_read_nth [simp]: "i < n \<Longrightarrow> mem_read m a n ! i = m (a + i)"
  by (simp add: mem_read_def)

lemma mem_read_cong:
  "(\<And>x. a \<le> x \<Longrightarrow> x < a + n \<Longrightarrow> m x = m' x) \<Longrightarrow> mem_read m a n = mem_read m' a n"
  by (simp add: mem_read_def)

lemma mem_read_write_same [mem_simps]: "mem_read (mem_write m a bs) a (length bs) = bs"
  by (rule nth_equalityI) (auto simp: mem_write_def)

lemma mem_read_write_other [mem_simps]:
  "a + n \<le> b \<or> b + length bs \<le> a \<Longrightarrow> mem_read (mem_write m b bs) a n = mem_read m a n"
  by (rule mem_read_cong) (auto simp: mem_write_def)

lemma mem_read_fill_in [mem_simps]:
  "b \<le> a \<Longrightarrow> a + n \<le> b + k \<Longrightarrow> mem_read (mem_fill m b k v) a n = replicate n v"
  by (rule nth_equalityI) (auto simp: mem_fill_def)

lemma mem_read_fill_other [mem_simps]:
  "a + n \<le> b \<or> b + k \<le> a \<Longrightarrow> mem_read (mem_fill m b k v) a n = mem_read m a n"
  by (rule mem_read_cong) (auto simp: mem_fill_def)

lemma mem_write_Nil [simp]: "mem_write m a [] = m"
  by (rule ext) (auto simp: mem_write_def)

lemma mem_write_apply_in [mem_simps]:
  "a \<le> x \<Longrightarrow> x < a + length bs \<Longrightarrow> mem_write m a bs x = bs ! (x - a)"
  by (simp add: mem_write_def)

lemma mem_write_apply_out [mem_simps]:
  "x < a \<or> a + length bs \<le> x \<Longrightarrow> mem_write m a bs x = m x"
  by (auto simp: mem_write_def)

lemma le_bytes_length [simp]: "length (le_bytes n v) = n"
  by (simp add: le_bytes_def)

lemma le_bytes_nth [simp]: "i < n \<Longrightarrow> le_bytes n v ! i = ucast (drop_bit (8 * i) v)"
  by (simp add: le_bytes_def)

lemma bit_le_val:
  "bit (le_val bs) n \<longleftrightarrow> n < 64 \<and> n div 8 < length bs \<and> bit (bs ! (n div 8)) (n mod 8)"
proof (induction bs arbitrary: n)
  case Nil
  then show ?case by simp
next
  case (Cons b bs)
  show ?case
  proof (cases "n < 8")
    case True
    then show ?thesis by (simp add: bit_simps)
  next
    case False
    then obtain k where n: "n = k + 8" by (metis add.commute le_Suc_ex not_less)
    moreover have "(k + 8) div 8 = Suc (k div 8)" by simp
    ultimately show ?thesis
      using bit_imp_le_length [of b "k + 8"] by (auto simp: bit_simps Cons.IH)
  qed
qed

lemma le_val_bytes [simp]: "le_val (le_bytes 8 v) = v"
proof (rule bit_word_eqI)
  fix n assume n: "n < LENGTH(64)"
  then have "n div 8 < 8" by simp
  with n have "bit (le_val (le_bytes 8 v)) n = bit v (8 * (n div 8) + n mod 8)"
    by (simp add: bit_le_val bit_simps)
  then show "bit (le_val (le_bytes 8 v)) n = bit v n" by simp
qed

lemma rd64_wr64_same [mem_simps, simp]: "rd64 (wr64 m a v) a = v"
  using mem_read_write_same [of m a "le_bytes 8 v"] by (simp add: rd64_def wr64_def)

lemma rd64_wr64_other [mem_simps]: "a + 8 \<le> b \<or> b + 8 \<le> a \<Longrightarrow> rd64 (wr64 m b v) a = rd64 m a"
  by (simp add: rd64_def wr64_def mem_read_write_other)

lemma le_val_replicate_0 [simp]: "le_val (replicate n 0) = 0"
  by (induction n) auto

lemma rd64_fill0 [mem_simps]: "b \<le> a \<Longrightarrow> a + 8 \<le> b + k \<Longrightarrow> rd64 (mem_fill m b k 0) a = 0"
  by (simp add: rd64_def mem_read_fill_in)

lemma rd64_fill_other [mem_simps]:
  "a + 8 \<le> b \<or> b + k \<le> a \<Longrightarrow> rd64 (mem_fill m b k v) a = rd64 m a"
  by (simp add: rd64_def mem_read_fill_other)

lemma rd64_write_other [mem_simps]:
  "a + 8 \<le> b \<or> b + length bs \<le> a \<Longrightarrow> rd64 (mem_write m b bs) a = rd64 m a"
  by (simp add: rd64_def mem_read_write_other)

lemma rd64_cong: "(\<And>x. a \<le> x \<Longrightarrow> x < a + 8 \<Longrightarrow> m x = m' x) \<Longrightarrow> rd64 m a = rd64 m' a"
  by (simp add: rd64_def mem_read_cong [of a 8 m m'])

section \<open>Lemmas on strings\<close>

lemma uc_inject [simp]: "uc a = uc b \<longleftrightarrow> a = b"
  by (simp add: uc_def)

lemma uc_eq_0 [simp]: "uc a = 0 \<longleftrightarrow> a = CHR 0x00"
  using uc_inject [of a "CHR 0x00"] by (simp add: uc_def)

lemma k_strcmp_0_iff: "no_nul a \<Longrightarrow> no_nul b \<Longrightarrow> k_strcmp a b = 0 \<longleftrightarrow> a = b"
  by (induction a b rule: k_strcmp.induct) (auto simp: no_nul_def)

lemma k_strcmp_refl [simp]: "k_strcmp a a = 0"
  by (induction a) auto

end
