(* ===== verification/Serial.thy ===== *)
theory Serial
  imports Prelude
begin

text \<open>
  Port input and output (\<^verbatim>\<open>kernel/kutil.h\<close>) and the debug log on the serial line
  (\<^verbatim>\<open>kernel/serial.c\<close>). The hardware behind the ports is not part of the sources: it is the
  pair of functions \<open>dev8\<close>, \<open>dev16\<close> that give the value a read returns from the history of all
  accesses so far (newest first). Every access is recorded in \<open>hist\<close>. The debug log is the text
  \<open>klog\<close> that has been sent; the wait for the transmitter before each byte is not modelled.
\<close>

section \<open>Port access\<close>

datatype io_event = In8 nat | Out8 nat nat | In16 nat | Out16 nat nat

record io =
  hist :: "io_event list"
  dev8 :: "io_event list \<Rightarrow> nat \<Rightarrow> nat"
  dev16 :: "io_event list \<Rightarrow> nat \<Rightarrow> nat"
  klog :: string

definition inb :: "nat \<Rightarrow> 'a io_scheme \<Rightarrow> nat \<times> 'a io_scheme" where
  "inb port d = (dev8 d (hist d) port, d\<lparr>hist := In8 port # hist d\<rparr>)"

definition outb :: "nat \<Rightarrow> nat \<Rightarrow> 'a io_scheme \<Rightarrow> 'a io_scheme" where
  "outb port v d = d\<lparr>hist := Out8 port v # hist d\<rparr>"

definition inw :: "nat \<Rightarrow> 'a io_scheme \<Rightarrow> nat \<times> 'a io_scheme" where
  "inw port d = (dev16 d (hist d) port, d\<lparr>hist := In16 port # hist d\<rparr>)"

definition outw :: "nat \<Rightarrow> nat \<Rightarrow> 'a io_scheme \<Rightarrow> 'a io_scheme" where
  "outw port v d = d\<lparr>hist := Out16 port v # hist d\<rparr>"

text \<open>A word as it lies in memory, low byte first.\<close>

definition word_bytes :: "nat \<Rightarrow> bytes" where
  "word_bytes w = [of_nat (w mod 256), of_nat (w div 256 mod 256)]"

definition bytes_word :: "u8 \<Rightarrow> u8 \<Rightarrow> nat" where
  "bytes_word lo hi = unat lo + 256 * unat hi"

text \<open>\<^verbatim>\<open>rep insw\<close> and \<^verbatim>\<open>rep outsw\<close>: the bytes read, and the words taken from a buffer.\<close>

fun insw :: "nat \<Rightarrow> nat \<Rightarrow> 'a io_scheme \<Rightarrow> bytes \<times> 'a io_scheme" where
  "insw port 0 d = ([], d)"
| "insw port (Suc n) d =
     (let (w, d1) = inw port d; (bs, d2) = insw port n d1 in (word_bytes w @ bs, d2))"

fun outsw :: "nat \<Rightarrow> bytes \<Rightarrow> nat \<Rightarrow> 'a io_scheme \<Rightarrow> 'a io_scheme" where
  "outsw port (lo # hi # bs) (Suc n) d = outsw port bs n (outw port (bytes_word lo hi) d)"
| "outsw port bs n d = d"

section \<open>The debug log\<close>

definition COM1 :: nat where [simp]: "COM1 = 0x3f8"

definition serial_init :: "'a io_scheme \<Rightarrow> 'a io_scheme" where
  "serial_init d = fold (\<lambda>(r, v). outb (COM1 + r) v)
     [(1, 0x00), (3, 0x80), (0, 0x03), (1, 0x00), (3, 0x03), (2, 0xC7), (4, 0x0B)] d"

definition serial_putc :: "char \<Rightarrow> 'a io_scheme \<Rightarrow> 'a io_scheme" where
  "serial_putc c d = d\<lparr>klog := klog d @ [c]\<rparr>"

fun serial_print :: "string \<Rightarrow> 'a io_scheme \<Rightarrow> 'a io_scheme" where
  "serial_print [] d = d"
| "serial_print (c # s) d =
     serial_print s (serial_putc c (if c = CHR 0x0A then serial_putc (CHR 0x0D) d else d))"

definition hex_digit :: "nat \<Rightarrow> char" where
  "hex_digit n = ''0123456789abcdef'' ! n"

text \<open>The loop over the nibbles below position \<open>k\<close>, highest first, leading zeros skipped.\<close>

fun hex_loop :: "nat \<Rightarrow> bool \<Rightarrow> nat \<Rightarrow> string" where
  "hex_loop 0 started v = []"
| "hex_loop (Suc k) started v =
     (let nibble = v div 16 ^ k mod 16 in
      if nibble \<noteq> 0 \<or> started \<or> k = 0 then hex_digit nibble # hex_loop k True v
      else hex_loop k started v)"

definition serial_print_hex :: "nat \<Rightarrow> 'a io_scheme \<Rightarrow> 'a io_scheme" where
  "serial_print_hex v d = fold serial_putc (hex_loop 16 False v) (serial_print ''0x'' d)"

definition dec_digit :: "nat \<Rightarrow> char" where
  "dec_digit n = char_of (48 + n)"

text \<open>The digits in front of \<open>acc\<close>, in a buffer with \<open>i\<close> places left.\<close>

fun dec_loop :: "nat \<Rightarrow> nat \<Rightarrow> string \<Rightarrow> string" where
  "dec_loop 0 v acc = acc"
| "dec_loop (Suc i) v acc =
     (if v > 0 then dec_loop i (v div 10) (dec_digit (v mod 10) # acc) else acc)"

definition serial_print_dec :: "nat \<Rightarrow> 'a io_scheme \<Rightarrow> 'a io_scheme" where
  "serial_print_dec v d =
     (if v = 0 then serial_putc (CHR ''0'') d else serial_print (dec_loop 20 v []) d)"

section \<open>What is printed\<close>

definition crlf :: "string \<Rightarrow> string" where
  "crlf s = concat (map (\<lambda>c. if c = CHR 0x0A then [CHR 0x0D, CHR 0x0A] else [c]) s)"

lemma serial_print_log: "serial_print s d = d\<lparr>klog := klog d @ crlf s\<rparr>"
  by (induction s arbitrary: d) (simp_all add: serial_putc_def crlf_def)

lemma putc_fold: "fold serial_putc s d = d\<lparr>klog := klog d @ s\<rparr>"
  by (induction s arbitrary: d) (simp_all add: serial_putc_def)

lemma serial_keeps [simp]:
  "hist (serial_print s d) = hist d" "dev8 (serial_print s d) = dev8 d" "dev16 (serial_print s d) = dev16 d"
  "hist (serial_print_dec v d) = hist d" "dev8 (serial_print_dec v d) = dev8 d" "dev16 (serial_print_dec v d) = dev16 d"
  "hist (serial_print_hex v d) = hist d" "dev8 (serial_print_hex v d) = dev8 d" "dev16 (serial_print_hex v d) = dev16 d"
  by (simp_all add: serial_print_log serial_print_dec_def serial_print_hex_def serial_putc_def putc_fold)

text \<open>Reading a numeral back, in base \<open>b\<close> with digit values \<open>f\<close>.\<close>

definition numeral_value :: "nat \<Rightarrow> (char \<Rightarrow> nat) \<Rightarrow> string \<Rightarrow> nat" where
  "numeral_value b f s = foldl (\<lambda>a c. a * b + f c) 0 s"

definition dec_value :: "char \<Rightarrow> nat" where "dec_value c = of_char c - 48"

definition hex_value :: "char \<Rightarrow> nat" where
  "hex_value c = (let n = of_char c in if n < 58 then n - 48 else n - 87)"

lemma dec_value_digit [simp]: "n < 10 \<Longrightarrow> dec_value (dec_digit n) = n"
  by (simp add: dec_value_def dec_digit_def)

lemma hex_value_digit [simp]: "n < 16 \<Longrightarrow> hex_value (hex_digit n) = n"
proof -
  have "list_all (\<lambda>k. hex_value (hex_digit k) = k) [0..<16]"
    by (simp add: upt_rec hex_value_def hex_digit_def)
  then show "n < 16 \<Longrightarrow> hex_value (hex_digit n) = n" by (simp add: list_all_iff)
qed

lemma foldl_digits:
  "foldl (\<lambda>a c. a * b + f c) (x :: nat) s = x * b ^ length s + foldl (\<lambda>a c. a * b + f c) 0 s"
proof (induction s arbitrary: x)
  case (Cons c s)
  show ?case using Cons.IH [of "x * b + f c"] Cons.IH [of "f c"] by (simp add: algebra_simps)
qed simp

lemma numeral_value_Cons: "numeral_value b f (c # s) = f c * b ^ length s + numeral_value b f s"
  unfolding numeral_value_def using foldl_digits [of b f "f c" s] by simp

lemma dec_loop_value:
  "v < 10 ^ i \<Longrightarrow> numeral_value 10 dec_value (dec_loop i v acc) = v * 10 ^ length acc + numeral_value 10 dec_value acc"
proof (induction i v acc rule: dec_loop.induct)
  case (2 i v acc)
  have "v div 10 < 10 ^ i" using "2.prems" by (simp add: less_mult_imp_div_less mult.commute)
  then show ?case using "2.IH" by (simp add: numeral_value_Cons)
      (metis (no_types, lifting) add.assoc add_mult_distrib div_mult_mod_eq mult.assoc)
qed simp

lemma hex_loop_length: "started \<Longrightarrow> length (hex_loop k started v) = k"
  by (induction k started v rule: hex_loop.induct) (auto simp: Let_def)

lemma hex_loop_value: "numeral_value 16 hex_value (hex_loop k started v) = v mod 16 ^ k"
proof (induction k started v rule: hex_loop.induct)
  case (2 k started v)
  have m: "v mod 16 ^ Suc k = v div 16 ^ k mod 16 * 16 ^ k + v mod 16 ^ k"
    using mod_mult2_eq [of v "16 ^ k" 16] by (simp add: mult.commute)
  show ?case
  proof (cases "v div 16 ^ k mod 16 \<noteq> 0 \<or> started \<or> k = 0")
    case True
    have "numeral_value 16 hex_value (hex_loop (Suc k) started v) =
        v div 16 ^ k mod 16 * 16 ^ k + numeral_value 16 hex_value (hex_loop k True v)"
      using True by (simp add: numeral_value_Cons hex_loop_length)
    also have "numeral_value 16 hex_value (hex_loop k True v) = v mod 16 ^ k" using "2.IH"(1) [OF refl True] by simp
    finally show ?thesis using m by simp
  next
    case False
    then show ?thesis using "2.IH"(2) [OF refl] m by simp
  qed
qed (simp add: numeral_value_def)

end
