(* ===== verification/Ata.thy ===== *)
theory Ata
  imports Serial
begin

text \<open>
  The disk driver, \<^verbatim>\<open>kernel/ata.c\<close>: polled transfers on the primary channel's master drive.
  Register bytes are numbers below 256. The poll loops have the bound of the code, so every
  operation of the driver returns.

  The drive is hardware. For the theorems it is the drive of \<open>drv_step\<close>, which does what the ATA
  standard says of the commands the driver uses; \<open>attached\<close> says that the ports answer like it.
\<close>

section \<open>Registers\<close>

definition ATA_IO_BASE :: nat where [simp]: "ATA_IO_BASE = 0x1F0"
definition ATA_CTRL_BASE :: nat where [simp]: "ATA_CTRL_BASE = 0x3F6"
definition ATA_REG_DATA :: nat where [simp]: "ATA_REG_DATA = ATA_IO_BASE + 0"
definition ATA_REG_ERROR :: nat where [simp]: "ATA_REG_ERROR = ATA_IO_BASE + 1"
definition ATA_REG_SECCOUNT :: nat where [simp]: "ATA_REG_SECCOUNT = ATA_IO_BASE + 2"
definition ATA_REG_LBA_LOW :: nat where [simp]: "ATA_REG_LBA_LOW = ATA_IO_BASE + 3"
definition ATA_REG_LBA_MID :: nat where [simp]: "ATA_REG_LBA_MID = ATA_IO_BASE + 4"
definition ATA_REG_LBA_HIGH :: nat where [simp]: "ATA_REG_LBA_HIGH = ATA_IO_BASE + 5"
definition ATA_REG_DRIVE :: nat where [simp]: "ATA_REG_DRIVE = ATA_IO_BASE + 6"
definition ATA_REG_STATUS :: nat where [simp]: "ATA_REG_STATUS = ATA_IO_BASE + 7"
definition ATA_REG_COMMAND :: nat where [simp]: "ATA_REG_COMMAND = ATA_IO_BASE + 7"
definition ATA_REG_ALT_STATUS :: nat where [simp]: "ATA_REG_ALT_STATUS = ATA_CTRL_BASE + 0"

definition ATA_STATUS_BSY :: nat where [simp]: "ATA_STATUS_BSY = 0x80"
definition ATA_STATUS_DF :: nat where [simp]: "ATA_STATUS_DF = 0x20"
definition ATA_STATUS_DRQ :: nat where [simp]: "ATA_STATUS_DRQ = 0x08"
definition ATA_STATUS_ERR :: nat where [simp]: "ATA_STATUS_ERR = 0x01"

definition ATA_CMD_IDENTIFY :: nat where [simp]: "ATA_CMD_IDENTIFY = 0xEC"
definition ATA_CMD_READ_SECTORS :: nat where [simp]: "ATA_CMD_READ_SECTORS = 0x20"
definition ATA_CMD_WRITE_SECTORS :: nat where [simp]: "ATA_CMD_WRITE_SECTORS = 0x30"
definition ATA_CMD_CACHE_FLUSH :: nat where [simp]: "ATA_CMD_CACHE_FLUSH = 0xE7"
definition ATA_DRIVE_MASTER_LBA :: nat where [simp]: "ATA_DRIVE_MASTER_LBA = 0xE0"
definition ATA_POLL_MAX_ITERS :: nat where "ATA_POLL_MAX_ITERS = 100000"

text \<open>The driver's variables, with the ports they are used on.\<close>

record disk = io +
  ata_found :: bool
  ata_total_sectors :: nat

text \<open>\<open>has s f\<close> is \<^verbatim>\<open>s & f\<close> as a condition.\<close>

abbreviation has :: "nat \<Rightarrow> nat \<Rightarrow> bool" where
  "has s f \<equiv> s AND f \<noteq> 0"

section \<open>Waiting\<close>

definition ata_delay_400ns :: "disk \<Rightarrow> disk" where
  "ata_delay_400ns = (\<lambda>d. snd (inb ATA_REG_ALT_STATUS d)) ^^ 4"

definition ata_dump_regs :: "string \<Rightarrow> disk \<Rightarrow> disk" where
  "ata_dump_regs ctx d =
     (let (status, d1) = inb ATA_REG_STATUS d; (error, d2) = inb ATA_REG_ERROR d1 in
      serial_print [CHR 0x0A] (serial_print_hex error (serial_print '' error=0x''
        (serial_print_hex status (serial_print '': status=0x'' (serial_print ctx (serial_print ''[ata] '' d2)))))))"

fun poll_not_busy :: "nat \<Rightarrow> disk \<Rightarrow> bool \<times> disk" where
  "poll_not_busy 0 d = (False, d)"
| "poll_not_busy (Suc i) d =
     (let (s, d1) = inb ATA_REG_STATUS d in
      if \<not> has s ATA_STATUS_BSY then (True, d1) else poll_not_busy i d1)"

definition ata_wait_not_busy :: "string \<Rightarrow> disk \<Rightarrow> int \<times> disk" where
  "ata_wait_not_busy ctx d =
     (case poll_not_busy ATA_POLL_MAX_ITERS d of
        (True, d1) \<Rightarrow> (0, d1) | (False, d1) \<Rightarrow> (- 1, ata_dump_regs ctx d1))"

fun poll_drq :: "nat \<Rightarrow> disk \<Rightarrow> bool \<times> disk" where
  "poll_drq 0 d = (False, d)"
| "poll_drq (Suc i) d =
     (let (s, d1) = inb ATA_REG_STATUS d in
      if has s (ATA_STATUS_ERR OR ATA_STATUS_DF) then (False, d1)
      else if has s ATA_STATUS_DRQ then (True, d1) else poll_drq i d1)"

definition ata_wait_drq :: "string \<Rightarrow> disk \<Rightarrow> int \<times> disk" where
  "ata_wait_drq ctx d =
     (case poll_drq ATA_POLL_MAX_ITERS d of
        (True, d1) \<Rightarrow> (0, d1) | (False, d1) \<Rightarrow> (- 1, ata_dump_regs ctx d1))"

section \<open>Transfers\<close>

definition ata_present :: "disk \<Rightarrow> bool" where "ata_present d = ata_found d"
definition ata_sector_count :: "disk \<Rightarrow> nat" where "ata_sector_count d = ata_total_sectors d"

definition ata_setup_lba28 :: "nat \<Rightarrow> nat \<Rightarrow> disk \<Rightarrow> disk" where
  "ata_setup_lba28 lba count d =
     (let d1 = snd (ata_wait_not_busy ''setup (pre-select)'' d);
          d2 = ata_delay_400ns (outb ATA_REG_DRIVE (ATA_DRIVE_MASTER_LBA OR (drop_bit 24 lba AND 0x0F)) d1)
      in outb ATA_REG_LBA_HIGH (drop_bit 16 lba AND 0xFF)
        (outb ATA_REG_LBA_MID (drop_bit 8 lba AND 0xFF)
          (outb ATA_REG_LBA_LOW (lba AND 0xFF) (outb ATA_REG_SECCOUNT count d2))))"

text \<open>The loop over the sectors: what has been stored in the buffer so far is returned.\<close>

fun read_loop :: "nat \<Rightarrow> disk \<Rightarrow> int \<times> bytes \<times> disk" where
  "read_loop 0 d = (0, [], d)"
| "read_loop (Suc k) d =
     (case ata_wait_drq ''read'' d of (r, d1) \<Rightarrow>
        if r \<noteq> 0 then (- 1, [], d1)
        else let (bs, d2) = insw ATA_REG_DATA 256 d1; (r', bs', d3) = read_loop k d2 in (r', bs @ bs', d3))"

definition ata_read_sectors :: "nat \<Rightarrow> nat \<Rightarrow> disk \<Rightarrow> int \<times> bytes \<times> disk" where
  "ata_read_sectors lba count d =
     (if \<not> ata_found d \<or> count = 0 then (- 1, [], d)
      else read_loop count (outb ATA_REG_COMMAND ATA_CMD_READ_SECTORS (ata_setup_lba28 lba count d)))"

fun put_loop :: "nat \<Rightarrow> bytes \<Rightarrow> disk \<Rightarrow> int \<times> disk" where
  "put_loop 0 src d = (0, d)"
| "put_loop (Suc k) src d =
     (case ata_wait_drq ''write'' d of (r, d1) \<Rightarrow>
        if r \<noteq> 0 then (- 1, d1) else put_loop k (drop 512 src) (outsw ATA_REG_DATA src 256 d1))"

definition ata_write_sectors :: "nat \<Rightarrow> nat \<Rightarrow> bytes \<Rightarrow> disk \<Rightarrow> int \<times> disk" where
  "ata_write_sectors lba count src d =
     (if \<not> ata_found d \<or> count = 0 then (- 1, d)
      else case put_loop count src (outb ATA_REG_COMMAND ATA_CMD_WRITE_SECTORS (ata_setup_lba28 lba count d)) of
        (r, d1) \<Rightarrow>
          if r \<noteq> 0 then (- 1, d1)
          else case ata_wait_not_busy ''write (pre-flush)'' d1 of (r2, d2) \<Rightarrow>
            if r2 \<noteq> 0 then (- 1, d2)
            else case ata_wait_not_busy ''write (post-flush)'' (outb ATA_REG_COMMAND ATA_CMD_CACHE_FLUSH d2) of (r3, d3) \<Rightarrow>
              if r3 \<noteq> 0 then (- 1, d3) else (0, d3))"

section \<open>Probing\<close>

definition nl :: string where [simp]: "nl = [CHR 0x0A]"

definition identify_word :: "bytes \<Rightarrow> nat \<Rightarrow> nat" where
  "identify_word bs i = bytes_word (bs ! (2 * i)) (bs ! (2 * i + 1))"

definition ata_init :: "disk \<Rightarrow> disk" where
  "ata_init d =
     (let d0 = ata_delay_400ns (outb ATA_REG_DRIVE ATA_DRIVE_MASTER_LBA (d\<lparr>ata_found := False, ata_total_sectors := 0\<rparr>));
          (s1, d1) = inb ATA_REG_STATUS d0 in
      if s1 = 0xFF then serial_print (''[ata] no drive found on primary bus'' @ nl) d1
      else
        let (s2, d2) = inb ATA_REG_STATUS (outb ATA_REG_COMMAND ATA_CMD_IDENTIFY (outb ATA_REG_LBA_HIGH 0
              (outb ATA_REG_LBA_MID 0 (outb ATA_REG_LBA_LOW 0 (outb ATA_REG_SECCOUNT 0 d1))))) in
        if s2 = 0 then serial_print (''[ata] no drive found on primary bus'' @ nl) d2
        else case ata_wait_not_busy ''identify'' d2 of (r3, d3) \<Rightarrow>
          if r3 \<noteq> 0 then serial_print (''[ata] drive present but never cleared BSY, giving up'' @ nl) d3
          else
            let (mid, d4) = inb ATA_REG_LBA_MID d3;
                (high, d5) = (if mid \<noteq> 0 then (mid, d4) else inb ATA_REG_LBA_HIGH d4) in
            if high \<noteq> 0 then serial_print (''[ata] device present but not a plain ATA disk (ATAPI?), skipping'' @ nl) d5
            else case ata_wait_drq ''identify'' d5 of (r6, d6) \<Rightarrow>
              if r6 \<noteq> 0 then serial_print (''[ata] drive present but IDENTIFY never signaled data ready'' @ nl) d6
              else
                let (bs, d7) = insw ATA_REG_DATA 256 d6;
                    n = identify_word bs 60 OR push_bit 16 (identify_word bs 61)
                in serial_print ('' MiB)'' @ nl) (serial_print_dec (n div 2048) (serial_print '' sectors (''
                     (serial_print_dec n (serial_print ''[ata] primary master found, ''
                       (d7\<lparr>ata_total_sectors := n, ata_found := True\<rparr>))))))"

section \<open>The drive\<close>

datatype drv_mode = Idle | Rd nat nat nat | Wr nat nat "nat list" | Ident nat | Failed

record drive =
  sect :: "nat \<Rightarrow> bytes"
  nsect :: nat
  r_cnt :: nat
  r_low :: nat
  r_mid :: nat
  r_high :: nat
  r_drv :: nat
  mode :: drv_mode

definition drv_lba :: "drive \<Rightarrow> nat" where
  "drv_lba s = r_low s + 256 * r_mid s + 65536 * r_high s + 16777216 * (r_drv s mod 16)"

definition drv_command :: "nat \<Rightarrow> drive \<Rightarrow> drive" where
  "drv_command c s =
     (let fits = (0 < r_cnt s \<and> drv_lba s + r_cnt s \<le> nsect s) in
      if c = ATA_CMD_READ_SECTORS then s\<lparr>mode := (if fits then Rd (drv_lba s) (r_cnt s) 0 else Failed)\<rparr>
      else if c = ATA_CMD_WRITE_SECTORS then s\<lparr>mode := (if fits then Wr (drv_lba s) (r_cnt s) [] else Failed)\<rparr>
      else if c = ATA_CMD_CACHE_FLUSH then s\<lparr>mode := Idle\<rparr>
      else if c = ATA_CMD_IDENTIFY then s\<lparr>mode := Ident 0\<rparr>
      else s\<lparr>mode := Failed\<rparr>)"

definition drv_next :: "nat \<Rightarrow> nat \<Rightarrow> (nat \<Rightarrow> nat \<Rightarrow> drv_mode) \<Rightarrow> drv_mode" where
  "drv_next lba k start = (if k \<le> 1 then Idle else start (lba + 1) (k - 1))"

definition drv_take :: "drive \<Rightarrow> drive" where
  "drv_take s = (case mode s of
      Rd lba k pos \<Rightarrow> s\<lparr>mode := (if pos = 255 then drv_next lba k (\<lambda>l k. Rd l k 0) else Rd lba k (pos + 1))\<rparr>
    | Ident pos \<Rightarrow> s\<lparr>mode := (if pos = 255 then Idle else Ident (pos + 1))\<rparr>
    | _ \<Rightarrow> s)"

definition drv_give :: "nat \<Rightarrow> drive \<Rightarrow> drive" where
  "drv_give w s = (case mode s of
      Wr lba k ws \<Rightarrow>
        if length ws = 255
        then s\<lparr>sect := (sect s)(lba := concat (map word_bytes (ws @ [w]))), mode := drv_next lba k (\<lambda>l k. Wr l k [])\<rparr>
        else s\<lparr>mode := Wr lba k (ws @ [w])\<rparr>
    | _ \<Rightarrow> s)"

fun drv_step :: "io_event \<Rightarrow> drive \<Rightarrow> drive" where
  "drv_step (Out8 p v) s =
     (if p = ATA_REG_SECCOUNT then s\<lparr>r_cnt := v\<rparr>
      else if p = ATA_REG_LBA_LOW then s\<lparr>r_low := v\<rparr>
      else if p = ATA_REG_LBA_MID then s\<lparr>r_mid := v\<rparr>
      else if p = ATA_REG_LBA_HIGH then s\<lparr>r_high := v\<rparr>
      else if p = ATA_REG_DRIVE then s\<lparr>r_drv := v\<rparr>
      else if p = ATA_REG_COMMAND then drv_command v s
      else s)"
| "drv_step (In16 p) s = (if p = ATA_REG_DATA then drv_take s else s)"
| "drv_step (Out16 p w) s = (if p = ATA_REG_DATA then drv_give w s else s)"
| "drv_step (In8 p) s = s"

definition drv_in8 :: "drive \<Rightarrow> nat \<Rightarrow> nat" where
  "drv_in8 s p =
     (if p = ATA_REG_STATUS \<or> p = ATA_REG_ALT_STATUS
      then (case mode s of Idle \<Rightarrow> 0x40 | Failed \<Rightarrow> 0x41 | _ \<Rightarrow> 0x48)
      else if p = ATA_REG_LBA_MID then r_mid s else if p = ATA_REG_LBA_HIGH then r_high s
      else if p = ATA_REG_ERROR then (if mode s = Failed then 4 else 0) else 0)"

definition sector_word :: "bytes \<Rightarrow> nat \<Rightarrow> nat" where
  "sector_word bs i = bytes_word (bs ! (2 * i)) (bs ! (2 * i + 1))"

definition drv_in16 :: "drive \<Rightarrow> nat \<Rightarrow> nat" where
  "drv_in16 s p = (case mode s of
      Rd lba k pos \<Rightarrow> sector_word (sect s lba) pos
    | Ident pos \<Rightarrow> if pos = 60 then nsect s mod 65536 else if pos = 61 then nsect s div 65536 mod 65536 else 0
    | _ \<Rightarrow> 0)"

definition drv_run :: "drive \<Rightarrow> io_event list \<Rightarrow> drive" where
  "drv_run d0 h = foldr drv_step h d0"

text \<open>The ports answer like a drive that started as \<open>d0\<close> and is now in state \<open>st\<close>.\<close>

definition on :: "drive \<Rightarrow> drive \<Rightarrow> disk \<Rightarrow> bool" where
  "on d0 st d \<longleftrightarrow> dev8 d = (\<lambda>h. drv_in8 (drv_run d0 h)) \<and> dev16 d = (\<lambda>h. drv_in16 (drv_run d0 h)) \<and>
     drv_run d0 (hist d) = st"

lemma on_outb: "on d0 st d \<Longrightarrow> on d0 (drv_step (Out8 p v) st) (outb p v d)"
  by (simp add: on_def outb_def drv_run_def del: drv_step.simps)

lemma on_outw: "on d0 st d \<Longrightarrow> on d0 (drv_step (Out16 p v) st) (outw p v d)"
  by (simp add: on_def outw_def drv_run_def del: drv_step.simps)

lemma on_inb: "on d0 st d \<Longrightarrow> \<exists>d'. inb p d = (drv_in8 st p, d') \<and> on d0 st d' \<and>
    ata_found d' = ata_found d \<and> ata_total_sectors d' = ata_total_sectors d"
  by (simp add: on_def inb_def drv_run_def)

lemma on_inw: "on d0 st d \<Longrightarrow> \<exists>d'. inw p d = (drv_in16 st p, d') \<and> on d0 (drv_step (In16 p) st) d' \<and>
    ata_found d' = ata_found d \<and> ata_total_sectors d' = ata_total_sectors d"
  by (simp add: on_def inw_def drv_run_def del: drv_step.simps)

lemma on_serial: "on d0 st d \<Longrightarrow> on d0 st (serial_print s d) \<and> on d0 st (serial_print_dec n d) \<and> on d0 st (serial_print_hex n d)"
  by (simp add: on_def)

lemma found_keeps [simp]:
  "ata_found (outb p v d) = ata_found d" "ata_found (outw p v d) = ata_found d"
  "ata_found (serial_print s d) = ata_found d" "ata_found (serial_print_hex n d) = ata_found d"
  "ata_found (serial_print_dec n d) = ata_found d" "ata_found (snd (inb p d)) = ata_found d"
  by (simp_all add: outb_def outw_def inb_def serial_print_log serial_print_hex_def serial_print_dec_def putc_fold serial_putc_def)

lemma dump_keeps: "on d0 st d \<Longrightarrow> on d0 st (ata_dump_regs ctx d) \<and> ata_found (ata_dump_regs ctx d) = ata_found d"
  by (simp add: ata_dump_regs_def on_def drv_run_def inb_def serial_print_log serial_print_hex_def putc_fold)

lemma delay_keeps: "on d0 st d \<Longrightarrow> on d0 st (ata_delay_400ns d) \<and> ata_found (ata_delay_400ns d) = ata_found d"
  by (simp add: ata_delay_400ns_def numeral_eq_Suc on_def drv_run_def inb_def)

definition drq :: "drive \<Rightarrow> bool" where
  "drq st \<longleftrightarrow> (case mode st of Idle \<Rightarrow> False | Failed \<Rightarrow> False | _ \<Rightarrow> True)"

lemma wait_not_busy_on:
  assumes "on d0 st d"
  shows "\<exists>d'. ata_wait_not_busy ctx d = (0, d') \<and> on d0 st d' \<and> ata_found d' = ata_found d"
proof -
  obtain k where k: "ATA_POLL_MAX_ITERS = Suc k" by (cases ATA_POLL_MAX_ITERS) (simp_all add: ATA_POLL_MAX_ITERS_def)
  from on_inb [OF assms, of ATA_REG_STATUS] obtain d' where d':
    "inb ATA_REG_STATUS d = (drv_in8 st ATA_REG_STATUS, d')" "on d0 st d'" "ata_found d' = ata_found d" by blast
  have "\<not> has (drv_in8 st ATA_REG_STATUS) ATA_STATUS_BSY" by (simp add: drv_in8_def split: drv_mode.split)
  then show ?thesis using d' by (simp add: ata_wait_not_busy_def k)
qed

lemma wait_drq_on:
  assumes "on d0 st d" "drq st"
  shows "\<exists>d'. ata_wait_drq ctx d = (0, d') \<and> on d0 st d' \<and> ata_found d' = ata_found d"
proof -
  obtain k where k: "ATA_POLL_MAX_ITERS = Suc k" by (cases ATA_POLL_MAX_ITERS) (simp_all add: ATA_POLL_MAX_ITERS_def)
  from on_inb [OF assms(1), of ATA_REG_STATUS] obtain d' where d':
    "inb ATA_REG_STATUS d = (drv_in8 st ATA_REG_STATUS, d')" "on d0 st d'" "ata_found d' = ata_found d" by blast
  have "drv_in8 st ATA_REG_STATUS = 0x48" using assms(2) by (simp add: drv_in8_def drq_def split: drv_mode.splits)
  then show ?thesis using d' by (simp add: ata_wait_drq_def k)
qed

lemma wait_drq_failed:
  assumes "on d0 st d" "mode st = Failed"
  shows "\<exists>d'. ata_wait_drq ctx d = (- 1, d') \<and> on d0 st d' \<and> ata_found d' = ata_found d"
proof -
  obtain k where k: "ATA_POLL_MAX_ITERS = Suc k" by (cases ATA_POLL_MAX_ITERS) (simp_all add: ATA_POLL_MAX_ITERS_def)
  from on_inb [OF assms(1), of ATA_REG_STATUS] obtain d' where d':
    "inb ATA_REG_STATUS d = (drv_in8 st ATA_REG_STATUS, d')" "on d0 st d'" "ata_found d' = ata_found d" by blast
  have "drv_in8 st ATA_REG_STATUS = 0x41" using assms(2) by (simp add: drv_in8_def)
  then show ?thesis using d' dump_keeps [OF d'(2), of ctx] by (simp add: ata_wait_drq_def k)
qed

lemma low_bits: "(ATA_DRIVE_MASTER_LBA OR (x AND 0x0F)) mod 16 = x mod 16" for x :: nat
proof -
  have "take_bit 4 (224 OR (x AND mask 4)) = take_bit 4 x" for x :: nat
    by (simp add: take_bit_or flip: take_bit_eq_mask)
  from this [of x] show ?thesis by (simp add: take_bit_eq_mod mask_eq_exp_minus_1)
qed

lemma and_255: "x AND 255 = x mod 256" for x :: nat
  using take_bit_eq_mask [of 8 x] by (simp add: take_bit_eq_mod mask_eq_exp_minus_1)

lemma lba_parts:
  "lba < 2 ^ 28 \<Longrightarrow> lba mod 256 + 256 * (lba div 256 mod 256) + 65536 * (lba div 65536 mod 256) +
     16777216 * (lba div 16777216 mod 16) = (lba :: nat)"
proof -
  assume "lba < 2 ^ 28"
  then have "lba div 16777216 < 16" by (simp add: less_mult_imp_div_less)
  then have 1: "lba div 16777216 mod 16 = lba div 16777216" by simp
  have 2: "lba div 65536 mod 256 + 256 * (lba div 16777216) = lba div 65536"
    using mod_mult_div_eq [of "lba div 65536" 256] by (simp add: div_mult2_eq [symmetric])
  have 3: "lba div 256 mod 256 + 256 * (lba div 65536) = lba div 256"
    using mod_mult_div_eq [of "lba div 256" 256] by (simp add: div_mult2_eq [symmetric])
  have "lba mod 256 + 256 * (lba div 256 mod 256) + 65536 * (lba div 65536 mod 256) + 16777216 * (lba div 16777216) =
      lba mod 256 + 256 * (lba div 256 mod 256 + 256 * (lba div 65536 mod 256 + 256 * (lba div 16777216)))" by simp
  also have "\<dots> = lba" unfolding 2 3 by (rule mod_mult_div_eq)
  finally show ?thesis unfolding 1 .
qed

lemma setup_on:
  assumes "on d0 st d"
  shows "\<exists>st'. on d0 st' (ata_setup_lba28 lba count d) \<and> sect st' = sect st \<and> nsect st' = nsect st \<and> mode st' = mode st \<and>
    r_cnt st' = count \<and> (lba < 2 ^ 28 \<longrightarrow> drv_lba st' = lba) \<and> ata_found (ata_setup_lba28 lba count d) = ata_found d"
proof -
  let ?e = "\<lambda>x. ATA_DRIVE_MASTER_LBA OR (drop_bit 24 x AND 0x0F)"
  from wait_not_busy_on [OF assms, of "''setup (pre-select)''"] obtain d1 where
    d1: "ata_wait_not_busy ''setup (pre-select)'' d = (0, d1)" "on d0 st d1" "ata_found d1 = ata_found d" by blast
  note d2 = delay_keeps [OF on_outb [OF d1(2), of ATA_REG_DRIVE "?e lba"]]
  let ?st = "st\<lparr>r_drv := ?e lba, r_cnt := count, r_low := lba AND 255, r_mid := drop_bit 8 lba AND 255, r_high := drop_bit 16 lba AND 255\<rparr>"
  have "on d0 ?st (ata_setup_lba28 lba count d)"
    using on_outb [OF on_outb [OF on_outb [OF on_outb [OF conjunct1 [OF d2], of ATA_REG_SECCOUNT count],
        of ATA_REG_LBA_LOW "lba AND 255"], of ATA_REG_LBA_MID "drop_bit 8 lba AND 255"], of ATA_REG_LBA_HIGH "drop_bit 16 lba AND 255"]
    by (simp add: ata_setup_lba28_def d1(1) Let_def)
  moreover have "drv_lba ?st = lba" if "lba < 2 ^ 28"
    using lba_parts [OF that] low_bits [of "drop_bit 24 lba"] by (simp add: drv_lba_def and_255 drop_bit_eq_div)
  moreover have "ata_found (ata_setup_lba28 lba count d) = ata_found d"
    using d1(3) d2 by (simp add: ata_setup_lba28_def d1(1) Let_def)
  ultimately show ?thesis by (intro exI [of _ ?st]) simp
qed

lemma word_bytes_word: "word_bytes (bytes_word lo hi) = [lo, hi]"
proof -
  have "unat lo < 256" "unat hi < 256" using unsigned_less [of lo] unsigned_less [of hi] by simp_all
  then show ?thesis by (simp add: word_bytes_def bytes_word_def)
qed

lemma insw_rd:
  assumes "on d0 st d" "mode st = Rd lba k pos" "pos + n \<le> 256" "length (sect st lba) = 512" "0 < n"
  shows "\<exists>d'. insw ATA_REG_DATA n d = (take (2 * n) (drop (2 * pos) (sect st lba)), d') \<and> ata_found d' = ata_found d \<and>
    on d0 (st\<lparr>mode := (if pos + n = 256 then drv_next lba k (\<lambda>l k. Rd l k 0) else Rd lba k (pos + n))\<rparr>) d'"
  using assms
proof (induction n arbitrary: d st pos)
  case (Suc n)
  from on_inw [OF Suc.prems(1), of ATA_REG_DATA] obtain d1 where
    d1: "inw ATA_REG_DATA d = (drv_in16 st ATA_REG_DATA, d1)" "on d0 (drv_step (In16 ATA_REG_DATA) st) d1" "ata_found d1 = ata_found d" by blast
  let ?b = "sect st lba"
  have w: "word_bytes (drv_in16 st ATA_REG_DATA) = [?b ! (2 * pos), ?b ! (2 * pos + 1)]"
    using Suc.prems(2) by (simp add: drv_in16_def sector_word_def word_bytes_word)
  have dr: "drop (2 * pos) ?b = ?b ! (2 * pos) # ?b ! (2 * pos + 1) # drop (2 * (pos + 1)) ?b"
    using Suc.prems(3,4) by (simp add: Cons_nth_drop_Suc)
  show ?case
  proof (cases n)
    case 0
    then have "pos = 255 \<longleftrightarrow> pos + Suc n = 256" by simp
    then show ?thesis using d1 w dr Suc.prems(2) 0 by (auto simp: drv_take_def split: if_splits)
  next
    case (Suc m)
    then have p: "pos \<noteq> 255" using Suc.prems(3) by simp
    let ?st = "st\<lparr>mode := Rd lba k (pos + 1)\<rparr>"
    have "on d0 ?st d1" using d1(2) Suc.prems(2) p by (simp add: drv_take_def)
    then obtain d2 where "insw ATA_REG_DATA n d1 = (take (2 * n) (drop (2 * (pos + 1)) ?b), d2)" "ata_found d2 = ata_found d1"
      "on d0 (?st\<lparr>mode := (if pos + 1 + n = 256 then drv_next lba k (\<lambda>l k. Rd l k 0) else Rd lba k (pos + 1 + n))\<rparr>) d2"
      using Suc.IH [of ?st d1 "pos + 1"] Suc.prems(3,4) Suc by auto
    then show ?thesis using d1 w dr by (auto split: if_splits)
  qed
qed simp

lemma outsw_wr:
  assumes "on d0 st d" "mode st = Wr lba k ws" "length ws + n = 256" "length src \<ge> 2 * n" "0 < n"
  shows "on d0 (st\<lparr>sect := (sect st)(lba := concat (map word_bytes ws) @ take (2 * n) src), mode := drv_next lba k (\<lambda>l k. Wr l k [])\<rparr>)
      (outsw ATA_REG_DATA src n d) \<and> ata_found (outsw ATA_REG_DATA src n d) = ata_found d"
  using assms
proof (induction n arbitrary: d st ws src)
  case (Suc n)
  then obtain lo hi src' where src: "src = lo # hi # src'" by (cases src; cases "tl src") auto
  let ?w = "bytes_word lo hi"
  note d1 = on_outw [OF Suc.prems(1), of ATA_REG_DATA ?w]
  show ?case
  proof (cases n)
    case 0
    then have "length ws = 255" using Suc.prems(3) by simp
    then show ?thesis using d1 Suc.prems(2) 0 src by (simp add: drv_give_def word_bytes_word numeral_2_eq_2 fun_upd_def)
  next
    case (Suc m)
    then have p: "length ws \<noteq> 255" using Suc.prems(3) by simp
    have "on d0 (st\<lparr>mode := Wr lba k (ws @ [?w])\<rparr>) (outw ATA_REG_DATA ?w d)" using d1 Suc.prems(2) p by (simp add: drv_give_def)
    from Suc.IH [OF this, of "ws @ [?w]" src'] Suc.prems(3,4) Suc src
    show ?thesis by (simp add: word_bytes_word)
  qed
qed simp

section \<open>Sectors\<close>

text \<open>A disk between two commands, holding the sectors \<open>S\<close>, \<open>n\<close> of them.\<close>

definition ready :: "drive \<Rightarrow> (nat \<Rightarrow> bytes) \<Rightarrow> nat \<Rightarrow> disk \<Rightarrow> bool" where
  "ready d0 S n d \<longleftrightarrow> ata_found d \<and> n \<le> 2 ^ 28 \<and> (\<forall>i. length (S i) = 512) \<and>
     (\<exists>st. on d0 st d \<and> sect st = S \<and> nsect st = n)"

definition sectors :: "(nat \<Rightarrow> bytes) \<Rightarrow> nat \<Rightarrow> nat \<Rightarrow> bytes" where
  "sectors S lba c = concat (map S [lba..<lba + c])"

definition put_sectors :: "nat \<Rightarrow> nat \<Rightarrow> bytes \<Rightarrow> (nat \<Rightarrow> bytes) \<Rightarrow> nat \<Rightarrow> bytes" where
  "put_sectors lba c src S = (\<lambda>i. if lba \<le> i \<and> i < lba + c then take 512 (drop (512 * (i - lba)) src) else S i)"

lemma read_loop_on:
  assumes "on d0 st d" "mode st = Rd lba (Suc k) 0" "\<And>i. length (sect st i) = 512"
  shows "\<exists>d' st'. read_loop (Suc k) d = (0, sectors (sect st) lba (Suc k), d') \<and> on d0 st' d' \<and> sect st' = sect st \<and>
    nsect st' = nsect st \<and> ata_found d' = ata_found d"
  using assms
proof (induction k arbitrary: d st lba)
  case (0 d st lba)
  from wait_drq_on [OF 0(1), of "''read''"] obtain d1 where
    d1: "ata_wait_drq ''read'' d = (0, d1)" "on d0 st d1" "ata_found d1 = ata_found d" using 0(2) by (auto simp: drq_def)
  from insw_rd [OF d1(2) 0(2), of 256] 0(3) [of lba] obtain d2 where
    "insw ATA_REG_DATA 256 d1 = (sect st lba, d2)" "ata_found d2 = ata_found d1" "on d0 (st\<lparr>mode := drv_next lba 1 (\<lambda>l k. Rd l k 0)\<rparr>) d2" by auto
  then show ?case using d1 by (auto simp: sectors_def intro!: exI [of _ "st\<lparr>mode := drv_next lba 1 (\<lambda>l k. Rd l k 0)\<rparr>"])
next
  case (Suc k d st lba)
  from wait_drq_on [OF Suc.prems(1), of "''read''"] obtain d1 where
    d1: "ata_wait_drq ''read'' d = (0, d1)" "on d0 st d1" "ata_found d1 = ata_found d" using Suc.prems(2) by (auto simp: drq_def)
  let ?st = "st\<lparr>mode := Rd (lba + 1) (Suc k) 0\<rparr>"
  from insw_rd [OF d1(2) Suc.prems(2), of 256] Suc.prems(3) [of lba] obtain d2 where
    d2: "insw ATA_REG_DATA 256 d1 = (sect st lba, d2)" "ata_found d2 = ata_found d1" "on d0 ?st d2" by (auto simp: drv_next_def)
  from Suc.IH [OF d2(3), of "lba + 1"] Suc.prems(3) obtain d' st' where
    "read_loop (Suc k) d2 = (0, sectors (sect st) (lba + 1) (Suc k), d')" "on d0 st' d'" "sect st' = sect st"
    "nsect st' = nsect st" "ata_found d' = ata_found d2" by auto
  moreover have "sectors (sect st) lba (Suc (Suc k)) = sect st lba @ sectors (sect st) (lba + 1) (Suc k)"
  proof -
    have "[lba..<lba + Suc (Suc k)] = lba # [lba + 1..<lba + 1 + Suc k]" by (subst upt_conv_Cons) simp_all
    then show ?thesis unfolding sectors_def by (simp only: list.map concat.simps)
  qed
  ultimately show ?case using d1 d2 by (auto simp del: read_loop.simps simp: read_loop.simps(2) [of "Suc k"])
qed

lemma put_loop_on:
  assumes "on d0 st d" "mode st = Wr lba (Suc k) []" "length src = 512 * Suc k"
  shows "\<exists>d' st'. put_loop (Suc k) src d = (0, d') \<and> on d0 st' d' \<and> sect st' = put_sectors lba (Suc k) src (sect st) \<and>
    nsect st' = nsect st \<and> ata_found d' = ata_found d"
  using assms
proof (induction k arbitrary: d st lba src)
  case (0 d st lba src)
  from wait_drq_on [OF 0(1), of "''write''"] obtain d1 where
    d1: "ata_wait_drq ''write'' d = (0, d1)" "on d0 st d1" "ata_found d1 = ata_found d" using 0(2) by (auto simp: drq_def)
  from outsw_wr [OF d1(2) 0(2), of 256 src] 0(3)
  have "on d0 (st\<lparr>sect := (sect st)(lba := src), mode := drv_next lba 1 (\<lambda>l k. Wr l k [])\<rparr>) (outsw ATA_REG_DATA src 256 d1)"
    "ata_found (outsw ATA_REG_DATA src 256 d1) = ata_found d1" by simp_all
  moreover have "put_sectors lba 1 src S = S(lba := src)" for S using 0(3) by (auto simp: put_sectors_def fun_eq_iff)
  ultimately show ?case using d1 by (auto intro!: exI [of _ "st\<lparr>sect := (sect st)(lba := src), mode := drv_next lba 1 (\<lambda>l k. Wr l k [])\<rparr>"])
next
  case (Suc k d st lba src)
  from wait_drq_on [OF Suc.prems(1), of "''write''"] obtain d1 where
    d1: "ata_wait_drq ''write'' d = (0, d1)" "on d0 st d1" "ata_found d1 = ata_found d" using Suc.prems(2) by (auto simp: drq_def)
  let ?st = "st\<lparr>sect := (sect st)(lba := take 512 src), mode := Wr (lba + 1) (Suc k) []\<rparr>" and ?d = "outsw ATA_REG_DATA src 256 d1"
  have d2: "on d0 ?st ?d" "ata_found ?d = ata_found d1"
    using outsw_wr [OF d1(2) Suc.prems(2), of 256 src] Suc.prems(3) by (simp_all add: drv_next_def)
  have m: "mode ?st = Wr (lba + 1) (Suc k) []" "length (drop 512 src) = 512 * Suc k" using Suc.prems(3) by simp_all
  from Suc.IH [OF d2(1) m] obtain d' st' where
    r: "put_loop (Suc k) (drop 512 src) ?d = (0, d')" "on d0 st' d'" "nsect st' = nsect ?st" "ata_found d' = ata_found ?d"
    "sect st' = put_sectors (lba + 1) (Suc k) (drop 512 src) (sect ?st)" by blast
  have "put_sectors (lba + 1) (Suc k) (drop 512 src) (S(lba := take 512 src)) = put_sectors lba (Suc (Suc k)) src S" for S
    by (auto simp: put_sectors_def fun_eq_iff algebra_simps)
  then have "sect st' = put_sectors lba (Suc (Suc k)) src (sect st)" using r(5) by simp
  moreover have "put_loop (Suc (Suc k)) src d = (0, d')"
    unfolding put_loop.simps(2) [of "Suc k"] using d1(1) r(1) by (simp del: put_loop.simps)
  ultimately show ?case using d1 d2 r by (auto simp del: put_loop.simps)
qed

lemma ready_len: "ready d0 S n d \<Longrightarrow> length (S i) = 512"
  by (simp add: ready_def)

lemma command_on:
  assumes "ready d0 S n d" "cmd = ATA_CMD_READ_SECTORS \<or> cmd = ATA_CMD_WRITE_SECTORS" "0 < c"
  shows "\<exists>st. on d0 st (outb ATA_REG_COMMAND cmd (ata_setup_lba28 lba c d)) \<and> sect st = S \<and> nsect st = n \<and>
    ata_found (outb ATA_REG_COMMAND cmd (ata_setup_lba28 lba c d)) \<and>
    (lba < 2 ^ 28 \<longrightarrow> mode st = (if lba + c \<le> n then (if cmd = ATA_CMD_READ_SECTORS then Rd lba c 0 else Wr lba c []) else Failed))"
proof -
  from assms(1) obtain st where st: "on d0 st d" "sect st = S" "nsect st = n" "ata_found d" unfolding ready_def by blast
  from setup_on [OF st(1), of lba c] obtain st1 where st1: "on d0 st1 (ata_setup_lba28 lba c d)" "sect st1 = S" "nsect st1 = n"
    "r_cnt st1 = c" "lba < 2 ^ 28 \<longrightarrow> drv_lba st1 = lba" "ata_found (ata_setup_lba28 lba c d)" using st by auto
  show ?thesis
    by (rule exI [of _ "drv_command cmd st1"], insert on_outb [OF st1(1), of ATA_REG_COMMAND cmd] st1 assms(2,3))
      (auto simp: drv_command_def Let_def)
qed

lemma ata_read_ready:
  assumes r: "ready d0 S n d" and c: "0 < c" "lba + c \<le> n"
  shows "\<exists>d'. ata_read_sectors lba c d = (0, sectors S lba c, d') \<and> ready d0 S n d'"
proof -
  obtain k where k: "c = Suc k" using c(1) by (cases c) auto
  have n: "n \<le> 2 ^ 28" "\<And>i. length (S i) = 512" "ata_found d" using r by (simp_all add: ready_def)
  have lba: "lba < 2 ^ 28" using c n(1) by simp
  let ?d = "outb ATA_REG_COMMAND ATA_CMD_READ_SECTORS (ata_setup_lba28 lba c d)"
  from command_on [OF r, of ATA_CMD_READ_SECTORS c lba] c lba obtain st where
    st: "on d0 st ?d" "sect st = S" "nsect st = n" "ata_found ?d" "mode st = Rd lba (Suc k) 0" unfolding k by auto
  from read_loop_on [OF st(1,5)] st n(2) obtain d' st' where
    "read_loop (Suc k) ?d = (0, sectors S lba (Suc k), d')" "on d0 st' d'" "sect st' = S" "nsect st' = n" "ata_found d'" by auto
  then show ?thesis using n c(1) unfolding ata_read_sectors_def k ready_def by (auto simp del: read_loop.simps)
qed

lemma ata_write_ready:
  assumes r: "ready d0 S n d" and c: "0 < c" "lba + c \<le> n" "length src = 512 * c"
  shows "\<exists>d'. ata_write_sectors lba c src d = (0, d') \<and> ready d0 (put_sectors lba c src S) n d'"
proof -
  obtain k where k: "c = Suc k" using c(1) by (cases c) auto
  have n: "n \<le> 2 ^ 28" "\<And>i. length (S i) = 512" "ata_found d" using r by (simp_all add: ready_def)
  have lba: "lba < 2 ^ 28" using c n(1) by simp
  let ?d = "outb ATA_REG_COMMAND ATA_CMD_WRITE_SECTORS (ata_setup_lba28 lba c d)"
  from command_on [OF r, of ATA_CMD_WRITE_SECTORS c lba] c lba obtain st where
    st: "on d0 st ?d" "sect st = S" "nsect st = n" "ata_found ?d" "mode st = Wr lba (Suc k) []" unfolding k by auto
  from put_loop_on [OF st(1,5) c(3) [unfolded k]] obtain d1 st1 where
    "put_loop c src ?d = (0, d1)" "on d0 st1 d1" "sect st1 = put_sectors lba c src (sect st)" "nsect st1 = nsect st"
    "ata_found d1 = ata_found ?d" unfolding k by blast
  then have p: "put_loop c src ?d = (0, d1)" "on d0 st1 d1" "sect st1 = put_sectors lba c src S" "nsect st1 = n" "ata_found d1"
    using st(2-4) by simp_all
  from wait_not_busy_on [OF p(2), of "''write (pre-flush)''"] obtain d2 where
    d2: "ata_wait_not_busy ''write (pre-flush)'' d1 = (0, d2)" "on d0 st1 d2" "ata_found d2" using p(5) by auto
  from wait_not_busy_on [OF on_outb [OF d2(2), of ATA_REG_COMMAND ATA_CMD_CACHE_FLUSH], of "''write (post-flush)''"] obtain d3 where
    d3: "ata_wait_not_busy ''write (post-flush)'' (outb ATA_REG_COMMAND ATA_CMD_CACHE_FLUSH d2) = (0, d3)"
      "on d0 (st1\<lparr>mode := Idle\<rparr>) d3" "ata_found d3" using d2(3) by (auto simp: drv_command_def)
  have "length (put_sectors lba c src S i) = 512" for i
  proof (cases "lba \<le> i \<and> i < lba + c")
    case True
    then have "512 * (i - lba) + 512 \<le> 512 * c" by auto
    then have "512 \<le> 512 * c - 512 * (i - lba)" by linarith
    then show ?thesis using True c(3) by (simp add: put_sectors_def)
  qed (auto simp: put_sectors_def n(2))
  then have "ready d0 (put_sectors lba c src S) n d3"
    unfolding ready_def using d3(2,3) n(1) p(3,4) by (auto intro!: exI [of _ "st1\<lparr>mode := Idle\<rparr>"])
  moreover have "ata_write_sectors lba c src d = (0, d3)"
    using n(3) c(1) p(1) d2(1) d3(1) unfolding ata_write_sectors_def by (simp del: put_loop.simps)
  ultimately show ?thesis by blast
qed

lemma ata_out_of_range:
  assumes r: "ready d0 S n d" and c: "0 < c" "\<not> lba + c \<le> n" "lba < 2 ^ 28"
  shows "\<exists>bs d'. ata_read_sectors lba c d = (- 1, bs, d') \<and> ready d0 S n d'"
    "\<exists>d'. ata_write_sectors lba c src d = (- 1, d') \<and> ready d0 S n d'"
proof -
  obtain k where k: "c = Suc k" using c(1) by (cases c) auto
  have n: "n \<le> 2 ^ 28" "\<And>i. length (S i) = 512" "ata_found d" using r by (simp_all add: ready_def)
  have *: "\<exists>d'. ata_wait_drq ctx (outb ATA_REG_COMMAND cmd (ata_setup_lba28 lba c d)) = (- 1, d') \<and> ready d0 S n d'"
    if "cmd = ATA_CMD_READ_SECTORS \<or> cmd = ATA_CMD_WRITE_SECTORS" for cmd ctx
  proof -
    from command_on [OF r that c(1), of lba] c obtain st where st: "on d0 st (outb ATA_REG_COMMAND cmd (ata_setup_lba28 lba c d))"
      "sect st = S" "nsect st = n" "ata_found (outb ATA_REG_COMMAND cmd (ata_setup_lba28 lba c d))" "mode st = Failed" by auto
    from wait_drq_failed [OF st(1,5), of ctx] st n(1,2) show ?thesis unfolding ready_def by auto
  qed
  show "\<exists>bs d'. ata_read_sectors lba c d = (- 1, bs, d') \<and> ready d0 S n d'"
    using * [of ATA_CMD_READ_SECTORS "''read''"] n(3) c(1) by (auto simp: ata_read_sectors_def k)
  show "\<exists>d'. ata_write_sectors lba c src d = (- 1, d') \<and> ready d0 S n d'"
    using * [of ATA_CMD_WRITE_SECTORS "''write''"] n(3) c(1) by (auto simp: ata_write_sectors_def k)
qed

section \<open>The block interface\<close>

text \<open>What a file system relies on: one sector at a time, a request either does what it says or,
  beyond the end of the disk, fails and changes nothing.\<close>

locale block_device =
  fixes holds :: "(nat \<Rightarrow> bytes) \<Rightarrow> nat \<Rightarrow> 's \<Rightarrow> bool"
    and rd :: "nat \<Rightarrow> 's \<Rightarrow> int \<times> bytes \<times> 's"
    and wr :: "nat \<Rightarrow> bytes \<Rightarrow> 's \<Rightarrow> int \<times> 's"
  assumes holds_len: "holds S n d \<Longrightarrow> length (S i) = 512"
    and rd_ok: "holds S n d \<Longrightarrow> lba < n \<Longrightarrow> \<exists>d'. rd lba d = (0, S lba, d') \<and> holds S n d'"
    and rd_end: "holds S n d \<Longrightarrow> \<not> lba < n \<Longrightarrow> lba < 2 ^ 28 \<Longrightarrow> \<exists>bs d'. rd lba d = (- 1, bs, d') \<and> holds S n d'"
    and wr_ok: "holds S n d \<Longrightarrow> lba < n \<Longrightarrow> length bs = 512 \<Longrightarrow> \<exists>d'. wr lba bs d = (0, d') \<and> holds (S(lba := bs)) n d'"
    and wr_end: "holds S n d \<Longrightarrow> \<not> lba < n \<Longrightarrow> lba < 2 ^ 28 \<Longrightarrow> \<exists>d'. wr lba bs d = (- 1, d') \<and> holds S n d'"
begin

lemma wr_rd:
  assumes "holds S n d" "lba < n" "i < n" "length bs = 512" "wr lba bs d = (0, d')"
  shows "\<exists>d''. rd i d' = (0, if i = lba then bs else S i, d'')"
  using wr_ok [OF assms(1,2,4)] assms(5) rd_ok [of "S(lba := bs)" n d' i] assms(3) by auto

text \<open>Read, change, write back.\<close>

lemma rmw:
  assumes "holds S n d" "lba < n" "length (f (S lba)) = 512"
  shows "\<exists>d1 d2. rd lba d = (0, S lba, d1) \<and> wr lba (f (S lba)) d1 = (0, d2) \<and> holds (S(lba := f (S lba))) n d2"
  using rd_ok [OF assms(1,2)] wr_ok [of S n _ lba "f (S lba)"] assms(2,3) by metis

end

interpretation ata: block_device "ready d0" "\<lambda>lba. ata_read_sectors lba 1" "\<lambda>lba. ata_write_sectors lba 1"
proof (unfold_locales, goal_cases)
  case (1 S n d i)
  then show ?case by (rule ready_len)
next
  case (2 S n d lba)
  then show ?case using ata_read_ready [of d0 S n d 1 lba] by (simp add: sectors_def)
next
  case (3 S n d lba)
  then show ?case using ata_out_of_range(1) [of d0 S n d 1 lba] by simp
next
  case (4 S n d lba bs)
  then have "put_sectors lba 1 bs S = S(lba := bs)" by (auto simp: put_sectors_def fun_eq_iff)
  then show ?case using ata_write_ready [of d0 S n d 1 lba bs] 4 by simp
next
  case (5 S n d lba bs)
  then show ?case using ata_out_of_range(2) [of d0 S n d 1 lba bs] by simp
qed

section \<open>Properties\<close>

definition demo_drive :: drive where
  "demo_drive = \<lparr>sect = \<lambda>_. replicate 512 0, nsect = 8, r_cnt = 0, r_low = 0, r_mid = 0, r_high = 0, r_drv = 0, mode = Idle\<rparr>"

definition demo_disk :: disk where
  "demo_disk = \<lparr>hist = [], dev8 = \<lambda>h. drv_in8 (drv_run demo_drive h), dev16 = \<lambda>h. drv_in16 (drv_run demo_drive h),
     klog = [], ata_found = True, ata_total_sectors = 8\<rparr>"

lemma demo_ready: "ready demo_drive (\<lambda>_. replicate 512 0) 8 demo_disk"
  by (simp add: ready_def demo_disk_def demo_drive_def on_def drv_run_def)



end
