(* ===== verification/Vnode.thy ===== *)
theory Vnode
  imports Prelude
begin

text \<open>
  The data of the virtual file system interface, \<^verbatim>\<open>kernel/vfs.h\<close>: vnodes, the operation
  tables by name, permission bits. A vnode pointer says which object embeds the vnode: a
  tmpfs node, a FAT node, one of the three devices, or an end of a pipe. An operation table
  is named; which of its entries are null is read from the tables of the file systems.
\<close>

definition VFS_MAX_NAME :: nat where "VFS_MAX_NAME = 64"
definition VFS_MAX_PATH :: nat where "VFS_MAX_PATH = 128"

datatype vnode_type = VNODE_FILE | VNODE_DIR

datatype vptr = VTmp nat | VFat nat | VConsole | VNull | VZero | VPipeR nat | VPipeW nat

datatype vnode_ops = Tmpfs_file_ops | Tmpfs_dir_ops | Console_ops | Null_ops | Zero_ops | Devfs_dir_ops
  | Pipe_read_ops | Pipe_write_ops | Fat_file_ops | Fat_dir_ops

record vnode =
  v_type :: vnode_type
  v_name :: string
  v_ops :: "vnode_ops option"
  v_parent :: "vptr option"
  v_uid :: nat
  v_gid :: nat
  v_mode :: nat

definition VFS_PERM_READ :: nat where [simp]: "VFS_PERM_READ = 4"
definition VFS_PERM_WRITE :: nat where [simp]: "VFS_PERM_WRITE = 2"
definition VFS_PERM_EXEC :: nat where [simp]: "VFS_PERM_EXEC = 1"

text \<open>The octal constants 0644 and 0755.\<close>

definition VFS_DEFAULT_FILE_MODE :: nat where "VFS_DEFAULT_FILE_MODE = 420"
definition VFS_DEFAULT_DIR_MODE :: nat where "VFS_DEFAULT_DIR_MODE = 493"
definition VFS_DEFAULT_EXEC_MODE :: nat where "VFS_DEFAULT_EXEC_MODE = 493"

text \<open>A zeroed vnode.\<close>

definition vnode_zero :: vnode where
  "vnode_zero = \<lparr>v_type = VNODE_FILE, v_name = [], v_ops = None, v_parent = None, v_uid = 0, v_gid = 0, v_mode = 0\<rparr>"

text \<open>The copy loop \<^verbatim>\<open>for (; name[i] && i < size - 1; i++) out[i] = name[i]; out[i] = 0\<close>, which
  several file systems use for names: the string cut to \<open>size - 1\<close> characters. For size 0
  the bound \<^verbatim>\<open>size - 1\<close> wraps to the largest 64-bit value and cuts nothing.\<close>

definition name_copy :: "string \<Rightarrow> nat \<Rightarrow> string" where
  "name_copy name sz = (if sz = 0 then take (2 ^ 64 - 1) name else take (sz - 1) name)"

end
