(* ===== verification/Fat.thy ===== *)
theory Fat
  imports Ata Vnode "HOL-Library.Monad_Syntax"
begin

text \<open>
  The FAT16 file system, \<^verbatim>\<open>kernel/fat.c\<close>, on the disk driver. The volume geometry and the pool
  of nodes are the record \<open>fat\<close>; a node is reached by its vnode pointer, the mount point (a
  tmpfs directory) by \<open>root_meta\<close>. Unsigned 32-bit sums wrap (\<open>wrap32\<close>).

  Walks along cluster chains follow what is on the disk, which may contain a cycle, so they are
  \<open>partial_function\<close>s: the value \<open>None\<close> of an operation says that it never returns. A read
  returns the bytes it stores in the caller's buffer.
\<close>

section \<open>State\<close>

definition wrap32 :: "nat \<Rightarrow> nat" where
  "wrap32 n = n mod 2 ^ 32"

definition FAT_ATTR_VOLUME_ID :: nat where [simp]: "FAT_ATTR_VOLUME_ID = 0x08"
definition FAT_ATTR_DIRECTORY :: nat where [simp]: "FAT_ATTR_DIRECTORY = 0x10"
definition FAT_ATTR_ARCHIVE :: nat where [simp]: "FAT_ATTR_ARCHIVE = 0x20"
definition FAT_ATTR_LFN :: nat where [simp]: "FAT_ATTR_LFN = 0x0F"
definition FAT16_EOC_MIN :: nat where [simp]: "FAT16_EOC_MIN = 0xFFF8"
definition FAT_MAX_NODES :: nat where [simp]: "FAT_MAX_NODES = 128"
definition SPACE :: u8 where [simp]: "SPACE = 0x20"

record fat_meta =
  first_cluster :: nat
  file_size :: nat
  dirent_lba :: nat
  dirent_offset :: nat

record fat =
  fat_mounted :: bool
  bytes_per_sector :: nat
  sectors_per_cluster :: nat
  root_entry_count :: nat
  num_fats :: nat
  fat_size_16 :: nat
  first_fat_sector :: nat
  first_root_dir_sector :: nat
  root_dir_sectors :: nat
  first_data_sector :: nat
  fnode_pool :: "nat \<Rightarrow> vnode"
  meta_pool :: "nat \<Rightarrow> fat_meta"
  fnode_count :: nat
  root_meta :: fat_meta

definition meta_zero :: fat_meta where
  "meta_zero = \<lparr>first_cluster = 0, file_size = 0, dirent_lba = 0, dirent_offset = 0\<rparr>"

text \<open>\<^verbatim>\<open>(fat_meta_t *)node->priv\<close>.\<close>

definition meta_of :: "vptr \<Rightarrow> fat \<Rightarrow> fat_meta" where
  "meta_of p f = (case p of VFat i \<Rightarrow> meta_pool f i | _ \<Rightarrow> root_meta f)"

definition set_meta :: "vptr \<Rightarrow> fat_meta \<Rightarrow> fat \<Rightarrow> fat" where
  "set_meta p m f = (case p of VFat i \<Rightarrow> f\<lparr>meta_pool := (meta_pool f)(i := m)\<rparr> | _ \<Rightarrow> f\<lparr>root_meta := m\<rparr>)"

definition fat_alloc_node :: "fat \<Rightarrow> (nat \<times> fat) option" where
  "fat_alloc_node f =
     (if fnode_count f \<ge> FAT_MAX_NODES then None
      else let i = fnode_count f in
        Some (i, f\<lparr>fnode_count := i + 1, fnode_pool := (fnode_pool f)(i := vnode_zero), meta_pool := (meta_pool f)(i := meta_zero)\<rparr>))"

section \<open>Clusters\<close>

definition cluster_to_lba :: "fat \<Rightarrow> nat \<Rightarrow> nat" where
  "cluster_to_lba f cluster = wrap32 (first_data_sector f + wrap32 (cluster + (2 ^ 32 - 2)) * sectors_per_cluster f)"

definition le16 :: "bytes \<Rightarrow> nat \<Rightarrow> nat" where
  "le16 s i = unat (s ! i) + 256 * unat (s ! (i + 1))"

definition fat_next_cluster :: "fat \<Rightarrow> nat \<Rightarrow> disk \<Rightarrow> nat \<times> disk" where
  "fat_next_cluster f cluster d =
     (let fat_offset = wrap32 (cluster * 2);
          fat_sector = wrap32 (first_fat_sector f + fat_offset div bytes_per_sector f);
          entry_off = fat_offset mod bytes_per_sector f
      in case ata_read_sectors fat_sector 1 d of (r, sector, d1) \<Rightarrow>
           if r \<noteq> 0 then (0xFFFFFFFF, d1) else (le16 sector entry_off, d1))"

definition in_chain :: "nat \<Rightarrow> bool" where
  "in_chain cluster \<longleftrightarrow> cluster \<ge> 2 \<and> cluster < FAT16_EOC_MIN"

section \<open>Names\<close>

definition lower :: "u8 \<Rightarrow> u8" where
  "lower c = (if 0x41 \<le> c \<and> c \<le> 0x5A then c - 0x41 + 0x61 else c)"

definition upper :: "u8 \<Rightarrow> u8" where
  "upper c = (if 0x61 \<le> c \<and> c \<le> 0x7A then c - 0x61 + 0x41 else c)"

definition to_char :: "u8 \<Rightarrow> char" where "to_char b = char_of (unat b)"
definition of_ch :: "char \<Rightarrow> u8" where "of_ch c = of_nat (of_char c)"

text \<open>A C string ends at its first zero byte.\<close>

definition c_str :: "string \<Rightarrow> string" where
  "c_str s = takeWhile (\<lambda>c. c \<noteq> CHR 0x00) s"

definition fat_decode_83_name :: "bytes \<Rightarrow> string" where
  "fat_decode_83_name entry =
     c_str (map to_char (map lower (takeWhile (\<lambda>b. b \<noteq> SPACE) (take 8 entry)) @
       (if entry ! 8 \<noteq> SPACE then 0x2E # map lower (takeWhile (\<lambda>b. b \<noteq> SPACE) (take 3 (drop 8 entry))) else [])))"

definition pad :: "nat \<Rightarrow> bytes \<Rightarrow> bytes" where
  "pad n bs = bs @ replicate (n - length bs) SPACE"

definition fat_encode_83_name :: "string \<Rightarrow> bytes" where
  "fat_encode_83_name name =
     (let base = takeWhile (\<lambda>c. c \<noteq> CHR ''.'') name; rest = dropWhile (\<lambda>c. c \<noteq> CHR ''.'') name in
      pad 8 (map upper (take 8 (map of_ch base))) @
      pad 3 (case rest of [] \<Rightarrow> [] | _ # ext \<Rightarrow> map upper (take 3 (map of_ch ext))))"

section \<open>Directories\<close>

text \<open>A visitor gets the displayed name, the 32 bytes of the entry, its index and its place; it
  returns whether to stop, and its context.\<close>

type_synonym 'c visitor = "string \<Rightarrow> bytes \<Rightarrow> nat \<Rightarrow> nat \<Rightarrow> nat \<Rightarrow> 'c \<Rightarrow> bool \<times> 'c"

fun scan_slots :: "'c visitor \<Rightarrow> bytes \<Rightarrow> nat \<Rightarrow> nat list \<Rightarrow> nat \<Rightarrow> 'c \<Rightarrow> bool \<times> nat \<times> 'c" where
  "scan_slots v sector lba [] idx c = (False, idx, c)"
| "scan_slots v sector lba (off # offs) idx c =
     (let entry = take 32 (drop off sector); attr = unat (entry ! 11) in
      if entry ! 0 = 0x00 then (True, idx, c)
      else if entry ! 0 = 0xE5 then scan_slots v sector lba offs idx c
      else if attr = FAT_ATTR_LFN then scan_slots v sector lba offs idx c
      else if has attr FAT_ATTR_VOLUME_ID then scan_slots v sector lba offs idx c
      else case v (fat_decode_83_name entry) entry idx lba off c of
             (True, c1) \<Rightarrow> (True, idx, c1)
           | (False, c1) \<Rightarrow> scan_slots v sector lba offs (idx + 1) c1)"

definition slot_offsets :: "nat list" where
  "slot_offsets = map (\<lambda>k. 32 * k) [0..<16]"

definition fat_scan_sector_dirents :: "'c visitor \<Rightarrow> bytes \<Rightarrow> nat \<Rightarrow> nat \<Rightarrow> 'c \<Rightarrow> bool \<times> nat \<times> 'c" where
  "fat_scan_sector_dirents v sector lba idx c = scan_slots v sector lba slot_offsets idx c"

datatype scan = ScanStop | ScanOn | ScanErr

text \<open>The loop over the sectors of the root region, or of one cluster.\<close>

fun iter_sectors :: "'c visitor \<Rightarrow> nat list \<Rightarrow> nat \<Rightarrow> 'c \<Rightarrow> disk \<Rightarrow> scan \<times> nat \<times> 'c \<times> disk" where
  "iter_sectors v [] idx c d = (ScanOn, idx, c, d)"
| "iter_sectors v (lba # lbas) idx c d =
     (case ata_read_sectors lba 1 d of (r, sector, d1) \<Rightarrow>
        if r \<noteq> 0 then (ScanErr, idx, c, d1)
        else case fat_scan_sector_dirents v sector lba idx c of
               (True, idx1, c1) \<Rightarrow> (ScanStop, idx1, c1, d1)
             | (False, idx1, c1) \<Rightarrow> iter_sectors v lbas idx1 c1 d1)"

definition root_lbas :: "fat \<Rightarrow> nat list" where
  "root_lbas f = map (\<lambda>s. wrap32 (first_root_dir_sector f + s)) [0..<root_dir_sectors f]"

definition cluster_lbas :: "fat \<Rightarrow> nat \<Rightarrow> nat list" where
  "cluster_lbas f cluster = map (\<lambda>s. wrap32 (cluster_to_lba f cluster + s)) [0..<sectors_per_cluster f]"

partial_function (option) iter_chain :: "'c visitor \<Rightarrow> fat \<Rightarrow> nat \<Rightarrow> nat \<Rightarrow> 'c \<Rightarrow> disk \<Rightarrow> ('c \<times> disk) option" where
  "iter_chain v f cluster idx c d =
     (if in_chain cluster
      then case iter_sectors v (cluster_lbas f cluster) idx c d of (s, idx1, c1, d1) \<Rightarrow>
             if s = ScanOn
             then case fat_next_cluster f cluster d1 of (n, d2) \<Rightarrow> iter_chain v f n idx1 c1 d2
             else Some (c1, d1)
      else Some (c, d))"

definition fat_iterate_dir :: "vptr \<Rightarrow> 'c visitor \<Rightarrow> fat \<Rightarrow> 'c \<Rightarrow> disk \<Rightarrow> ('c \<times> disk) option" where
  "fat_iterate_dir dir v f c d =
     (if first_cluster (meta_of dir f) = 0
      then case iter_sectors v (root_lbas f) 0 c d of (_, _, c1, d1) \<Rightarrow> Some (c1, d1)
      else iter_chain v f (first_cluster (meta_of dir f)) 0 c d)"

record fat_lookup_ctx =
  want_name :: string
  found :: "vptr option"
  ctx_parent :: vptr
  ctx_fat :: fat

definition fat_lookup_visitor :: "fat_lookup_ctx visitor" where
  "fat_lookup_visitor display raw idx lba off c =
     (if k_strcmp display (want_name c) \<noteq> 0 then (False, c)
      else case fat_alloc_node (ctx_fat c) of None \<Rightarrow> (True, c)
      | Some (i, f) \<Rightarrow>
          let dir = has (unat (raw ! 11)) FAT_ATTR_DIRECTORY;
              size = le16 raw 28 + 65536 * le16 raw 30;
              meta = \<lparr>first_cluster = le16 raw 26, file_size = (if dir then 0 else size), dirent_lba = lba, dirent_offset = off\<rparr>;
              node = (fnode_pool f i)\<lparr>v_type := (if dir then VNODE_DIR else VNODE_FILE),
                       v_ops := Some (if dir then Fat_dir_ops else Fat_file_ops),
                       v_name := name_copy display VFS_MAX_NAME, v_parent := Some (ctx_parent c),
                       v_mode := (if dir then VFS_DEFAULT_DIR_MODE else VFS_DEFAULT_FILE_MODE)\<rparr>
          in (True, c\<lparr>found := Some (VFat i),
               ctx_fat := f\<lparr>meta_pool := (meta_pool f)(i := meta), fnode_pool := (fnode_pool f)(i := node)\<rparr>\<rparr>))"

definition fat_dir_lookup :: "vptr \<Rightarrow> string \<Rightarrow> disk \<times> fat \<Rightarrow> (vptr option \<times> disk \<times> fat) option" where
  "fat_dir_lookup dir name = (\<lambda>(d, f). do {
     (c, d1) \<leftarrow> fat_iterate_dir dir fat_lookup_visitor f \<lparr>want_name = name, found = None, ctx_parent = dir, ctx_fat = f\<rparr> d;
     Some (found c, d1, ctx_fat c) })"

text \<open>\<^verbatim>\<open>i + 1 < size\<close> as the bound of the copy.\<close>

definition fat_readdir_visitor :: "int \<Rightarrow> nat \<Rightarrow> (string option) visitor" where
  "fat_readdir_visitor want sz display raw idx lba off c =
     (if int idx \<noteq> want then (False, c) else (True, Some (take (sz - 1) display)))"

definition fat_dir_readdir :: "vptr \<Rightarrow> int \<Rightarrow> nat \<Rightarrow> disk \<times> fat \<Rightarrow> (string option \<times> disk \<times> fat) option" where
  "fat_dir_readdir dir index sz = (\<lambda>(d, f). do {
     (c, d1) \<leftarrow> fat_iterate_dir dir (fat_readdir_visitor index sz) f None d;
     Some (c, d1, f) })"

section \<open>Reading files\<close>

fun skip_clusters :: "nat \<Rightarrow> fat \<Rightarrow> nat \<Rightarrow> disk \<Rightarrow> nat option \<times> disk" where
  "skip_clusters 0 f cluster d = (Some cluster, d)"
| "skip_clusters (Suc k) f cluster d =
     (case fat_next_cluster f cluster d of (n, d1) \<Rightarrow>
        if in_chain n then skip_clusters k f n d1 else (None, d1))"

definition cluster_size :: "fat \<Rightarrow> nat" where
  "cluster_size f = wrap32 (sectors_per_cluster f * bytes_per_sector f)"

partial_function (option) read_data :: "fat \<Rightarrow> nat \<Rightarrow> nat \<Rightarrow> nat \<Rightarrow> bytes \<Rightarrow> disk \<Rightarrow> (bytes \<times> disk) option" where
  "read_data f cluster pos n acc d =
     (if length acc < n then
        let lba = wrap32 (cluster_to_lba f cluster + pos div bytes_per_sector f);
            pos_in_sector = pos mod bytes_per_sector f
        in case ata_read_sectors lba 1 d of (r, sector, d1) \<Rightarrow>
             if r \<noteq> 0 then Some (acc, d1)
             else
               let space = bytes_per_sector f - pos_in_sector;
                   chunk = (if n - length acc < space then n - length acc else space);
                   acc1 = acc @ take chunk (drop pos_in_sector sector);
                   pos1 = pos + chunk
               in if pos1 \<ge> cluster_size f
                  then case fat_next_cluster f cluster d1 of (c1, d2) \<Rightarrow>
                         if in_chain c1 then read_data f c1 0 n acc1 d2 else Some (acc1, d2)
                  else read_data f cluster pos1 n acc1 d1
      else Some (acc, d))"

definition fat_file_read :: "vptr \<Rightarrow> nat \<Rightarrow> nat \<Rightarrow> disk \<times> fat \<Rightarrow> (bytes \<times> disk \<times> fat) option" where
  "fat_file_read p count offset = (\<lambda>(d, f).
     let meta = meta_of p f in
     if offset \<ge> file_size meta then Some ([], d, f)
     else
       let avail = file_size meta - offset;
           n = (if count < avail then count else avail)
       in case skip_clusters (offset div cluster_size f) f (first_cluster meta) d of
            (None, d1) \<Rightarrow> Some ([], d1, f)
          | (Some cluster, d1) \<Rightarrow> do {
              (bs, d2) \<leftarrow> read_data f cluster (offset mod cluster_size f) n [] d1;
              Some (bs, d2, f) })"

definition fat_file_stat :: "vptr \<Rightarrow> fat \<Rightarrow> nat" where
  "fat_file_stat p f = file_size (meta_of p f)"

section \<open>Writing files\<close>

text \<open>\<open>u8_of v k\<close> is \<^verbatim>\<open>(uint8_t)((v >> 8 k) & 0xFF)\<close>.\<close>

definition u8_of :: "nat \<Rightarrow> nat \<Rightarrow> u8" where
  "u8_of v k = of_nat (v div 256 ^ k mod 256)"

definition put16 :: "nat \<Rightarrow> nat \<Rightarrow> bytes \<Rightarrow> bytes" where
  "put16 i v s = s[i := u8_of v 0, i + 1 := u8_of v 1]"

definition put32 :: "nat \<Rightarrow> nat \<Rightarrow> bytes \<Rightarrow> bytes" where
  "put32 i v s = s[i := u8_of v 0, i + 1 := u8_of v 1, i + 2 := u8_of v 2, i + 3 := u8_of v 3]"

definition write_copy :: "fat \<Rightarrow> nat \<Rightarrow> nat \<Rightarrow> nat \<Rightarrow> disk \<Rightarrow> disk" where
  "write_copy f cluster value copy d =
     (let fat_offset = wrap32 (cluster * 2);
          lba = wrap32 (first_fat_sector f + copy * fat_size_16 f + fat_offset div bytes_per_sector f)
      in case ata_read_sectors lba 1 d of (r, sector, d1) \<Rightarrow>
           if r \<noteq> 0 then d1
           else snd (ata_write_sectors lba 1 (put16 (fat_offset mod bytes_per_sector f) value sector) d1))"

definition fat_write_fat_entry :: "fat \<Rightarrow> nat \<Rightarrow> nat \<Rightarrow> disk \<Rightarrow> disk" where
  "fat_write_fat_entry f cluster value d = fold (write_copy f cluster value) [0..<num_fats f] d"

text \<open>The scan for a free entry from cluster \<open>idx\<close> on, with the FAT sector it has loaded. The
  result 0 means that there is none, or that a read failed.\<close>

function alloc_scan :: "fat \<Rightarrow> nat \<Rightarrow> nat \<Rightarrow> nat \<Rightarrow> bytes \<Rightarrow> disk \<Rightarrow> nat \<times> disk" where
  "alloc_scan f idx tot loaded sector d =
     (if idx < tot then
        let per = bytes_per_sector f div 2;
            num = idx div per; entry_off = idx mod per * 2;
            (r, sector1, d1) = (if num \<noteq> loaded then ata_read_sectors (wrap32 (first_fat_sector f + num)) 1 d else (0, sector, d))
        in if r \<noteq> 0 then (0, d1)
           else if le16 sector1 entry_off = 0 then (idx, fat_write_fat_entry f idx FAT16_EOC_MIN d1)
           else alloc_scan f (idx + 1) tot num sector1 d1
      else (0, d))"
  by pat_completeness auto
termination by (relation "measure (\<lambda>(f, idx, tot, l, s, d). tot - idx)") auto

declare alloc_scan.simps [simp del]

definition fat_alloc_cluster :: "fat \<Rightarrow> disk \<Rightarrow> nat \<times> disk" where
  "fat_alloc_cluster f d = alloc_scan f 2 (fat_size_16 f * (bytes_per_sector f div 2)) 0xFFFFFFFF [] d"

definition fat_writeback_dirent :: "vptr \<Rightarrow> fat \<Rightarrow> disk \<Rightarrow> disk" where
  "fat_writeback_dirent p f d =
     (let meta = meta_of p f in
      case ata_read_sectors (dirent_lba meta) 1 d of (r, sector, d1) \<Rightarrow>
        if r \<noteq> 0 then d1
        else snd (ata_write_sectors (dirent_lba meta) 1
               (put32 (dirent_offset meta + 28) (file_size meta)
                 (put16 (dirent_offset meta + 26) (first_cluster meta) sector)) d1))"

text \<open>The cluster after \<open>cluster\<close>, a new one linked in when the chain ends; 0 when the disk is full.\<close>

definition next_or_alloc :: "fat \<Rightarrow> nat \<Rightarrow> disk \<Rightarrow> nat \<times> disk" where
  "next_or_alloc f cluster d =
     (case fat_next_cluster f cluster d of (n, d1) \<Rightarrow>
        if in_chain n then (n, d1)
        else case fat_alloc_cluster f d1 of (c, d2) \<Rightarrow>
               if c = 0 then (0, d2) else (c, fat_write_fat_entry f cluster c d2))"

fun walk_extend :: "nat \<Rightarrow> fat \<Rightarrow> nat \<Rightarrow> disk \<Rightarrow> nat \<times> disk" where
  "walk_extend 0 f cluster d = (cluster, d)"
| "walk_extend (Suc k) f cluster d =
     (case next_or_alloc f cluster d of (n, d1) \<Rightarrow> if n = 0 then (0, d1) else walk_extend k f n d1)"

text \<open>The copy loop: the number of bytes written and the disk. \<open>sector\<close> is the local buffer.\<close>

partial_function (option) write_data ::
    "fat \<Rightarrow> nat \<Rightarrow> nat \<Rightarrow> bytes \<Rightarrow> nat \<Rightarrow> bytes \<Rightarrow> disk \<Rightarrow> (nat \<times> disk) option" where
  "write_data f cluster pos src copied sector d =
     (if copied < length src then
        let lba = wrap32 (cluster_to_lba f cluster + pos div bytes_per_sector f);
            pos_in_sector = pos mod bytes_per_sector f;
            space = bytes_per_sector f - pos_in_sector;
            chunk = (if length src - copied < space then length src - copied else space)
        in case (if chunk < bytes_per_sector f then ata_read_sectors lba 1 d else (0, sector, d)) of (r, sector1, d1) \<Rightarrow>
             if r \<noteq> 0 then Some (copied, d1)
             else
               let sector2 = take pos_in_sector sector1 @ take chunk (drop copied src) @ drop (pos_in_sector + chunk) sector1
               in case ata_write_sectors lba 1 sector2 d1 of (w, d2) \<Rightarrow>
                    if w \<noteq> 0 then Some (copied, d2)
                    else
                      let copied1 = copied + chunk; pos1 = pos + chunk in
                      if pos1 \<ge> cluster_size f \<and> copied1 < length src
                      then case next_or_alloc f cluster d2 of (n, d3) \<Rightarrow>
                             if n = 0 then Some (copied1, d3) else write_data f n 0 src copied1 sector2 d3
                      else write_data f cluster pos1 src copied1 sector2 d2
      else Some (copied, d))"

definition fat_file_write :: "vptr \<Rightarrow> bytes \<Rightarrow> nat \<Rightarrow> disk \<times> fat \<Rightarrow> (int \<times> disk \<times> fat) option" where
  "fat_file_write p src offset = (\<lambda>(d, f).
     if length src = 0 then Some (0, d, f)
     else
       let (c, d1) = (if first_cluster (meta_of p f) = 0 then fat_alloc_cluster f d else (first_cluster (meta_of p f), d)) in
       if c = 0 then Some (- ENOSPC, d1, f)
       else
         let f1 = set_meta p ((meta_of p f)\<lparr>first_cluster := c\<rparr>) f in
         case walk_extend (offset div cluster_size f) f1 c d1 of (cluster, d2) \<Rightarrow>
           if cluster = 0 then Some (0, d2, f1)
           else do {
             (copied, d3) \<leftarrow> write_data f1 cluster (offset mod cluster_size f) src 0 (replicate 512 0) d2;
             let f2 = (if offset + copied > file_size (meta_of p f1)
                       then set_meta p ((meta_of p f1)\<lparr>file_size := wrap32 (offset + copied)\<rparr>) f1 else f1);
             Some (int copied, fat_writeback_dirent p f2 d3, f2) })"

section \<open>Making and removing entries\<close>

definition free_slot :: "bytes \<Rightarrow> nat option" where
  "free_slot sector = find (\<lambda>off. sector ! off = 0xE5 \<or> sector ! off = 0x00) slot_offsets"

text \<open>\<open>Inl\<close> an error, \<open>Inr\<close> the place of a free slot, or none in these sectors.\<close>

fun slot_in :: "nat list \<Rightarrow> disk \<Rightarrow> (int + (nat \<times> nat) option) \<times> disk" where
  "slot_in [] d = (Inr None, d)"
| "slot_in (lba # lbas) d =
     (case ata_read_sectors lba 1 d of (r, sector, d1) \<Rightarrow>
        if r \<noteq> 0 then (Inl (- EIO), d1)
        else case free_slot sector of Some off \<Rightarrow> (Inr (Some (lba, off)), d1) | None \<Rightarrow> slot_in lbas d1)"

text \<open>The walk along the chain: a slot, an error, or the last cluster of the chain.\<close>

partial_function (option) slot_chain ::
    "fat \<Rightarrow> nat \<Rightarrow> nat \<Rightarrow> disk \<Rightarrow> ((int + (nat \<times> nat) option) \<times> nat \<times> disk) option" where
  "slot_chain f cluster prev d =
     (if in_chain cluster
      then case slot_in (cluster_lbas f cluster) d of (res, d1) \<Rightarrow>
             if res = Inr None
             then case fat_next_cluster f cluster d1 of (n, d2) \<Rightarrow> slot_chain f n cluster d2
             else Some (res, cluster, d1)
      else Some (Inr None, prev, d))"

fun zero_sectors :: "nat list \<Rightarrow> disk \<Rightarrow> int \<times> disk" where
  "zero_sectors [] d = (0, d)"
| "zero_sectors (lba # lbas) d =
     (case ata_write_sectors lba 1 (replicate 512 0) d of (r, d1) \<Rightarrow>
        if r \<noteq> 0 then (- EIO, d1) else zero_sectors lbas d1)"

definition fat_find_free_dirent_slot :: "vptr \<Rightarrow> fat \<Rightarrow> disk \<Rightarrow> ((int + nat \<times> nat) \<times> disk) option" where
  "fat_find_free_dirent_slot dir f d =
     (let meta = meta_of dir f in
      if first_cluster meta = 0 then
        Some (case slot_in (root_lbas f) d of
                (Inl e, d1) \<Rightarrow> (Inl e, d1) | (Inr None, d1) \<Rightarrow> (Inl (- ENOSPC), d1) | (Inr (Some s), d1) \<Rightarrow> (Inr s, d1))
      else do {
        (res, prev, d1) \<leftarrow> slot_chain f (first_cluster meta) (first_cluster meta) d;
        Some (case res of
            Inl e \<Rightarrow> (Inl e, d1)
          | Inr (Some s) \<Rightarrow> (Inr s, d1)
          | Inr None \<Rightarrow>
              (case fat_alloc_cluster f d1 of (new, d2) \<Rightarrow>
                 if new = 0 then (Inl (- ENOSPC), d2)
                 else case zero_sectors (cluster_lbas f new) (fat_write_fat_entry f prev new d2) of (r, d3) \<Rightarrow>
                        if r \<noteq> 0 then (Inl (- EIO), d3) else (Inr (cluster_to_lba f new, 0), d3))) })"

text \<open>A new entry: 32 zero bytes, the name, the attribute and the first cluster.\<close>

definition new_entry :: "string \<Rightarrow> nat \<Rightarrow> nat \<Rightarrow> bytes" where
  "new_entry name attr cluster = put16 26 cluster ((fat_encode_83_name name @ replicate 21 0)[11 := of_nat attr])"

definition put_entry :: "nat \<Rightarrow> bytes \<Rightarrow> bytes \<Rightarrow> bytes" where
  "put_entry off entry sector = take off sector @ entry @ drop (off + 32) sector"

definition fat_dir_create :: "vptr \<Rightarrow> string \<Rightarrow> disk \<times> fat \<Rightarrow> (int \<times> disk \<times> fat) option" where
  "fat_dir_create dir name = (\<lambda>st. do {
     (hit, d, f) \<leftarrow> fat_dir_lookup dir name st;
     if hit \<noteq> None then Some (- EEXIST, d, f)
     else do {
       (slot, d1) \<leftarrow> fat_find_free_dirent_slot dir f d;
       Some (case slot of Inl e \<Rightarrow> (e, d1, f)
         | Inr (lba, off) \<Rightarrow>
             (case ata_read_sectors lba 1 d1 of (r, sector, d2) \<Rightarrow>
                if r \<noteq> 0 then (- EIO, d2, f)
                else case ata_write_sectors lba 1 (put_entry off (new_entry name FAT_ATTR_ARCHIVE 0) sector) d2 of (w, d3) \<Rightarrow>
                       ((if w = 0 then 0 else - 1), d3, f))) } })"

text \<open>The entries \<^verbatim>\<open>.\<close> and \<^verbatim>\<open>..\<close>: a name of dots, patched into a zeroed sector.\<close>

definition dot_entry :: "nat \<Rightarrow> nat \<Rightarrow> nat \<Rightarrow> bytes \<Rightarrow> bytes" where
  "dot_entry off dots cluster sector =
     put16 (off + 26) cluster
       ((take off sector @ pad 11 (replicate dots 0x2E) @ drop (off + 11) sector)[off + 11 := of_nat FAT_ATTR_DIRECTORY])"

definition fat_dir_mkdir :: "vptr \<Rightarrow> string \<Rightarrow> disk \<times> fat \<Rightarrow> (int \<times> disk \<times> fat) option" where
  "fat_dir_mkdir dir name = (\<lambda>st. do {
     (hit, d, f) \<leftarrow> fat_dir_lookup dir name st;
     if hit \<noteq> None then Some (- EEXIST, d, f)
     else case fat_alloc_cluster f d of (new, d1) \<Rightarrow>
       if new = 0 then Some (- ENOSPC, d1, f)
       else case zero_sectors (cluster_lbas f new) d1 of (z, d2) \<Rightarrow>
         if z \<noteq> 0 then Some (- EIO, d2, f)
         else case ata_read_sectors (cluster_to_lba f new) 1 d2 of (r, sector, d3) \<Rightarrow>
           if r \<noteq> 0 then Some (- EIO, d3, f)
           else case ata_write_sectors (cluster_to_lba f new) 1
                       (dot_entry 32 2 (first_cluster (meta_of dir f)) (dot_entry 0 1 new sector)) d3 of (w, d4) \<Rightarrow>
             if w \<noteq> 0 then Some (- EIO, d4, f)
             else do {
               (slot, d5) \<leftarrow> fat_find_free_dirent_slot dir f d4;
               Some (case slot of Inl e \<Rightarrow> (e, d5, f)
                 | Inr (lba, off) \<Rightarrow>
                     (case ata_read_sectors lba 1 d5 of (r2, psector, d6) \<Rightarrow>
                        if r2 \<noteq> 0 then (- EIO, d6, f)
                        else case ata_write_sectors lba 1 (put_entry off (new_entry name FAT_ATTR_DIRECTORY new) psector) d6 of (w2, d7) \<Rightarrow>
                               ((if w2 = 0 then 0 else - EIO), d7, f))) } })"

definition fat_dot_check_visitor :: "bool visitor" where
  "fat_dot_check_visitor display raw idx lba off only_dots =
     (if k_strcmp display ''.'' \<noteq> 0 \<and> k_strcmp display ''..'' \<noteq> 0 then (True, False) else (False, only_dots))"

partial_function (option) free_chain :: "fat \<Rightarrow> nat \<Rightarrow> disk \<Rightarrow> disk option" where
  "free_chain f cluster d =
     (if in_chain cluster
      then case fat_next_cluster f cluster d of (n, d1) \<Rightarrow> free_chain f n (fat_write_fat_entry f cluster 0 d1)
      else Some d)"

text \<open>The type of a node found by the lookup.\<close>

definition fnode_type :: "vptr \<Rightarrow> fat \<Rightarrow> vnode_type" where
  "fnode_type p f = (case p of VFat i \<Rightarrow> v_type (fnode_pool f i) | _ \<Rightarrow> VNODE_DIR)"

definition fat_dir_unlink :: "vptr \<Rightarrow> string \<Rightarrow> disk \<times> fat \<Rightarrow> (int \<times> disk \<times> fat) option" where
  "fat_dir_unlink dir name = (\<lambda>st. do {
     (hit, d, f) \<leftarrow> fat_dir_lookup dir name st;
     case hit of None \<Rightarrow> Some (- ENOENT, d, f)
     | Some target \<Rightarrow> do {
         (only_dots, d1) \<leftarrow> (if fnode_type target f = VNODE_DIR
                            then fat_iterate_dir target fat_dot_check_visitor f True d else Some (True, d));
         if \<not> only_dots then Some (- ENOTEMPTY, d1, f)
         else do {
           let meta = meta_of target f;
           d2 \<leftarrow> free_chain f (first_cluster meta) d1;
           Some (case ata_read_sectors (dirent_lba meta) 1 d2 of (r, sector, d3) \<Rightarrow>
             if r \<noteq> 0 then (- EIO, d3, f)
             else case ata_write_sectors (dirent_lba meta) 1 (sector[dirent_offset meta := 0xE5]) d3 of (w, d4) \<Rightarrow>
                    ((if w = 0 then 0 else - EIO), d4, f)) } } })"

section \<open>Mounting\<close>

definition fat_mount :: "disk \<times> fat \<Rightarrow> int \<times> disk \<times> fat" where
  "fat_mount = (\<lambda>(d, f0).
     let f = f0\<lparr>fat_mounted := False\<rparr> in
     if \<not> ata_present d then (- 1, serial_print (''[fat] no disk present, skipping FAT mount'' @ nl) d, f)
     else case ata_read_sectors 0 1 d of (r, s, d1) \<Rightarrow>
       if r \<noteq> 0 then (- 1, serial_print (''[fat] failed to read boot sector'' @ nl) d1, f)
       else if le16 s 510 \<noteq> 0xAA55 then
         (- 1, serial_print (''[fat] no valid boot sector signature at LBA 0 (disk not formatted?)'' @ nl) d1, f)
       else if le16 s 11 \<noteq> 512 then
         (- 1, serial_print (''[fat] unsupported sector size (only 512-byte sectors supported)'' @ nl) d1, f)
       else if le16 s 22 = 0 then
         (- 1, serial_print (''[fat] fat_size_16 is 0 -- this looks like FAT32, not FAT16, skipping'' @ nl) d1, f)
       else
         let bps = le16 s 11; root_entries = le16 s 17; fats = unat (s ! 16); fsize = le16 s 22;
             first_fat = le16 s 14;
             rds = (root_entries * 32 + (bps - 1)) div bps;
             first_root = wrap32 (first_fat + fats * fsize);
             first_data = wrap32 (first_root + rds);
             f1 = f\<lparr>bytes_per_sector := bps, sectors_per_cluster := unat (s ! 13), root_entry_count := root_entries,
                    num_fats := fats, fat_size_16 := fsize, first_fat_sector := first_fat, root_dir_sectors := rds,
                    first_root_dir_sector := first_root, first_data_sector := first_data, fnode_count := 0, fat_mounted := True\<rparr>
         in (0, serial_print nl (serial_print_dec first_data (serial_print '' root-dir sectors, data starts at LBA ''
                  (serial_print_dec rds (serial_print ''[fat] FAT16 volume found, '' d1)))), f1))"

text \<open>The mount point keeps its name and parent; its operations become the FAT ones.\<close>

definition fat_install :: "vnode \<Rightarrow> fat \<Rightarrow> vnode \<times> fat" where
  "fat_install mnt f =
     (if \<not> fat_mounted f then (mnt, f)
      else (mnt\<lparr>v_ops := Some Fat_dir_ops\<rparr>, f\<lparr>root_meta := (root_meta f)\<lparr>first_cluster := 0, file_size := 0\<rparr>\<rparr>))"

end
