(* ===== verification/FatNames.thy ===== *)
theory FatNames
  imports Fat
begin

text \<open>
  Short names and directory scans of \<^verbatim>\<open>kernel/fat.c\<close>: encoding a lower-case 8.3 name and
  decoding it again, what a lookup does with the node pool, and the boot sector check.
\<close>

section \<open>Short names\<close>

definition name_char :: "char \<Rightarrow> bool" where
  "name_char c \<longleftrightarrow> c \<noteq> CHR ''.'' \<and> c \<noteq> CHR '' '' \<and> c \<noteq> CHR 0x00 \<and> \<not> (65 \<le> (of_char c :: nat) \<and> (of_char c :: nat) \<le> 90)"

definition short_name :: "string \<Rightarrow> bool" where
  "short_name s \<longleftrightarrow>
     (let b = takeWhile (\<lambda>c. c \<noteq> CHR ''.'') s; r = dropWhile (\<lambda>c. c \<noteq> CHR ''.'') s in
      1 \<le> length b \<and> length b \<le> 8 \<and> list_all name_char b \<and>
      (r = [] \<or> 2 \<le> length r \<and> length r \<le> 4 \<and> list_all name_char (tl r)))"

lemma to_of_char [simp]: "to_char (of_ch c) = c"
proof -
  have "(of_char c :: nat) < 256" by simp
  then have "unat (of_nat (of_char c) :: u8) = of_char c" by (simp add: unat_of_nat)
  then show ?thesis by (simp add: to_char_def of_ch_def)
qed

lemma of_to_char [simp]: "of_ch (to_char b) = b"
proof -
  have "unat b < 256" using unsigned_less [of b] by simp
  then show ?thesis by (simp add: to_char_def of_ch_def)
qed

lemma char_of_nums: "char_of (46 :: nat) = CHR ''.''" "char_of (32 :: nat) = CHR '' ''" "char_of (0 :: nat) = CHR 0x00"
  by (rule trans [OF _ char_of_char]; simp)+

lemma of_ch_le: "of_ch c \<le> w \<longleftrightarrow> (of_char c :: nat) \<le> unat w" "w \<le> of_ch c \<longleftrightarrow> unat w \<le> (of_char c :: nat)" for w :: u8
proof -
  have "unat (of_ch c) = of_char c" using to_of_char [of c] unfolding of_ch_def by (simp add: unat_of_nat)
  then show "of_ch c \<le> w \<longleftrightarrow> (of_char c :: nat) \<le> unat w" "w \<le> of_ch c \<longleftrightarrow> unat w \<le> (of_char c :: nat)"
    by (simp_all add: word_le_nat_alt)
qed

lemma lower_upper:
  assumes "\<not> (0x41 \<le> b \<and> b \<le> 0x5A)" shows "lower (upper b) = b"
proof (cases "0x61 \<le> b \<and> b \<le> 0x7A")
  case True
  have "0x41 \<le> b - 0x61 + 0x41" "b - 0x61 + 0x41 \<le> 0x5A" using True by uint_arith+
  then show ?thesis using True by (simp add: lower_def upper_def)
next
  case False
  then show ?thesis using assms by (auto simp: lower_def upper_def)
qed

lemma upper_space: "b \<noteq> SPACE \<Longrightarrow> upper b \<noteq> SPACE"
proof -
  assume "b \<noteq> SPACE"
  moreover have "b - 0x61 + 0x41 \<noteq> SPACE" if "0x61 \<le> b" "b \<le> 0x7A" using that unfolding SPACE_def by uint_arith
  ultimately show ?thesis by (simp add: upper_def del: SPACE_def)
qed

lemma name_char_byte:
  assumes "name_char c" shows "lower (upper (of_ch c)) = of_ch c" "upper (of_ch c) \<noteq> SPACE"
proof -
  show "lower (upper (of_ch c)) = of_ch c"
    by (rule lower_upper) (use assms in \<open>auto simp: of_ch_le name_char_def\<close>)
  have "of_ch c \<noteq> SPACE" using assms to_of_char [of c] by (auto simp: name_char_def to_char_def char_of_nums)
  then show "upper (of_ch c) \<noteq> SPACE" by (rule upper_space)
qed

lemma takeWhile_pad:
  assumes "list_all name_char s" "length s \<le> n"
  shows "map lower (takeWhile (\<lambda>b. b \<noteq> SPACE) (take n (pad n (map upper (map of_ch s)) @ rest))) = map of_ch s"
proof -
  let ?u = "map upper (map of_ch s)"
  have l: "length (pad n ?u) = n" using assms(2) by (simp add: pad_def)
  have "takeWhile (\<lambda>b. b \<noteq> SPACE) (pad n ?u) = ?u"
    unfolding pad_def using assms(1) name_char_byte(2)
    by (subst takeWhile_append2) (auto simp: list_all_iff simp del: SPACE_def)
  moreover have "map lower ?u = map of_ch s" using assms(1) name_char_byte(1) by (auto simp: list_all_iff)
  ultimately show ?thesis using l by simp
qed

lemma encode_length: "length (fat_encode_83_name name) = 11"
  by (auto simp: fat_encode_83_name_def Let_def pad_def split: list.split)

text \<open>The name that a directory scan displays for a freshly written entry.\<close>

lemma decode_encode:
  assumes "short_name s"
  shows "fat_decode_83_name (fat_encode_83_name s @ rest) = s"
proof -
  let ?P = "\<lambda>c. c \<noteq> CHR ''.''"
  define b r where "b = takeWhile ?P s" and "r = dropWhile ?P s"
  have s: "s = b @ r" by (simp add: b_def r_def)
  have b: "length b \<le> 8" "list_all name_char b" and r: "r = [] \<or> 2 \<le> length r \<and> length r \<le> 4 \<and> list_all name_char (tl r)"
    using assms unfolding short_name_def b_def r_def Let_def by blast+
  define e where "e = (case r of [] \<Rightarrow> [] | _ # ext \<Rightarrow> take 3 ext)"
  have le: "length e \<le> 3" by (simp add: e_def split: list.split)
  have e: "list_all name_char e" using r by (auto simp: e_def list_all_iff dest: in_set_takeD split: list.splits)
  have enc: "fat_encode_83_name s = pad 8 (map upper (map of_ch b)) @ pad 3 (map upper (map of_ch e))"
    unfolding fat_encode_83_name_def Let_def b_def [symmetric] r_def [symmetric] e_def
    using b(1) by (auto simp: take_map split: list.split)
  let ?f = "pad 8 (map upper (map of_ch b)) @ pad 3 (map upper (map of_ch e)) @ rest"
  have l8: "length (pad 8 (map upper (map of_ch b))) = 8" using b(1) by (simp add: pad_def)
  have 1: "map lower (takeWhile (\<lambda>b. b \<noteq> SPACE) (take 8 ?f)) = map of_ch b" by (rule takeWhile_pad [OF b(2,1)])
  have d8: "drop 8 ?f = pad 3 (map upper (map of_ch e)) @ rest" using l8 by simp
  have 2: "map lower (takeWhile (\<lambda>b. b \<noteq> SPACE) (take 3 (drop 8 ?f))) = map of_ch e"
    unfolding d8 by (rule takeWhile_pad [OF e le])
  have 3: "?f ! 8 = SPACE \<longleftrightarrow> e = []"
  proof -
    have "?f ! 8 = (pad 3 (map upper (map of_ch e)) @ rest) ! 0" using l8 by (simp add: nth_append)
    also have "\<dots> = SPACE \<longleftrightarrow> e = []"
      using e name_char_byte(2) le by (cases e) (auto simp: pad_def nth_append list_all_iff simp del: SPACE_def)
    finally show ?thesis .
  qed
  have rr: "r = (if e = [] then [] else CHR ''.'' # e)"
  proof (cases r)
    case (Cons c ext)
    have "c = CHR ''.''" using hd_dropWhile [of ?P s] Cons unfolding r_def by auto
    then show ?thesis using r Cons by (auto simp: e_def)
  qed (simp add: e_def)
  have nn: "CHR 0x00 \<notin> set s" unfolding s rr using b(2) e by (auto simp: list_all_iff name_char_def)
  have dot: "to_char 0x2E = CHR ''.''" by (simp add: to_char_def char_of_nums)
  have "fat_decode_83_name (fat_encode_83_name s @ rest) = c_str (map to_char (map of_ch b @ (if e = [] then [] else 0x2E # map of_ch e)))"
    unfolding fat_decode_83_name_def enc append_assoc 1 2 using 3 by (simp del: SPACE_def)
  also have "\<dots> = c_str s" using s rr dot by (simp add: comp_def)
  also have "\<dots> = s" unfolding c_str_def using nn by (simp add: takeWhile_eq_all_conv) metis
  finally show ?thesis .
qed

section \<open>Visitors that keep their context\<close>

definition keeps :: "'c visitor \<Rightarrow> 'c \<Rightarrow> bool" where
  "keeps v c \<longleftrightarrow> (\<forall>n raw i lba off. snd (v n raw i lba off c) = c)"

lemma keepsD: "keeps v c \<Longrightarrow> v n raw i lba off c = (b, c') \<Longrightarrow> c' = c"
  unfolding keeps_def by (metis snd_conv)

lemma scan_slots_keeps: "keeps v c \<Longrightarrow> scan_slots v sector lba offs idx c = (b, idx', c') \<Longrightarrow> c' = c"
proof (induction offs arbitrary: idx)
  case (Cons off offs)
  let ?e = "take 32 (drop off sector)"
  obtain b1 c1 where v: "v (fat_decode_83_name ?e) ?e idx lba off c = (b1, c1)"
    by (cases "v (fat_decode_83_name ?e) ?e idx lba off c")
  have "c1 = c" by (rule keepsD [OF Cons.prems(1) v])
  then show ?case using Cons.IH [OF Cons.prems(1)] Cons.prems(2) v by (auto simp: Let_def split: if_splits bool.splits)
qed simp

lemma iter_sectors_keeps: "keeps v c \<Longrightarrow> iter_sectors v lbas idx c d = (s, idx', c', d') \<Longrightarrow> c' = c"
proof (induction v lbas idx c d rule: iter_sectors.induct)
  case (2 v lba lbas idx c d)
  obtain r sector d1 where rd: "ata_read_sectors lba 1 d = (r, sector, d1)" by (cases "ata_read_sectors lba 1 d") auto
  obtain b i c1 where sc: "fat_scan_sector_dirents v sector lba idx c = (b, i, c1)"
    by (cases "fat_scan_sector_dirents v sector lba idx c") auto
  have "c1 = c" using scan_slots_keeps [OF "2.prems"(1)] sc unfolding fat_scan_sector_dirents_def by blast
  then show ?case using "2.IH" [of r "(sector, d1)" sector d1] "2.prems" rd sc by (auto split: if_splits bool.splits)
qed simp

lemma iter_chain_keeps:
  assumes "keeps v c" "iter_chain v f cluster idx c d = Some (c', d')"
  shows "c' = c"
proof -
  have "keeps v c \<longrightarrow> fst (c', d') = c"
  proof (rule iter_chain.raw_induct [where P = "\<lambda>v f cluster idx c d y. keeps v c \<longrightarrow> fst y = c", OF _ assms(2)])
    fix chain v f cluster idx c d y
    assume ih: "\<And>v f cluster idx c d y. chain v f cluster idx c d = Some y \<Longrightarrow> keeps v c \<longrightarrow> fst y = c"
      and y: "(if in_chain cluster
        then case iter_sectors v (cluster_lbas f cluster) idx c d of (s, idx1, c1, d1) \<Rightarrow>
               if s = ScanOn then case fat_next_cluster f cluster d1 of (n, d2) \<Rightarrow> chain v f n idx1 c1 d2 else Some (c1, d1)
        else Some (c, d)) = Some y"
    obtain s i c1 d1 where it: "iter_sectors v (cluster_lbas f cluster) idx c d = (s, i, c1, d1)"
      by (cases "iter_sectors v (cluster_lbas f cluster) idx c d") auto
    obtain n d2 where n: "fat_next_cluster f cluster d1 = (n, d2)" by (cases "fat_next_cluster f cluster d1")
    show "keeps v c \<longrightarrow> fst y = c"
      using y iter_sectors_keeps [of v c, OF _ it] ih [of v f n i c1 d2 y] it n by (auto split: if_splits)
  qed
  then show ?thesis using assms(1) by simp
qed

lemma iterate_keeps:
  assumes "keeps v c" "fat_iterate_dir dir v f c d = Some (c', d')"
  shows "c' = c"
proof (cases "first_cluster (meta_of dir f) = 0")
  case True
  obtain s i c1 d1 where "iter_sectors v (root_lbas f) 0 c d = (s, i, c1, d1)" by (cases "iter_sectors v (root_lbas f) 0 c d") auto
  then show ?thesis using True assms(2) iter_sectors_keeps [OF assms(1)] by (auto simp: fat_iterate_dir_def)
next
  case False
  then show ?thesis using assms iter_chain_keeps by (auto simp: fat_iterate_dir_def)
qed

text \<open>A lookup with a full pool finds nothing, whatever is on the disk.\<close>

lemma lookup_pool_full:
  assumes "fnode_count f \<ge> FAT_MAX_NODES" "fat_dir_lookup dir name (d, f) = Some (hit, d', f')"
  shows "hit = None \<and> f' = f"
proof -
  let ?c = "\<lparr>want_name = name, found = None, ctx_parent = dir, ctx_fat = f\<rparr>"
  have k: "keeps fat_lookup_visitor ?c"
    using assms(1) by (auto simp: keeps_def fat_lookup_visitor_def fat_alloc_node_def)
  from assms(2) obtain c d1 where c: "fat_iterate_dir dir fat_lookup_visitor f ?c d = Some (c, d1)" "hit = found c" "f' = ctx_fat c"
    by (auto simp: fat_dir_lookup_def bind_eq_Some_conv)
  from iterate_keeps [OF k c(1)] c(2,3) show ?thesis by simp
qed

end
