(* ===== verification/FatData.thy ===== *)
theory FatData
  imports FatNames
begin

text \<open>
  The FAT and the data area of \<^verbatim>\<open>kernel/fat.c\<close> on a disk that works: the file allocation tables
  as one map from clusters to clusters, kept the same in every copy, and the contents of a file
  as the clusters of its chain one after the other.
\<close>

section \<open>Lists of blocks\<close>

lemma concat_nth:
  assumes "\<forall>x \<in> set xs. length x = L" "i < length xs * L"
  shows "concat xs ! i = xs ! (i div L) ! (i mod L)"
  using assms
proof (induction xs arbitrary: i)
  case (Cons x xs)
  then have L: "length x = L" "0 < L" by (auto intro: Nat.gr0I)
  show ?case
  proof (cases "i < L")
    case False
    then have "concat xs ! (i - L) = xs ! ((i - L) div L) ! ((i - L) mod L)" using Cons by (intro Cons.IH) auto
    moreover have "i div L = Suc ((i - L) div L)" "i mod L = (i - L) mod L" using False L(2) by (simp_all add: le_div_geq le_mod_geq)
    ultimately show ?thesis using False L by (simp add: nth_append)
  qed (use L in \<open>simp add: nth_append\<close>)
qed simp

lemma concat_length: "\<forall>x \<in> set xs. length x = L \<Longrightarrow> length (concat xs) = length xs * L"
  by (induction xs) auto

section \<open>Volumes\<close>

definition geom :: "fat \<Rightarrow> nat \<Rightarrow> bool" where
  "geom f n \<longleftrightarrow> bytes_per_sector f = 512 \<and> 0 < sectors_per_cluster f \<and> sectors_per_cluster f < 256 \<and> 0 < num_fats f \<and>
     first_fat_sector f + num_fats f * fat_size_16 f \<le> first_data_sector f \<and> first_data_sector f \<le> n"

definition cl_lba :: "fat \<Rightarrow> nat \<Rightarrow> nat" where
  "cl_lba f c = first_data_sector f + (c - 2) * sectors_per_cluster f"

text \<open>A cluster number that has an entry in the FAT and room on the disk.\<close>

definition valid_cluster :: "fat \<Rightarrow> nat \<Rightarrow> nat \<Rightarrow> bool" where
  "valid_cluster f n c \<longleftrightarrow> in_chain c \<and> c * 2 div 512 < fat_size_16 f \<and> cl_lba f c + sectors_per_cluster f \<le> n"

definition fat_ent :: "(nat \<Rightarrow> bytes) \<Rightarrow> fat \<Rightarrow> nat \<Rightarrow> nat \<Rightarrow> nat" where
  "fat_ent S f copy c = le16 (S (first_fat_sector f + copy * fat_size_16 f + c * 2 div 512)) (c * 2 mod 512)"

lemma wrap32_small: "x < 2 ^ 32 \<Longrightarrow> wrap32 x = x"
  by (simp add: wrap32_def)

lemma cluster_to_lba_valid:
  assumes "valid_cluster f n c" "n \<le> 2 ^ 28"
  shows "cluster_to_lba f c = cl_lba f c"
proof -
  have c: "2 \<le> c" "c < 0xFFF8" using assms(1) by (auto simp: valid_cluster_def in_chain_def)
  have "wrap32 (c + (2 ^ 32 - 2)) = c - 2"
  proof -
    have eq: "c + (2 ^ 32 - 2) = (c - 2) + 2 ^ 32" using c by simp
    show ?thesis unfolding wrap32_def eq mod_add_self2 using c by simp
  qed
  moreover have "cl_lba f c < 2 ^ 32" using assms by (simp add: valid_cluster_def)
  ultimately show ?thesis by (simp add: cluster_to_lba_def cl_lba_def wrap32_small)
qed

lemma fat_sector_bound:
  assumes "geom f n" "valid_cluster f n c" "k < num_fats f"
  shows "first_fat_sector f + k * fat_size_16 f + c * 2 div 512 < n"
    "first_fat_sector f + k * fat_size_16 f + c * 2 div 512 < first_data_sector f"
proof -
  have "k * fat_size_16 f + c * 2 div 512 < Suc k * fat_size_16 f" using assms(2) by (simp add: valid_cluster_def)
  also have "\<dots> \<le> num_fats f * fat_size_16 f" using assms(3) by (intro mult_right_mono) auto
  finally show "first_fat_sector f + k * fat_size_16 f + c * 2 div 512 < n"
    "first_fat_sector f + k * fat_size_16 f + c * 2 div 512 < first_data_sector f"
    using assms(1) by (auto simp: geom_def)
qed

lemma cluster_double: "valid_cluster f n c \<Longrightarrow> wrap32 (c * 2) = c * 2"
  by (simp add: wrap32_def valid_cluster_def in_chain_def)

lemma next_cluster_ready:
  assumes "ready d0 S n d" "geom f n" "valid_cluster f n c"
  shows "\<exists>d'. fat_next_cluster f c d = (fat_ent S f 0 c, d') \<and> ready d0 S n d'"
proof -
  let ?l = "first_fat_sector f + c * 2 div 512"
  have g: "bytes_per_sector f = 512" "0 < num_fats f" using assms(2) by (simp_all add: geom_def)
  have l: "?l < n" using fat_sector_bound(1) [OF assms(2,3) g(2)] by simp
  moreover have "n \<le> 2 ^ 28" using assms(1) by (simp add: ready_def)
  ultimately have "wrap32 ?l = ?l" by (simp add: wrap32_small)
  then show ?thesis using ata.rd_ok [OF assms(1) l] g cluster_double [OF assms(3)]
    by (auto simp: fat_next_cluster_def fat_ent_def Let_def)
qed

section \<open>Updating an entry\<close>

lemma put16_length [simp]: "length (put16 i v s) = length s"
  by (simp add: put16_def)

lemma unat_u8_of: "unat (u8_of v k) = v div 256 ^ k mod 256"
proof -
  have "v div 256 ^ k mod 256 < 256" by simp
  then show ?thesis by (simp add: u8_of_def unat_of_nat)
qed

lemma le16_put16:
  assumes "i + 1 < length s" "even i" "even j"
  shows "le16 (put16 i v s) j = (if j = i then v mod 65536 else le16 s j)"
proof (cases "j = i")
  case True
  have "v mod 256 + 256 * (v div 256 mod 256) = v mod 65536" using mod_mult2_eq [of v 256 256] by simp
  then show ?thesis using True assms(1) by (simp add: le16_def put16_def nth_list_update unat_u8_of)
next
  case False
  with assms(2,3) have "j \<noteq> i" "j \<noteq> Suc i" "Suc j \<noteq> i" by (metis even_Suc)+
  then show ?thesis by (simp add: le16_def put16_def)
qed

definition put_ent :: "fat \<Rightarrow> nat \<Rightarrow> nat \<Rightarrow> nat \<Rightarrow> (nat \<Rightarrow> bytes) \<Rightarrow> nat \<Rightarrow> bytes" where
  "put_ent f c v k S =
     (let l = first_fat_sector f + k * fat_size_16 f + c * 2 div 512 in S(l := put16 (c * 2 mod 512) v (S l)))"

lemma write_copy_ready:
  assumes "ready d0 S n d" "geom f n" "valid_cluster f n c" "k < num_fats f"
  shows "ready d0 (put_ent f c v k S) n (write_copy f c v k d)"
proof -
  let ?l = "first_fat_sector f + k * fat_size_16 f + c * 2 div 512"
  have g: "bytes_per_sector f = 512" using assms(2) by (simp add: geom_def)
  have l: "?l < n" by (rule fat_sector_bound(1) [OF assms(2-4)])
  moreover have "n \<le> 2 ^ 28" using assms(1) by (simp add: ready_def)
  ultimately have w: "wrap32 ?l = ?l" by (simp add: wrap32_small)
  have "length (put16 (c * 2 mod 512) v (S ?l)) = 512" using ready_len [OF assms(1)] by simp
  from ata.rmw [OF assms(1) l, of "put16 (c * 2 mod 512) v", OF this] obtain d1 d2 where
    "ata_read_sectors ?l 1 d = (0, S ?l, d1)" "ata_write_sectors ?l 1 (put16 (c * 2 mod 512) v (S ?l)) d1 = (0, d2)"
    "ready d0 (S(?l := put16 (c * 2 mod 512) v (S ?l))) n d2" by blast
  then show ?thesis using g w cluster_double [OF assms(3)] by (simp add: write_copy_def put_ent_def Let_def)
qed

lemma put_ent_ent:
  assumes "\<And>i. length (S i) = 512" "geom f n" "valid_cluster f n c" "valid_cluster f n c'"
  shows "fat_ent (put_ent f c v k S) f k' c' = (if k' = k \<and> c' = c then v mod 65536 else fat_ent S f k' c')"
proof -
  let ?l = "\<lambda>k c. first_fat_sector f + k * fat_size_16 f + c * 2 div 512"
  have lt: "c * 2 div 512 < fat_size_16 f" "c' * 2 div 512 < fat_size_16 f" using assms(3,4) by (simp_all add: valid_cluster_def)
  have e: "c * 2 mod 512 + 1 < length (S i)" "even (c * 2 mod 512)" for i c
  proof -
    show ev: "even (c * 2 mod 512)" by (simp add: dvd_mod_iff)
    have "c * 2 mod 512 < 512" by simp
    then have "c * 2 mod 512 \<noteq> 511 \<Longrightarrow> c * 2 mod 512 + 1 < 512" by linarith
    moreover have "c * 2 mod 512 \<noteq> 511" using ev by (metis odd_numeral)
    ultimately show "c * 2 mod 512 + 1 < length (S i)" using assms(1) by simp
  qed
  have uniq: "k' = k \<and> c' * 2 div 512 = c * 2 div 512" if "?l k' c' = ?l k c"
  proof -
    have "(k' * fat_size_16 f + c' * 2 div 512) div fat_size_16 f = (k * fat_size_16 f + c * 2 div 512) div fat_size_16 f"
      using that by simp
    then have "k' = k" using lt by simp
    then show ?thesis using that by simp
  qed
  have c_eq: "c' = c" if "c' * 2 div 512 = c * 2 div 512" "c' * 2 mod 512 = c * 2 mod 512"
    using that by (metis mult_div_mod_eq mult_right_cancel zero_neq_numeral)
  show ?thesis
  proof (cases "?l k' c' = ?l k c")
    case True
    have "fat_ent (put_ent f c v k S) f k' c' = le16 (put16 (c * 2 mod 512) v (S (?l k c))) (c' * 2 mod 512)"
      using True unfolding fat_ent_def put_ent_def Let_def by (metis fun_upd_same)
    also have "\<dots> = (if c' * 2 mod 512 = c * 2 mod 512 then v mod 65536 else le16 (S (?l k c)) (c' * 2 mod 512))"
      by (rule le16_put16 [OF e(1) e(2) e(2)])
    also have "\<dots> = (if k' = k \<and> c' = c then v mod 65536 else fat_ent S f k' c')"
      using uniq [OF True] c_eq True unfolding fat_ent_def by metis
    finally show ?thesis .
  next
    case False
    then show ?thesis by (auto simp: fat_ent_def put_ent_def Let_def)
  qed
qed

lemma put_ent_other:
  "i \<noteq> first_fat_sector f + k * fat_size_16 f + c * 2 div 512 \<Longrightarrow> put_ent f c v k S i = S i"
  by (simp add: put_ent_def Let_def)

text \<open>After the loop over the copies.\<close>

lemma write_entry_loop:
  assumes "ready d0 S n d" "geom f n" "valid_cluster f n c" "m \<le> num_fats f"
  shows "\<exists>S'. ready d0 S' n (fold (write_copy f c v) [0..<m] d) \<and>
    (\<forall>k c'. valid_cluster f n c' \<longrightarrow> fat_ent S' f k c' = (if k < m \<and> c' = c then v mod 65536 else fat_ent S f k c')) \<and>
    (\<forall>i \<ge> first_data_sector f. S' i = S i)"
  using assms(4)
proof (induction m)
  case (Suc m)
  then obtain S1 where S1: "ready d0 S1 n (fold (write_copy f c v) [0..<m] d)"
    "\<And>k c'. valid_cluster f n c' \<Longrightarrow> fat_ent S1 f k c' = (if k < m \<and> c' = c then v mod 65536 else fat_ent S f k c')"
    "\<And>i. i \<ge> first_data_sector f \<Longrightarrow> S1 i = S i" by auto
  have m: "m < num_fats f" using Suc.prems by simp
  have "ready d0 (put_ent f c v m S1) n (fold (write_copy f c v) [0..<Suc m] d)"
    using write_copy_ready [OF S1(1) assms(2,3) m] by simp
  moreover have "fat_ent (put_ent f c v m S1) f k c' = (if k < Suc m \<and> c' = c then v mod 65536 else fat_ent S f k c')"
    if "valid_cluster f n c'" for k c'
    using put_ent_ent [OF ready_len [OF S1(1)] assms(2,3) that, where v = v and k = m and k' = k] S1(2) [OF that, of k] by auto
  moreover have "put_ent f c v m S1 i = S i" if "i \<ge> first_data_sector f" for i
    using put_ent_other [of i f m c v S1] fat_sector_bound(2) [OF assms(2,3) m] S1(3) [OF that] that by simp
  ultimately show ?case by blast
qed (use assms in auto)

lemma write_entry_ready:
  assumes "ready d0 S n d" "geom f n" "valid_cluster f n c"
  shows "\<exists>S'. ready d0 S' n (fat_write_fat_entry f c v d) \<and>
    (\<forall>k c'. k < num_fats f \<longrightarrow> valid_cluster f n c' \<longrightarrow> fat_ent S' f k c' = (if c' = c then v mod 65536 else fat_ent S f k c')) \<and>
    (\<forall>i \<ge> first_data_sector f. S' i = S i)"
  using write_entry_loop [OF assms order.refl, of v] unfolding fat_write_fat_entry_def by auto

section \<open>Chains and contents\<close>

fun chain_ok :: "(nat \<Rightarrow> bytes) \<Rightarrow> fat \<Rightarrow> nat \<Rightarrow> nat list \<Rightarrow> bool" where
  "chain_ok S f n [] = True"
| "chain_ok S f n [c] = valid_cluster f n c"
| "chain_ok S f n (c # c' # cs) = (valid_cluster f n c \<and> fat_ent S f 0 c = c' \<and> chain_ok S f n (c' # cs))"

definition cluster_data :: "(nat \<Rightarrow> bytes) \<Rightarrow> fat \<Rightarrow> nat \<Rightarrow> bytes" where
  "cluster_data S f c = sectors S (cl_lba f c) (sectors_per_cluster f)"

definition chain_data :: "(nat \<Rightarrow> bytes) \<Rightarrow> fat \<Rightarrow> nat list \<Rightarrow> bytes" where
  "chain_data S f cs = concat (map (cluster_data S f) cs)"

lemma chain_nth:
  "chain_ok S f n cs \<Longrightarrow> i < length cs \<Longrightarrow> valid_cluster f n (cs ! i) \<and> (Suc i < length cs \<longrightarrow> fat_ent S f 0 (cs ! i) = cs ! Suc i)"
proof (induction S f n cs arbitrary: i rule: chain_ok.induct)
  case (3 S f n c c' cs)
  then show ?case by (cases i) auto
qed auto

abbreviation csz :: "fat \<Rightarrow> nat" where "csz f \<equiv> sectors_per_cluster f * 512"

lemma cluster_size_geom: "geom f n \<Longrightarrow> cluster_size f = csz f"
  by (simp add: geom_def cluster_size_def wrap32_small)

lemma cluster_data_nth:
  assumes "\<forall>i. length (S i) = 512" "q < csz f"
  shows "length (cluster_data S f c) = csz f" "cluster_data S f c ! q = S (cl_lba f c + q div 512) ! (q mod 512)"
proof -
  let ?xs = "map S [cl_lba f c..<cl_lba f c + sectors_per_cluster f]"
  show "length (cluster_data S f c) = csz f"
    using concat_length [of ?xs 512] assms(1) by (simp add: cluster_data_def sectors_def)
  have "q div 512 < sectors_per_cluster f" using assms(2) by (simp add: less_mult_imp_div_less)
  then show "cluster_data S f c ! q = S (cl_lba f c + q div 512) ! (q mod 512)"
    using concat_nth [of ?xs 512 q] assms by (simp add: cluster_data_def sectors_def)
qed

lemma chain_data_length: "\<forall>i. length (S i) = 512 \<Longrightarrow> 0 < csz f \<Longrightarrow> length (chain_data S f cs) = length cs * csz f"
  using concat_length [of "map (cluster_data S f) cs" "csz f"] cluster_data_nth(1) [of S 0 f] by (simp add: chain_data_def)

lemma chunk_end:
  assumes "pos < k * 512" "chunk \<le> 512 - pos mod (512 :: nat)" shows "pos + chunk \<le> k * 512"
proof -
  define q r where "q = pos div 512" and "r = pos mod 512"
  have pos: "pos = q * 512 + r" "r < 512" unfolding q_def r_def by simp_all
  have "q < k" unfolding q_def using assms(1) by (simp add: less_mult_imp_div_less)
  then have "(q + 1) * 512 \<le> k * 512" by (intro mult_right_mono) auto
  then show ?thesis using pos assms(2) [folded r_def] by simp
qed

lemma chain_data_slice:
  assumes S: "\<forall>i. length (S i) = 512" and j: "j < length cs" and p: "pos < csz f" and c: "chunk \<le> 512 - pos mod 512"
  shows "take chunk (drop (pos mod 512) (S (cl_lba f (cs ! j) + pos div 512))) = take chunk (drop (j * csz f + pos) (chain_data S f cs))"
proof (rule nth_equalityI)
  let ?D = "chain_data S f cs"
  have sz: "0 < csz f" using p by simp
  have "pos + chunk \<le> csz f" by (rule chunk_end [OF p c])
  moreover have "j * csz f + csz f \<le> length cs * csz f"
  proof -
    have "Suc j * csz f \<le> length cs * csz f" using j by (intro mult_right_mono) auto
    then show ?thesis by simp
  qed
  ultimately have in_D: "j * csz f + pos + chunk \<le> length ?D" using chain_data_length [OF S sz, where cs = cs] by linarith
  show len: "length (take chunk (drop (pos mod 512) (S (cl_lba f (cs ! j) + pos div 512)))) = length (take chunk (drop (j * csz f + pos) ?D))"
    using in_D c S by simp
  fix i assume "i < length (take chunk (drop (pos mod 512) (S (cl_lba f (cs ! j) + pos div 512))))"
  then have i: "i < chunk" by simp
  then have q: "pos + i < csz f" using \<open>pos + chunk \<le> csz f\<close> by simp
  have dm: "(pos + i) div 512 = pos div 512" "(pos + i) mod 512 = pos mod 512 + i"
  proof -
    have lt: "pos mod 512 + i < 512" using i c by simp
    have eq: "pos + i = (pos mod 512 + i) + pos div 512 * 512" by simp
    show "(pos + i) div 512 = pos div 512" unfolding eq using lt by (subst div_mult_self1) simp_all
    show "(pos + i) mod 512 = pos mod 512 + i" unfolding eq using lt by (subst mod_mult_self1) simp_all
  qed
  have "?D ! (j * csz f + (pos + i)) = cluster_data S f (cs ! j) ! (pos + i)"
  proof -
    have "j * csz f + (pos + i) < length cs * csz f" using q \<open>j * csz f + csz f \<le> length cs * csz f\<close> by linarith
    then have "?D ! (j * csz f + (pos + i)) = map (cluster_data S f) cs ! ((j * csz f + (pos + i)) div csz f) ! ((j * csz f + (pos + i)) mod csz f)"
      unfolding chain_data_def using cluster_data_nth(1) [OF S sz] by (intro concat_nth) auto
    moreover have "(j * csz f + (pos + i)) div csz f = j" "(j * csz f + (pos + i)) mod csz f = pos + i" using q by simp_all
    ultimately show ?thesis using j by simp
  qed
  also have "\<dots> = S (cl_lba f (cs ! j) + pos div 512) ! (pos mod 512 + i)" using cluster_data_nth(2) [OF S q, where c = "cs ! j"] dm by simp
  finally show "take chunk (drop (pos mod 512) (S (cl_lba f (cs ! j) + pos div 512))) ! i = take chunk (drop (j * csz f + pos) ?D) ! i"
    using i in_D c S by (simp add: add.assoc)
qed

lemma skip_ready:
  assumes "ready d0 S n d" "geom f n" "chain_ok S f n cs" "j + k < length cs"
  shows "\<exists>d'. skip_clusters k f (cs ! j) d = (Some (cs ! (j + k)), d') \<and> ready d0 S n d'"
  using assms(1,4)
proof (induction k arbitrary: j d)
  case (Suc k)
  have j: "j < length cs" "Suc j < length cs" using Suc.prems(2) by simp_all
  from chain_nth [OF assms(3) j(1)] chain_nth [OF assms(3) j(2)] j(2)
  have v: "valid_cluster f n (cs ! j)" "fat_ent S f 0 (cs ! j) = cs ! Suc j" "in_chain (cs ! Suc j)" by (auto simp: valid_cluster_def)
  from next_cluster_ready [OF Suc.prems(1) assms(2) v(1)] v(2) obtain d1 where
    "fat_next_cluster f (cs ! j) d = (cs ! Suc j, d1)" "ready d0 S n d1" by auto
  then show ?case using Suc.IH [of d1 "Suc j"] Suc.prems(2) v(3) by simp
qed simp

lemma sector_lba:
  assumes "valid_cluster f n c" "n \<le> 2 ^ 28" "pos < csz f"
  shows "wrap32 (cluster_to_lba f c + pos div 512) = cl_lba f c + pos div 512" "cl_lba f c + pos div 512 < n"
proof -
  have "pos div 512 < sectors_per_cluster f" using assms(3) by (simp add: less_mult_imp_div_less)
  then show *: "cl_lba f c + pos div 512 < n" using assms(1) by (simp add: valid_cluster_def)
  then show "wrap32 (cluster_to_lba f c + pos div 512) = cl_lba f c + pos div 512"
    using cluster_to_lba_valid [OF assms(1,2)] assms(2) by (simp add: wrap32_small)
qed

lemma read_data_ready:
  assumes "ready d0 S n d" "geom f n" "chain_ok S f n cs" "j < length cs" "pos < csz f"
    "j * csz f + pos + (m - length acc) \<le> length cs * csz f"
  shows "\<exists>d'. read_data f (cs ! j) pos m acc d =
      Some (acc @ take (m - length acc) (drop (j * csz f + pos) (chain_data S f cs)), d') \<and> ready d0 S n d'"
  using assms(1,4-6)
proof (induction "m - length acc" arbitrary: j pos acc d rule: less_induct)
  case less
  let ?D = "chain_data S f cs" and ?c = "cs ! j"
  have g: "bytes_per_sector f = 512" "0 < csz f" using assms(2) by (simp_all add: geom_def)
  have n28: "n \<le> 2 ^ 28" and len: "\<forall>i. length (S i) = 512" using less.prems(1) by (simp_all add: ready_def)
  show ?case
  proof (cases "length acc < m")
    case False
    then show ?thesis using less.prems(1) by (subst read_data.simps) simp
  next
    case True
    have v: "valid_cluster f n ?c" using chain_nth [OF assms(3) less.prems(2)] by blast
    note lb = sector_lba [OF v n28 less.prems(3)]
    let ?l = "cl_lba f ?c + pos div 512"
    obtain d1 where d1: "ata_read_sectors ?l 1 d = (0, S ?l, d1)" "ready d0 S n d1" using ata.rd_ok [OF less.prems(1) lb(2)] by blast
    define chunk where "chunk = (if m - length acc < 512 - pos mod 512 then m - length acc else 512 - pos mod 512)"
    have ch: "0 < chunk" "chunk \<le> 512 - pos mod 512" "chunk \<le> m - length acc" using True by (auto simp: chunk_def)
    define acc1 where "acc1 = acc @ take chunk (drop (pos mod 512) (S ?l))"
    have acc1: "acc1 = acc @ take chunk (drop (j * csz f + pos) ?D)"
      unfolding acc1_def using chain_data_slice [OF len less.prems(2,3) ch(2)] by simp
    have la: "length acc1 = length acc + chunk" unfolding acc1_def using ch(2) len by simp
    have rest: "acc @ take (m - length acc) (drop (j * csz f + pos) ?D) = acc1 @ take (m - length acc1) (drop (j * csz f + (pos + chunk)) ?D)"
    proof -
      let ?X = "drop (j * csz f + pos) ?D"
      have e: "m - length acc = chunk + (m - length acc1)" using la ch(3) by simp
      have "acc @ take (m - length acc) ?X = (acc @ take chunk ?X) @ take (m - length acc1) (drop chunk ?X)"
        unfolding e take_add by simp
      also have "\<dots> = acc1 @ take (m - length acc1) (drop (j * csz f + (pos + chunk)) ?D)"
        unfolding acc1 [symmetric] drop_drop by (simp add: ac_simps)
      finally show ?thesis .
    qed
    have step: "read_data f ?c pos m acc d =
        (if pos + chunk \<ge> csz f
         then case fat_next_cluster f ?c d1 of (c1, d2) \<Rightarrow> if in_chain c1 then read_data f c1 0 m acc1 d2 else Some (acc1, d2)
         else read_data f ?c (pos + chunk) m acc1 d1)"
      by (subst read_data.simps)
        (simp only: True g(1) lb(1) d1(1) cluster_size_geom [OF assms(2)] Let_def prod.case chunk_def [symmetric]
          acc1_def [symmetric] if_True if_False simp_thms)
    show ?thesis
    proof (cases "pos + chunk \<ge> csz f")
      case False
      have "\<exists>d'. read_data f ?c (pos + chunk) m acc1 d1 =
          Some (acc1 @ take (m - length acc1) (drop (j * csz f + (pos + chunk)) ?D), d') \<and> ready d0 S n d'"
        by (rule less.hyps) (use True ch la d1(2) less.prems(2,4) False in auto)
      then show ?thesis using step False unfolding rest by auto
    next
      case end1: True
      have pe: "pos + chunk = csz f" using end1 chunk_end [OF less.prems(3) ch(2)] by simp
      have nx: "j * csz f + (pos + chunk) = Suc j * csz f + 0" using pe by simp
      obtain d2 where d2: "fat_next_cluster f ?c d1 = (fat_ent S f 0 ?c, d2)" "ready d0 S n d2"
        using next_cluster_ready [OF d1(2) assms(2) v] by blast
      show ?thesis
      proof (cases "Suc j < length cs")
        case True
        have e: "fat_ent S f 0 ?c = cs ! Suc j" "in_chain (cs ! Suc j)"
          using chain_nth [OF assms(3) less.prems(2)] chain_nth [OF assms(3) True] True by (auto simp: valid_cluster_def)
        have "\<exists>d'. read_data f (cs ! Suc j) 0 m acc1 d2 =
            Some (acc1 @ take (m - length acc1) (drop (Suc j * csz f + 0) ?D), d') \<and> ready d0 S n d'"
          by (rule less.hyps) (use \<open>length acc < m\<close> ch la d2(2) True less.prems(4) g pe in auto)
        then show ?thesis using step end1 d2(1) e unfolding rest nx by auto
      next
        case False
        then have "length cs = Suc j" using less.prems(2) by simp
        then have "m - length acc1 = 0" using less.prems(4) la pe ch(3) by simp
        then have fin: "\<not> length acc1 < m" by simp
        have "read_data f c 0 m acc1 d2 = Some (acc1, d2)" for c using fin by (subst read_data.simps) simp
        then show ?thesis using step end1 d2 \<open>m - length acc1 = 0\<close> unfolding rest by auto
      qed
    qed
  qed
qed

lemma file_read_ready:
  assumes "ready d0 S n d" "geom f n" "chain_ok S f n cs" "cs \<noteq> []" "first_cluster (meta_of p f) = hd cs"
    "file_size (meta_of p f) \<le> length cs * csz f"
  shows "\<exists>d'. fat_file_read p count offset (d, f) =
      Some (take count (drop offset (take (file_size (meta_of p f)) (chain_data S f cs))), d', f) \<and> ready d0 S n d'"
proof (cases "offset \<ge> file_size (meta_of p f)")
  case True
  then show ?thesis using assms(1) by (auto simp: fat_file_read_def Let_def)
next
  case False
  let ?sz = "file_size (meta_of p f)" and ?D = "chain_data S f cs"
  define m where "m = (if count < ?sz - offset then count else ?sz - offset)"
  have g: "0 < csz f" "cluster_size f = csz f" using assms(2) cluster_size_geom [OF assms(2)] by (auto simp: geom_def)
  define j where "j = offset div csz f"
  have "offset < length cs * csz f" using False assms(6) by simp
  then have j: "j < length cs" by (simp add: j_def less_mult_imp_div_less)
  have off: "j * csz f + offset mod csz f = offset" "offset mod csz f < csz f" using g(1)
    by (simp_all only: j_def div_mult_mod_eq mod_less_divisor)
  obtain d1 where d1: "skip_clusters j f (cs ! 0) d = (Some (cs ! j), d1)" "ready d0 S n d1"
    using skip_ready [OF assms(1-3), of 0 j] j by auto
  have h: "cs ! 0 = hd cs" using assms(4) by (simp add: hd_conv_nth)
  have fits: "j * csz f + offset mod csz f + (m - length []) \<le> length cs * csz f"
    unfolding off(1) using False assms(6) by (auto simp: m_def)
  obtain d2 where d2: "read_data f (cs ! j) (offset mod csz f) m [] d1 = Some (take m (drop offset ?D), d2)" "ready d0 S n d2"
    using read_data_ready [OF d1(2) assms(2,3) j off(2) fits] unfolding off(1) by auto
  have "take count (drop offset (take ?sz ?D)) = take m (drop offset ?D)"
    using False by (simp add: m_def drop_take min_def)
  then show ?thesis using False d1(1) d2 assms(5) h g(2) by (auto simp: fat_file_read_def Let_def m_def j_def)
qed

section \<open>Errors of the slot search\<close>

lemma slot_in_error: "slot_in lbas d = (Inl e, d') \<Longrightarrow> e = - EIO"
  by (induction lbas arbitrary: d) (auto split: if_splits prod.splits option.splits simp del: EIO_def)

lemma slot_chain_error:
  assumes "slot_chain f cluster prev d = Some (res, l, d')" "res = Inl e"
  shows "e = - EIO"
proof -
  have "\<forall>e. fst (res, l, d') = Inl e \<longrightarrow> e = - EIO"
  proof (rule slot_chain.raw_induct [where P = "\<lambda>f cluster prev d y. \<forall>e. fst y = Inl e \<longrightarrow> e = - EIO", OF _ assms(1)])
    fix chain f cluster prev d y
    assume ih: "\<And>f cluster prev d y. chain f cluster prev d = Some y \<Longrightarrow> \<forall>e. fst y = Inl e \<longrightarrow> e = - EIO"
      and y: "(if in_chain cluster
        then case slot_in (cluster_lbas f cluster) d of (res, d1) \<Rightarrow>
               if res = Inr None then case fat_next_cluster f cluster d1 of (n, d2) \<Rightarrow> chain f n cluster d2
               else Some (res, cluster, d1)
        else Some (Inr None, prev, d)) = Some y"
    obtain res d1 where s: "slot_in (cluster_lbas f cluster) d = (res, d1)" by (cases "slot_in (cluster_lbas f cluster) d")
    obtain n d2 where n: "fat_next_cluster f cluster d1 = (n, d2)" by (cases "fat_next_cluster f cluster d1")
    show "\<forall>e. fst y = Inl e \<longrightarrow> e = - EIO"
      using y ih [of f n cluster d2 y] slot_in_error [of "cluster_lbas f cluster" d _ d1] s n
      by (auto split: if_splits simp del: EIO_def)
  qed
  then show ?thesis using assms(2) by simp
qed

lemma find_slot_errors:
  assumes "fat_find_free_dirent_slot dir f d = Some (Inl e, d')"
  shows "e = - EIO \<or> e = - ENOSPC"
proof (cases "first_cluster (meta_of dir f) = 0")
  case True
  obtain res d1 where "slot_in (root_lbas f) d = (res, d1)" by (cases "slot_in (root_lbas f) d")
  then show ?thesis using assms True slot_in_error
    by (auto simp: fat_find_free_dirent_slot_def split: sum.splits option.splits simp del: EIO_def ENOSPC_def)
next
  case False
  with assms obtain res l d1 where "slot_chain f (first_cluster (meta_of dir f)) (first_cluster (meta_of dir f)) d = Some (res, l, d1)"
    by (auto simp: fat_find_free_dirent_slot_def Let_def bind_eq_Some_conv)
  then show ?thesis using assms False slot_chain_error
    by (auto simp: fat_find_free_dirent_slot_def Let_def split: sum.splits option.splits prod.splits if_splits simp del: EIO_def ENOSPC_def)
qed

section \<open>Properties\<close>

definition demo_fat :: fat where
  "demo_fat = \<lparr>fat_mounted = True, bytes_per_sector = 512, sectors_per_cluster = 1, root_entry_count = 16, num_fats = 2,
     fat_size_16 = 1, first_fat_sector = 1, first_root_dir_sector = 3, root_dir_sectors = 1, first_data_sector = 4,
     fnode_pool = \<lambda>_. vnode_zero, meta_pool = \<lambda>_. \<lparr>first_cluster = 2, file_size = 100, dirent_lba = 3, dirent_offset = 0\<rparr>,
     fnode_count = 128, root_meta = meta_zero\<rparr>"

lemma demo_geom: "geom demo_fat 8" "valid_cluster demo_fat 8 2" "valid_cluster demo_fat 8 3"
  by (simp_all add: geom_def demo_fat_def valid_cluster_def in_chain_def cl_lba_def)

text \<open>A name in lower-case 8.3 form that is encoded into a directory entry is displayed again as
  exactly that name, so that a later lookup of the same string finds the entry.\<close>

theorem fat_name_roundtrip:
  assumes "short_name s"
  shows "length (fat_encode_83_name s) = 11 \<and> fat_decode_83_name (fat_encode_83_name s @ rest) = s"
  using decode_encode [OF assms] encode_length by blast

theorem fat_name_roundtrip_witness:
  "fat_decode_83_name (fat_encode_83_name ''hello.txt'' @ [0x20]) = ''hello.txt''"
proof -
  have "short_name ''hello.txt''" by (simp add: short_name_def name_char_def)
  from fat_name_roundtrip [OF this, of "[0x20]"] show ?thesis by simp
qed

text \<open>Writing the entry of a cluster in the file allocation table writes it in every copy of the
  table: the copies agree on the new value, every other entry of every copy is unchanged, no
  sector of the data area is touched, and the next walk reads the new value.\<close>

theorem fat_entry_update_correct:
  assumes "ready d0 S n d" "geom f n" "valid_cluster f n c"
  shows "\<exists>S' d'. ready d0 S' n (fat_write_fat_entry f c v d) \<and>
    (\<forall>k c'. k < num_fats f \<longrightarrow> valid_cluster f n c' \<longrightarrow> fat_ent S' f k c' = (if c' = c then v mod 65536 else fat_ent S f k c')) \<and>
    (\<forall>i \<ge> first_data_sector f. S' i = S i) \<and>
    fat_next_cluster f c (fat_write_fat_entry f c v d) = (v mod 65536, d')"
proof -
  obtain S' where S': "ready d0 S' n (fat_write_fat_entry f c v d)"
    "\<forall>k c'. k < num_fats f \<longrightarrow> valid_cluster f n c' \<longrightarrow> fat_ent S' f k c' = (if c' = c then v mod 65536 else fat_ent S f k c')"
    "\<forall>i \<ge> first_data_sector f. S' i = S i" using write_entry_ready [OF assms, of v] by blast
  have "fat_ent S' f 0 c = v mod 65536" using S'(2) assms(2,3) by (simp add: geom_def)
  then show ?thesis using next_cluster_ready [OF S'(1) assms(2,3)] S' by metis
qed

theorem fat_entry_update_correct_witness:
  "\<exists>d'. fat_next_cluster demo_fat 2 (fat_write_fat_entry demo_fat 2 3 demo_disk) = (3, d')"
proof -
  from fat_entry_update_correct [OF demo_ready demo_geom(1,2), of 3] obtain d' where
    "fat_next_cluster demo_fat 2 (fat_write_fat_entry demo_fat 2 3 demo_disk) = (3 mod 65536, d')" by blast
  then show ?thesis by simp
qed

text \<open>C18. Reading a file of the FAT volume returns, and gives exactly the bytes asked for: the clusters
  of the file's chain one after the other, cut to the file's size, from the offset on. The read
  crosses sector and cluster boundaries, stops at the end of the file and changes no sector.\<close>

theorem fat_file_read_correct:
  assumes "ready d0 S n d" "geom f n" "chain_ok S f n cs" "cs \<noteq> []" "first_cluster (meta_of p f) = hd cs"
    "file_size (meta_of p f) \<le> length cs * csz f"
  shows "\<exists>d'. fat_file_read p count offset (d, f) =
      Some (take count (drop offset (take (file_size (meta_of p f)) (chain_data S f cs))), d', f) \<and> ready d0 S n d'"
  using file_read_ready [OF assms] .

theorem fat_file_read_correct_witness:
  "\<exists>d'. fat_file_read (VFat 0) 10 95 (demo_disk, demo_fat) = Some (replicate 5 0, d', demo_fat)"
proof -
  have "\<exists>d'. fat_file_read (VFat 0) 10 95 (demo_disk, demo_fat) =
      Some (take 10 (drop 95 (take (file_size (meta_of (VFat 0) demo_fat)) (chain_data (\<lambda>_. replicate 512 0) demo_fat [2]))), d', demo_fat) \<and>
      ready demo_drive (\<lambda>_. replicate 512 0) 8 d'"
    by (rule fat_file_read_correct [OF demo_ready demo_geom(1)])
      (use demo_geom(2) in \<open>simp_all add: demo_fat_def meta_of_def\<close>)
  then show ?thesis by (auto simp: demo_fat_def meta_of_def chain_data_def cluster_data_def sectors_def cl_lba_def)
qed



end
