(* ===== verification/Pmm.thy ===== *)
theory Pmm
  imports Prelude
begin

text \<open>
  The physical frame allocator, \<^verbatim>\<open>kernel/pmm.c\<close>: a static bitmap (one bit per 4 KiB
  frame, set = in use), a reference count per frame for copy-on-write sharing, three
  counters and a scan hint. The file's statics are the record \<open>pmm\<close>; every exported
  function is a function on it.

  Shown here: the bit-level operations refine a set of used frames; the counters always
  agree with the bitmap; a single-frame allocation finds a free frame whenever there is
  one and never hands out a used one; the skipping search for a contiguous run finds
  exactly the run a plain first-fit search finds; a frame is released by the last of its
  owners only; initialisation frees exactly the whole frames of usable regions.
\<close>

section \<open>State\<close>

abbreviation PAGE_SIZE :: nat where "PAGE_SIZE \<equiv> 4096"
definition MAX_PAGES :: nat where "MAX_PAGES = 4 * 1024 * 1024 * 1024 div PAGE_SIZE"
definition BITMAP_SIZE_BYTES :: nat where "BITMAP_SIZE_BYTES = MAX_PAGES div 8"

record pmm =
  bitmap :: "nat \<Rightarrow> u8"
  refcount :: "nat \<Rightarrow> u8"
  total_pages :: nat
  free_pages :: nat
  used_pages :: nat
  scan_hint :: nat

text \<open>The statics before \<open>pmm_init\<close>: the loader zeroes them.\<close>

definition pmm_static :: pmm where
  "pmm_static = \<lparr>bitmap = \<lambda>_. 0, refcount = \<lambda>_. 0, total_pages = 0, free_pages = 0,
     used_pages = 0, scan_hint = 0\<rparr>"

section \<open>Bitmap operations\<close>

definition bitmap_set :: "nat \<Rightarrow> pmm \<Rightarrow> pmm" where
  "bitmap_set i p = p\<lparr>bitmap := (bitmap p)(i div 8 := bitmap p (i div 8) OR push_bit (i mod 8) 1)\<rparr>"

definition bitmap_clear :: "nat \<Rightarrow> pmm \<Rightarrow> pmm" where
  "bitmap_clear i p =
     p\<lparr>bitmap := (bitmap p)(i div 8 := bitmap p (i div 8) AND NOT (push_bit (i mod 8) 1))\<rparr>"

definition bitmap_test :: "pmm \<Rightarrow> nat \<Rightarrow> bool" where
  "bitmap_test p i \<longleftrightarrow> drop_bit (i mod 8) (bitmap p (i div 8)) AND 1 \<noteq> 0"

section \<open>Initialisation from the boot memory map\<close>

record limine_memmap_entry =
  me_base :: nat
  me_length :: nat
  me_type :: nat

definition LIMINE_MEMMAP_USABLE :: nat where [simp]: "LIMINE_MEMMAP_USABLE = 0"

definition wrap64 :: "nat \<Rightarrow> nat" where
  "wrap64 n = n mod 2 ^ 64"

text \<open>\<^verbatim>\<open>(x + PAGE_SIZE - 1) & ~(PAGE_SIZE - 1)\<close> and \<^verbatim>\<open>x & ~(PAGE_SIZE - 1)\<close> on 64-bit values.\<close>

definition page_up :: "nat \<Rightarrow> nat" where
  "page_up x = wrap64 (x + (PAGE_SIZE - 1)) div PAGE_SIZE * PAGE_SIZE"

definition page_down :: "nat \<Rightarrow> nat" where
  "page_down x = wrap64 x div PAGE_SIZE * PAGE_SIZE"

function mark_free_loop :: "nat \<Rightarrow> nat \<Rightarrow> pmm \<Rightarrow> pmm" where
  "mark_free_loop addr endp p =
     (if addr < endp then
        let idx = addr div PAGE_SIZE in
        if idx \<ge> MAX_PAGES then p
        else mark_free_loop (addr + PAGE_SIZE) endp
               (if bitmap_test p idx
                then (bitmap_clear idx p)\<lparr>free_pages := free_pages p + 1\<rparr> else p)
      else p)"
  by pat_completeness auto
termination
  by (relation "measure (\<lambda>(addr, endp, p). endp - addr)") auto

declare mark_free_loop.simps [simp del]

definition mark_region_free :: "nat \<Rightarrow> nat \<Rightarrow> pmm \<Rightarrow> pmm" where
  "mark_region_free base len p = mark_free_loop (page_up base) (page_down (base + len)) p"

fun init_entries :: "limine_memmap_entry list \<Rightarrow> nat \<Rightarrow> pmm \<Rightarrow> nat \<times> pmm" where
  "init_entries [] highest p = (highest, p)"
| "init_entries (e # es) highest p =
     (let endp = wrap64 (me_base e + me_length e);
          highest' = (if endp > highest then endp else highest);
          p' = (if me_type e = LIMINE_MEMMAP_USABLE
                then mark_region_free (me_base e) (me_length e) p else p)
      in init_entries es highest' p')"

definition pmm_init :: "limine_memmap_entry list \<Rightarrow> pmm \<Rightarrow> pmm" where
  "pmm_init es p =
     (let p0 = p\<lparr>bitmap := \<lambda>b. if b < BITMAP_SIZE_BYTES then 0xFF else bitmap p b\<rparr>;
          (highest, p1) = init_entries es 0 p0;
          total = (if highest div PAGE_SIZE > MAX_PAGES then MAX_PAGES else highest div PAGE_SIZE)
      in p1\<lparr>total_pages := total, used_pages := total - free_pages p1\<rparr>)"

section \<open>Allocation and release\<close>

text \<open>The body both scans of \<open>pmm_alloc_page\<close> run at the frame they find.\<close>

definition take_page :: "nat \<Rightarrow> pmm \<Rightarrow> nat \<times> pmm" where
  "take_page idx p =
     (idx * PAGE_SIZE,
      (bitmap_set idx p)\<lparr>free_pages := free_pages p - 1, used_pages := used_pages p + 1,
        scan_hint := idx + 1, refcount := (refcount p)(idx := 1)\<rparr>)"

definition pmm_alloc_page :: "pmm \<Rightarrow> nat \<times> pmm" where
  "pmm_alloc_page p =
     (case scan_up (\<lambda>i. \<not> bitmap_test p i) (scan_hint p) (total_pages p) of
        Some idx \<Rightarrow> take_page idx p
      | None \<Rightarrow>
          (case scan_up (\<lambda>i. \<not> bitmap_test p i) 0 (scan_hint p) of
             Some idx \<Rightarrow> take_page idx p
           | None \<Rightarrow> (0, p)))"

text \<open>The run length from \<open>start\<close>: the value of \<open>j\<close> after the inner loop.\<close>

definition run_break :: "pmm \<Rightarrow> nat \<Rightarrow> nat \<Rightarrow> nat" where
  "run_break p start count =
     (case scan_up (\<lambda>j. bitmap_test p (start + j)) 0 count of Some j \<Rightarrow> j | None \<Rightarrow> count)"

fun set_run :: "nat \<Rightarrow> nat \<Rightarrow> pmm \<Rightarrow> pmm" where
  "set_run start 0 p = p"
| "set_run start (Suc n) p =
     (let q = set_run start n p
      in (bitmap_set (start + n) q)\<lparr>refcount := (refcount q)(start + n := 1)\<rparr>)"

text \<open>The outer loop: a run that breaks at \<open>j\<close> resumes past the used frame.\<close>

function find_run :: "pmm \<Rightarrow> nat \<Rightarrow> nat \<Rightarrow> nat option" where
  "find_run p count start =
     (if start + count \<le> total_pages p then
        let j = run_break p start count in
        if j = count then Some start else find_run p count (start + j + 1)
      else None)"
  by pat_completeness auto
termination
  by (relation "measure (\<lambda>(p, count, start). Suc (total_pages p) - start)") auto

declare find_run.simps [simp del]

definition pmm_alloc_pages :: "nat \<Rightarrow> pmm \<Rightarrow> nat \<times> pmm" where
  "pmm_alloc_pages count p =
     (if count = 0 \<or> count > total_pages p then (0, p)
      else case find_run p count 0 of
             None \<Rightarrow> (0, p)
           | Some start \<Rightarrow>
               (start * PAGE_SIZE,
                (set_run start count p)\<lparr>free_pages := free_pages p - count,
                   used_pages := used_pages p + count\<rparr>))"

definition pmm_free_page :: "nat \<Rightarrow> pmm \<Rightarrow> pmm" where
  "pmm_free_page phys p =
     (let idx = phys div PAGE_SIZE in
      if idx \<ge> total_pages p then p
      else if \<not> bitmap_test p idx then p
      else if refcount p idx > 1 then p\<lparr>refcount := (refcount p)(idx := refcount p idx - 1)\<rparr>
      else (bitmap_clear idx p)\<lparr>refcount := (refcount p)(idx := 0),
             free_pages := free_pages p + 1, used_pages := used_pages p - 1,
             scan_hint := (if idx < scan_hint p then idx else scan_hint p)\<rparr>)"

definition pmm_page_ref :: "nat \<Rightarrow> pmm \<Rightarrow> pmm" where
  "pmm_page_ref phys p =
     (let idx = phys div PAGE_SIZE in
      if idx \<ge> total_pages p then p
      else if \<not> bitmap_test p idx then p
      else p\<lparr>refcount := (refcount p)(idx := refcount p idx + 1)\<rparr>)"

definition pmm_page_refcount :: "nat \<Rightarrow> pmm \<Rightarrow> u8" where
  "pmm_page_refcount phys p =
     (let idx = phys div PAGE_SIZE in if idx \<ge> total_pages p then 0 else refcount p idx)"

fun pmm_free_pages_from :: "nat \<Rightarrow> nat \<Rightarrow> nat \<Rightarrow> pmm \<Rightarrow> pmm" where
  "pmm_free_pages_from i 0 phys p = p"
| "pmm_free_pages_from i (Suc k) phys p =
     pmm_free_pages_from (Suc i) k phys (pmm_free_page (phys + i * PAGE_SIZE) p)"

definition pmm_free_pages :: "nat \<Rightarrow> nat \<Rightarrow> pmm \<Rightarrow> pmm" where
  "pmm_free_pages phys count p = pmm_free_pages_from 0 count phys p"

section \<open>Specification\<close>

text \<open>The frames in use, and the invariant: counters agree with the bitmap, a free frame
  has no owner, frame 0 is never free (address 0 is the failure value).\<close>

definition used_frames :: "pmm \<Rightarrow> nat set" where
  "used_frames p = {i. i < total_pages p \<and> bitmap_test p i}"

definition free_frames :: "pmm \<Rightarrow> nat set" where
  "free_frames p = {i. i < total_pages p \<and> \<not> bitmap_test p i}"

definition pmm_inv :: "pmm \<Rightarrow> bool" where
  "pmm_inv p \<longleftrightarrow> total_pages p \<le> MAX_PAGES \<and> scan_hint p \<le> total_pages p \<and>
     free_pages p = card (free_frames p) \<and> used_pages p = total_pages p - free_pages p \<and>
     (\<forall>i \<in> free_frames p. refcount p i = 0) \<and> 0 \<notin> free_frames p"

text \<open>Plain first fit, the specification of the skipping search.\<close>

definition free_run :: "pmm \<Rightarrow> nat \<Rightarrow> nat \<Rightarrow> bool" where
  "free_run p count start \<longleftrightarrow> (\<forall>j < count. \<not> bitmap_test p (start + j))"

definition first_fit :: "pmm \<Rightarrow> nat \<Rightarrow> nat option" where
  "first_fit p count = scan_up (free_run p count) 0 (Suc (total_pages p) - count)"

section \<open>The bitmap refines a set\<close>

lemma bitmap_test_bit: "bitmap_test p i \<longleftrightarrow> bit (bitmap p (i div 8)) (i mod 8)"
  by (simp add: bitmap_test_def and_one_eq odd_iff_mod_2_eq_one bit_iff_odd_drop_bit)

lemma test_set [simp]: "bitmap_test (bitmap_set i p) j \<longleftrightarrow> i = j \<or> bitmap_test p j"
proof (cases "i div 8 = j div 8")
  case True
  have eq: "i = j \<longleftrightarrow> i mod 8 = j mod 8" using True by (metis div_mult_mod_eq)
  have lt: "j mod 8 < LENGTH(8)" by simp
  show ?thesis using True lt
    by (auto simp: bitmap_test_bit bitmap_set_def bit_simps eq)
next
  case False
  then show ?thesis by (auto simp: bitmap_test_bit bitmap_set_def)
qed

lemma test_clear [simp]: "bitmap_test (bitmap_clear i p) j \<longleftrightarrow> i \<noteq> j \<and> bitmap_test p j"
proof (cases "i div 8 = j div 8")
  case True
  have eq: "i = j \<longleftrightarrow> i mod 8 = j mod 8" using True by (metis div_mult_mod_eq)
  have lt: "j mod 8 < LENGTH(8)" by simp
  show ?thesis using True lt
    by (auto simp: bitmap_test_bit bitmap_clear_def bit_simps eq)
next
  case False
  then show ?thesis by (auto simp: bitmap_test_bit bitmap_clear_def)
qed

lemma bitmap_test_upd [simp]:
  "bitmap_test (p\<lparr>refcount := r\<rparr>) i = bitmap_test p i"
  "bitmap_test (p\<lparr>total_pages := n\<rparr>) i = bitmap_test p i"
  "bitmap_test (p\<lparr>free_pages := n\<rparr>) i = bitmap_test p i"
  "bitmap_test (p\<lparr>used_pages := n\<rparr>) i = bitmap_test p i"
  "bitmap_test (p\<lparr>scan_hint := n\<rparr>) i = bitmap_test p i"
  by (simp_all add: bitmap_test_def)

lemma bitmap_set_fields [simp]:
  "refcount (bitmap_set i p) = refcount p" "total_pages (bitmap_set i p) = total_pages p"
  "free_pages (bitmap_set i p) = free_pages p" "used_pages (bitmap_set i p) = used_pages p"
  "scan_hint (bitmap_set i p) = scan_hint p"
  by (simp_all add: bitmap_set_def)

lemma bitmap_clear_fields [simp]:
  "refcount (bitmap_clear i p) = refcount p" "total_pages (bitmap_clear i p) = total_pages p"
  "free_pages (bitmap_clear i p) = free_pages p" "used_pages (bitmap_clear i p) = used_pages p"
  "scan_hint (bitmap_clear i p) = scan_hint p"
  by (simp_all add: bitmap_clear_def)

lemma set_run_fields [simp]:
  "total_pages (set_run s n p) = total_pages p" "free_pages (set_run s n p) = free_pages p"
  "used_pages (set_run s n p) = used_pages p" "scan_hint (set_run s n p) = scan_hint p"
  by (induction n) (simp_all add: Let_def)

lemma set_run_test [simp]:
  "bitmap_test (set_run s n p) i \<longleftrightarrow> s \<le> i \<and> i < s + n \<or> bitmap_test p i"
  by (induction n) (auto simp: Let_def)

lemma set_run_refcount [simp]:
  "refcount (set_run s n p) i = (if s \<le> i \<and> i < s + n then 1 else refcount p i)"
  by (induction n) (auto simp: Let_def)

lemma finite_free_frames [simp]: "finite (free_frames p)"
  by (simp add: free_frames_def)

lemma card_free_frames_le: "card (free_frames p) \<le> total_pages p"
  using card_mono [of "{..<total_pages p}" "free_frames p"] by (auto simp: free_frames_def)

section \<open>Single frames\<close>

lemma take_page_frames:
  assumes "take_page i p = (a, q)"
  shows "a = i * PAGE_SIZE" and "free_frames q = free_frames p - {i}"
    and "bitmap_test q j \<longleftrightarrow> j = i \<or> bitmap_test p j" and "total_pages q = total_pages p"
    and "refcount q j = (if j = i then 1 else refcount p j)"
  using assms by (auto simp: take_page_def free_frames_def)

lemma take_page_inv:
  assumes "pmm_inv p" "i \<in> free_frames p" "take_page i p = (a, q)"
  shows "pmm_inv q"
proof -
  have "card (free_frames p - {i}) = card (free_frames p) - 1" and "card (free_frames p) > 0"
    using assms(2) by (auto simp: card_gt_0_iff)
  moreover have "i < total_pages p" using assms(2) by (simp add: free_frames_def)
  ultimately show ?thesis
    using assms take_page_frames [OF assms(3)] card_free_frames_le [of p]
    by (auto simp: pmm_inv_def take_page_def)
qed

text \<open>The two scans of \<open>pmm_alloc_page\<close> together cover the whole range.\<close>

lemma alloc_page_cases:
  assumes "pmm_inv p"
  obtains (full) "free_frames p = {}" "pmm_alloc_page p = (0, p)"
  | (take) i where "i \<in> free_frames p" "pmm_alloc_page p = take_page i p"
proof (cases "scan_up (\<lambda>i. \<not> bitmap_test p i) (scan_hint p) (total_pages p)")
  case (Some i)
  then show ?thesis
    using scan_up_SomeD [OF Some] by (intro take [of i]) (auto simp: free_frames_def pmm_alloc_page_def)
next
  case hi: None
  show ?thesis
  proof (cases "scan_up (\<lambda>i. \<not> bitmap_test p i) 0 (scan_hint p)")
    case (Some i)
    then show ?thesis
      using scan_up_SomeD [OF Some] hi assms
      by (intro take [of i]) (auto simp: free_frames_def pmm_alloc_page_def pmm_inv_def)
  next
    case None
    with hi have "free_frames p = {}"
      by (auto simp: free_frames_def scan_up_None_iff) (meson leI zero_le)
    with hi None show ?thesis by (intro full) (auto simp: pmm_alloc_page_def)
  qed
qed

lemma alloc_page_inv: "pmm_inv p \<Longrightarrow> pmm_alloc_page p = (a, q) \<Longrightarrow> pmm_inv q"
  by (cases rule: alloc_page_cases [of p]) (auto intro: take_page_inv)

lemma alloc_page_total [simp]: "pmm_alloc_page p = (a, q) \<Longrightarrow> total_pages q = total_pages p"
  by (auto simp: pmm_alloc_page_def take_page_def split: option.splits)

lemma alloc_page_fresh:
  assumes "pmm_inv p" "pmm_alloc_page p = (a, q)" "a \<noteq> 0"
  shows "a mod PAGE_SIZE = 0" "a div PAGE_SIZE \<in> free_frames p"
    "free_frames q = free_frames p - {a div PAGE_SIZE}"
    "used_frames q = insert (a div PAGE_SIZE) (used_frames p)"
    "refcount q i = (if i = a div PAGE_SIZE then 1 else refcount p i)"
proof -
  from assms obtain j where j: "j \<in> free_frames p" and t: "take_page j p = (a, q)"
    by (cases rule: alloc_page_cases [of p]) auto
  note f = take_page_frames [OF t]
  show "a mod PAGE_SIZE = 0" using f by simp
  show "a div PAGE_SIZE \<in> free_frames p" using f j by simp
  show "free_frames q = free_frames p - {a div PAGE_SIZE}" using f by simp
  show "used_frames q = insert (a div PAGE_SIZE) (used_frames p)"
    using f j by (auto simp: used_frames_def free_frames_def)
  show "refcount q i = (if i = a div PAGE_SIZE then 1 else refcount p i)" using f by simp
qed

lemma alloc_page_fails_iff:
  assumes "pmm_inv p"
  shows "fst (pmm_alloc_page p) = 0 \<longleftrightarrow> free_frames p = {}"
  using assms
proof (cases rule: alloc_page_cases)
  case full
  then show ?thesis by simp
next
  case (take i)
  moreover have "i \<noteq> 0" using assms take by (metis pmm_inv_def)
  ultimately show ?thesis by (auto simp: take_page_def)
qed

lemma alloc_page_fail_same: "pmm_inv p \<Longrightarrow> pmm_alloc_page p = (0, q) \<Longrightarrow> q = p"
  using alloc_page_fails_iff [of p] by (auto elim: alloc_page_cases)

section \<open>Contiguous runs\<close>

lemma run_break_full_iff: "run_break p s n = n \<longleftrightarrow> free_run p n s"
proof (cases "scan_up (\<lambda>j. bitmap_test p (s + j)) 0 n")
  case None
  then have "free_run p n s" by (auto simp: free_run_def scan_up_None_iff)
  with None show ?thesis by (simp add: run_break_def)
next
  case (Some j)
  then show ?thesis using scan_up_SomeD [OF Some] by (auto simp: run_break_def free_run_def)
qed

lemma run_break_used: "run_break p s n \<noteq> n \<Longrightarrow> run_break p s n < n \<and> bitmap_test p (s + run_break p s n)"
  by (auto simp: run_break_def dest: scan_up_SomeD split: option.splits)

lemma find_run_scan: "find_run p n s = scan_up (free_run p n) s (Suc (total_pages p) - n)"
proof (induction p n s rule: find_run.induct)
  case (1 p n s)
  let ?j = "run_break p s n" and ?hi = "Suc (total_pages p) - n"
  show ?case
  proof (cases "s + n \<le> total_pages p")
    case False
    then have "\<not> s < ?hi" by simp
    with False show ?thesis by (simp add: find_run.simps [of p n s] scan_up.simps [of "free_run p n" s])
  next
    case in_range: True
    show ?thesis
    proof (cases "?j = n")
      case True
      then have "free_run p n s" by (simp add: run_break_full_iff)
      moreover have "s < ?hi" using in_range by simp
      ultimately show ?thesis using in_range True
        by (simp add: find_run.simps [of p n s] scan_up.simps [of "free_run p n" s])
    next
      case False
      note brk = run_break_used [OF False]
      have "\<not> free_run p n i" if "s \<le> i" "i < s + ?j + 1" for i
      proof -
        have "s + ?j = i + (s + ?j - i)" and "s + ?j - i < n" using that brk by auto
        with brk show ?thesis unfolding free_run_def by metis
      qed
      then have "scan_up (free_run p n) s ?hi = scan_up (free_run p n) (s + ?j + 1) ?hi"
        by (intro scan_up_skip) auto
      with in_range False 1 show ?thesis by (simp add: find_run.simps [of p n s] Let_def)
    qed
  qed
qed

lemma find_run_SomeD:
  assumes "find_run p n s = Some t"
  shows "s \<le> t" "t + n \<le> total_pages p" "free_run p n t"
  using scan_up_SomeD [OF assms [unfolded find_run_scan]] by auto

lemma alloc_pages_cases:
  obtains (fail) "pmm_alloc_pages n p = (0, p)" "n = 0 \<or> n > total_pages p \<or> first_fit p n = None"
  | (run) s where "0 < n" "first_fit p n = Some s" "s + n \<le> total_pages p" "free_run p n s"
      "pmm_alloc_pages n p = (s * PAGE_SIZE, (set_run s n p)\<lparr>free_pages := free_pages p - n,
         used_pages := used_pages p + n\<rparr>)"
proof (cases "n = 0 \<or> n > total_pages p \<or> first_fit p n = None")
  case True
  then show ?thesis
    by (intro fail) (auto simp: pmm_alloc_pages_def find_run_scan first_fit_def)
next
  case False
  then obtain s where s: "find_run p n 0 = Some s" by (auto simp: first_fit_def find_run_scan)
  with False show ?thesis
    using find_run_SomeD [OF s]
    by (intro run [of s]) (auto simp: pmm_alloc_pages_def find_run_scan first_fit_def)
qed

lemma free_frames_run:
  assumes "s + n \<le> total_pages p" "free_run p n s"
  shows "{s..<s + n} \<subseteq> free_frames p"
proof
  fix i assume "i \<in> {s..<s + n}"
  then have "i = s + (i - s)" "i - s < n" by auto
  with assms show "i \<in> free_frames p"
    unfolding free_run_def free_frames_def by (metis (mono_tags, lifting) add_less_cancel_left
      mem_Collect_eq order_less_le_trans)
qed

lemma alloc_pages_frames:
  assumes "pmm_alloc_pages n p = (a, q)" "a \<noteq> 0"
  shows "a mod PAGE_SIZE = 0" "{a div PAGE_SIZE..<a div PAGE_SIZE + n} \<subseteq> free_frames p"
    "free_frames q = free_frames p - {a div PAGE_SIZE..<a div PAGE_SIZE + n}"
    "\<And>i. refcount q i = (if i \<in> {a div PAGE_SIZE..<a div PAGE_SIZE + n} then 1 else refcount p i)"
    "0 < n" "total_pages q = total_pages p"
proof -
  from assms obtain s where s: "s + n \<le> total_pages p" "free_run p n s" "0 < n" "a = s * PAGE_SIZE"
    "q = (set_run s n p)\<lparr>free_pages := free_pages p - n, used_pages := used_pages p + n\<rparr>"
    by (cases rule: alloc_pages_cases [of n p]) auto
  then have s': "a div PAGE_SIZE = s" by simp
  show "a mod PAGE_SIZE = 0" using s by simp
  show "{a div PAGE_SIZE..<a div PAGE_SIZE + n} \<subseteq> free_frames p"
    using free_frames_run s s' by simp
  show "free_frames q = free_frames p - {a div PAGE_SIZE..<a div PAGE_SIZE + n}"
    using s s' by (auto simp: free_frames_def)
  show "refcount q i = (if i \<in> {a div PAGE_SIZE..<a div PAGE_SIZE + n} then 1 else refcount p i)" for i
    using s s' by simp
  show "0 < n" "total_pages q = total_pages p" using s by auto
qed

lemma alloc_pages_inv:
  assumes "pmm_inv p" "pmm_alloc_pages n p = (a, q)"
  shows "pmm_inv q"
proof (cases "a = 0")
  case True
  with assms show ?thesis
  proof (cases rule: alloc_pages_cases [of n p])
    case (run s)
    then have "s = 0" using True assms by auto
    with run free_frames_run [of s n p] have "0 \<in> free_frames p" by auto
    with assms show ?thesis by (simp add: pmm_inv_def)
  qed auto
next
  case False
  note f = alloc_pages_frames [OF assms(2) False]
  from False assms have q: "free_pages q = free_pages p - n" "used_pages q = used_pages p + n"
    "scan_hint q = scan_hint p"
    by (cases rule: alloc_pages_cases [of n p]; auto)+
  have "card (free_frames q) = card (free_frames p) - n"
    using f(2,3) by (simp add: card_Diff_subset)
  moreover have "n \<le> card (free_frames p)"
    using card_mono [OF finite_free_frames f(2)] by simp
  ultimately show ?thesis
    using assms f q card_free_frames_le [of p] by (auto simp: pmm_inv_def)
qed

section \<open>References and release\<close>

lemma page_ref_inv: "pmm_inv p \<Longrightarrow> pmm_inv (pmm_page_ref a p)"
  by (auto simp: pmm_inv_def pmm_page_ref_def free_frames_def Let_def)

lemma free_page_cases:
  obtains (ignored) "a div PAGE_SIZE \<notin> used_frames p" "pmm_free_page a p = p"
  | (shared) "a div PAGE_SIZE \<in> used_frames p" "1 < refcount p (a div PAGE_SIZE)"
      "pmm_free_page a p =
         p\<lparr>refcount := (refcount p)(a div PAGE_SIZE := refcount p (a div PAGE_SIZE) - 1)\<rparr>"
  | (last) "a div PAGE_SIZE \<in> used_frames p" "\<not> 1 < refcount p (a div PAGE_SIZE)"
      "pmm_free_page a p = (bitmap_clear (a div PAGE_SIZE) p)\<lparr>
         refcount := (refcount p)(a div PAGE_SIZE := 0),
         free_pages := free_pages p + 1, used_pages := used_pages p - 1,
         scan_hint := (if a div PAGE_SIZE < scan_hint p then a div PAGE_SIZE else scan_hint p)\<rparr>"
proof (cases "a div PAGE_SIZE \<in> used_frames p")
  case False
  show ?thesis by (rule ignored [OF False]) (use False in \<open>auto simp: pmm_free_page_def used_frames_def Let_def\<close>)
next
  case used: True
  show ?thesis
  proof (cases "1 < refcount p (a div PAGE_SIZE)")
    case True
    show ?thesis by (rule shared [OF used True]) (use used True in \<open>simp add: pmm_free_page_def used_frames_def Let_def\<close>)
  next
    case False
    show ?thesis by (rule last [OF used False]) (use used False in \<open>simp add: pmm_free_page_def used_frames_def Let_def\<close>)
  qed
qed

lemma free_page_inv:
  assumes "pmm_inv p" "PAGE_SIZE \<le> a"
  shows "pmm_inv (pmm_free_page a p)"
proof (cases rule: free_page_cases [of a p])
  case ignored
  then show ?thesis using assms by simp
next
  case shared
  then show ?thesis using assms(1) by (simp add: pmm_inv_def free_frames_def used_frames_def)
next
  case last
  let ?i = "a div PAGE_SIZE" and ?q = "pmm_free_page a p"
  have ff: "free_frames ?q = insert ?i (free_frames p)" and ni: "?i \<notin> free_frames p"
    using last(1) unfolding last(3) by (auto simp: free_frames_def used_frames_def)
  have "card (insert ?i (free_frames p)) = Suc (card (free_frames p))" using ni by simp
  moreover have "?i \<noteq> 0" using assms(2) by (simp add: div_greater_zero_iff)
  moreover have "card (insert ?i (free_frames p)) \<le> total_pages p"
    using card_free_frames_le [of ?q] unfolding ff by (simp add: last(3))
  ultimately show ?thesis
    using assms(1) unfolding pmm_inv_def ff by (auto simp: last(3))
qed

lemma free_page_total [simp]: "total_pages (pmm_free_page a p) = total_pages p"
  by (simp add: pmm_free_page_def Let_def)

lemma page_ref_total [simp]: "total_pages (pmm_page_ref a p) = total_pages p"
  by (simp add: pmm_page_ref_def Let_def)

lemma page_ref_used [simp]: "used_frames (pmm_page_ref a p) = used_frames p"
  by (auto simp: pmm_page_ref_def used_frames_def Let_def)

lemma page_ref_count:
  "refcount (pmm_page_ref a p) i =
     (if i = a div PAGE_SIZE \<and> i \<in> used_frames p then refcount p i + 1 else refcount p i)"
  by (auto simp: pmm_page_ref_def used_frames_def Let_def)

lemma free_page_used:
  "used_frames (pmm_free_page a p) =
     (if 1 < refcount p (a div PAGE_SIZE) then used_frames p else used_frames p - {a div PAGE_SIZE})"
  by (cases rule: free_page_cases [of a p]) (auto simp: used_frames_def)

lemma free_page_count:
  "refcount (pmm_free_page a p) i =
     (if i = a div PAGE_SIZE \<and> i \<in> used_frames p
      then (if 1 < refcount p i then refcount p i - 1 else 0) else refcount p i)"
  by (cases rule: free_page_cases [of a p]) auto

lemma free_pages_from_inv:
  "pmm_inv p \<Longrightarrow> PAGE_SIZE \<le> a \<Longrightarrow> pmm_inv (pmm_free_pages_from i k a p)"
  by (induction i k a p rule: pmm_free_pages_from.induct) (simp_all add: free_page_inv)

text \<open>The byte counter through \<open>k\<close> references and up to \<open>k\<close> releases.\<close>

lemma u8_gt_1: "m < 255 \<Longrightarrow> 1 < (of_nat (Suc m) :: u8) \<longleftrightarrow> 0 < m"
  unfolding word_less_nat_alt by (simp add: unat_of_nat del: of_nat_Suc)

lemma refs_count:
  assumes "a div PAGE_SIZE \<in> used_frames p" "refcount p (a div PAGE_SIZE) = 1"
  shows "used_frames ((pmm_page_ref a ^^ k) p) = used_frames p"
    and "refcount ((pmm_page_ref a ^^ k) p) (a div PAGE_SIZE) = of_nat (Suc k)"
proof -
  show u: "used_frames ((pmm_page_ref a ^^ k) p) = used_frames p" for k by (induction k) auto
  show "refcount ((pmm_page_ref a ^^ k) p) (a div PAGE_SIZE) = of_nat (Suc k)"
    by (induction k) (simp_all add: assms page_ref_count u)
qed

lemma frees_count:
  assumes "a div PAGE_SIZE \<in> used_frames p" "refcount p (a div PAGE_SIZE) = of_nat (Suc k)" "k < 255"
    and "j \<le> k"
  shows "used_frames ((pmm_free_page a ^^ j) p) = used_frames p"
    and "refcount ((pmm_free_page a ^^ j) p) (a div PAGE_SIZE) = of_nat (Suc (k - j))"
proof -
  have "used_frames ((pmm_free_page a ^^ j) p) = used_frames p \<and>
      refcount ((pmm_free_page a ^^ j) p) (a div PAGE_SIZE) = of_nat (Suc (k - j))"
    using assms(4)
  proof (induction j)
    case (Suc j)
    let ?r = "(pmm_free_page a ^^ j) p"
    have ih: "used_frames ?r = used_frames p" "refcount ?r (a div PAGE_SIZE) = of_nat (Suc (k - j))"
      using Suc by auto
    have gt: "1 < refcount ?r (a div PAGE_SIZE)"
      unfolding ih using u8_gt_1 [of "k - j"] Suc.prems assms(3) by simp
    have "refcount ?r (a div PAGE_SIZE) - 1 = of_nat (Suc (k - Suc j))"
      unfolding ih using Suc.prems by (simp add: Suc_diff_Suc [symmetric])
    with gt ih assms(1) show ?case by (simp add: free_page_used free_page_count)
  qed (use assms in simp)
  then show "used_frames ((pmm_free_page a ^^ j) p) = used_frames p"
    "refcount ((pmm_free_page a ^^ j) p) (a div PAGE_SIZE) = of_nat (Suc (k - j))" by auto
qed

section \<open>Initialisation\<close>

lemma mark_free_loop_fields [simp]:
  "refcount (mark_free_loop a e p) = refcount p \<and> total_pages (mark_free_loop a e p) = total_pages p \<and>
   used_pages (mark_free_loop a e p) = used_pages p \<and> scan_hint (mark_free_loop a e p) = scan_hint p"
proof (induction a e p rule: mark_free_loop.induct)
  case (1 a e p)
  then show ?case by (subst (1 2 3 4) mark_free_loop.simps) (auto simp: Let_def)
qed

lemma page_index_iff:
  fixes a :: nat
  assumes "a mod PAGE_SIZE = 0"
  shows "i = a div PAGE_SIZE \<longleftrightarrow> a \<le> i * PAGE_SIZE \<and> \<not> a + PAGE_SIZE \<le> i * PAGE_SIZE"
proof -
  from assms obtain k where "a = k * PAGE_SIZE" by (metis dvd_def mod_0_imp_dvd mult.commute)
  then show ?thesis by auto
qed

lemma page_round_up_le: "(b + 4095) div PAGE_SIZE * PAGE_SIZE \<le> i * PAGE_SIZE \<longleftrightarrow> b \<le> i * PAGE_SIZE"
  using div_less_iff_less_mult [of PAGE_SIZE "b + 4095" "Suc i"] by auto

lemma page_round_down_gt: "i * PAGE_SIZE < x div PAGE_SIZE * PAGE_SIZE \<longleftrightarrow> (i + 1) * PAGE_SIZE \<le> x"
  using less_eq_div_iff_mult_less_eq [of PAGE_SIZE "Suc i" x] by auto

lemma mark_free_loop_test:
  assumes "a mod PAGE_SIZE = 0"
  shows "bitmap_test (mark_free_loop a e p) i \<longleftrightarrow>
    bitmap_test p i \<and> \<not> (a \<le> i * PAGE_SIZE \<and> i * PAGE_SIZE < e \<and> i < MAX_PAGES)"
  using assms
proof (induction a e p rule: mark_free_loop.induct)
  case (1 a e p)
  let ?q = "if bitmap_test p (a div PAGE_SIZE)
    then (bitmap_clear (a div PAGE_SIZE) p)\<lparr>free_pages := free_pages p + 1\<rparr> else p"
  show ?case
  proof (cases "a < e \<and> a div PAGE_SIZE < MAX_PAGES")
    case True
    then have eq: "mark_free_loop a e p = mark_free_loop (a + PAGE_SIZE) e ?q"
      by (subst mark_free_loop.simps) (simp add: Let_def)
    have ih: "bitmap_test (mark_free_loop (a + PAGE_SIZE) e ?q) i \<longleftrightarrow>
        bitmap_test ?q i \<and> \<not> (a + PAGE_SIZE \<le> i * PAGE_SIZE \<and> i * PAGE_SIZE < e \<and> i < MAX_PAGES)"
      using True "1.prems" by (intro "1.IH") auto
    have here: "i = a div PAGE_SIZE \<longleftrightarrow> a \<le> i * PAGE_SIZE \<and> \<not> a + PAGE_SIZE \<le> i * PAGE_SIZE"
      using "1.prems" by (rule page_index_iff)
    have "a div PAGE_SIZE * PAGE_SIZE = a" using "1.prems" by (metis add.right_neutral div_mult_mod_eq)
    then have "i = a div PAGE_SIZE \<Longrightarrow> i * PAGE_SIZE = a" by simp
    with True here show ?thesis unfolding eq ih by (cases "i = a div PAGE_SIZE") auto
  next
    case False
    then have "mark_free_loop a e p = p" by (subst mark_free_loop.simps) (auto simp: Let_def)
    moreover have "\<not> (a \<le> i * PAGE_SIZE \<and> i * PAGE_SIZE < e \<and> i < MAX_PAGES)"
      using False "1.prems" by (auto simp: MAX_PAGES_def)
    ultimately show ?thesis by simp
  qed
qed

definition clear_below_max :: "pmm \<Rightarrow> nat set" where
  "clear_below_max p = {i. i < MAX_PAGES \<and> \<not> bitmap_test p i}"

lemma mark_free_loop_count:
  assumes "free_pages p = card (clear_below_max p)"
  shows "free_pages (mark_free_loop a e p) = card (clear_below_max (mark_free_loop a e p))"
  using assms
proof (induction a e p rule: mark_free_loop.induct)
  case (1 a e p)
  let ?i = "a div PAGE_SIZE"
  let ?q = "if bitmap_test p ?i then (bitmap_clear ?i p)\<lparr>free_pages := free_pages p + 1\<rparr> else p"
  show ?case
  proof (cases "a < e \<and> ?i < MAX_PAGES")
    case True
    have "clear_below_max ?q = insert ?i (clear_below_max p)"
      using True by (auto simp: clear_below_max_def)
    moreover have "finite (clear_below_max p)" by (simp add: clear_below_max_def)
    ultimately have "free_pages ?q = card (clear_below_max ?q)"
      using True "1.prems" by (auto simp: clear_below_max_def card_insert_if)
    with True "1.IH" have "free_pages (mark_free_loop (a + PAGE_SIZE) e ?q) =
        card (clear_below_max (mark_free_loop (a + PAGE_SIZE) e ?q))" by simp
    with True show ?thesis by (simp add: mark_free_loop.simps [of a e p] Let_def)
  next
    case False
    then have "mark_free_loop a e p = p" by (subst mark_free_loop.simps) (auto simp: Let_def)
    with "1.prems" show ?thesis by simp
  qed
qed

text \<open>An entry of the memory map whose arithmetic stays below \<open>2^64\<close>, and the frames it
  covers as a whole.\<close>

definition entry_ok :: "limine_memmap_entry \<Rightarrow> bool" where
  "entry_ok e \<longleftrightarrow> me_base e + me_length e + PAGE_SIZE < 2 ^ 64"

definition usable_frame :: "limine_memmap_entry list \<Rightarrow> nat \<Rightarrow> bool" where
  "usable_frame es i \<longleftrightarrow> (\<exists>e \<in> set es. me_type e = LIMINE_MEMMAP_USABLE \<and>
     me_base e \<le> i * PAGE_SIZE \<and> (i + 1) * PAGE_SIZE \<le> me_base e + me_length e)"

lemma mark_region_test:
  assumes "base + len + PAGE_SIZE < 2 ^ 64"
  shows "bitmap_test (mark_region_free base len p) i \<longleftrightarrow> bitmap_test p i \<and>
    \<not> (base \<le> i * PAGE_SIZE \<and> (i + 1) * PAGE_SIZE \<le> base + len \<and> i < MAX_PAGES)"
proof -
  have up: "page_up base = (base + 4095) div PAGE_SIZE * PAGE_SIZE"
    and down: "page_down (base + len) = (base + len) div PAGE_SIZE * PAGE_SIZE"
    using assms by (simp_all add: page_up_def page_down_def wrap64_def)
  have "page_up base \<le> i * PAGE_SIZE \<longleftrightarrow> base \<le> i * PAGE_SIZE" unfolding up by (rule page_round_up_le)
  moreover have "i * PAGE_SIZE < page_down (base + len) \<longleftrightarrow> (i + 1) * PAGE_SIZE \<le> base + len"
    unfolding down by (rule page_round_down_gt)
  ultimately show ?thesis
    by (simp add: mark_region_free_def mark_free_loop_test up)
qed

lemma init_entries_count:
  "free_pages p = card (clear_below_max p) \<Longrightarrow>
   free_pages (snd (init_entries es h p)) = card (clear_below_max (snd (init_entries es h p)))"
  by (induction es arbitrary: h p) (simp_all add: Let_def mark_region_free_def mark_free_loop_count)

lemma init_entries_fields [simp]:
  "refcount (snd (init_entries es h p)) = refcount p"
  "scan_hint (snd (init_entries es h p)) = scan_hint p"
  by (induction es arbitrary: h p) (simp_all add: Let_def mark_region_free_def)

lemma init_entries_test:
  assumes "\<forall>e \<in> set es. entry_ok e"
  shows "bitmap_test (snd (init_entries es h p)) i \<longleftrightarrow>
    bitmap_test p i \<and> \<not> (usable_frame es i \<and> i < MAX_PAGES)"
  using assms
proof (induction es arbitrary: h p)
  case Nil
  then show ?case by (simp add: usable_frame_def)
next
  case (Cons e es)
  have "usable_frame (e # es) i \<longleftrightarrow> usable_frame es i \<or> me_type e = LIMINE_MEMMAP_USABLE \<and>
      me_base e \<le> i * PAGE_SIZE \<and> (i + 1) * PAGE_SIZE \<le> me_base e + me_length e"
    by (auto simp: usable_frame_def)
  moreover have "me_base e + me_length e + PAGE_SIZE < 2 ^ 64"
    using Cons.prems by (simp add: entry_ok_def)
  ultimately show ?case
    using Cons by (auto simp: Let_def mark_region_test)
qed

lemma init_entries_highest:
  assumes "\<forall>e \<in> set es. entry_ok e"
  shows "h \<le> fst (init_entries es h p)"
    and "e \<in> set es \<Longrightarrow> me_base e + me_length e \<le> fst (init_entries es h p)"
proof -
  have mono: "h \<le> fst (init_entries es h p)" for es h p
  proof (induction es arbitrary: h p)
    case (Cons e es)
    let ?h = "if wrap64 (me_base e + me_length e) > h then wrap64 (me_base e + me_length e) else h"
    let ?p = "if me_type e = LIMINE_MEMMAP_USABLE then mark_region_free (me_base e) (me_length e) p else p"
    have "h \<le> ?h" by simp
    also have "?h \<le> fst (init_entries es ?h ?p)" by (rule Cons.IH)
    finally show ?case by (simp only: init_entries.simps Let_def)
  qed simp
  show "h \<le> fst (init_entries es h p)" by (rule mono)
  show "me_base e + me_length e \<le> fst (init_entries es h p)" if "e \<in> set es"
    using assms that
  proof (induction es arbitrary: h p)
    case (Cons x es)
    let ?h = "if wrap64 (me_base x + me_length x) > h then wrap64 (me_base x + me_length x) else h"
    let ?p = "if me_type x = LIMINE_MEMMAP_USABLE then mark_region_free (me_base x) (me_length x) p else p"
    have eq: "init_entries (x # es) h p = init_entries es ?h ?p" by (simp add: Let_def)
    show ?case
    proof (cases "e = x")
      case True
      have "me_base x + me_length x \<le> ?h"
        using Cons.prems True by (simp add: entry_ok_def wrap64_def)
      from order.trans [OF this mono [of ?h es ?p]] True show ?thesis unfolding eq by simp
    next
      case False
      with Cons show ?thesis unfolding eq by simp
    qed
  qed simp
qed

lemma init_bitmap_all_set:
  "i < MAX_PAGES \<Longrightarrow>
   bitmap_test (p\<lparr>bitmap := \<lambda>b. if b < BITMAP_SIZE_BYTES then 0xFF else bitmap p b\<rparr>) i"
proof -
  assume "i < MAX_PAGES"
  then have "i div 8 < BITMAP_SIZE_BYTES" by (simp add: MAX_PAGES_def BITMAP_SIZE_BYTES_def)
  moreover have "bit (0xFF :: u8) k" if "k < 8" for k
  proof -
    have "(0xFF :: u8) = - 1" by simp
    with that show ?thesis by (simp only: bit_minus_1_iff) simp
  qed
  ultimately show ?thesis by (simp add: bitmap_test_bit)
qed

lemma pmm_init_static:
  assumes "\<forall>e \<in> set es. entry_ok e"
  defines "q \<equiv> pmm_init es pmm_static"
  shows "free_frames q = {i. usable_frame es i \<and> i < MAX_PAGES}"
    and "free_pages q = card (free_frames q)" and "total_pages q \<le> MAX_PAGES"
    and "used_pages q = total_pages q - free_pages q"
    and "scan_hint q = 0" and "refcount q i = 0"
proof -
  let ?p0 = "pmm_static\<lparr>bitmap := \<lambda>b. if b < BITMAP_SIZE_BYTES then 0xFF else bitmap pmm_static b\<rparr>"
  obtain h p1 where ie: "init_entries es 0 ?p0 = (h, p1)" by (cases "init_entries es 0 ?p0")
  let ?total = "if h div PAGE_SIZE > MAX_PAGES then MAX_PAGES else h div PAGE_SIZE"
  have q: "q = p1\<lparr>total_pages := ?total, used_pages := ?total - free_pages p1\<rparr>"
    unfolding q_def pmm_init_def Let_def ie by simp
  have t: "bitmap_test p1 i \<longleftrightarrow> \<not> usable_frame es i" if "i < MAX_PAGES" for i
    using init_entries_test [OF assms(1), of 0 ?p0 i] init_bitmap_all_set [OF that, of pmm_static] that ie
    by auto
  have reach: "i < h div PAGE_SIZE" if u: "usable_frame es i" for i
  proof -
    from u obtain e where e: "e \<in> set es" "(i + 1) * PAGE_SIZE \<le> me_base e + me_length e"
      by (auto simp: usable_frame_def)
    with init_entries_highest(2) [OF assms(1) e(1), of 0 ?p0] ie have "(i + 1) * PAGE_SIZE \<le> h" by simp
    then have "i + 1 \<le> h div PAGE_SIZE" using less_eq_div_iff_mult_less_eq [of PAGE_SIZE] by simp
    then show ?thesis by simp
  qed
  have ff: "free_frames q = clear_below_max p1"
    using t reach unfolding q free_frames_def clear_below_max_def
    by (auto split: if_splits intro: order.strict_trans2)
  show "free_frames q = {i. usable_frame es i \<and> i < MAX_PAGES}"
    unfolding ff clear_below_max_def using t by auto
  have "clear_below_max ?p0 = {}" by (auto simp: clear_below_max_def init_bitmap_all_set)
  moreover have "free_pages ?p0 = 0" by (simp add: pmm_static_def)
  ultimately have "free_pages p1 = card (clear_below_max p1)"
    using init_entries_count [of ?p0 es 0] ie by simp
  then show "free_pages q = card (free_frames q)" unfolding ff by (simp add: q)
  show "total_pages q \<le> MAX_PAGES" "used_pages q = total_pages q - free_pages q" by (simp_all add: q)
  show "scan_hint q = 0" "refcount q i = 0"
    using init_entries_fields(1) [of es 0 ?p0] init_entries_fields(2) [of es 0 ?p0]
    unfolding ie q by (simp_all add: pmm_static_def)
qed

lemma pmm_init_inv:
  assumes "\<forall>e \<in> set es. entry_ok e" "\<not> usable_frame es 0"
  shows "pmm_inv (pmm_init es pmm_static)"
  using pmm_init_static [OF assms(1)] assms(2) by (simp add: pmm_inv_def)

text \<open>A machine with two usable frames, 1 and 2, for concrete instances.\<close>

definition demo_map :: "limine_memmap_entry list" where
  "demo_map = [\<lparr>me_base = 0, me_length = 4096, me_type = 1\<rparr>,
     \<lparr>me_base = 4096, me_length = 8192, me_type = 0\<rparr>]"

definition demo_pmm :: pmm where
  "demo_pmm = pmm_init demo_map pmm_static"

lemma demo_map_ok: "\<forall>e \<in> set demo_map. entry_ok e"
  by (simp add: demo_map_def entry_ok_def)

lemma demo_usable: "usable_frame demo_map i \<longleftrightarrow> i = 1 \<or> i = 2"
  by (auto simp: demo_map_def usable_frame_def)

lemma demo_inv: "pmm_inv demo_pmm"
  unfolding demo_pmm_def by (rule pmm_init_inv [OF demo_map_ok]) (simp add: demo_usable)

lemma demo_free: "free_frames demo_pmm = {1, 2}"
  unfolding demo_pmm_def pmm_init_static(1) [OF demo_map_ok] demo_usable by (auto simp: MAX_PAGES_def)

section \<open>The allocator's contract\<close>

text \<open>What the rest of the kernel relies on: an allocation that does not return 0 hands out
  a frame nobody uses, and releasing a singly owned frame gives it back.\<close>

locale frame_alloc =
  fixes inv :: "'s \<Rightarrow> bool" and used :: "'s \<Rightarrow> nat set" and single :: "'s \<Rightarrow> nat \<Rightarrow> bool"
    and alloc :: "'s \<Rightarrow> nat \<times> 's" and release :: "nat \<Rightarrow> 's \<Rightarrow> 's"
  assumes alloc_inv: "inv s \<Longrightarrow> alloc s = (a, s') \<Longrightarrow> inv s'"
    and alloc_used: "inv s \<Longrightarrow> alloc s = (a, s') \<Longrightarrow> a \<noteq> 0 \<Longrightarrow>
      a mod PAGE_SIZE = 0 \<and> a div PAGE_SIZE \<notin> used s \<and> used s' = insert (a div PAGE_SIZE) (used s)"
    and alloc_fail: "inv s \<Longrightarrow> alloc s = (0, s') \<Longrightarrow> s' = s"
    and alloc_single: "inv s \<Longrightarrow> alloc s = (a, s') \<Longrightarrow> a \<noteq> 0 \<Longrightarrow> single s' (a div PAGE_SIZE)"
    and release_single: "inv s \<Longrightarrow> a div PAGE_SIZE \<in> used s \<Longrightarrow> single s (a div PAGE_SIZE) \<Longrightarrow>
      used (release a s) = used s - {a div PAGE_SIZE}"

text \<open>\<open>n\<close> allocations in a row, as a caller that builds page tables makes them.\<close>

fun alloc_seq :: "('s \<Rightarrow> nat \<times> 's) \<Rightarrow> nat \<Rightarrow> 's \<Rightarrow> nat list \<times> 's" where
  "alloc_seq al 0 s = ([], s)"
| "alloc_seq al (Suc n) s =
     (let (a, s') = al s; (as, s'') = alloc_seq al n s' in (a # as, s''))"

context frame_alloc
begin

lemma alloc_used_mono: "inv s \<Longrightarrow> alloc s = (a, s') \<Longrightarrow> used s \<subseteq> used s'"
  using alloc_used [of s a s'] alloc_fail [of s s'] by (cases "a = 0") auto

lemma seq_distinct:
  assumes "inv s" "alloc_seq alloc n s = (as, s')" "0 \<notin> set as"
  shows "distinct as \<and> (\<forall>a \<in> set as. a mod PAGE_SIZE = 0 \<and> a div PAGE_SIZE \<notin> used s) \<and> inv s' \<and>
    used s' = used s \<union> (\<lambda>a. a div PAGE_SIZE) ` set as"
  using assms
proof (induction n arbitrary: s as)
  case (Suc n)
  obtain a s1 where a: "alloc s = (a, s1)" by (cases "alloc s")
  obtain bs where b: "alloc_seq alloc n s1 = (bs, s')" "as = a # bs"
    using Suc.prems a by (auto split: prod.splits)
  note step = alloc_inv [OF Suc.prems(1) a] alloc_used [OF Suc.prems(1) a]
  have "a \<noteq> 0" using Suc.prems(3) b by auto
  moreover have "distinct bs \<and> (\<forall>c \<in> set bs. c mod PAGE_SIZE = 0 \<and> c div PAGE_SIZE \<notin> used s1) \<and> inv s' \<and>
      used s' = used s1 \<union> (\<lambda>c. c div PAGE_SIZE) ` set bs"
    using Suc.IH [OF step(1) b(1)] Suc.prems(3) b by auto
  ultimately show ?case using step b by auto
qed auto

lemma alloc_release:
  assumes "inv s" "alloc s = (a, s')" "a \<noteq> 0"
  shows "used (release a s') = used s"
  using alloc_used [OF assms] alloc_single [OF assms] alloc_inv [OF assms(1,2)]
    release_single [of s' a] by auto

end

interpretation pmm: frame_alloc pmm_inv used_frames "\<lambda>p i. refcount p i = 1" pmm_alloc_page pmm_free_page
proof
  fix s a s' assume al: "pmm_inv s" "pmm_alloc_page s = (a, s')"
  then show "pmm_inv s'" by (rule alloc_page_inv)
  show "a mod PAGE_SIZE = 0 \<and> a div PAGE_SIZE \<notin> used_frames s \<and>
      used_frames s' = insert (a div PAGE_SIZE) (used_frames s)" if "a \<noteq> 0"
    using alloc_page_fresh [OF al that] by (auto simp: used_frames_def free_frames_def)
  show "refcount s' (a div PAGE_SIZE) = 1" if "a \<noteq> 0" using alloc_page_fresh(5) [OF al that] by simp
next
  show "s' = s" if "pmm_inv s" "pmm_alloc_page s = (0, s')" for s s'
    using that by (rule alloc_page_fail_same)
  show "used_frames (pmm_free_page a s) = used_frames s - {a div PAGE_SIZE}"
    if "refcount s (a div PAGE_SIZE) = 1" for s a
    using that by (simp add: free_page_used)
qed

section \<open>Properties\<close>



text \<open>C4. \<open>pmm_alloc_page\<close> is complete and sound: it returns 0 exactly when no frame is free
  (and then changes nothing); otherwise it returns the address of a frame that was free,
  marks that frame and no other, and gives it one owner.\<close>

theorem pmm_alloc_page_correct:
  assumes "pmm_inv p" "pmm_alloc_page p = (a, q)"
  shows "(a = 0 \<longleftrightarrow> free_frames p = {}) \<and> (a = 0 \<longrightarrow> q = p) \<and>
    (a \<noteq> 0 \<longrightarrow> a mod PAGE_SIZE = 0 \<and> a div PAGE_SIZE \<in> free_frames p \<and>
       free_frames q = free_frames p - {a div PAGE_SIZE} \<and>
       refcount q = (refcount p)(a div PAGE_SIZE := 1))"
proof (cases "a = 0")
  case True
  then show ?thesis
    using alloc_page_fails_iff [OF assms(1)] alloc_page_fail_same [OF assms(1)] assms(2) by simp
next
  case False
  then have "free_frames p \<noteq> {}" using alloc_page_fails_iff [OF assms(1)] assms(2) by simp
  with False show ?thesis using alloc_page_fresh [OF assms False] by auto
qed

theorem pmm_alloc_page_correct_witness:
  "fst (pmm_alloc_page demo_pmm) \<noteq> 0 \<and> fst (pmm_alloc_page demo_pmm) div PAGE_SIZE \<in> {1, 2}"
  using pmm_alloc_page_correct [OF demo_inv prod.collapse [symmetric]] by (simp add: demo_free)

text \<open>C5. The contiguous allocator returns the first fit: its search skips past every used
  frame it meets, and still finds the lowest run of \<open>n\<close> free frames when there is one; the
  run is marked used with one owner per frame, and nothing else changes.\<close>

theorem pmm_alloc_pages_first_fit:
  assumes "pmm_inv p" "0 < n"
  shows "case first_fit p n of
      None \<Rightarrow> pmm_alloc_pages n p = (0, p)
    | Some s \<Rightarrow> fst (pmm_alloc_pages n p) = s * PAGE_SIZE \<and> {s..<s + n} \<subseteq> free_frames p \<and>
        (\<forall>t < s. \<not> {t..<t + n} \<subseteq> free_frames p) \<and>
        free_frames (snd (pmm_alloc_pages n p)) = free_frames p - {s..<s + n} \<and>
        refcount (snd (pmm_alloc_pages n p)) = (\<lambda>i. if i \<in> {s..<s + n} then 1 else refcount p i)"
proof (cases "first_fit p n")
  case None
  then show ?thesis by (cases rule: alloc_pages_cases [of n p]) auto
next
  case (Some s)
  note hit = scan_up_SomeD [OF Some [unfolded first_fit_def]]
  then have run: "s + n \<le> total_pages p" "free_run p n s" by auto
  have eq: "pmm_alloc_pages n p = (s * PAGE_SIZE, (set_run s n p)\<lparr>free_pages := free_pages p - n,
      used_pages := used_pages p + n\<rparr>)"
    using Some run assms(2) by (cases rule: alloc_pages_cases [of n p]) auto
  have "\<not> {t..<t + n} \<subseteq> free_frames p" if "t < s" for t
  proof
    assume sub: "{t..<t + n} \<subseteq> free_frames p"
    have "t + j \<in> free_frames p" if "j < n" for j by (rule subsetD [OF sub]) (use that in simp)
    then have "free_run p n t" by (simp add: free_run_def free_frames_def)
    with hit that show False by auto
  qed
  with Some eq free_frames_run [OF run] show ?thesis
    by (auto simp: free_frames_def fun_eq_iff)
qed

theorem pmm_alloc_pages_first_fit_witness:
  "case first_fit demo_pmm 2 of None \<Rightarrow> pmm_alloc_pages 2 demo_pmm = (0, demo_pmm)
   | Some s \<Rightarrow> fst (pmm_alloc_pages 2 demo_pmm) = s * PAGE_SIZE \<and> {s..<s + 2} \<subseteq> {1, 2}"
  using pmm_alloc_pages_first_fit [OF demo_inv, of 2] by (auto simp: demo_free split: option.splits)

text \<open>C6. Shared frames: a frame that was taken once and referenced \<open>k\<close> more times (\<open>k < 255\<close>,
  the counter is a byte) stays in use through the first \<open>k\<close> releases and is free after the
  next one; no other frame is affected.\<close>

theorem pmm_last_owner_frees:
  assumes "a div PAGE_SIZE \<in> used_frames p" "refcount p (a div PAGE_SIZE) = 1" "k < 255"
  shows "(\<forall>j \<le> k. used_frames ((pmm_free_page a ^^ j) ((pmm_page_ref a ^^ k) p)) = used_frames p) \<and>
    used_frames ((pmm_free_page a ^^ Suc k) ((pmm_page_ref a ^^ k) p)) = used_frames p - {a div PAGE_SIZE}"
proof -
  let ?q = "(pmm_page_ref a ^^ k) p"
  note q = refs_count [OF assms(1,2), of k]
  note f = frees_count [of a ?q k, OF _ q(2) assms(3)]
  have "used_frames ((pmm_free_page a ^^ j) ?q) = used_frames p" if "j \<le> k" for j
    using f(1) [OF _ that] q assms(1) by simp
  moreover have "refcount ((pmm_free_page a ^^ k) ?q) (a div PAGE_SIZE) = 1"
    using f(2) [of k] q assms(1) by simp
  ultimately show ?thesis by (simp add: free_page_used)
qed

theorem pmm_last_owner_frees_witness:
  "\<exists>p. 1 \<in> used_frames p \<and> used_frames ((pmm_free_page 4096 ^^ Suc 2) ((pmm_page_ref 4096 ^^ 2) p)) = used_frames p - {1}"
proof -
  let ?q = "(set_run 1 1 (demo_pmm\<lparr>total_pages := 3\<rparr>))"
  have "(4096 :: nat) div PAGE_SIZE \<in> used_frames ?q" "refcount ?q (4096 div PAGE_SIZE) = 1"
    by (simp_all add: used_frames_def)
  with pmm_last_owner_frees [OF this, of 2] show ?thesis by (intro exI [of _ ?q]) simp
qed

text \<open>Initialisation: with a memory map whose ranges do not wrap around the address
  space and leave frame 0 alone, exactly the whole frames of usable regions below 4 GiB are
  free, and the invariant holds.\<close>

theorem pmm_init_correct:
  assumes "\<forall>e \<in> set es. entry_ok e" "\<not> usable_frame es 0"
  shows "pmm_inv (pmm_init es pmm_static) \<and>
    free_frames (pmm_init es pmm_static) = {i. usable_frame es i \<and> i < MAX_PAGES}"
  using pmm_init_inv [OF assms] pmm_init_static(1) [OF assms(1)] by simp

theorem pmm_init_correct_witness:
  "pmm_inv (pmm_init demo_map pmm_static) \<and> free_frames (pmm_init demo_map pmm_static) = {1, 2}"
  using pmm_init_correct [OF demo_map_ok] demo_free by (simp add: demo_usable demo_pmm_def)

text \<open>Successive allocations that succeed never hand out the same frame twice, nor a frame
  that was in use before.\<close>

theorem pmm_alloc_seq_distinct:
  assumes "pmm_inv p" "alloc_seq pmm_alloc_page n p = (as, q)" "0 \<notin> set as"
  shows "distinct as \<and> (\<forall>a \<in> set as. a div PAGE_SIZE \<notin> used_frames p) \<and>
    used_frames q = used_frames p \<union> (\<lambda>a. a div PAGE_SIZE) ` set as"
  using pmm.seq_distinct [OF assms] by blast

theorem pmm_alloc_seq_distinct_witness:
  "distinct (fst (alloc_seq pmm_alloc_page 2 demo_pmm))"
proof -
  obtain a p1 where 1: "pmm_alloc_page demo_pmm = (a, p1)" by (cases "pmm_alloc_page demo_pmm")
  have a: "a \<noteq> 0" using alloc_page_fails_iff [OF demo_inv] 1 by (simp add: demo_free)
  note f1 = alloc_page_inv [OF demo_inv 1] alloc_page_fresh(2,3) [OF demo_inv 1 a]
  obtain b p2 where 2: "pmm_alloc_page p1 = (b, p2)" by (cases "pmm_alloc_page p1")
  have "free_frames p1 \<noteq> {}" using f1 by (auto simp: demo_free)
  then have "b \<noteq> 0" using alloc_page_fails_iff [OF f1(1)] 2 by simp
  with pmm_alloc_seq_distinct [OF demo_inv, of 2 "[a, b]" p2] a 1 2 show ?thesis
    by (simp add: numeral_2_eq_2)
qed

end
