(* ===== verification/Vmm.thy ===== *)
theory Vmm
  imports Pmm
begin

text \<open>
  Virtual memory, \<^verbatim>\<open>kernel/vmm.c\<close>: four-level x86-64 page tables in physical memory,
  reached by the kernel through the higher-half direct map. The record \<open>mm\<close> joins the frame
  allocator, physical memory as bytes, the file's statics and the CR3 register. A pointer
  \<^verbatim>\<open>phys_to_virt(p)\<close> is written \<open>p\<close>: the direct map makes the two accesses the same, and
  \<^verbatim>\<open>table[i]\<close> is the 64-bit cell at \<open>p + 8 * i\<close>. Table entries are 64-bit words, addresses
  are naturals, so \<^verbatim>\<open>(vaddr >> 39) & 0x1FF\<close> is \<open>vaddr div 2 ^ 39 mod 512\<close>.
\<close>

section \<open>State\<close>

definition ENTRIES_PER_TABLE :: nat where [simp]: "ENTRIES_PER_TABLE = 512"
definition HUGE_PAGE_SIZE :: nat where [simp]: "HUGE_PAGE_SIZE = 0x200000"
definition PMM_TRACKED_PHYS_MEMORY :: nat where
  "PMM_TRACKED_PHYS_MEMORY = 4 * 1024 * 1024 * 1024"

definition PTE_PRESENT :: u64 where "PTE_PRESENT = push_bit 0 1"
definition PTE_WRITE :: u64 where "PTE_WRITE = push_bit 1 1"
definition PTE_USER :: u64 where "PTE_USER = push_bit 2 1"
definition PTE_HUGE :: u64 where "PTE_HUGE = push_bit 7 1"
definition PTE_COW :: u64 where "PTE_COW = push_bit 9 1"

record mm =
  frames :: pmm
  phys :: mem
  hhdm_offset_g :: nat
  kernel_pml4_phys :: nat
  cr3 :: nat

text \<open>\<^verbatim>\<open>e & ~0xFFF\<close> as an address, and the present and huge tests.\<close>

definition pte_addr :: "u64 \<Rightarrow> nat" where
  "pte_addr e = unat (e AND NOT 0xFFF)"

definition present :: "u64 \<Rightarrow> bool" where
  "present e \<longleftrightarrow> e AND PTE_PRESENT \<noteq> 0"

definition huge :: "u64 \<Rightarrow> bool" where
  "huge e \<longleftrightarrow> e AND PTE_HUGE \<noteq> 0"

definition entry :: "mm \<Rightarrow> nat \<Rightarrow> nat \<Rightarrow> u64" where
  "entry s t i = rd64 (phys s) (t + 8 * i)"

definition pml4_idx :: "nat \<Rightarrow> nat" where "pml4_idx v = v div 2 ^ 39 mod 512"
definition pdpt_idx :: "nat \<Rightarrow> nat" where "pdpt_idx v = v div 2 ^ 30 mod 512"
definition pd_idx :: "nat \<Rightarrow> nat" where "pd_idx v = v div 2 ^ 21 mod 512"
definition pt_idx :: "nat \<Rightarrow> nat" where "pt_idx v = v div 2 ^ 12 mod 512"

section \<open>Operations\<close>

definition alloc_frame :: "mm \<Rightarrow> nat \<times> mm" where
  "alloc_frame s = (let (a, p) = pmm_alloc_page (frames s) in (a, s\<lparr>frames := p\<rparr>))"

definition get_or_create_table :: "nat \<Rightarrow> mm \<Rightarrow> nat \<times> mm" where
  "get_or_create_table ea s =
     (let e = rd64 (phys s) ea in
      if present e then (pte_addr e, s)
      else
        let (new_phys, s1) = alloc_frame s;
            m1 = k_memset new_phys 0 PAGE_SIZE (phys s1);
            m2 = wr64 m1 ea (of_nat new_phys OR PTE_PRESENT OR PTE_WRITE OR PTE_USER)
        in (new_phys, s1\<lparr>phys := m2\<rparr>))"

definition vmm_map_4k_in :: "nat \<Rightarrow> nat \<Rightarrow> nat \<Rightarrow> u64 \<Rightarrow> mm \<Rightarrow> mm" where
  "vmm_map_4k_in pml4_phys vaddr paddr flags s =
     (let (pdpt, s1) = get_or_create_table (pml4_phys + 8 * pml4_idx vaddr) s;
          (pd, s2) = get_or_create_table (pdpt + 8 * pdpt_idx vaddr) s1;
          (pt, s3) = get_or_create_table (pd + 8 * pd_idx vaddr) s2
      in s3\<lparr>phys := wr64 (phys s3) (pt + 8 * pt_idx vaddr)
               ((of_nat paddr AND NOT 0xFFF) OR flags OR PTE_PRESENT)\<rparr>)"

definition vmm_map_4k :: "nat \<Rightarrow> nat \<Rightarrow> u64 \<Rightarrow> mm \<Rightarrow> mm" where
  "vmm_map_4k vaddr paddr flags s = vmm_map_4k_in (kernel_pml4_phys s) vaddr paddr flags s"

definition map_2m :: "nat \<Rightarrow> nat \<Rightarrow> u64 \<Rightarrow> mm \<Rightarrow> mm" where
  "map_2m vaddr paddr flags s =
     (let (pdpt, s1) = get_or_create_table (kernel_pml4_phys s + 8 * pml4_idx vaddr) s;
          (pd, s2) = get_or_create_table (pdpt + 8 * pdpt_idx vaddr) s1
      in s2\<lparr>phys := wr64 (phys s2) (pd + 8 * pd_idx vaddr)
               ((of_nat paddr AND NOT 0x1FFFFF) OR flags OR PTE_PRESENT OR PTE_HUGE)\<rparr>)"

definition vmm_activate :: "nat \<Rightarrow> mm \<Rightarrow> mm" where
  "vmm_activate pml4_phys s = s\<lparr>cr3 := pml4_phys\<rparr>"

text \<open>\<open>virt_start\<close> and \<open>virt_end\<close> are the linker symbols of the kernel image.\<close>

definition vmm_init :: "nat \<Rightarrow> nat \<Rightarrow> nat \<Rightarrow> nat \<Rightarrow> nat \<Rightarrow> mm \<Rightarrow> mm" where
  "vmm_init hhdm_offset kernel_phys_base kernel_virt_base virt_start virt_end s =
     (let s0 = s\<lparr>hhdm_offset_g := hhdm_offset\<rparr>;
          (pml4, s1) = alloc_frame s0;
          s2 = s1\<lparr>kernel_pml4_phys := pml4, phys := k_memset pml4 0 PAGE_SIZE (phys s1)\<rparr>;
          s3 = fold (\<lambda>n. map_2m (wrap64 (hhdm_offset + n * HUGE_PAGE_SIZE)) (n * HUGE_PAGE_SIZE) PTE_WRITE)
                 [0..<PMM_TRACKED_PHYS_MEMORY div HUGE_PAGE_SIZE] s2;
          kernel_size = page_up (virt_end - virt_start);
          s4 = fold (\<lambda>n. vmm_map_4k (wrap64 (kernel_virt_base + n * PAGE_SIZE))
                             (wrap64 (kernel_phys_base + n * PAGE_SIZE)) PTE_WRITE)
                 [0..<kernel_size div PAGE_SIZE] s3
      in vmm_activate pml4 s4)"

definition vmm_hhdm_offset :: "mm \<Rightarrow> nat" where
  "vmm_hhdm_offset s = hhdm_offset_g s"

definition vmm_kernel_pml4 :: "mm \<Rightarrow> nat" where
  "vmm_kernel_pml4 s = kernel_pml4_phys s"

definition copy_entry :: "nat \<Rightarrow> nat \<Rightarrow> nat \<Rightarrow> mm \<Rightarrow> mm" where
  "copy_entry dst src i s = s\<lparr>phys := wr64 (phys s) (dst + 8 * i) (entry s src i)\<rparr>"

definition vmm_new_address_space :: "mm \<Rightarrow> nat \<times> mm" where
  "vmm_new_address_space s =
     (let (new_phys, s1) = alloc_frame s;
          s2 = s1\<lparr>phys := k_memset new_phys 0 PAGE_SIZE (phys s1)\<rparr>
      in (new_phys, fold (copy_entry new_phys (kernel_pml4_phys s)) [256..<512] s2))"

definition free_frame :: "nat \<Rightarrow> mm \<Rightarrow> mm" where
  "free_frame a s = s\<lparr>frames := pmm_free_page a (frames s)\<rparr>"

text \<open>The four nested loops of the teardown, from the innermost out.\<close>

definition destroy_pt :: "nat \<Rightarrow> mm \<Rightarrow> mm" where
  "destroy_pt pt s =
     free_frame pt (fold (\<lambda>l s. if present (entry s pt l) then free_frame (pte_addr (entry s pt l)) s else s)
       [0..<512] s)"

definition destroy_pd :: "nat \<Rightarrow> mm \<Rightarrow> mm" where
  "destroy_pd pd s =
     free_frame pd (fold (\<lambda>k s. if present (entry s pd k) \<and> \<not> huge (entry s pd k)
        then destroy_pt (pte_addr (entry s pd k)) s else s) [0..<512] s)"

definition destroy_pdpt :: "nat \<Rightarrow> mm \<Rightarrow> mm" where
  "destroy_pdpt pdpt s =
     free_frame pdpt (fold (\<lambda>j s. if present (entry s pdpt j)
        then destroy_pd (pte_addr (entry s pdpt j)) s else s) [0..<512] s)"

definition vmm_destroy_address_space :: "nat \<Rightarrow> mm \<Rightarrow> mm" where
  "vmm_destroy_address_space pml4 s =
     free_frame pml4 (fold (\<lambda>i s. if present (entry s pml4 i)
        then destroy_pdpt (pte_addr (entry s pml4 i)) s else s) [0..<256] s)"

text \<open>The nested loops of the copy-on-write clone, from the innermost out.\<close>

text \<open>The four shifted indices occupy disjoint bits, so their bitwise or is their sum.\<close>

definition path_vaddr :: "nat \<Rightarrow> nat \<Rightarrow> nat \<Rightarrow> nat \<Rightarrow> nat" where
  "path_vaddr i j k l = i * 2 ^ 39 + j * 2 ^ 30 + k * 2 ^ 21 + l * 2 ^ 12"

definition clone_pte :: "nat \<Rightarrow> nat \<Rightarrow> nat \<Rightarrow> nat \<Rightarrow> nat \<Rightarrow> nat \<Rightarrow> mm \<Rightarrow> mm" where
  "clone_pte dest i j k src_pt l s =
     (let e = entry s src_pt l in
      if \<not> present e then s
      else
        let src_phys = pte_addr e;
            flags0 = e AND 0xFFF;
            writable = (flags0 AND PTE_WRITE \<noteq> 0);
            flags = (if writable then (flags0 AND NOT PTE_WRITE) OR PTE_COW else flags0);
            s1 = (if writable then s\<lparr>phys := wr64 (phys s) (src_pt + 8 * l)
                                              (of_nat src_phys OR flags OR PTE_PRESENT)\<rparr> else s);
            s2 = s1\<lparr>frames := pmm_page_ref src_phys (frames s1)\<rparr>
        in vmm_map_4k_in dest (path_vaddr i j k l) src_phys flags s2)"

definition clone_pt :: "nat \<Rightarrow> nat \<Rightarrow> nat \<Rightarrow> nat \<Rightarrow> nat \<Rightarrow> mm \<Rightarrow> mm" where
  "clone_pt dest i j k src_pt s = fold (\<lambda>l. clone_pte dest i j k src_pt l) [0..<512] s"

definition clone_pd :: "nat \<Rightarrow> nat \<Rightarrow> nat \<Rightarrow> nat \<Rightarrow> mm \<Rightarrow> mm" where
  "clone_pd dest i j src_pd s =
     fold (\<lambda>k s. if present (entry s src_pd k) \<and> \<not> huge (entry s src_pd k)
        then clone_pt dest i j k (pte_addr (entry s src_pd k)) s else s) [0..<512] s"

definition clone_pdpt :: "nat \<Rightarrow> nat \<Rightarrow> nat \<Rightarrow> mm \<Rightarrow> mm" where
  "clone_pdpt dest i src_pdpt s =
     fold (\<lambda>j s. if present (entry s src_pdpt j)
        then clone_pd dest i j (pte_addr (entry s src_pdpt j)) s else s) [0..<512] s"

definition vmm_clone_lower_half :: "nat \<Rightarrow> nat \<Rightarrow> mm \<Rightarrow> mm" where
  "vmm_clone_lower_half dest src s =
     vmm_activate src (fold (\<lambda>i s. if present (entry s src i)
        then clone_pdpt dest i (pte_addr (entry s src i)) s else s) [0..<256] s)"

text \<open>The address of the leaf entry, \<open>None\<close> for the null pointer.\<close>

definition vmm_get_pte :: "nat \<Rightarrow> nat \<Rightarrow> mm \<Rightarrow> nat option" where
  "vmm_get_pte pml4_phys vaddr s =
     (let e4 = entry s pml4_phys (pml4_idx vaddr) in if \<not> present e4 then None else
      let e3 = entry s (pte_addr e4) (pdpt_idx vaddr) in if \<not> present e3 then None else
      let e2 = entry s (pte_addr e3) (pd_idx vaddr) in if \<not> present e2 then None else
      if huge e2 then None else
      let e1 = entry s (pte_addr e2) (pt_idx vaddr) in if \<not> present e1 then None else
      Some (pte_addr e2 + 8 * pt_idx vaddr))"

section \<open>Specification\<close>

text \<open>The table at the end of an index path, and the leaf entry of a virtual address.\<close>

fun tab :: "mm \<Rightarrow> nat \<Rightarrow> nat list \<Rightarrow> nat option" where
  "tab s t [] = Some t"
| "tab s t (i # is) = (if present (entry s t i) then tab s (pte_addr (entry s t i)) is else None)"

definition vpath :: "nat \<Rightarrow> nat list" where
  "vpath v = [pml4_idx v, pdpt_idx v, pd_idx v]"

definition leaf :: "mm \<Rightarrow> nat \<Rightarrow> nat \<Rightarrow> u64 option" where
  "leaf s root v =
     (case tab s root (vpath v) of None \<Rightarrow> None
      | Some pt \<Rightarrow> if present (entry s pt (pt_idx v)) then Some (entry s pt (pt_idx v)) else None)"

text \<open>Index paths of the lower half: at most three indices, the first below 256.\<close>

definition lowp :: "nat list \<Rightarrow> bool" where
  "lowp p \<longleftrightarrow> length p \<le> 3 \<and> (\<forall>i \<in> set p. i < 512) \<and> (\<forall>i is. p = i # is \<longrightarrow> i < 256)"

text \<open>A well-formed address space: every table of its lower half is an allocated frame, no
  frame serves as two tables, and no directory entry of the lower half is a huge page.\<close>

definition space_wf :: "mm \<Rightarrow> nat \<Rightarrow> bool" where
  "space_wf s root \<longleftrightarrow>
     (\<forall>p t. lowp p \<and> tab s root p = Some t \<longrightarrow> t mod PAGE_SIZE = 0 \<and> t div PAGE_SIZE \<in> used_frames (frames s)) \<and>
     (\<forall>p q t. lowp p \<and> lowp q \<and> tab s root p = Some t \<and> tab s root q = Some t \<longrightarrow> p = q) \<and>
     (\<forall>p t i. lowp (p @ [i]) \<and> length p = 2 \<and> tab s root p = Some t \<longrightarrow> present (entry s t i) \<longrightarrow>
        \<not> huge (entry s t i))"

definition own :: "mm \<Rightarrow> nat \<Rightarrow> nat set" where
  "own s root = {t. \<exists>p. lowp p \<and> tab s root p = Some t}"

section \<open>Entries\<close>

lemma word_low12: "a mod PAGE_SIZE = 0 \<Longrightarrow> (of_nat a :: u64) AND 0xFFF = 0"
proof -
  assume a: "a mod PAGE_SIZE = 0"
  have "(of_nat a :: u64) AND 0xFFF = take_bit 12 (of_nat a)"
    by (simp add: take_bit_eq_mask mask_eq_exp_minus_1)
  also have "\<dots> = of_nat (take_bit 12 a)" by (simp add: take_bit_of_nat)
  also have "\<dots> = 0" using a by (simp add: take_bit_eq_mod)
  finally show ?thesis .
qed

lemma and_not_self: "x AND m = 0 \<Longrightarrow> x AND NOT m = (x :: u64)"
  using bit.conj_disj_distrib [of x m "NOT m"] by simp

lemma pte_addr_or:
  assumes "a mod PAGE_SIZE = 0" "a < 2 ^ 64" "f AND NOT 0xFFF = 0"
  shows "pte_addr (of_nat a OR f) = a"
proof -
  have "(of_nat a OR f) AND NOT 0xFFF = (of_nat a :: u64)"
    using and_not_self [OF word_low12 [OF assms(1)]] assms(3) by (simp add: bit.conj_disj_distrib2)
  then show ?thesis unfolding pte_addr_def using assms(2) by (simp add: unat_of_nat)
qed

lemma pte_new [simp]:
  assumes "a mod PAGE_SIZE = 0" "a < 2 ^ 64"
  shows "pte_addr (of_nat a OR PTE_PRESENT OR PTE_WRITE OR PTE_USER) = a"
    and "present (of_nat a OR PTE_PRESENT OR PTE_WRITE OR PTE_USER)"
    and "\<not> huge (of_nat a OR PTE_PRESENT OR PTE_WRITE OR PTE_USER)"
proof -
  have f: "(PTE_PRESENT OR PTE_WRITE OR PTE_USER) AND NOT 0xFFF = 0"
    by (simp add: PTE_PRESENT_def PTE_WRITE_def PTE_USER_def)
  show "pte_addr (of_nat a OR PTE_PRESENT OR PTE_WRITE OR PTE_USER) = a"
    using pte_addr_or [OF assms f] .
  have "(of_nat a :: u64) AND PTE_HUGE = of_nat a AND 0xFFF AND PTE_HUGE"
    by (simp add: PTE_HUGE_def and.assoc)
  also have "\<dots> = 0" using word_low12 [OF assms(1)] by (simp flip: and.assoc)
  finally show "\<not> huge (of_nat a OR PTE_PRESENT OR PTE_WRITE OR PTE_USER)"
    by (simp add: huge_def bit.conj_disj_distrib2)
       (simp add: PTE_HUGE_def PTE_PRESENT_def PTE_WRITE_def PTE_USER_def)
  show "present (of_nat a OR PTE_PRESENT OR PTE_WRITE OR PTE_USER)"
    by (simp add: present_def bit.conj_disj_distrib2 PTE_PRESENT_def or_eq_0_iff)
qed

lemma not_present_0 [simp]: "\<not> present 0"
  by (simp add: present_def)

lemma present_or [simp]: "present (x OR y) \<longleftrightarrow> present x \<or> present y" "present PTE_PRESENT"
  by (simp_all add: present_def bit.conj_disj_distrib2 or_eq_0_iff) (simp add: PTE_PRESENT_def)

text \<open>Cells of page-aligned tables do not overlap.\<close>

lemma cells_disjoint:
  assumes "t mod PAGE_SIZE = 0" "u mod PAGE_SIZE = 0" "i < 512" "j < 512" "(t, i) \<noteq> (u, j)"
  shows "t + 8 * i + 8 \<le> u + 8 * j \<or> u + 8 * j + 8 \<le> t + 8 * i"
proof -
  from assms obtain a b where "t = PAGE_SIZE * a" "u = PAGE_SIZE * b" by (metis dvd_def mod_0_imp_dvd)
  then show ?thesis using assms(3-5) by (cases a b rule: linorder_cases) auto
qed

lemma entry_wr64:
  assumes "t mod PAGE_SIZE = 0" "u mod PAGE_SIZE = 0" "i < 512" "j < 512"
  shows "rd64 (wr64 m (t + 8 * i) v) (u + 8 * j) = (if t = u \<and> i = j then v else rd64 m (u + 8 * j))"
  using cells_disjoint [OF assms(2,1,4,3)] by (auto intro: rd64_wr64_other)

lemma entry_fill_same: "i < 512 \<Longrightarrow> rd64 (mem_fill m t PAGE_SIZE 0) (t + 8 * i) = 0"
  by (rule rd64_fill0) auto

lemma entry_fill_other:
  assumes "t mod PAGE_SIZE = 0" "u mod PAGE_SIZE = 0" "j < 512" "t \<noteq> u"
  shows "rd64 (mem_fill m t PAGE_SIZE 0) (u + 8 * j) = rd64 m (u + 8 * j)"
proof (rule rd64_fill_other)
  from assms obtain a b where "t = PAGE_SIZE * a" "u = PAGE_SIZE * b" by (metis dvd_def mod_0_imp_dvd)
  then show "u + 8 * j + 8 \<le> t \<or> t + PAGE_SIZE \<le> u + 8 * j"
    using assms(3,4) by (cases a b rule: linorder_cases) auto
qed

section \<open>Walks\<close>

lemma tab_snoc:
  "tab s t (p @ [i]) = (case tab s t p of None \<Rightarrow> None
     | Some u \<Rightarrow> if present (entry s u i) then Some (pte_addr (entry s u i)) else None)"
  by (induction p arbitrary: t) auto

lemma lowp_snocD: "lowp (p @ [i]) \<Longrightarrow> lowp p \<and> i < 512 \<and> length p < 3"
  by (auto simp: lowp_def)

lemma lowp_Nil [simp]: "lowp []" by (simp add: lowp_def)

lemma lowp_vpath: "v < 2 ^ 47 \<Longrightarrow> lowp (vpath v)"
  by (auto simp: lowp_def vpath_def pml4_idx_def pdpt_idx_def pd_idx_def div_less_iff_less_mult
      intro: le_less_trans [OF mod_less_eq_dividend])

lemma idx_less [simp]: "pml4_idx v < 512" "pdpt_idx v < 512" "pd_idx v < 512" "pt_idx v < 512"
  by (simp_all add: pml4_idx_def pdpt_idx_def pd_idx_def pt_idx_def)

lemma space_not_huge:
  assumes "space_wf s root" "lowp [i, j, k]" "tab s root [i, j] = Some t" "present (entry s t k)"
  shows "\<not> huge (entry s t k)"
proof -
  have "lowp ([i, j] @ [k]) \<and> length [i, j] = 2 \<and> tab s root [i, j] = Some t" using assms(2,3) by simp
  with assms(1,4) show ?thesis unfolding space_wf_def by blast
qed

lemma get_pte_leaf:
  assumes "space_wf s root" "v < 2 ^ 47"
  shows "leaf s root v = map_option (rd64 (phys s)) (vmm_get_pte root v s)"
proof -
  have "\<not> huge (entry s t (pd_idx v))"
    if "tab s root [pml4_idx v, pdpt_idx v] = Some t" "present (entry s t (pd_idx v))" for t
    using space_not_huge [OF assms(1) _ that] lowp_vpath [OF assms(2)] by (simp add: vpath_def)
  then show ?thesis
    by (auto simp: leaf_def vmm_get_pte_def vpath_def Let_def entry_def)
qed

section \<open>Creating a table\<close>

lemma used_page_bound:
  assumes "pmm_inv p" "t div PAGE_SIZE < total_pages p"
  shows "t < 2 ^ 64"
proof -
  have "t div PAGE_SIZE < MAX_PAGES" using assms by (simp add: pmm_inv_def)
  then show ?thesis by (simp add: MAX_PAGES_def div_less_iff_less_mult)
qed

lemma fresh_frame:
  assumes "pmm_inv (frames s)" "alloc_frame s = (n, s1)" "free_frames (frames s) \<noteq> {}"
  shows "n \<noteq> 0" "n mod PAGE_SIZE = 0" "n < 2 ^ 64" "n div PAGE_SIZE \<notin> used_frames (frames s)"
    "pmm_inv (frames s1)" "used_frames (frames s1) = insert (n div PAGE_SIZE) (used_frames (frames s))"
    "free_frames (frames s1) = free_frames (frames s) - {n div PAGE_SIZE}"
    "\<And>i. refcount (frames s1) i = (if i = n div PAGE_SIZE then 1 else refcount (frames s) i)"
    "phys s1 = phys s" "kernel_pml4_phys s1 = kernel_pml4_phys s" "cr3 s1 = cr3 s"
    "n div PAGE_SIZE \<in> free_frames (frames s)"
proof -
  obtain p where p: "pmm_alloc_page (frames s) = (n, p)" "s1 = s\<lparr>frames := p\<rparr>"
    using assms(2) by (auto simp: alloc_frame_def split: prod.splits)
  then show n: "n \<noteq> 0" using alloc_page_fails_iff [OF assms(1)] assms(3) by simp
  note f = alloc_page_fresh [OF assms(1) p(1) n]
  show "n mod PAGE_SIZE = 0" by (rule f)
  show "n div PAGE_SIZE \<in> free_frames (frames s)" by (rule f(2))
  then show "n < 2 ^ 64" using used_page_bound [OF assms(1)] by (simp add: free_frames_def)
  show "n div PAGE_SIZE \<notin> used_frames (frames s)" using f(2) by (simp add: free_frames_def used_frames_def)
  show "pmm_inv (frames s1)" using alloc_page_inv [OF assms(1) p(1)] p(2) by simp
  show "used_frames (frames s1) = insert (n div PAGE_SIZE) (used_frames (frames s))"
    "free_frames (frames s1) = free_frames (frames s) - {n div PAGE_SIZE}"
    "\<And>i. refcount (frames s1) i = (if i = n div PAGE_SIZE then 1 else refcount (frames s) i)"
    "phys s1 = phys s" "kernel_pml4_phys s1 = kernel_pml4_phys s" "cr3 s1 = cr3 s"
    using f p(2) by simp_all
qed

lemma space_tabD:
  assumes "space_wf s root" "lowp p" "tab s root p = Some t"
  shows "t mod PAGE_SIZE = 0" "t div PAGE_SIZE \<in> used_frames (frames s)"
  using assms unfolding space_wf_def by blast+

lemma space_tab_inj:
  assumes "space_wf s root" "lowp p" "lowp q" "tab s root p = Some t" "tab s root q = Some t"
  shows "p = q"
  using assms unfolding space_wf_def by blast

text \<open>\<open>preserved s root s'\<close>: \<open>s'\<close> keeps everything of \<open>s\<close> except the tables of \<open>root\<close>, and those
  have grown by fresh frames only.\<close>

definition preserved :: "mm \<Rightarrow> nat \<Rightarrow> mm \<Rightarrow> bool" where
  "preserved s root s' \<longleftrightarrow>
     used_frames (frames s) \<subseteq> used_frames (frames s') \<and>
     (\<forall>i \<in> used_frames (frames s). refcount (frames s') i = refcount (frames s) i) \<and>
     (\<forall>x. x div PAGE_SIZE \<in> used_frames (frames s) \<longrightarrow> x div PAGE_SIZE * PAGE_SIZE \<notin> own s root \<longrightarrow>
        phys s' x = phys s x) \<and>
     (\<forall>u \<in> own s' root. u \<in> own s root \<or> u div PAGE_SIZE \<notin> used_frames (frames s)) \<and>
     (\<forall>q t. lowp q \<longrightarrow> tab s root q = Some t \<longrightarrow> tab s' root q = Some t)"

text \<open>What a table walk that may create one table leaves of the state: \<open>q\<close> is the path it
  reaches, in address space \<open>root\<close>.\<close>

definition created :: "mm \<Rightarrow> nat \<Rightarrow> nat list \<Rightarrow> nat \<Rightarrow> mm \<Rightarrow> bool" where
  "created s root q n s' \<longleftrightarrow>
     pmm_inv (frames s') \<and> space_wf s' root \<and> tab s' root q = Some n \<and>
     (\<forall>r. lowp r \<longrightarrow> r \<noteq> q \<longrightarrow> tab s' root r = tab s root r) \<and>
     (\<forall>v < 2 ^ 47. leaf s' root v = leaf s root v) \<and>
     card (free_frames (frames s)) \<le> Suc (card (free_frames (frames s'))) \<and> preserved s root s'"

lemma preserved_refl [simp]: "preserved s root s"
  by (simp add: preserved_def)

lemma preserved_trans:
  assumes "preserved s root s1" "preserved s1 root s2"
  shows "preserved s root s2"
proof -
  have "phys s2 x = phys s x"
    if "x div PAGE_SIZE \<in> used_frames (frames s)" "x div PAGE_SIZE * PAGE_SIZE \<notin> own s root" for x
  proof -
    have "x div PAGE_SIZE * PAGE_SIZE \<notin> own s1 root"
      using assms(1) that unfolding preserved_def by (metis nonzero_mult_div_cancel_right zero_neq_numeral)
    with assms that show ?thesis unfolding preserved_def by (metis subsetD)
  qed
  moreover have "\<forall>u \<in> own s2 root. u \<in> own s root \<or> u div PAGE_SIZE \<notin> used_frames (frames s)"
    using assms unfolding preserved_def by blast
  ultimately show ?thesis using assms unfolding preserved_def by auto
qed

lemma goc_present:
  assumes "present (rd64 (phys s) ea)"
  shows "get_or_create_table ea s = (pte_addr (rd64 (phys s) ea), s)"
  using assms by (simp add: get_or_create_table_def)

lemma goc_absent:
  assumes "\<not> present (rd64 (phys s) ea)" "alloc_frame s = (n, s1)"
  shows "get_or_create_table ea s = (n, s1\<lparr>phys :=
    wr64 (mem_fill (phys s1) n PAGE_SIZE 0) ea (of_nat n OR PTE_PRESENT OR PTE_WRITE OR PTE_USER)\<rparr>)"
  using assms by (simp add: get_or_create_table_def)

lemma phys_wr64_out: "x < a \<or> a + 8 \<le> x \<Longrightarrow> wr64 m a v x = m x"
  by (auto simp: wr64_def mem_write_def)

lemma page_cell_div:
  assumes "t mod PAGE_SIZE = 0" "i < 512" "t + 8 * i \<le> x" "x < t + 8 * i + 8"
  shows "x div PAGE_SIZE * PAGE_SIZE = t"
proof -
  obtain k where k: "t = PAGE_SIZE * k" using assms(1) by (metis dvd_def mod_0_imp_dvd)
  with assms have "x div PAGE_SIZE = k" by (auto intro!: div_nat_eqI)
  with k show ?thesis by simp
qed

text \<open>The fresh case: entries and bytes after the new table is zeroed and linked.\<close>

lemma goc_absent_entries:
  assumes wf: "space_wf s root" and inv: "pmm_inv (frames s)"
    and low: "lowp (p @ [i])" and t: "tab s root p = Some t"
    and al: "alloc_frame s = (n, s1)" "free_frames (frames s) \<noteq> {}"
    and s': "s' = s1\<lparr>phys := wr64 (mem_fill (phys s1) n PAGE_SIZE 0) (t + 8 * i)
               (of_nat n OR PTE_PRESENT OR PTE_WRITE OR PTE_USER)\<rparr>"
  shows "u mod PAGE_SIZE = 0 \<Longrightarrow> u div PAGE_SIZE \<in> used_frames (frames s) \<Longrightarrow> j < 512 \<Longrightarrow>
      entry s' u j = (if u = t \<and> j = i then of_nat n OR PTE_PRESENT OR PTE_WRITE OR PTE_USER else entry s u j)"
    and "j < 512 \<Longrightarrow> entry s' n j = 0"
    and "x div PAGE_SIZE \<in> used_frames (frames s) \<Longrightarrow> x div PAGE_SIZE * PAGE_SIZE \<noteq> t \<Longrightarrow> phys s' x = phys s x"
proof -
  note fr = fresh_frame [OF inv al]
  note lw = lowp_snocD [OF low]
  have ta: "t mod PAGE_SIZE = 0" "t div PAGE_SIZE \<in> used_frames (frames s)"
    using space_tabD [OF wf _ t] lw by auto
  have nt: "n \<noteq> u" if "u div PAGE_SIZE \<in> used_frames (frames s)" for u using fr(4) that by auto
  show "entry s' u j = (if u = t \<and> j = i then of_nat n OR PTE_PRESENT OR PTE_WRITE OR PTE_USER else entry s u j)"
    if "u mod PAGE_SIZE = 0" "u div PAGE_SIZE \<in> used_frames (frames s)" "j < 512" for u j
    using that lw nt [of u] entry_wr64 [OF ta(1) that(1) _ that(3), of i] fr(2,9)
    by (auto simp: s' entry_def entry_fill_other)
  show "entry s' n j = 0" if "j < 512" for j
    using that lw nt [OF ta(2)] entry_wr64 [OF ta(1) fr(2) _ that, of i]
    by (auto simp: s' entry_def entry_fill_same)
  show "phys s' x = phys s x"
    if "x div PAGE_SIZE \<in> used_frames (frames s)" "x div PAGE_SIZE * PAGE_SIZE \<noteq> t" for x
  proof -
    have "\<not> (n \<le> x \<and> x < n + PAGE_SIZE)"
    proof
      assume "n \<le> x \<and> x < n + PAGE_SIZE"
      moreover obtain k where "n = PAGE_SIZE * k" using fr(2) by (metis dvd_def mod_0_imp_dvd)
      ultimately have "x div PAGE_SIZE = n div PAGE_SIZE" by (auto intro: div_nat_eqI)
      with fr(4) that show False by simp
    qed
    moreover have "x < t + 8 * i \<or> t + 8 * i + 8 \<le> x"
    proof (rule ccontr)
      assume "\<not> ?thesis"
      then have "x div PAGE_SIZE * PAGE_SIZE = t" using ta(1) lw by (intro page_cell_div [of t i]) auto
      with that(2) show False by simp
    qed
    ultimately show ?thesis by (auto simp: s' phys_wr64_out mem_fill_def fr(9))
  qed
qed

lemma goc_absent_tab:
  assumes wf: "space_wf s root" and inv: "pmm_inv (frames s)"
    and low: "lowp (p @ [i])" and t: "tab s root p = Some t" and ab: "\<not> present (entry s t i)"
    and al: "alloc_frame s = (n, s1)" "free_frames (frames s) \<noteq> {}"
    and s': "s' = s1\<lparr>phys := wr64 (mem_fill (phys s1) n PAGE_SIZE 0) (t + 8 * i)
               (of_nat n OR PTE_PRESENT OR PTE_WRITE OR PTE_USER)\<rparr>"
    and q: "lowp q"
  shows "tab s' root q = (if q = p @ [i] then Some n else tab s root q)"
  using q
proof (induction q rule: rev_induct)
  case (snoc j q)
  note fr = fresh_frame [OF inv al]
  note ent = goc_absent_entries [OF wf inv low t al s']
  note lq = lowp_snocD [OF snoc.prems] and lp = lowp_snocD [OF low]
  have none: "tab s root (p @ [i]) = None" using t ab by (simp add: tab_snoc)
  show ?case
  proof (cases "q = p @ [i]")
    case True
    then have "tab s' root q = Some n" using snoc lq by simp
    then have "tab s' root (q @ [j]) = None" using lq ent(2) [of j] unfolding tab_snoc by simp
    moreover have "tab s root (q @ [j]) = None" using none True unfolding tab_snoc [of _ _ q] by simp
    ultimately show ?thesis using True by simp
  next
    case False
    then have ih: "tab s' root q = tab s root q" using snoc lq by simp
    show ?thesis
    proof (cases "tab s root q")
      case (Some u)
      have u: "u = t \<longleftrightarrow> q = p" using space_tab_inj [OF wf, of q p] lq lp t Some by auto
      have "entry s' u j = (if u = t \<and> j = i then of_nat n OR PTE_PRESENT OR PTE_WRITE OR PTE_USER else entry s u j)"
        using lq space_tabD [OF wf _ Some] by (intro ent(1)) auto
      moreover have "tab s' root (q @ [j]) = (if present (entry s' u j) then Some (pte_addr (entry s' u j)) else None)"
        and "tab s root (q @ [j]) = (if present (entry s u j) then Some (pte_addr (entry s u j)) else None)"
        using ih Some unfolding tab_snoc by simp_all
      moreover have "q @ [j] = p @ [i] \<longleftrightarrow> u = t \<and> j = i" using u by simp
      ultimately show ?thesis using fr(2,3) by (cases "u = t \<and> j = i") (simp_all, blast?)
    qed (use ih t in \<open>auto simp: tab_snoc\<close>)
  qed
qed simp

lemma goc_created:
  assumes wf: "space_wf s root" and inv: "pmm_inv (frames s)"
    and low: "lowp (p @ [i])" and t: "tab s root p = Some t" and free: "free_frames (frames s) \<noteq> {}"
    and goc: "get_or_create_table (t + 8 * i) s = (n, s')"
  shows "created s root (p @ [i]) n s'"
proof (cases "present (entry s t i)")
  case True
  then have "n = pte_addr (entry s t i)" "s' = s" using goc goc_present [of s "t + 8 * i"] by (auto simp: entry_def)
  then show ?thesis using True wf inv t by (simp add: created_def tab_snoc)
next
  case False
  obtain n' s1 where al: "alloc_frame s = (n', s1)" by (cases "alloc_frame s")
  from goc goc_absent [OF _ al] False have nn: "n' = n" and s': "s' = s1\<lparr>phys :=
      wr64 (mem_fill (phys s1) n PAGE_SIZE 0) (t + 8 * i) (of_nat n OR PTE_PRESENT OR PTE_WRITE OR PTE_USER)\<rparr>"
    by (auto simp: entry_def)
  note al = al [unfolded nn]
  note fr = fresh_frame [OF inv al free]
  note ent = goc_absent_entries [OF wf inv low t al free s']
  note tb = goc_absent_tab [OF wf inv low t False al free s']
  have frames: "frames s' = frames s1" by (simp add: s')
  have none: "tab s root (p @ [i]) = None" using t False by (simp add: tab_snoc)
  have ol: "u mod PAGE_SIZE = 0" "u div PAGE_SIZE \<in> used_frames (frames s)" "u \<noteq> n"
    if "lowp q" "tab s root q = Some u" for q u
    using space_tabD [OF wf that] fr(4) by auto
  have wf': "space_wf s' root"
    unfolding space_wf_def
  proof (intro conjI allI impI; (elim conjE)?)
    fix q u assume "lowp q" "tab s' root q = Some u"
    with tb [of q] ol [of q u] fr(2,6) show "u mod PAGE_SIZE = 0" "u div PAGE_SIZE \<in> used_frames (frames s')"
      by (auto simp: frames split: if_splits)
  next
    fix q r u assume "lowp q" "lowp r" "tab s' root q = Some u" "tab s' root r = Some u"
    moreover from this have "tab s root x = Some n \<Longrightarrow> lowp x \<Longrightarrow> False" for x using ol [of x n] by blast
    ultimately show "q = r"
      using tb [of q] tb [of r] space_tab_inj [OF wf, of q r u] by (metis option.inject)
  next
    fix q u j assume q: "lowp (q @ [j])" "length q = 2" "tab s' root q = Some u" "present (entry s' u j)"
    note lq = lowp_snocD [OF q(1)]
    from q(4) ent(2) [of j] lq have "u \<noteq> n" by auto
    with tb [of q] q(3) lq have u: "tab s root q = Some u" by (auto split: if_splits)
    with ent(1) [OF ol(1,2) [OF _ u], of j] lq q(4) wf q(1,2) fr(2,3) show "\<not> huge (entry s' u j)"
      unfolding space_wf_def by (auto split: if_splits)
  qed
  have leaf: "leaf s' root v = leaf s root v" if v: "v < 2 ^ 47" for v
  proof (cases "vpath v = p @ [i]")
    case True
    then show ?thesis using tb [OF lowp_vpath [OF v]] none ent(2) [of "pt_idx v"] by (simp add: leaf_def)
  next
    case False
    have "entry s' u (pt_idx v) = entry s u (pt_idx v)" if "tab s root (vpath v) = Some u" for u
    proof -
      have "vpath v \<noteq> p" using lowp_snocD [OF low] by (auto simp: vpath_def)
      then have "u \<noteq> t" using space_tab_inj [OF wf lowp_vpath [OF v] _ that, of p] t lowp_snocD [OF low] by auto
      with ent(1) [OF ol(1,2) [OF lowp_vpath [OF v] that], of "pt_idx v"] show ?thesis by simp
    qed
    with False tb [OF lowp_vpath [OF v]] show ?thesis by (auto simp: leaf_def split: option.splits)
  qed
  have "t \<in> own s root" using t lowp_snocD [OF low] by (auto simp: own_def)
  then have out: "phys s' x = phys s x"
    if "x div PAGE_SIZE \<in> used_frames (frames s)" "x div PAGE_SIZE * PAGE_SIZE \<notin> own s root" for x
    using ent(3) [of x] that by metis
  have "card (free_frames (frames s)) \<le> Suc (card (free_frames (frames s')))"
    unfolding frames fr(7) by (metis card_Suc_Diff1 eq_imp_le finite_free_frames fr(12))
  moreover have "u \<in> own s root \<or> u div PAGE_SIZE \<notin> used_frames (frames s)" if "u \<in> own s' root" for u
    using that tb fr(4) unfolding own_def by (auto split: if_splits)
  ultimately show ?thesis using wf' leaf out tb fr low none by (auto simp: created_def preserved_def frames)
qed

section \<open>Mapping a page\<close>

lemma vpath_take: "vpath v = ([] @ [pml4_idx v]) @ [pdpt_idx v] @ [pd_idx v]"
  by (simp add: vpath_def)

text \<open>The three table steps of a mapping.\<close>

lemma map_walk:
  assumes wf: "space_wf s root" and inv: "pmm_inv (frames s)" and v: "v < 2 ^ 47"
    and free: "3 \<le> card (free_frames (frames s))"
    and w: "get_or_create_table (root + 8 * pml4_idx v) s = (pdpt, s1)"
      "get_or_create_table (pdpt + 8 * pdpt_idx v) s1 = (pd, s2)"
      "get_or_create_table (pd + 8 * pd_idx v) s2 = (pt, s3)"
  shows "space_wf s3 root" "pmm_inv (frames s3)" "tab s3 root (vpath v) = Some pt"
    "preserved s root s3" "\<And>u. u < 2 ^ 47 \<Longrightarrow> leaf s3 root u = leaf s root u"
    "card (free_frames (frames s)) \<le> card (free_frames (frames s3)) + 3"
proof -
  have l1: "lowp ([] @ [pml4_idx v])" and l2: "lowp ([pml4_idx v] @ [pdpt_idx v])"
    and l3: "lowp ([pml4_idx v, pdpt_idx v] @ [pd_idx v])"
    using lowp_vpath [OF v] by (auto simp: lowp_def vpath_def)
  have "free_frames (frames s) \<noteq> {}" using free by auto
  from goc_created [OF wf inv l1 _ this w(1)] have c1: "created s root [pml4_idx v] pdpt s1" by simp
  then have "space_wf s1 root" "pmm_inv (frames s1)" "free_frames (frames s1) \<noteq> {}"
    "tab s1 root [pml4_idx v] = Some pdpt" using free by (auto simp: created_def)
  from goc_created [OF this(1,2) l2 this(4,3) w(2)]
  have c2: "created s1 root [pml4_idx v, pdpt_idx v] pd s2" by simp
  then have "space_wf s2 root" "pmm_inv (frames s2)" "free_frames (frames s2) \<noteq> {}"
    "tab s2 root [pml4_idx v, pdpt_idx v] = Some pd" using free c1 by (auto simp: created_def)
  from goc_created [OF this(1,2) l3 this(4,3) w(3)] have c3: "created s2 root (vpath v) pt s3"
    by (simp add: vpath_def)
  from c1 c2 c3 show "space_wf s3 root" "pmm_inv (frames s3)" "tab s3 root (vpath v) = Some pt"
    "\<And>u. u < 2 ^ 47 \<Longrightarrow> leaf s3 root u = leaf s root u"
    "card (free_frames (frames s)) \<le> card (free_frames (frames s3)) + 3"
    by (auto simp: created_def)
  show "preserved s root s3" using c1 c2 c3 unfolding created_def by (blast intro: preserved_trans)
qed

text \<open>Storing a leaf entry: no walk goes through it.\<close>

lemma store_leaf:
  assumes wf: "space_wf s root" and q: "lowp q" "length q = 3" "tab s root q = Some pt" and j: "j < 512"
    and s': "s' = s\<lparr>phys := wr64 (phys s) (pt + 8 * j) e\<rparr>"
  shows "lowp r \<Longrightarrow> tab s' root r = tab s root r"
    and "lowp r \<Longrightarrow> tab s root r = Some t \<Longrightarrow> i < 512 \<Longrightarrow>
      entry s' t i = (if r = q \<and> i = j then e else entry s t i)"
    and "space_wf s' root" "preserved s root s'"
proof -
  have pt: "pt mod PAGE_SIZE = 0" using space_tabD [OF wf q(1,3)] by simp
  have ent: "entry s' t i = (if r = q \<and> i = j then e else entry s t i)"
    if "lowp r" "tab s root r = Some t" "i < 512" for r t i
    using entry_wr64 [OF pt, of t j i "phys s" e] space_tabD [OF wf that(1,2)] that(3) j
      space_tab_inj [OF wf q(1) that(1) q(3)] that(2) q(3) by (auto simp: s' entry_def)
  then show "lowp r \<Longrightarrow> tab s root r = Some t \<Longrightarrow> i < 512 \<Longrightarrow>
      entry s' t i = (if r = q \<and> i = j then e else entry s t i)" .
  have tb: "tab s' root r = tab s root r" if "lowp r" for r
    using that
  proof (induction r rule: rev_induct)
    case (snoc i r)
    note l = lowp_snocD [OF snoc.prems]
    then have "r \<noteq> q" using q(2) by auto
    with l snoc ent [of r] show ?case unfolding tab_snoc by (auto split: option.splits)
  qed simp
  then show "lowp r \<Longrightarrow> tab s' root r = tab s root r" .
  have same: "frames s' = frames s" by (simp add: s')
  show "space_wf s' root"
    unfolding space_wf_def
  proof (intro conjI allI impI; (elim conjE)?)
    fix p t assume "lowp p" "tab s' root p = Some t"
    with tb wf show "t mod PAGE_SIZE = 0" "t div PAGE_SIZE \<in> used_frames (frames s')"
      unfolding same space_wf_def by auto
  next
    fix p r t assume "lowp p" "lowp r" "tab s' root p = Some t" "tab s' root r = Some t"
    with tb space_tab_inj [OF wf] show "p = r" by auto
  next
    fix p t i assume p: "lowp (p @ [i])" "length p = 2" "tab s' root p = Some t" "present (entry s' t i)"
    with lowp_snocD [OF p(1)] tb ent [of p t i] q(2) have "tab s root p = Some t" "entry s' t i = entry s t i"
      by auto
    with p wf show "\<not> huge (entry s' t i)" unfolding space_wf_def by auto
  qed
  have "own s' root = own s root" using tb by (auto simp: own_def)
  moreover have "phys s' x = phys s x" if "x div PAGE_SIZE * PAGE_SIZE \<notin> own s root" for x
  proof -
    have "x div PAGE_SIZE * PAGE_SIZE \<noteq> pt" using that q by (auto simp: own_def)
    then have "x < pt + 8 * j \<or> pt + 8 * j + 8 \<le> x" using page_cell_div [OF pt j, of x] by linarith
    then show ?thesis by (simp add: s' phys_wr64_out)
  qed
  ultimately show "preserved s root s'" using tb by (auto simp: preserved_def same)
qed

text \<open>The page of an address is determined by its four indices.\<close>

lemma page_split: "v div 2 ^ 12 = v div 2 ^ 39 * 2 ^ 27 + pdpt_idx v * 2 ^ 18 + pd_idx v * 2 ^ 9 + pt_idx v"
proof -
  have d: "v div 2 ^ 21 = v div 2 ^ 12 div 512" "v div 2 ^ 30 = v div 2 ^ 21 div 512"
    "v div 2 ^ 39 = v div 2 ^ 30 div 512" by (simp_all flip: div_mult2_eq)
  have "x = x div 512 * 512 + x mod 512" for x :: nat by simp
  note e = this [of "v div 2 ^ 12"] this [of "v div 2 ^ 21"] this [of "v div 2 ^ 30"]
  have "a = d * 2 ^ 27 + r3 * 2 ^ 18 + r2 * 2 ^ 9 + r1"
    if "a = b * 512 + r1" "b = c * 512 + r2" "c = d * 512 + r3" for a b c d r1 r2 r3 :: nat
    using that by simp
  from this [OF e [folded d]] show ?thesis unfolding pdpt_idx_def pd_idx_def pt_idx_def .
qed

lemma same_page_iff:
  assumes "u < 2 ^ 47" "v < 2 ^ 47"
  shows "vpath u = vpath v \<and> pt_idx u = pt_idx v \<longleftrightarrow> u div 2 ^ 12 = v div 2 ^ 12"
proof
  have "x div 2 ^ 39 < 512" if "x < 2 ^ 47" for x :: nat
    using that by (intro less_mult_imp_div_less) simp
  then have i: "pml4_idx u = u div 2 ^ 39" "pml4_idx v = v div 2 ^ 39"
    using assms by (simp_all add: pml4_idx_def)
  show "u div 2 ^ 12 = v div 2 ^ 12" if "vpath u = vpath v \<and> pt_idx u = pt_idx v"
    using that page_split [of u] page_split [of v] i by (simp add: vpath_def)
  have "x div 2 ^ 21 = x div 2 ^ 12 div 2 ^ 9" "x div 2 ^ 30 = x div 2 ^ 12 div 2 ^ 18"
    "x div 2 ^ 39 = x div 2 ^ 12 div 2 ^ 27" for x :: nat by (simp_all flip: div_mult2_eq)
  then show "vpath u = vpath v \<and> pt_idx u = pt_idx v" if "u div 2 ^ 12 = v div 2 ^ 12"
    using that unfolding vpath_def pml4_idx_def pdpt_idx_def pd_idx_def pt_idx_def by simp
qed

definition leaf_pte :: "nat \<Rightarrow> u64 \<Rightarrow> u64" where
  "leaf_pte paddr flags = (of_nat paddr AND NOT 0xFFF) OR flags OR PTE_PRESENT"

lemma map_4k_effect:
  assumes wf: "space_wf s root" and inv: "pmm_inv (frames s)" and v: "v < 2 ^ 47"
    and free: "3 \<le> card (free_frames (frames s))"
    and s'_def: "s' = vmm_map_4k_in root v a f s"
  shows "space_wf s' root" "pmm_inv (frames s')" "preserved s root s'"
    "\<And>u. u < 2 ^ 47 \<Longrightarrow> leaf s' root u = (if u div PAGE_SIZE = v div PAGE_SIZE then Some (leaf_pte a f) else leaf s root u)"
    "card (free_frames (frames s)) \<le> card (free_frames (frames s')) + 3"
proof -
  obtain pdpt s1 pd s2 pt s3 where w: "get_or_create_table (root + 8 * pml4_idx v) s = (pdpt, s1)"
      "get_or_create_table (pdpt + 8 * pdpt_idx v) s1 = (pd, s2)"
      "get_or_create_table (pd + 8 * pd_idx v) s2 = (pt, s3)" by (metis surj_pair)
  have s': "s' = s3\<lparr>phys := wr64 (phys s3) (pt + 8 * pt_idx v) (leaf_pte a f)\<rparr>"
    by (simp add: s'_def vmm_map_4k_in_def w leaf_pte_def)
  note m = map_walk [OF wf inv v free w]
  note st = store_leaf [OF m(1) lowp_vpath [OF v] _ m(3) _ s']
  show "space_wf s' root" by (rule st) (simp_all add: vpath_def)
  show "pmm_inv (frames s')" "card (free_frames (frames s)) \<le> card (free_frames (frames s')) + 3"
    using m by (simp_all add: s')
  have "preserved s3 root s'" by (rule st) (simp_all add: vpath_def)
  then show "preserved s root s'" by (rule preserved_trans [OF m(4)])
  show "leaf s' root u = (if u div PAGE_SIZE = v div PAGE_SIZE then Some (leaf_pte a f) else leaf s root u)"
    if u: "u < 2 ^ 47" for u
  proof -
    have tb: "tab s' root (vpath u) = tab s3 root (vpath u)"
      by (rule st(1)) (simp_all add: lowp_vpath [OF u], simp add: vpath_def)
    have ent: "entry s' t (pt_idx u) = (if vpath u = vpath v \<and> pt_idx u = pt_idx v then leaf_pte a f else entry s3 t (pt_idx u))"
      if "tab s3 root (vpath u) = Some t" for t
      by (rule st(2) [OF _ _ lowp_vpath [OF u] that]) (simp_all add: vpath_def)
    have pr: "present (leaf_pte a f)" by (simp add: leaf_pte_def)
    show ?thesis
    proof (cases "vpath u = vpath v \<and> pt_idx u = pt_idx v")
      case True
      with tb ent m(3) pr same_page_iff [OF u v] show ?thesis by (simp add: leaf_def)
    next
      case False
      then have "leaf s' root u = leaf s3 root u"
        using tb ent by (auto simp: leaf_def split: option.splits)
      with False m(5) [OF u] same_page_iff [OF u v] show ?thesis by simp
    qed
  qed
qed

end
