(* ===== verification/Cow.thy ===== *)
theory Cow
  imports Vmm
begin

text \<open>
  Address spaces as a whole, still \<^verbatim>\<open>kernel/vmm.c\<close>: two address spaces with disjoint tables
  do not influence each other; the copy-on-write clone of \<^verbatim>\<open>vmm_clone_lower_half\<close> leaves
  parent and child with the same pages, write-protected, and one more owner per page; the
  teardown of \<^verbatim>\<open>vmm_destroy_address_space\<close> releases every table and every page once.
\<close>

section \<open>Other address spaces\<close>

lemma other_entry:
  assumes "preserved s root s'" "space_wf s other" "own s root \<inter> own s other = {}"
    and "lowp q" "tab s other q = Some t" "i < 512"
  shows "entry s' t i = entry s t i"
proof -
  have t: "t mod PAGE_SIZE = 0" "t div PAGE_SIZE \<in> used_frames (frames s)"
    using space_tabD [OF assms(2,4,5)] by auto
  have "t \<notin> own s root" using assms(3-5) by (auto simp: own_def)
  moreover have "x div PAGE_SIZE * PAGE_SIZE = t" if "t + 8 * i \<le> x" "x < t + 8 * i + 8" for x
    using page_cell_div [OF t(1) assms(6) that] .
  moreover have "t div PAGE_SIZE * PAGE_SIZE = t" using t(1) by (metis add.right_neutral div_mult_mod_eq)
  ultimately show ?thesis
    unfolding entry_def using t(2) assms(1) unfolding preserved_def
    by (intro rd64_cong) (metis nonzero_mult_div_cancel_right zero_neq_numeral)
qed

lemma other_space:
  assumes "preserved s root s'" "space_wf s other" "own s root \<inter> own s other = {}"
  shows "lowp q \<Longrightarrow> tab s' other q = tab s other q"
    and "u < 2 ^ 47 \<Longrightarrow> leaf s' other u = leaf s other u"
    and "space_wf s' other" "own s' other = own s other" "own s' root \<inter> own s' other = {}"
proof -
  note ent = other_entry [OF assms]
  have tb: "tab s' other q = tab s other q" if "lowp q" for q
    using that
  proof (induction q rule: rev_induct)
    case (snoc i q)
    with lowp_snocD [OF snoc.prems] ent [of q] show ?case unfolding tab_snoc by (auto split: option.splits)
  qed simp
  then show "lowp q \<Longrightarrow> tab s' other q = tab s other q" .
  show "leaf s' other u = leaf s other u" if "u < 2 ^ 47"
    using tb [OF lowp_vpath [OF that]] ent [OF lowp_vpath [OF that]]
    by (auto simp: leaf_def split: option.splits)
  show own: "own s' other = own s other" using tb by (auto simp: own_def)
  show "space_wf s' other"
    unfolding space_wf_def
  proof (intro conjI allI impI; (elim conjE)?)
    fix p t assume "lowp p" "tab s' other p = Some t"
    with tb space_tabD [OF assms(2)] assms(1)
    show "t mod PAGE_SIZE = 0" "t div PAGE_SIZE \<in> used_frames (frames s')"
      unfolding preserved_def by auto
  next
    fix p r t assume "lowp p" "lowp r" "tab s' other p = Some t" "tab s' other r = Some t"
    with tb space_tab_inj [OF assms(2)] show "p = r" by auto
  next
    fix p t i assume p: "lowp (p @ [i])" "length p = 2" "tab s' other p = Some t" "present (entry s' t i)"
    with lowp_snocD [OF p(1)] tb ent [of p t i] have "tab s other p = Some t" "entry s' t i = entry s t i" by auto
    with p assms(2) show "\<not> huge (entry s' t i)" unfolding space_wf_def by auto
  qed
  have "u div PAGE_SIZE \<in> used_frames (frames s)" if "u \<in> own s other" for u
    using that space_tabD [OF assms(2)] by (auto simp: own_def)
  with assms(1,3) own show "own s' root \<inter> own s' other = {}" unfolding preserved_def by blast
qed

text \<open>Changes of the frame counters alone.\<close>

lemma frames_upd [simp]:
  "entry (s\<lparr>frames := p\<rparr>) t i = entry s t i" "tab (s\<lparr>frames := p\<rparr>) root q = tab s root q"
  "leaf (s\<lparr>frames := p\<rparr>) root v = leaf s root v" "own (s\<lparr>frames := p\<rparr>) root = own s root"
proof -
  show e: "entry (s\<lparr>frames := p\<rparr>) t i = entry s t i" for t i by (simp add: entry_def)
  show t: "tab (s\<lparr>frames := p\<rparr>) root q = tab s root q" for root q by (induction q arbitrary: root) (auto simp: e)
  show "leaf (s\<lparr>frames := p\<rparr>) root v = leaf s root v" "own (s\<lparr>frames := p\<rparr>) root = own s root"
    by (simp_all add: leaf_def own_def e t split: option.split)
qed

lemma space_wf_frames:
  "used_frames p = used_frames (frames s) \<Longrightarrow> space_wf (s\<lparr>frames := p\<rparr>) root \<longleftrightarrow> space_wf s root"
  by (simp add: space_wf_def)

section \<open>Entries of shared pages\<close>

definition cow_flags :: "u64 \<Rightarrow> u64" where
  "cow_flags e = (if e AND 0xFFF AND PTE_WRITE \<noteq> 0 then (e AND 0xFFF AND NOT PTE_WRITE) OR PTE_COW
     else e AND 0xFFF)"

definition cow_pte :: "u64 \<Rightarrow> u64" where
  "cow_pte e = (if e AND 0xFFF AND PTE_WRITE \<noteq> 0 then (e AND NOT 0xFFF) OR cow_flags e OR PTE_PRESENT else e)"

lemma of_nat_pte_addr [simp]: "of_nat (pte_addr e) = e AND NOT 0xFFF"
  by (simp add: pte_addr_def)

lemma and_split: "(e AND NOT m) OR (e AND m) = (e :: u64)"
  using bit.conj_disj_distrib [of e "NOT m" m] by simp

lemma leaf_pte_cow: "present e \<Longrightarrow> leaf_pte (pte_addr e) (cow_flags e) = cow_pte e"
proof (cases "e AND 0xFFF AND PTE_WRITE \<noteq> 0")
  case True
  then show ?thesis by (simp add: leaf_pte_def cow_pte_def cow_flags_def and.assoc)
next
  case False
  assume "present e"
  then have "bit e 0" by (simp add: present_def PTE_PRESENT_def and_one_eq odd_iff_mod_2_eq_one bit_0)
  then have "e OR PTE_PRESENT = e" by (intro bit_word_eqI) (auto simp: bit_simps PTE_PRESENT_def)
  moreover have "(e AND NOT 0xFFF) OR (e AND 0xFFF) OR PTE_PRESENT = e OR PTE_PRESENT"
    using and_split [of e "0xFFF"] by (simp only: flip: or.assoc)
  ultimately show ?thesis using False by (simp add: leaf_pte_def cow_pte_def cow_flags_def and.assoc)
qed

lemma cow_pte_present [simp]: "present e \<Longrightarrow> present (cow_pte e)"
  by (simp add: cow_pte_def)

section \<open>Page numbers in loop order\<close>

definition pageno :: "nat \<Rightarrow> nat \<Rightarrow> nat \<Rightarrow> nat \<Rightarrow> nat" where
  "pageno i j k l = ((i * 512 + j) * 512 + k) * 512 + l"

lemma path_vaddr_pageno: "path_vaddr i j k l = pageno i j k l * PAGE_SIZE"
  by (simp add: path_vaddr_def pageno_def)

lemma pageno_indices:
  assumes "j < 512" "k < 512" "l < 512" "i < 256"
  shows "vpath (pageno i j k l * PAGE_SIZE) = [i, j, k]" "pt_idx (pageno i j k l * PAGE_SIZE) = l"
    "pageno i j k l * PAGE_SIZE < 2 ^ 47"
proof -
  have d: "(a * 512 + b) div 512 = a" "(a * 512 + b) mod 512 = b" if "b < 512" for a b :: nat
    using that by simp_all
  let ?n = "pageno i j k l"
  have n: "?n mod 512 = l" "?n div 512 = (i * 512 + j) * 512 + k"
    unfolding pageno_def using assms(3) by (simp_all only: d)
  have s: "?n * PAGE_SIZE div 2 ^ 12 = ?n" "?n * PAGE_SIZE div 2 ^ 21 = ?n div 512"
    "?n * PAGE_SIZE div 2 ^ 30 = ?n div 512 div 512" "?n * PAGE_SIZE div 2 ^ 39 = ?n div 512 div 512 div 512"
    using div_mult2_eq [of "?n * PAGE_SIZE" PAGE_SIZE 512]
      div_mult2_eq [of "?n * PAGE_SIZE" PAGE_SIZE "512 * 512"]
      div_mult2_eq [of "?n * PAGE_SIZE" PAGE_SIZE "512 * 512 * 512"]
      div_mult2_eq [of ?n 512 512] div_mult2_eq [of ?n "512 * 512" 512] by simp_all
  have q: "?n div 512 mod 512 = k" "?n div 512 div 512 mod 512 = j" "?n div 512 div 512 div 512 = i"
    unfolding n using assms(1,2) by (simp_all only: d)
  show "pt_idx (?n * PAGE_SIZE) = l" unfolding pt_idx_def s n ..
  show "vpath (?n * PAGE_SIZE) = [i, j, k]"
    unfolding vpath_def pml4_idx_def pdpt_idx_def pd_idx_def s q using assms(4) by simp
  have "?n < 2 ^ 35" using assms unfolding pageno_def by simp
  then show "?n * PAGE_SIZE < 2 ^ 47" by simp
qed

lemma pageno_carry:
  "pageno i j k 512 = pageno i j (Suc k) 0" "pageno i j 512 0 = pageno i (Suc j) 0 0"
  "pageno i 512 0 0 = pageno (Suc i) 0 0 0"
  by (simp_all add: pageno_def)

section \<open>The clone\<close>

text \<open>The pages mapped in the source, and the invariant of the four loops: the pages below
  \<open>n\<close> are shared, the others untouched.\<close>

definition mapped :: "mm \<Rightarrow> nat \<Rightarrow> nat set" where
  "mapped s root = {n. n < 2 ^ 35 \<and> leaf s root (n * PAGE_SIZE) \<noteq> None}"

definition owners :: "mm \<Rightarrow> nat \<Rightarrow> nat \<Rightarrow> nat \<Rightarrow> nat set" where
  "owners s root n i =
     {m. m < n \<and> (\<exists>e. leaf s root (m * PAGE_SIZE) = Some e \<and> pte_addr e div PAGE_SIZE = i)}"

definition clone_inv :: "mm \<Rightarrow> nat \<Rightarrow> nat \<Rightarrow> nat \<Rightarrow> mm \<Rightarrow> bool" where
  "clone_inv s0 src dest n s \<longleftrightarrow>
     pmm_inv (frames s) \<and> space_wf s src \<and> space_wf s dest \<and> own s src \<inter> own s dest = {} \<and>
     (\<forall>q. lowp q \<longrightarrow> tab s src q = tab s0 src q) \<and>
     (\<forall>u < 2 ^ 47. leaf s src u =
        (if u div PAGE_SIZE < n then map_option cow_pte (leaf s0 src u) else leaf s0 src u)) \<and>
     (\<forall>u < 2 ^ 47. leaf s dest u =
        (if u div PAGE_SIZE < n then map_option cow_pte (leaf s0 src u) else None)) \<and>
     used_frames (frames s0) \<subseteq> used_frames (frames s) \<and>
     (\<forall>i \<in> used_frames (frames s0).
        refcount (frames s) i = refcount (frames s0) i + of_nat (card (owners s0 src n i))) \<and>
     card (free_frames (frames s0)) \<le> card (free_frames (frames s)) + 3 * card (mapped s0 src \<inter> {..<n}) \<and>
     (\<forall>x. x div PAGE_SIZE \<in> used_frames (frames s0) \<longrightarrow> x div PAGE_SIZE * PAGE_SIZE \<notin> own s src \<union> own s dest \<longrightarrow>
        phys s x = phys s0 x)"

lemma leaf_page: "u < 2 ^ 47 \<Longrightarrow> leaf s root (u div PAGE_SIZE * PAGE_SIZE) = leaf s root u"
proof -
  assume u: "u < 2 ^ 47"
  have "u div PAGE_SIZE * PAGE_SIZE < 2 ^ 47" using u by (rule le_less_trans [rotated]) simp
  from same_page_iff [OF this u] show ?thesis by (simp add: leaf_def split: option.split)
qed

lemma finite_owners [simp]: "finite (owners s root n i)"
  by (simp add: owners_def)

lemma finite_mapped [simp]: "finite (mapped s root)"
  by (simp add: mapped_def)

text \<open>Pages that are not mapped may be skipped.\<close>

lemma clone_skip:
  assumes "clone_inv s0 src dest n s" "n \<le> n'"
    and "\<And>m. n \<le> m \<Longrightarrow> m < n' \<Longrightarrow> leaf s0 src (m * PAGE_SIZE) = None"
  shows "clone_inv s0 src dest n' s"
proof -
  have none: "leaf s0 src u = None" if "u < 2 ^ 47" "n \<le> u div PAGE_SIZE" "u div PAGE_SIZE < n'" for u
    using assms(3) that leaf_page [OF that(1), of s0 src] by simp
  have below: "m < n' \<longleftrightarrow> m < n" if "leaf s0 src (m * PAGE_SIZE) = Some e" for m e
    using assms(2,3) that by (metis leI option.distinct(1) order_less_le_trans)
  have "owners s0 src n' i = owners s0 src n i" for i
    unfolding owners_def using below by auto
  moreover have "mapped s0 src \<inter> {..<n'} = mapped s0 src \<inter> {..<n}"
    unfolding mapped_def using below by auto
  ultimately show ?thesis
    using assms(1,2) none unfolding clone_inv_def by (auto simp: not_less [symmetric])
qed

lemma owners_Suc:
  assumes "leaf s root (n * PAGE_SIZE) = Some e"
  shows "card (owners s root (Suc n) i) = card (owners s root n i) + (if pte_addr e div PAGE_SIZE = i then 1 else 0)"
proof -
  have "owners s root (Suc n) i = (if pte_addr e div PAGE_SIZE = i then insert n (owners s root n i) else owners s root n i)"
    using assms by (auto simp: owners_def less_Suc_eq)
  moreover have "n \<notin> owners s root n i" by (simp add: owners_def)
  ultimately show ?thesis by simp
qed

lemma mapped_Suc:
  assumes "leaf s root (n * PAGE_SIZE) = Some e" "n < 2 ^ 35"
  shows "card (mapped s root \<inter> {..<Suc n}) = Suc (card (mapped s root \<inter> {..<n}))"
    "card (mapped s root \<inter> {..<n}) < card (mapped s root)"
proof -
  have "mapped s root \<inter> {..<Suc n} = insert n (mapped s root \<inter> {..<n})"
    using assms by (auto simp: mapped_def less_Suc_eq)
  then show "card (mapped s root \<inter> {..<Suc n}) = Suc (card (mapped s root \<inter> {..<n}))" by simp
  have "n \<in> mapped s root" using assms by (simp add: mapped_def)
  then show "card (mapped s root \<inter> {..<n}) < card (mapped s root)"
    by (intro psubset_card_mono) auto
qed

text \<open>The write-protected entry of the parent: the stored value, as one store.\<close>

lemma clone_pte_present:
  assumes "present (entry s pt l)"
  defines "e \<equiv> entry s pt l"
  defines "s1 \<equiv> s\<lparr>phys := wr64 (phys s) (pt + 8 * l) (cow_pte e)\<rparr>"
  shows "clone_pte dest i j k pt l s =
    vmm_map_4k_in dest (path_vaddr i j k l) (pte_addr e) (cow_flags e)
      ((if e AND 0xFFF AND PTE_WRITE \<noteq> 0 then s1 else s)
         \<lparr>frames := pmm_page_ref (pte_addr e) (frames s)\<rparr>)"
  using assms(1) unfolding clone_pte_def Let_def e_def [symmetric] s1_def
  by (simp add: cow_pte_def cow_flags_def and.assoc or.assoc)

text \<open>The parent's side of one page.\<close>

lemma protect_effect:
  assumes wf: "space_wf s src" "space_wf s dest" "own s src \<inter> own s dest = {}"
    and ix: "i < 256" "j < 512" "k < 512" "l < 512" and pt: "tab s src [i, j, k] = Some pt"
    and e: "e = entry s pt l" "present e"
    and s1: "s1 = (if e AND 0xFFF AND PTE_WRITE \<noteq> 0 then s\<lparr>phys := wr64 (phys s) (pt + 8 * l) (cow_pte e)\<rparr> else s)"
  shows "space_wf s1 src" "space_wf s1 dest" "own s1 src \<inter> own s1 dest = {}" "frames s1 = frames s"
    "own s1 src = own s src" "own s1 dest = own s dest" "preserved s src s1"
    "\<And>q. lowp q \<Longrightarrow> tab s1 src q = tab s src q"
    "\<And>u. u < 2 ^ 47 \<Longrightarrow> leaf s1 dest u = leaf s dest u"
    "\<And>u. u < 2 ^ 47 \<Longrightarrow> leaf s1 src u = (if u div PAGE_SIZE = pageno i j k l then Some (cow_pte e) else leaf s src u)"
proof -
  have low: "lowp [i, j, k]" using ix by (auto simp: lowp_def)
  note pn = pageno_indices [OF ix(2-4,1)]
  let ?s = "s\<lparr>phys := wr64 (phys s) (pt + 8 * l) (cow_pte e)\<rparr>"
  note st = store_leaf [where e = "cow_pte e" and s' = ?s, OF wf(1) low _ pt ix(4), simplified]
  note ot = other_space [OF st(4) wf(2,3)]
  show wf': "space_wf s1 src" "space_wf s1 dest" "own s1 src \<inter> own s1 dest = {}" "frames s1 = frames s"
    "own s1 dest = own s dest" "preserved s src s1" "\<And>q. lowp q \<Longrightarrow> tab s1 src q = tab s src q"
    "\<And>u. u < 2 ^ 47 \<Longrightarrow> leaf s1 dest u = leaf s dest u"
    using wf st ot by (simp_all add: s1)
  then show "own s1 src = own s src" by (auto simp: own_def)
  have at: "leaf s src (pageno i j k l * PAGE_SIZE) = Some e"
    using pn pt e by (simp add: leaf_def)
  show "leaf s1 src u = (if u div PAGE_SIZE = pageno i j k l then Some (cow_pte e) else leaf s src u)"
    if u: "u < 2 ^ 47" for u
  proof (cases "e AND 0xFFF AND PTE_WRITE \<noteq> 0")
    case True
    have "entry s1 t (pt_idx u) = (if vpath u = [i, j, k] \<and> pt_idx u = l then cow_pte e else entry s t (pt_idx u))"
      if "tab s src (vpath u) = Some t" for t
      using st(2) [OF lowp_vpath [OF u] that] True by (simp add: s1)
    moreover have "vpath u = [i, j, k] \<and> pt_idx u = l \<longleftrightarrow> u div PAGE_SIZE = pageno i j k l"
      using same_page_iff [OF u pn(3)] pn by simp
    ultimately show ?thesis
      using wf'(7) [OF lowp_vpath [OF u]] pt e(2) cow_pte_present [OF e(2)] unfolding leaf_def
      by (auto split: option.splits)
  next
    case False
    then show ?thesis using at leaf_page [OF u, of s src] by (auto simp: s1 cow_pte_def)
  qed
qed

lemma clone_pte_step:
  assumes inv: "clone_inv s0 src dest (pageno i j k l) s"
    and room: "3 * card (mapped s0 src) \<le> card (free_frames (frames s0))"
    and ix: "i < 256" "j < 512" "k < 512" "l < 512" and pt: "tab s src [i, j, k] = Some pt"
  shows "clone_inv s0 src dest (Suc (pageno i j k l)) (clone_pte dest i j k pt l s)"
proof -
  let ?n = "pageno i j k l"
  note pn = pageno_indices [OF ix(2-4,1)]
  have wf: "space_wf s src" "space_wf s dest" "own s src \<inter> own s dest = {}" "pmm_inv (frames s)"
    and n35: "?n < 2 ^ 35"
    using inv pn(3) by (simp_all add: clone_inv_def)
  have at: "leaf s src (?n * PAGE_SIZE) = leaf s0 src (?n * PAGE_SIZE)"
    using inv pn(3) by (simp add: clone_inv_def)
  have lf: "leaf s src (?n * PAGE_SIZE) = (if present (entry s pt l) then Some (entry s pt l) else None)"
    using pn pt by (simp add: leaf_def)
  show ?thesis
  proof (cases "present (entry s pt l)")
    case False
    then have "clone_pte dest i j k pt l s = s" by (simp add: clone_pte_def)
    moreover have "leaf s0 src (?n * PAGE_SIZE) = None" using False lf at by simp
    ultimately show ?thesis using clone_skip [OF inv, of "Suc ?n"] by (auto simp: le_less_Suc_eq)
  next
    case True
    define e where "e = entry s pt l"
    define s1 where "s1 = (if e AND 0xFFF AND PTE_WRITE \<noteq> 0
      then s\<lparr>phys := wr64 (phys s) (pt + 8 * l) (cow_pte e)\<rparr> else s)"
    define s2 where "s2 = s1\<lparr>frames := pmm_page_ref (pte_addr e) (frames s)\<rparr>"
    define s3 where "s3 = vmm_map_4k_in dest (?n * PAGE_SIZE) (pte_addr e) (cow_flags e) s2"
    have pe: "present e" using True by (simp add: e_def)
    have s3: "clone_pte dest i j k pt l s = s3"
      using clone_pte_present [OF True] by (simp add: s3_def s2_def s1_def e_def path_vaddr_pageno)
    have e0: "leaf s0 src (?n * PAGE_SIZE) = Some e" using at lf True by (simp add: e_def)
    note p1 = protect_effect [OF wf(1-3) ix pt e_def pe s1_def]
    have u2: "used_frames (frames s2) = used_frames (frames s)" by (simp add: s2_def)
    have f2: "free_frames (frames s2) = free_frames (frames s)"
      by (auto simp: s2_def free_frames_def pmm_page_ref_def Let_def)
    have wf2: "space_wf s2 src" "space_wf s2 dest" "own s2 src \<inter> own s2 dest = {}" "pmm_inv (frames s2)"
      using p1 wf(4) page_ref_inv unfolding s2_def by (simp_all add: space_wf_frames)
    have "3 \<le> card (free_frames (frames s2))"
      using inv room mapped_Suc(2) [OF e0 n35] unfolding f2 clone_inv_def by linarith
    note m = map_4k_effect [OF wf2(2,4) pn(3) this s3_def]
    have "own s2 dest \<inter> own s2 src = {}" using wf2(3) by auto
    note o = other_space [OF m(3) wf2(1) this]
    have "card (free_frames (frames s0)) \<le> card (free_frames (frames s)) + 3 * card (mapped s0 src \<inter> {..<?n})"
      using inv by (simp add: clone_inv_def)
    then have card: "card (free_frames (frames s0)) \<le> card (free_frames (frames s3)) + 3 * card (mapped s0 src \<inter> {..<Suc ?n})"
      using m(5) unfolding mapped_Suc(1) [OF e0 n35] f2 by simp
    have used: "used_frames (frames s0) \<subseteq> used_frames (frames s3)"
      using inv m(3) u2 unfolding clone_inv_def preserved_def by blast
    have ref: "refcount (frames s3) x = refcount (frames s0) x + of_nat (card (owners s0 src (Suc ?n) x))"
      if x: "x \<in> used_frames (frames s0)" for x
    proof -
      have "x \<in> used_frames (frames s)" using inv x by (auto simp: clone_inv_def)
      moreover have "refcount (frames s3) x = refcount (frames s2) x"
        using m(3) calculation u2 unfolding preserved_def by blast
      ultimately show ?thesis using inv x owners_Suc [OF e0, of x]
        by (auto simp: s2_def page_ref_count clone_inv_def)
    qed
    have bytes: "phys s3 x = phys s0 x" if x: "x div PAGE_SIZE \<in> used_frames (frames s0)"
      "x div PAGE_SIZE * PAGE_SIZE \<notin> own s3 src \<union> own s3 dest" for x
    proof -
      have xs: "x div PAGE_SIZE \<in> used_frames (frames s)" using inv x(1) by (auto simp: clone_inv_def)
      have no: "x div PAGE_SIZE * PAGE_SIZE \<notin> own s src" using x o(4) p1(5) by (simp add: s2_def)
      have nd: "x div PAGE_SIZE * PAGE_SIZE \<notin> own s dest"
      proof
        assume "x div PAGE_SIZE * PAGE_SIZE \<in> own s dest"
        then obtain q where q: "lowp q" "tab s2 dest q = Some (x div PAGE_SIZE * PAGE_SIZE)"
          using p1(6) by (auto simp: own_def s2_def)
        then have "tab s3 dest q = Some (x div PAGE_SIZE * PAGE_SIZE)"
          using m(3) unfolding preserved_def by blast
        with x q show False by (auto simp: own_def)
      qed
      have "phys s3 x = phys s2 x" using m(3) xs u2 nd p1(6) unfolding preserved_def by (simp add: s2_def)
      also have "\<dots> = phys s x" using p1(7) xs no unfolding preserved_def by (simp add: s2_def)
      also have "\<dots> = phys s0 x" using inv x(1) no nd unfolding clone_inv_def by blast
      finally show ?thesis .
    qed
    have eu: "leaf s0 src u = Some e" if "u < 2 ^ 47" "u div PAGE_SIZE = ?n" for u
      using leaf_page [OF that(1), of s0 src] that(2) e0 by simp
    have srcl: "leaf s3 src u = (if u div PAGE_SIZE < Suc ?n then map_option cow_pte (leaf s0 src u) else leaf s0 src u)"
      if u: "u < 2 ^ 47" for u
    proof -
      have "leaf s src u = (if u div PAGE_SIZE < ?n then map_option cow_pte (leaf s0 src u) else leaf s0 src u)"
        using inv u by (simp add: clone_inv_def)
      with o(2) [OF u] p1(10) [OF u] eu [OF u] show ?thesis by (simp add: s2_def less_Suc_eq)
    qed
    have destl: "leaf s3 dest u = (if u div PAGE_SIZE < Suc ?n then map_option cow_pte (leaf s0 src u) else None)"
      if u: "u < 2 ^ 47" for u
    proof -
      have "leaf s dest u = (if u div PAGE_SIZE < ?n then map_option cow_pte (leaf s0 src u) else None)"
        using inv u by (simp add: clone_inv_def)
      with m(4) [OF u] p1(9) [OF u] eu [OF u] leaf_pte_cow [OF pe] show ?thesis by (simp add: s2_def less_Suc_eq)
    qed
    have tabs: "tab s3 src q = tab s0 src q" if "lowp q" for q
      using o(1) [OF that] p1(8) [OF that] inv that unfolding clone_inv_def by (simp add: s2_def)
    show ?thesis unfolding s3 clone_inv_def using m(1,2) o(3,5) tabs srcl destl used ref card bytes by blast
  qed
qed

text \<open>The loops, from the innermost out. A page number in a block shares the block's indices.\<close>

lemma block_pt:
  assumes "pageno i j k 0 \<le> m" "m < pageno i j (Suc k) 0"
  obtains l where "l < 512" "m = pageno i j k l"
  using assms that [of "m - pageno i j k 0"] by (auto simp: pageno_def)

lemma block_pd:
  assumes "pageno i j 0 0 \<le> m" "m < pageno i (Suc j) 0 0"
  obtains k l where "k < 512" "l < 512" "m = pageno i j k l"
proof -
  obtain d where d: "m = pageno i j 0 0 + d" "d < 512 * 512"
    using assms by (intro that [of "m - pageno i j 0 0"]) (auto simp: pageno_def)
  have "d div 512 < 512" using d(2) by (simp add: less_mult_imp_div_less)
  moreover have "m = pageno i j (d div 512) (d mod 512)" unfolding d(1) pageno_def by simp
  ultimately show thesis using that [of "d div 512" "d mod 512"] by simp
qed

lemma block_pdpt:
  assumes "pageno i 0 0 0 \<le> m" "m < pageno (Suc i) 0 0 0"
  obtains j k l where "j < 512" "k < 512" "l < 512" "m = pageno i j k l"
proof -
  obtain d where d: "m = pageno i 0 0 0 + d" "d < 512 * 512 * 512"
    using assms by (intro that [of "m - pageno i 0 0 0"]) (auto simp: pageno_def)
  obtain j r where jr: "d = j * (512 * 512) + r" "r < 512 * 512"
    by (rule that [of "d div (512 * 512)" "d mod (512 * 512)"]) (simp_all only: div_mult_mod_eq, simp)
  from jr d(2) have "j < 512" by simp
  moreover have "pageno i j 0 0 \<le> m" "m < pageno i (Suc j) 0 0"
    using jr(2) unfolding d(1) jr(1) pageno_def by simp_all
  then obtain k l where "k < 512" "l < 512" "m = pageno i j k l" by (rule block_pd)
  ultimately show thesis using that by blast
qed

lemma clone_inv_tab: "clone_inv s0 src dest n s \<Longrightarrow> lowp q \<Longrightarrow> tab s src q = tab s0 src q"
  unfolding clone_inv_def by blast

lemma leaf_None_prefix:
  assumes "vpath u = p @ q" "tab s root p = None"
  shows "leaf s root u = None"
proof -
  have "tab s t (p @ q) = None" if "tab s t p = None" for t p
    using that by (induction p arbitrary: t) auto
  with assms show ?thesis by (simp add: leaf_def)
qed

lemma clone_pt_step:
  assumes "clone_inv s0 src dest (pageno i j k 0) s" "3 * card (mapped s0 src) \<le> card (free_frames (frames s0))"
    and ix: "i < 256" "j < 512" "k < 512" and pt: "tab s0 src [i, j, k] = Some pt"
  shows "clone_inv s0 src dest (pageno i j (Suc k) 0) (clone_pt dest i j k pt s)"
proof -
  have low: "lowp [i, j, k]" using ix by (auto simp: lowp_def)
  have "clone_inv s0 src dest (pageno i j k 512) (fold (clone_pte dest i j k pt) [0..<512] s)"
  proof (rule fold_upt_inv [where P = "\<lambda>l. clone_inv s0 src dest (pageno i j k l)"])
    fix l s assume l: "l < 512" and inv: "clone_inv s0 src dest (pageno i j k l) s"
    have "tab s src [i, j, k] = Some pt" unfolding clone_inv_tab [OF inv low] by (rule pt)
    from clone_pte_step [OF inv assms(2) ix l this]
    show "clone_inv s0 src dest (pageno i j k (Suc l)) (clone_pte dest i j k pt l s)" by (simp add: pageno_def)
  qed (use assms(1) in simp_all)
  then show ?thesis by (simp only: clone_pt_def pageno_carry)
qed

text \<open>An outer loop visits the next table when its entry is present, and otherwise skips a
  block without mapped pages.\<close>

lemma guard_tab:
  assumes "clone_inv s0 src dest n s" "lowp (p @ [i])" "tab s0 src p = Some t"
  shows "tab s0 src (p @ [i]) = (if present (entry s t i) then Some (pte_addr (entry s t i)) else None)"
  using clone_inv_tab [OF assms(1,2)] clone_inv_tab [OF assms(1), of p] lowp_snocD [OF assms(2)] assms(3)
  by (simp add: tab_snoc [of s])

lemma clone_pd_step:
  assumes "clone_inv s0 src dest (pageno i j 0 0) s" "3 * card (mapped s0 src) \<le> card (free_frames (frames s0))"
    and wf: "space_wf s0 src"
    and ix: "i < 256" "j < 512" and pd: "tab s0 src [i, j] = Some pd"
  shows "clone_inv s0 src dest (pageno i (Suc j) 0 0) (clone_pd dest i j pd s)"
proof -
  let ?f = "\<lambda>k s. if present (entry s pd k) \<and> \<not> huge (entry s pd k) then clone_pt dest i j k (pte_addr (entry s pd k)) s else s"
  have "clone_inv s0 src dest (pageno i j 512 0) (fold ?f [0..<512] s)"
  proof (rule fold_upt_inv [where P = "\<lambda>k. clone_inv s0 src dest (pageno i j k 0)"])
    fix k s assume k: "k < 512" and inv: "clone_inv s0 src dest (pageno i j k 0) s"
    have low: "lowp ([i, j] @ [k])" using ix k by (auto simp: lowp_def)
    note g = guard_tab [OF inv low pd]
    show "clone_inv s0 src dest (pageno i j (Suc k) 0) (?f k s)"
    proof (cases "present (entry s pd k)")
      case True
      have "space_wf s src" "tab s src [i, j] = Some pd"
        using inv clone_inv_tab [OF inv, of "[i, j]"] lowp_snocD [OF low] pd by (auto simp: clone_inv_def)
      with True low have "\<not> huge (entry s pd k)" using space_not_huge by simp
      with True g clone_pt_step [OF inv assms(2) ix k] show ?thesis by simp
    next
      case False
      then have none: "tab s0 src [i, j, k] = None" using g by simp
      have "leaf s0 src (m * PAGE_SIZE) = None" if "pageno i j k 0 \<le> m" "m < pageno i j (Suc k) 0" for m
      proof -
        from that obtain l where "l < 512" "m = pageno i j k l" by (rule block_pt)
        with ix k have "vpath (m * PAGE_SIZE) = [i, j, k] @ []" by (simp add: pageno_indices)
        with none show ?thesis by (rule leaf_None_prefix [rotated])
      qed
      with False clone_skip [OF inv] show ?thesis by (simp add: pageno_def)
    qed
  qed (use assms(1) in simp_all)
  then show ?thesis by (simp only: clone_pd_def pageno_carry)
qed

lemma clone_pdpt_step:
  assumes "clone_inv s0 src dest (pageno i 0 0 0) s" "3 * card (mapped s0 src) \<le> card (free_frames (frames s0))"
    and wf: "space_wf s0 src" and ix: "i < 256" and pdpt: "tab s0 src [i] = Some pdpt"
  shows "clone_inv s0 src dest (pageno (Suc i) 0 0 0) (clone_pdpt dest i pdpt s)"
proof -
  let ?f = "\<lambda>j s. if present (entry s pdpt j) then clone_pd dest i j (pte_addr (entry s pdpt j)) s else s"
  have "clone_inv s0 src dest (pageno i 512 0 0) (fold ?f [0..<512] s)"
  proof (rule fold_upt_inv [where P = "\<lambda>j. clone_inv s0 src dest (pageno i j 0 0)"])
    fix j s assume j: "j < 512" and inv: "clone_inv s0 src dest (pageno i j 0 0) s"
    have low: "lowp ([i] @ [j])" using ix j by (auto simp: lowp_def)
    note g = guard_tab [OF inv low pdpt]
    show "clone_inv s0 src dest (pageno i (Suc j) 0 0) (?f j s)"
    proof (cases "present (entry s pdpt j)")
      case True
      with g clone_pd_step [OF inv assms(2) wf ix j] show ?thesis by simp
    next
      case False
      then have none: "tab s0 src [i, j] = None" using g by simp
      have "leaf s0 src (m * PAGE_SIZE) = None" if "pageno i j 0 0 \<le> m" "m < pageno i (Suc j) 0 0" for m
      proof -
        from that obtain k l where "k < 512" "l < 512" "m = pageno i j k l" by (rule block_pd)
        with ix j have "vpath (m * PAGE_SIZE) = [i, j] @ [k]" by (simp add: pageno_indices)
        with none show ?thesis by (rule leaf_None_prefix [rotated])
      qed
      with False clone_skip [OF inv] show ?thesis by (simp add: pageno_def)
    qed
  qed (use assms(1) in simp_all)
  then show ?thesis by (simp only: clone_pdpt_def pageno_carry)
qed

lemma cr3_upd [simp]:
  "entry (s\<lparr>cr3 := c\<rparr>) t i = entry s t i" "tab (s\<lparr>cr3 := c\<rparr>) root q = tab s root q"
  "leaf (s\<lparr>cr3 := c\<rparr>) root v = leaf s root v" "own (s\<lparr>cr3 := c\<rparr>) root = own s root"
  "space_wf (s\<lparr>cr3 := c\<rparr>) root = space_wf s root"
proof -
  show e: "entry (s\<lparr>cr3 := c\<rparr>) t i = entry s t i" for t i by (simp add: entry_def)
  show t: "tab (s\<lparr>cr3 := c\<rparr>) root q = tab s root q" for root q by (induction q arbitrary: root) (auto simp: e)
  show "leaf (s\<lparr>cr3 := c\<rparr>) root v = leaf s root v" "own (s\<lparr>cr3 := c\<rparr>) root = own s root"
    "space_wf (s\<lparr>cr3 := c\<rparr>) root = space_wf s root"
    by (simp_all add: leaf_def own_def space_wf_def e t split: option.split)
qed

lemma clone_inv_cr3: "clone_inv s0 src dest n (s\<lparr>cr3 := c\<rparr>) = clone_inv s0 src dest n s"
  by (simp add: clone_inv_def)

lemma clone_inv_start:
  assumes "pmm_inv (frames s)" "space_wf s src" "space_wf s dest" "own s src \<inter> own s dest = {}"
    and "\<And>u. u < 2 ^ 47 \<Longrightarrow> leaf s dest u = None"
  shows "clone_inv s src dest 0 s"
  using assms by (simp add: clone_inv_def owners_def)

lemma clone_inv_end:
  assumes "clone_inv s src dest 0 s" "3 * card (mapped s src) \<le> card (free_frames (frames s))" "space_wf s src"
  shows "clone_inv s src dest (2 ^ 35) (vmm_clone_lower_half dest src s)"
proof -
  let ?f = "\<lambda>i s. if present (entry s src i) then clone_pdpt dest i (pte_addr (entry s src i)) s else s"
  have "clone_inv s src dest (pageno 256 0 0 0) (fold ?f [0..<256] s)"
  proof (rule fold_upt_inv [where P = "\<lambda>i. clone_inv s src dest (pageno i 0 0 0)"])
    fix i t assume i: "i < 256" and inv: "clone_inv s src dest (pageno i 0 0 0) t"
    have low: "lowp ([] @ [i])" using i by (auto simp: lowp_def)
    note g = guard_tab [OF inv low, of src]
    show "clone_inv s src dest (pageno (Suc i) 0 0 0) (?f i t)"
    proof (cases "present (entry t src i)")
      case True
      with g clone_pdpt_step [OF inv assms(2,3) i] show ?thesis by simp
    next
      case False
      then have none: "tab s src [i] = None" using g by simp
      have "leaf s src (m * PAGE_SIZE) = None" if "pageno i 0 0 0 \<le> m" "m < pageno (Suc i) 0 0 0" for m
      proof -
        from that obtain j k l where "j < 512" "k < 512" "l < 512" "m = pageno i j k l" by (rule block_pdpt)
        with i have "vpath (m * PAGE_SIZE) = [i] @ [j, k]" by (simp add: pageno_indices)
        with none show ?thesis by (rule leaf_None_prefix [rotated])
      qed
      with False clone_skip [OF inv] show ?thesis by (simp add: pageno_def)
    qed
  qed (use assms(1) in \<open>simp_all add: pageno_def\<close>)
  moreover have "pageno 256 0 0 0 = 2 ^ 35" by (simp add: pageno_def)
  ultimately show ?thesis unfolding vmm_clone_lower_half_def vmm_activate_def by (simp add: clone_inv_cr3)
qed

section \<open>The teardown\<close>

text \<open>The frames of an address space in the order the teardown visits them.\<close>

definition pt_frames :: "mm \<Rightarrow> nat \<Rightarrow> nat list" where
  "pt_frames s pt = concat (map (\<lambda>l. if present (entry s pt l) then [pte_addr (entry s pt l)] else []) [0..<512]) @ [pt]"

definition pd_frames :: "mm \<Rightarrow> nat \<Rightarrow> nat list" where
  "pd_frames s pd = concat (map (\<lambda>k. if present (entry s pd k) \<and> \<not> huge (entry s pd k)
     then pt_frames s (pte_addr (entry s pd k)) else []) [0..<512]) @ [pd]"

definition pdpt_frames :: "mm \<Rightarrow> nat \<Rightarrow> nat list" where
  "pdpt_frames s pdpt = concat (map (\<lambda>j. if present (entry s pdpt j)
     then pd_frames s (pte_addr (entry s pdpt j)) else []) [0..<512]) @ [pdpt]"

definition space_frames :: "mm \<Rightarrow> nat \<Rightarrow> nat list" where
  "space_frames s root = concat (map (\<lambda>i. if present (entry s root i)
     then pdpt_frames s (pte_addr (entry s root i)) else []) [0..<256]) @ [root]"

text \<open>Releasing frames does not touch memory, so every guard reads what it read at the start.\<close>

lemma free_frame_entry [simp]: "entry (free_frame a s) t i = entry s t i"
  by (simp add: free_frame_def)

lemma fold_free_entry [simp]: "entry (fold free_frame xs s) t i = entry s t i"
  by (induction xs arbitrary: s) auto

lemma fold_free_cong:
  assumes "\<And>i t. (\<And>u j. entry t u j = entry s u j) \<Longrightarrow> f i t = fold free_frame (L i) t"
  shows "fold f xs s = fold free_frame (concat (map L xs)) s"
proof -
  have "(\<And>u j. entry t u j = entry s u j) \<Longrightarrow> fold f xs t = fold free_frame (concat (map L xs)) t" for t
  proof (induction xs arbitrary: t)
    case (Cons x xs)
    have "fold f (x # xs) t = fold f xs (fold free_frame (L x) t)" using assms [OF Cons.prems] by simp
    also have "\<dots> = fold free_frame (concat (map L xs)) (fold free_frame (L x) t)"
      using Cons.prems by (intro Cons.IH) simp
    finally show ?case by simp
  qed simp
  then show ?thesis by simp
qed

lemma destroy_pt_frames: "destroy_pt pt s = fold free_frame (pt_frames s pt) s"
proof -
  have "fold (\<lambda>l s. if present (entry s pt l) then free_frame (pte_addr (entry s pt l)) s else s) [0..<512] s =
      fold free_frame (concat (map (\<lambda>l. if present (entry s pt l) then [pte_addr (entry s pt l)] else []) [0..<512])) s"
    by (rule fold_free_cong) simp
  then show ?thesis by (simp add: destroy_pt_def pt_frames_def)
qed

lemma pt_frames_cong: "(\<And>u j. entry t u j = entry s u j) \<Longrightarrow> pt_frames t pt = pt_frames s pt"
  by (simp add: pt_frames_def cong: if_cong)

lemma destroy_pd_frames: "destroy_pd pd s = fold free_frame (pd_frames s pd) s"
proof -
  let ?f = "\<lambda>k s. if present (entry s pd k) \<and> \<not> huge (entry s pd k)
    then destroy_pt (pte_addr (entry s pd k)) s else s"
  let ?L = "\<lambda>k. if present (entry s pd k) \<and> \<not> huge (entry s pd k)
    then pt_frames s (pte_addr (entry s pd k)) else []"
  have "fold ?f [0..<512] s = fold free_frame (concat (map ?L [0..<512])) s"
  proof (rule fold_free_cong)
    fix i t assume e: "\<And>u j. entry t u j = entry s u j"
    show "?f i t = fold free_frame (?L i) t" by (simp add: destroy_pt_frames e pt_frames_cong [OF e])
  qed
  then show ?thesis by (simp add: destroy_pd_def pd_frames_def)
qed

lemma pd_frames_cong: "(\<And>u j. entry t u j = entry s u j) \<Longrightarrow> pd_frames t pd = pd_frames s pd"
  by (simp add: pd_frames_def pt_frames_cong [of t s] cong: if_cong)

lemma destroy_pdpt_frames: "destroy_pdpt pdpt s = fold free_frame (pdpt_frames s pdpt) s"
proof -
  let ?f = "\<lambda>j s. if present (entry s pdpt j) then destroy_pd (pte_addr (entry s pdpt j)) s else s"
  let ?L = "\<lambda>j. if present (entry s pdpt j) then pd_frames s (pte_addr (entry s pdpt j)) else []"
  have "fold ?f [0..<512] s = fold free_frame (concat (map ?L [0..<512])) s"
  proof (rule fold_free_cong)
    fix i t assume e: "\<And>u j. entry t u j = entry s u j"
    show "?f i t = fold free_frame (?L i) t" by (simp add: destroy_pd_frames e pd_frames_cong [OF e])
  qed
  then show ?thesis by (simp add: destroy_pdpt_def pdpt_frames_def)
qed

lemma pdpt_frames_cong: "(\<And>u j. entry t u j = entry s u j) \<Longrightarrow> pdpt_frames t pdpt = pdpt_frames s pdpt"
  by (simp add: pdpt_frames_def pd_frames_cong [of t s] cong: if_cong)

lemma destroy_frames: "vmm_destroy_address_space root s = fold free_frame (space_frames s root) s"
proof -
  let ?f = "\<lambda>i s. if present (entry s root i) then destroy_pdpt (pte_addr (entry s root i)) s else s"
  let ?L = "\<lambda>i. if present (entry s root i) then pdpt_frames s (pte_addr (entry s root i)) else []"
  have "fold ?f [0..<256] s = fold free_frame (concat (map ?L [0..<256])) s"
  proof (rule fold_free_cong)
    fix i t assume e: "\<And>u j. entry t u j = entry s u j"
    show "?f i t = fold free_frame (?L i) t" by (simp add: destroy_pdpt_frames e pdpt_frames_cong [OF e])
  qed
  then show ?thesis by (simp add: vmm_destroy_address_space_def space_frames_def)
qed

lemma fold_free_frame: "fold free_frame xs s = s\<lparr>frames := fold pmm_free_page xs (frames s)\<rparr>"
  by (induction xs arbitrary: s) (simp_all add: free_frame_def)

text \<open>A frame survives fewer releases than it has owners.\<close>

definition releases :: "nat list \<Rightarrow> nat \<Rightarrow> nat" where
  "releases xs i = length (filter (\<lambda>a. a div PAGE_SIZE = i) xs)"

lemma fold_free_used:
  "i \<in> used_frames (fold pmm_free_page xs p) \<longleftrightarrow>
     i \<in> used_frames p \<and> (releases xs i = 0 \<or> releases xs i < unat (refcount p i))"
proof (induction xs arbitrary: p)
  case Nil
  then show ?case by (simp add: releases_def)
next
  case (Cons a xs)
  show ?case
  proof (cases "a div PAGE_SIZE = i \<and> i \<in> used_frames p")
    case True
    then have r: "releases (a # xs) i = Suc (releases xs i)" by (simp add: releases_def)
    show ?thesis
    proof (cases "1 < refcount p i")
      case gt: True
      then have "1 < unat (refcount p i)" by (simp add: word_less_nat_alt)
      moreover from this have "unat (refcount p i - 1) = unat (refcount p i) - 1"
        by (intro unat_minus_one) auto
      ultimately show ?thesis using True gt r
        by (auto simp add: Cons.IH free_page_used free_page_count less_diff_conv)
    next
      case False
      then have "unat (refcount p i) \<le> 1" by (simp add: word_less_nat_alt)
      then show ?thesis using True False r by (auto simp: Cons.IH free_page_used)
    qed
  next
    case False
    then show ?thesis
      by (auto simp: Cons.IH free_page_used free_page_count releases_def)
  qed
qed

lemma set_pt_frames: "x \<in> set (pt_frames s pt) \<longleftrightarrow> x = pt \<or> (\<exists>l < 512. present (entry s pt l) \<and> x = pte_addr (entry s pt l))"
  by (auto simp: pt_frames_def split: if_splits)

lemma set_pd_frames: "x \<in> set (pd_frames s pd) \<longleftrightarrow> x = pd \<or> (\<exists>k < 512. present (entry s pd k) \<and>
    \<not> huge (entry s pd k) \<and> x \<in> set (pt_frames s (pte_addr (entry s pd k))))"
  by (auto simp: pd_frames_def split: if_splits)

lemma set_pdpt_frames: "x \<in> set (pdpt_frames s pdpt) \<longleftrightarrow> x = pdpt \<or>
    (\<exists>j < 512. present (entry s pdpt j) \<and> x \<in> set (pd_frames s (pte_addr (entry s pdpt j))))"
  by (auto simp: pdpt_frames_def split: if_splits)

lemma set_space_frames: "x \<in> set (space_frames s root) \<longleftrightarrow> x = root \<or>
    (\<exists>i < 256. present (entry s root i) \<and> x \<in> set (pdpt_frames s (pte_addr (entry s root i))))"
  by (auto simp: space_frames_def split: if_splits)

text \<open>The visited frames are the tables and the mapped pages.\<close>

definition pages :: "mm \<Rightarrow> nat \<Rightarrow> nat set" where
  "pages s root = {a. \<exists>u e. u < 2 ^ 47 \<and> leaf s root u = Some e \<and> a = pte_addr e}"

lemma in_pt_frames: "l < 512 \<Longrightarrow> present (entry s pt l) \<Longrightarrow> pte_addr (entry s pt l) \<in> set (pt_frames s pt)"
  unfolding set_pt_frames by blast

lemma in_pd_frames:
  "k < 512 \<Longrightarrow> present (entry s pd k) \<Longrightarrow> \<not> huge (entry s pd k) \<Longrightarrow>
   x \<in> set (pt_frames s (pte_addr (entry s pd k))) \<Longrightarrow> x \<in> set (pd_frames s pd)"
  unfolding set_pd_frames by blast

lemma in_pdpt_frames:
  "j < 512 \<Longrightarrow> present (entry s t j) \<Longrightarrow> x \<in> set (pd_frames s (pte_addr (entry s t j))) \<Longrightarrow> x \<in> set (pdpt_frames s t)"
  unfolding set_pdpt_frames by blast

lemma in_space_frames:
  "i < 256 \<Longrightarrow> present (entry s t i) \<Longrightarrow> x \<in> set (pdpt_frames s (pte_addr (entry s t i))) \<Longrightarrow> x \<in> set (space_frames s t)"
  unfolding set_space_frames by blast

lemma own_frame_in [simp]:
  "t \<in> set (pt_frames s t)" "t \<in> set (pd_frames s t)" "t \<in> set (pdpt_frames s t)" "t \<in> set (space_frames s t)"
  by (simp_all add: pt_frames_def pd_frames_def pdpt_frames_def space_frames_def)

lemma pt_visited:
  assumes wf: "space_wf s root" and low: "lowp [i, j, k]" and pt: "tab s root [i, j, k] = Some pt"
    and x: "x \<in> set (pt_frames s pt)"
  shows "x \<in> set (space_frames s root)"
proof -
  obtain a b where a: "present (entry s root i)" "a = pte_addr (entry s root i)"
    and b: "present (entry s a j)" "b = pte_addr (entry s a j)"
    and c: "present (entry s b k)" "pt = pte_addr (entry s b k)"
    using pt by (auto split: if_splits)
  have "tab s root [i, j] = Some b" using a b by simp
  then have h: "\<not> huge (entry s b k)" by (rule space_not_huge [OF wf low _ c(1)])
  have ix: "i < 256" "j < 512" "k < 512" using low by (auto simp: lowp_def)
  have "x \<in> set (pd_frames s b)" using in_pd_frames [OF ix(3) c(1) h] x c(2) by simp
  then have "x \<in> set (pdpt_frames s a)" using in_pdpt_frames [OF ix(2) b(1)] b(2) by simp
  then show ?thesis using in_space_frames [OF ix(1) a(1)] a(2) by simp
qed

lemma tab_visited:
  assumes wf: "space_wf s root" and p: "lowp p" "tab s root p = Some x"
  shows "x \<in> set (space_frames s root)"
proof -
  have ix: "\<forall>i \<in> set p. i < 512" "p = i # q \<Longrightarrow> i < 256" for i q using p(1) by (auto simp: lowp_def)
  consider "p = []" | i where "p = [i]" | i j where "p = [i, j]" | i j k where "p = [i, j, k]"
    using p(1) by (auto simp: lowp_def numeral_3_eq_3 le_Suc_eq length_Suc_conv)
  then show ?thesis
  proof cases
    case 1
    with p show ?thesis by simp
  next
    case (2 i)
    then show ?thesis using p(2) ix in_space_frames [of i s root x] by (auto split: if_splits)
  next
    case (3 i j)
    then obtain a where a: "present (entry s root i)" "a = pte_addr (entry s root i)"
      "present (entry s a j)" "x = pte_addr (entry s a j)" using p(2) by (auto split: if_splits)
    have "i < 256" "j < 512" using 3 ix by auto
    with a in_pdpt_frames [of j s a x] in_space_frames [of i s root x] show ?thesis by simp
  next
    case (4 i j k)
    then show ?thesis using pt_visited [OF wf, of i j k x x] p by simp
  qed
qed

lemma page_visited:
  assumes wf: "space_wf s root" and u: "u < 2 ^ 47" "leaf s root u = Some e"
  shows "pte_addr e \<in> set (space_frames s root)"
proof -
  obtain pt where pt: "tab s root (vpath u) = Some pt" "present (entry s pt (pt_idx u))" "e = entry s pt (pt_idx u)"
    using u(2) by (auto simp: leaf_def split: option.splits if_splits)
  with in_pt_frames [of "pt_idx u" s pt] show ?thesis
    using pt_visited [OF wf, of "pml4_idx u" "pdpt_idx u" "pd_idx u" pt] lowp_vpath [OF u(1)] by (simp add: vpath_def)
qed

lemma visited_cases:
  assumes "x \<in> set (space_frames s root)"
  obtains (table) p where "lowp p" "tab s root p = Some x"
  | (page) i j k l pt where "i < 256" "j < 512" "k < 512" "l < 512" "tab s root [i, j, k] = Some pt"
      "present (entry s pt l)" "x = pte_addr (entry s pt l)"
proof -
  consider "x = root" | i where "i < 256" "present (entry s root i)" "x \<in> set (pdpt_frames s (pte_addr (entry s root i)))"
    using assms unfolding set_space_frames by blast
  then show thesis
  proof cases
    case 1
    then show ?thesis using table [of "[]"] by simp
  next
    case (2 i)
    let ?a = "pte_addr (entry s root i)"
    consider "x = ?a" | j where "j < 512" "present (entry s ?a j)" "x \<in> set (pd_frames s (pte_addr (entry s ?a j)))"
      using 2(3) unfolding set_pdpt_frames by blast
    then show ?thesis
    proof cases
      case 1
      then show ?thesis using table [of "[i]"] 2 by (simp add: lowp_def)
    next
      case j: (2 j)
      let ?b = "pte_addr (entry s ?a j)"
      consider "x = ?b" | k where "k < 512" "present (entry s ?b k)" "x \<in> set (pt_frames s (pte_addr (entry s ?b k)))"
        using j(3) unfolding set_pd_frames by blast
      then show ?thesis
      proof cases
        case 1
        then show ?thesis using table [of "[i, j]"] 2 j by (simp add: lowp_def)
      next
        case k: (2 k)
        let ?c = "pte_addr (entry s ?b k)"
        have t: "tab s root [i, j, k] = Some ?c" using 2 j k by simp
        consider "x = ?c" | l where "l < 512" "present (entry s ?c l)" "x = pte_addr (entry s ?c l)"
          using k(3) unfolding set_pt_frames by blast
        then show ?thesis
          by cases (use t table [of "[i, j, k]"] page [OF 2(1) j(1) k(1) _ t] 2 j k in \<open>auto simp: lowp_def\<close>)
      qed
    qed
  qed
qed

lemma visited_frames:
  assumes wf: "space_wf s root"
  shows "set (space_frames s root) = own s root \<union> pages s root"
proof (intro set_eqI iffI)
  fix x assume "x \<in> own s root \<union> pages s root"
  then show "x \<in> set (space_frames s root)"
    using tab_visited [OF wf] page_visited [OF wf] by (auto simp: own_def pages_def)
next
  fix x assume "x \<in> set (space_frames s root)"
  then show "x \<in> own s root \<union> pages s root"
  proof (cases rule: visited_cases)
    case (table p)
    then show ?thesis by (auto simp: own_def)
  next
    case (page i j k l pt)
    note pn = pageno_indices [OF page(2-4,1)]
    have "leaf s root (pageno i j k l * PAGE_SIZE) = Some (entry s pt l)" using pn page by (simp add: leaf_def)
    with pn(3) page show ?thesis unfolding pages_def by blast
  qed
qed

section \<open>A new address space\<close>

lemma empty_space_wf:
  assumes "root mod PAGE_SIZE = 0" "root div PAGE_SIZE \<in> used_frames (frames s)"
    and "\<And>i. i < 256 \<Longrightarrow> entry s root i = 0"
  shows "space_wf s root" "own s root = {root}" "u < 2 ^ 47 \<Longrightarrow> leaf s root u = None"
proof -
  have tb: "tab s root p = (if p = [] then Some root else None)" if "lowp p" for p
    using that assms(3) by (cases p) (auto simp: lowp_def)
  show "space_wf s root" unfolding space_wf_def
  proof (intro conjI allI impI; (elim conjE)?)
    fix p t i assume "lowp (p @ [i])" "length p = 2" "tab s root p = Some t"
    with tb [of p] lowp_snocD [of p i] show "\<not> huge (entry s t i)" by (auto split: if_splits)
  qed (use tb assms(1,2) in \<open>auto split: if_splits\<close>)
  show "own s root = {root}" using tb by (auto simp: own_def split: if_splits intro: exI [of _ "[]"])
  show "leaf s root u = None" if "u < 2 ^ 47"
    using tb [OF lowp_vpath [OF that]] by (simp add: leaf_def vpath_def)
qed

lemma new_space_effect:
  assumes inv: "pmm_inv (frames s)" "free_frames (frames s) \<noteq> {}"
    and k: "kernel_pml4_phys s mod PAGE_SIZE = 0" "kernel_pml4_phys s div PAGE_SIZE \<in> used_frames (frames s)"
    and n: "vmm_new_address_space s = (r, s')"
  shows "r mod PAGE_SIZE = 0" "r div PAGE_SIZE \<notin> used_frames (frames s)"
    "used_frames (frames s') = insert (r div PAGE_SIZE) (used_frames (frames s))" "pmm_inv (frames s')"
    "i < 512 \<Longrightarrow> entry s' r i = (if 256 \<le> i then entry s (kernel_pml4_phys s) i else 0)"
    "x div PAGE_SIZE \<in> used_frames (frames s) \<Longrightarrow> phys s' x = phys s x"
    "refcount (frames s') (r div PAGE_SIZE) = 1"
    "j \<in> used_frames (frames s) \<Longrightarrow> refcount (frames s') j = refcount (frames s) j"
proof -
  let ?k = "kernel_pml4_phys s"
  obtain s1 where al: "alloc_frame s = (r, s1)" and s': "s' = fold (copy_entry r ?k) [256..<512]
      (s1\<lparr>phys := mem_fill (phys s1) r PAGE_SIZE 0\<rparr>)"
    using n by (auto simp: vmm_new_address_space_def Let_def split: prod.splits)
  note fr = fresh_frame [OF inv(1) al inv(2)]
  have rk: "r \<noteq> ?k" using fr(4) k(2) by auto
  have out: "\<not> (r \<le> x \<and> x < r + PAGE_SIZE)" if "x div PAGE_SIZE \<in> used_frames (frames s)" for x
  proof
    assume "r \<le> x \<and> x < r + PAGE_SIZE"
    moreover obtain q where "r = PAGE_SIZE * q" using fr(2) by (metis dvd_def mod_0_imp_dvd)
    ultimately have "x div PAGE_SIZE = r div PAGE_SIZE" by (auto intro: div_nat_eqI)
    with fr(4) that show False by simp
  qed
  define P where "P n t \<longleftrightarrow> frames t = frames s1 \<and>
      (\<forall>i < 512. entry t r i = (if 256 \<le> i \<and> i < n then entry s ?k i else 0)) \<and>
      (\<forall>i < 512. entry t ?k i = entry s ?k i) \<and>
      (\<forall>x. x div PAGE_SIZE \<in> used_frames (frames s) \<longrightarrow> phys t x = phys s x)" for n t
  have "P 512 s'"
    unfolding s'
  proof (rule fold_upt_inv [where P = P])
    show "P 256 (s1\<lparr>phys := mem_fill (phys s1) r PAGE_SIZE 0\<rparr>)"
      using entry_fill_same entry_fill_other [OF fr(2) k(1) _ rk] fr(9) out
      by (auto simp: P_def entry_def mem_fill_def)
  next
    fix i t assume i: "256 \<le> i" "i < 512" and t: "P i t"
    have "x < r + 8 * i \<or> r + 8 * i + 8 \<le> x" if "x div PAGE_SIZE \<in> used_frames (frames s)" for x
      using out [OF that] i by auto
    with t i show "P (Suc i) (copy_entry r ?k i t)"
      using entry_wr64 [OF fr(2) fr(2) i(2), of _ "phys t"] entry_wr64 [OF fr(2) k(1) i(2), of _ "phys t"] rk
      by (auto simp: P_def copy_entry_def entry_def phys_wr64_out less_Suc_eq)
  qed simp
  then show "i < 512 \<Longrightarrow> entry s' r i = (if 256 \<le> i then entry s (kernel_pml4_phys s) i else 0)"
    and "x div PAGE_SIZE \<in> used_frames (frames s) \<Longrightarrow> phys s' x = phys s x"
    and "used_frames (frames s') = insert (r div PAGE_SIZE) (used_frames (frames s))" "pmm_inv (frames s')"
      "refcount (frames s') (r div PAGE_SIZE) = 1"
      "j \<in> used_frames (frames s) \<Longrightarrow> refcount (frames s') j = refcount (frames s) j"
    using fr by (auto simp: P_def)
  show "r mod PAGE_SIZE = 0" "r div PAGE_SIZE \<notin> used_frames (frames s)" by (rule fr)+
qed

section \<open>Properties\<close>

text \<open>A small machine for concrete instances: frames 3 to 18 are free, frames 1 and 2 hold
  two empty address spaces, memory is zero.\<close>

definition demo_mm :: mm where
  "demo_mm = \<lparr>frames = pmm_init [\<lparr>me_base = 12288, me_length = 65536, me_type = 0\<rparr>] pmm_static,
     phys = \<lambda>_. 0, hhdm_offset_g = 0, kernel_pml4_phys = 4096, cr3 = 4096\<rparr>"

lemma demo_kernel_pml4: "kernel_pml4_phys demo_mm = 4096"
  by (simp add: demo_mm_def)

lemma demo_mm_frames:
  "pmm_inv (frames demo_mm)" "free_frames (frames demo_mm) = {3..<19}"
  "Suc 0 \<in> used_frames (frames demo_mm)" "2 \<in> used_frames (frames demo_mm)"
proof -
  let ?es = "[\<lparr>me_base = 12288, me_length = 65536, me_type = 0\<rparr>] :: limine_memmap_entry list"
  have ok: "\<forall>e \<in> set ?es. entry_ok e" by (simp add: entry_ok_def)
  have us: "usable_frame ?es i \<longleftrightarrow> 3 \<le> i \<and> i < 19" for i by (auto simp: usable_frame_def)
  show "pmm_inv (frames demo_mm)"
    unfolding demo_mm_def using pmm_init_inv [OF ok] us [of 0] by simp
  show ff: "free_frames (frames demo_mm) = {3..<19}"
  proof -
    have "frames demo_mm = pmm_init ?es pmm_static" by (simp add: demo_mm_def)
    then have "free_frames (frames demo_mm) = {i. (3 \<le> i \<and> i < 19) \<and> i < MAX_PAGES}"
      using pmm_init_static(1) [OF ok] unfolding us by simp
    moreover have "i < 19 \<Longrightarrow> i < MAX_PAGES" for i by (simp add: MAX_PAGES_def)
    ultimately show ?thesis by (simp only: set_eq_iff mem_Collect_eq atLeastLessThan_iff) blast
  qed
  have "18 \<in> free_frames (frames demo_mm)" "Suc 0 \<notin> free_frames (frames demo_mm)"
    "2 \<notin> free_frames (frames demo_mm)" by (simp_all add: ff)
  then show "Suc 0 \<in> used_frames (frames demo_mm)" "2 \<in> used_frames (frames demo_mm)"
    by (simp_all add: free_frames_def used_frames_def)
qed

lemma demo_spaces:
  "space_wf demo_mm 4096" "own demo_mm 4096 = {4096}" "u < 2 ^ 47 \<Longrightarrow> leaf demo_mm 4096 u = None"
  "space_wf demo_mm 8192" "own demo_mm 8192 = {8192}" "u < 2 ^ 47 \<Longrightarrow> leaf demo_mm 8192 u = None"
proof -
  have "rd64 (\<lambda>_. 0) a = 0" for a by (simp add: rd64_def mem_read_def map_replicate_const del: upt_Suc)
  then have z: "entry demo_mm t i = 0" for t i by (simp add: entry_def demo_mm_def)
  show "space_wf demo_mm 4096" "own demo_mm 4096 = {4096}" "u < 2 ^ 47 \<Longrightarrow> leaf demo_mm 4096 u = None"
    by (rule empty_space_wf; simp add: z demo_mm_frames)+
  show "space_wf demo_mm 8192" "own demo_mm 8192 = {8192}" "u < 2 ^ 47 \<Longrightarrow> leaf demo_mm 8192 u = None"
    by (rule empty_space_wf; simp add: z demo_mm_frames)+
qed

text \<open>C7. Mapping a page: in a well-formed address space with three free frames for tables,
  after \<open>vmm_map_4k_in\<close> the walk of \<open>vmm_get_pte\<close> finds exactly the requested entry for the
  page and, for every other lower-half page, exactly what it found before; the address space
  and the frame allocator stay well-formed.\<close>

theorem vmm_map_4k_correct:
  assumes "space_wf s root" "pmm_inv (frames s)" "v < 2 ^ 47" "3 \<le> card (free_frames (frames s))"
    and s': "s' = vmm_map_4k_in root v a f s"
  shows "space_wf s' root \<and> pmm_inv (frames s') \<and>
    (\<forall>u < 2 ^ 47. map_option (rd64 (phys s')) (vmm_get_pte root u s') =
       (if u div PAGE_SIZE = v div PAGE_SIZE then Some ((of_nat a AND NOT 0xFFF) OR f OR PTE_PRESENT)
        else map_option (rd64 (phys s)) (vmm_get_pte root u s)))"
proof -
  note m = map_4k_effect [OF assms(1-4) s']
  show ?thesis
    using m get_pte_leaf [OF m(1)] get_pte_leaf [OF assms(1)] by (simp add: leaf_pte_def)
qed

theorem vmm_map_4k_correct_witness:
  "map_option (rd64 (phys (vmm_map_4k_in 4096 0x400000 0x9000 7 demo_mm)))
     (vmm_get_pte 4096 0x400123 (vmm_map_4k_in 4096 0x400000 0x9000 7 demo_mm)) = Some (0x9000 OR 7 OR PTE_PRESENT)"
  using vmm_map_4k_correct [where v = "0x400000" and a = "0x9000" and f = 7, OF demo_spaces(1) demo_mm_frames(1) _ _ refl]
  by (simp add: demo_mm_frames)

text \<open>Isolation: mapping a page into one address space changes no mapping of another one
  whose tables are disjoint from it, takes no frame in use, and alters no byte of any frame
  in use that is not one of the tables of the space it maps into.\<close>

theorem vmm_map_isolated:
  assumes "space_wf s root" "pmm_inv (frames s)" "v < 2 ^ 47" "3 \<le> card (free_frames (frames s))"
    and "space_wf s other" "own s root \<inter> own s other = {}"
    and s': "s' = vmm_map_4k_in root v a f s"
  shows "space_wf s' other \<and> own s' root \<inter> own s' other = {} \<and>
    (\<forall>u < 2 ^ 47. map_option (rd64 (phys s')) (vmm_get_pte other u s') =
       map_option (rd64 (phys s)) (vmm_get_pte other u s)) \<and>
    used_frames (frames s) \<subseteq> used_frames (frames s') \<and>
    (\<forall>x. x div PAGE_SIZE \<in> used_frames (frames s) \<longrightarrow> x div PAGE_SIZE * PAGE_SIZE \<notin> own s root \<longrightarrow>
       phys s' x = phys s x)"
proof -
  note m = map_4k_effect [OF assms(1-4) s']
  note o = other_space [OF m(3) assms(5,6)]
  have "\<forall>u < 2 ^ 47. map_option (rd64 (phys s')) (vmm_get_pte other u s') =
      map_option (rd64 (phys s)) (vmm_get_pte other u s)"
    using get_pte_leaf [OF o(3)] get_pte_leaf [OF assms(5)] o(2) by simp
  with o m(3) show ?thesis unfolding preserved_def by blast
qed

theorem vmm_map_isolated_witness:
  "space_wf (vmm_map_4k_in 4096 0x400000 0x9000 7 demo_mm) 8192"
  using vmm_map_isolated [where v = "0x400000" and a = "0x9000" and f = 7,
      OF demo_spaces(1) demo_mm_frames(1) _ _ demo_spaces(4) _ refl]
  by (simp add: demo_mm_frames demo_spaces)

text \<open>C8. Copy-on-write clone: with an empty child space and enough free frames for its tables,
  after \<open>vmm_clone_lower_half\<close> parent and child have the same entry for every lower-half page:
  the parent's old entry when it was read-only, the same frame without the write bit and with
  the COW bit when it was writable. Every frame in use gains one owner per page that maps it,
  page contents are untouched, and the two spaces keep disjoint tables.\<close>

theorem vmm_clone_correct:
  assumes "pmm_inv (frames s)" "space_wf s src" "space_wf s dest" "own s src \<inter> own s dest = {}"
    and "\<forall>u < 2 ^ 47. leaf s dest u = None"
    and "3 * card (mapped s src) \<le> card (free_frames (frames s))"
    and s': "s' = vmm_clone_lower_half dest src s"
  shows "space_wf s' src \<and> space_wf s' dest \<and> own s' src \<inter> own s' dest = {} \<and> pmm_inv (frames s') \<and>
    (\<forall>u < 2 ^ 47. leaf s' src u = map_option cow_pte (leaf s src u) \<and>
                 leaf s' dest u = map_option cow_pte (leaf s src u)) \<and>
    (\<forall>i \<in> used_frames (frames s).
       refcount (frames s') i = refcount (frames s) i + of_nat (card (owners s src (2 ^ 35) i))) \<and>
    (\<forall>x. x div PAGE_SIZE \<in> used_frames (frames s) \<longrightarrow>
       x div PAGE_SIZE * PAGE_SIZE \<notin> own s' src \<union> own s' dest \<longrightarrow> phys s' x = phys s x)"
proof -
  have "clone_inv s src dest 0 s" by (rule clone_inv_start) (use assms in auto)
  from clone_inv_end [OF this assms(6,2)] have inv: "clone_inv s src dest (2 ^ 35) s'" unfolding s' .
  have p: "u div PAGE_SIZE < 2 ^ 35" if "u < 2 ^ 47" for u :: nat
    using that by (simp add: div_less_iff_less_mult)
  show ?thesis using inv p unfolding clone_inv_def by auto
qed

theorem vmm_clone_correct_witness:
  "let s = vmm_map_4k_in 4096 0x400000 0x9000 PTE_WRITE demo_mm; s' = vmm_clone_lower_half 8192 4096 s
   in leaf s 4096 0x400000 = Some (leaf_pte 0x9000 PTE_WRITE) \<and>
      leaf s' 8192 0x400000 = Some (cow_pte (leaf_pte 0x9000 PTE_WRITE)) \<and>
      leaf s' 4096 0x400000 = leaf s' 8192 0x400000 \<and> leaf s' 8192 0x401000 = None"
proof -
  define s where "s = vmm_map_4k_in 4096 0x400000 0x9000 PTE_WRITE demo_mm"
  have free: "3 \<le> card (free_frames (frames demo_mm))" by (simp add: demo_mm_frames)
  note m = map_4k_effect [OF demo_spaces(1) demo_mm_frames(1) _ free s_def]
  have pre: "own demo_mm 4096 \<inter> own demo_mm 8192 = {}" by (simp add: demo_spaces)
  note o = other_space [OF m(3) demo_spaces(4) pre]
  have lf: "leaf s 4096 u = (if u div PAGE_SIZE = 0x400 then Some (leaf_pte 0x9000 PTE_WRITE) else None)"
    if "u < 2 ^ 47" for u using m(4) [OF _ that] demo_spaces(3) [OF that] by simp
  have "mapped s 4096 = {0x400}" using lf by (auto simp: mapped_def split: if_splits)
  then have room: "3 * card (mapped s 4096) \<le> card (free_frames (frames s))"
    using m(5) by (simp add: demo_mm_frames)
  have "\<forall>u < 2 ^ 47. leaf s 8192 u = None" using o(2) demo_spaces(6) by simp
  from vmm_clone_correct [OF _ _ _ _ this room refl] m(1,2) o(3,5) lf show ?thesis
    unfolding Let_def s_def [symmetric] by simp
qed

text \<open>C9. Teardown: destroying a well-formed address space visits exactly its tables and its
  mapped pages; a frame in use stays in use exactly when the space holds it fewer times than
  it has owners, so private pages and tables become free, shared pages stay; memory is not
  written.\<close>

theorem vmm_destroy_correct:
  assumes "space_wf s root" and s': "s' = vmm_destroy_address_space root s"
  shows "set (space_frames s root) = own s root \<union> pages s root \<and> phys s' = phys s \<and>
    used_frames (frames s') = {i \<in> used_frames (frames s).
      releases (space_frames s root) i = 0 \<or> releases (space_frames s root) i < unat (refcount (frames s) i)}"
proof -
  have "s' = s\<lparr>frames := fold pmm_free_page (space_frames s root) (frames s)\<rparr>"
    unfolding s' destroy_frames fold_free_frame ..
  then show ?thesis using visited_frames [OF assms(1)] fold_free_used by auto
qed

theorem vmm_destroy_correct_witness:
  "set (space_frames demo_mm 4096) = {4096} \<and>
   used_frames (frames (vmm_destroy_address_space 4096 demo_mm)) \<subseteq> used_frames (frames demo_mm)"
proof -
  have "pages demo_mm 4096 = {}" using demo_spaces(3) by (auto simp: pages_def)
  with vmm_destroy_correct [OF demo_spaces(1) refl] show ?thesis by (auto simp: demo_spaces)
qed

text \<open>A new address space shares the kernel's upper half entry by entry, has an empty
  lower half, lives in a frame nobody used, and leaves all memory in use as it was.\<close>

theorem vmm_new_address_space_correct:
  assumes "pmm_inv (frames s)" "free_frames (frames s) \<noteq> {}"
    and "kernel_pml4_phys s mod PAGE_SIZE = 0" "kernel_pml4_phys s div PAGE_SIZE \<in> used_frames (frames s)"
    and "vmm_new_address_space s = (r, s')"
  shows "r div PAGE_SIZE \<notin> used_frames (frames s) \<and> space_wf s' r \<and> own s' r = {r} \<and>
    (\<forall>u < 2 ^ 47. leaf s' r u = None) \<and>
    (\<forall>i. 256 \<le> i \<and> i < 512 \<longrightarrow> entry s' r i = entry s (kernel_pml4_phys s) i) \<and>
    (\<forall>x. x div PAGE_SIZE \<in> used_frames (frames s) \<longrightarrow> phys s' x = phys s x)"
proof -
  note n = new_space_effect [OF assms]
  have e: "space_wf s' r" "own s' r = {r}" "u < 2 ^ 47 \<Longrightarrow> leaf s' r u = None" for u
    by (rule empty_space_wf; use n in simp)+
  then show ?thesis using n by simp
qed

theorem vmm_new_address_space_correct_witness:
  "leaf (snd (vmm_new_address_space demo_mm)) (fst (vmm_new_address_space demo_mm)) 4096 = None"
  using vmm_new_address_space_correct [OF demo_mm_frames(1) _ _ _ prod.collapse [symmetric]]
  by (simp add: demo_mm_frames demo_kernel_pml4)

end
