(* ===== verification/Tmpfs.thy ===== *)
theory Tmpfs
  imports Cow Vnode
begin

text \<open>
  The memory file system, \<^verbatim>\<open>kernel/tmpfs.c\<close>: a pool of nodes handed out once, directories as
  sibling chains, file contents in frames of the physical allocator. \<^verbatim>\<open>data\<close> pointers are
  direct-map addresses, held here as physical addresses. A buffer that is read from is a
  byte list; a read returns the bytes it stores.

  A sibling chain only ever points to older nodes, so a walk visits decreasing slot numbers
  and the fuel \<open>node_count + 1\<close> covers it; \<open>sib_list_unfold\<close> shows that the walk is then the
  loop of the code.
\<close>

section \<open>State\<close>

definition TMPFS_MAX_NODES :: nat where [simp]: "TMPFS_MAX_NODES = 128"
definition TMPFS_FILE_INITIAL_PAGES :: nat where [simp]: "TMPFS_FILE_INITIAL_PAGES = 1"

record tmpfs_node =
  n_vnode :: vnode
  n_data :: "nat option"
  n_size :: nat
  n_capacity :: nat
  first_child :: "nat option"
  next_sibling :: "nat option"

record tmpfs =
  node_pool :: "nat \<Rightarrow> tmpfs_node"
  node_count :: nat
  tmp_root :: nat

definition node_zero :: tmpfs_node where
  "node_zero = \<lparr>n_vnode = vnode_zero, n_data = None, n_size = 0, n_capacity = 0,
     first_child = None, next_sibling = None\<rparr>"

definition data_ptr :: "tmpfs_node \<Rightarrow> nat" where
  "data_ptr f = (case n_data f of None \<Rightarrow> 0 | Some a \<Rightarrow> a)"

abbreviation upd_node :: "nat \<Rightarrow> (tmpfs_node \<Rightarrow> tmpfs_node) \<Rightarrow> tmpfs \<Rightarrow> tmpfs" where
  "upd_node i f t \<equiv> t\<lparr>node_pool := (node_pool t)(i := f (node_pool t i))\<rparr>"

section \<open>Nodes\<close>

definition tmpfs_alloc_node :: "tmpfs \<Rightarrow> (nat \<times> tmpfs) option" where
  "tmpfs_alloc_node t =
     (if node_count t \<ge> TMPFS_MAX_NODES then None
      else Some (node_count t, (upd_node (node_count t) (\<lambda>_. node_zero) t)\<lparr>node_count := node_count t + 1\<rparr>))"

definition set_name :: "string \<Rightarrow> vnode \<Rightarrow> vnode" where
  "set_name name v = v\<lparr>v_name := name_copy name VFS_MAX_NAME\<rparr>"

definition tmpfs_init :: "tmpfs \<Rightarrow> tmpfs option" where
  "tmpfs_init t =
     map_option (\<lambda>(r, t1). (upd_node r (\<lambda>n. n\<lparr>n_vnode := set_name ''/'' ((n_vnode n)\<lparr>v_type := VNODE_DIR,
          v_ops := Some Tmpfs_dir_ops, v_parent := Some (VTmp r), v_mode := VFS_DEFAULT_DIR_MODE\<rparr>)\<rparr>) t1)
        \<lparr>tmp_root := r\<rparr>)
     (tmpfs_alloc_node t)"

definition tmpfs_get_root :: "tmpfs \<Rightarrow> vptr" where
  "tmpfs_get_root t = VTmp (tmp_root t)"

text \<open>A new node in front of the children of \<open>dir\<close>.\<close>

definition link_child :: "nat \<Rightarrow> nat \<Rightarrow> tmpfs \<Rightarrow> tmpfs" where
  "link_child dir f t =
     upd_node dir (\<lambda>d. d\<lparr>first_child := Some f\<rparr>)
       (upd_node f (\<lambda>n. n\<lparr>next_sibling := first_child (node_pool t dir)\<rparr>) t)"

definition tmpfs_create_file :: "nat \<Rightarrow> string \<Rightarrow> mm \<times> tmpfs \<Rightarrow> nat option \<times> mm \<times> tmpfs" where
  "tmpfs_create_file dir name = (\<lambda>(m, t).
     case tmpfs_alloc_node t of None \<Rightarrow> (None, m, t)
     | Some (f, t1) \<Rightarrow>
         let (a, p) = pmm_alloc_pages TMPFS_FILE_INITIAL_PAGES (frames m);
             t2 = upd_node f (\<lambda>n. n\<lparr>n_vnode := (set_name name ((n_vnode n)\<lparr>v_type := VNODE_FILE, v_ops := Some Tmpfs_file_ops\<rparr>))
                      \<lparr>v_parent := Some (VTmp dir), v_mode := VFS_DEFAULT_FILE_MODE\<rparr>,
                    n_data := Some a, n_capacity := TMPFS_FILE_INITIAL_PAGES * PAGE_SIZE, n_size := 0\<rparr>) t1
         in (Some f, m\<lparr>frames := p\<rparr>, link_child dir f t2))"

definition tmpfs_create_dir :: "nat \<Rightarrow> string \<Rightarrow> tmpfs \<Rightarrow> nat option \<times> tmpfs" where
  "tmpfs_create_dir dir name t =
     (case tmpfs_alloc_node t of None \<Rightarrow> (None, t)
      | Some (d, t1) \<Rightarrow>
          let t2 = upd_node d (\<lambda>n. n\<lparr>n_vnode := (set_name name ((n_vnode n)\<lparr>v_type := VNODE_DIR, v_ops := Some Tmpfs_dir_ops\<rparr>))
                      \<lparr>v_parent := Some (VTmp dir), v_mode := VFS_DEFAULT_DIR_MODE\<rparr>\<rparr>) t1
          in (Some d, link_child dir d t2))"

section \<open>Files\<close>

definition tmpfs_file_read :: "nat \<Rightarrow> nat \<Rightarrow> nat \<Rightarrow> mm \<times> tmpfs \<Rightarrow> bytes" where
  "tmpfs_file_read i count offset = (\<lambda>(m, t).
     let f = node_pool t i in
     if offset \<ge> n_size f then []
     else let avail = n_size f - offset; n = (if count < avail then count else avail)
          in mem_read (phys m) (data_ptr f + offset) n)"

text \<open>The doubling loop on 64-bit values: \<open>None\<close> when it never ends.\<close>

partial_function (option) grow_cap :: "nat \<Rightarrow> nat \<Rightarrow> nat option" where
  "grow_cap needed c =
     (if wrap64 (c * PAGE_SIZE) < needed then grow_cap needed (wrap64 (c * 2)) else Some c)"

text \<open>The copy into the file and the size update, shared by both ends of the write.\<close>

definition put_bytes :: "nat \<Rightarrow> bytes \<Rightarrow> nat \<Rightarrow> mm \<times> tmpfs \<Rightarrow> mm \<times> tmpfs" where
  "put_bytes i src offset = (\<lambda>(m, t).
     let f = node_pool t i in
     (m\<lparr>phys := mem_write (phys m) (data_ptr f + offset) src\<rparr>,
      upd_node i (\<lambda>f. f\<lparr>n_size := (if offset + length src > n_size f then offset + length src else n_size f)\<rparr>) t))"

definition tmpfs_file_write :: "nat \<Rightarrow> bytes \<Rightarrow> nat \<Rightarrow> mm \<times> tmpfs \<Rightarrow> (int \<times> mm \<times> tmpfs) option" where
  "tmpfs_file_write i src offset = (\<lambda>(m, t).
     let f = node_pool t i; count = length src; needed = wrap64 (offset + count) in
     if needed > n_capacity f then
       let c0 = n_capacity f div PAGE_SIZE in
       case grow_cap needed (if c0 = 0 then 1 else c0) of None \<Rightarrow> None
       | Some new_cap_pages \<Rightarrow>
           let (new_phys, p) = pmm_alloc_pages new_cap_pages (frames m) in
           if new_phys = 0 then
             (if offset > n_capacity f then Some (- ENOMEM, m, t)
              else let space = n_capacity f - offset; n = (if count < space then count else space)
                   in Some (int n, put_bytes i (take n src) offset (m, t)))
           else
             let data = data_ptr f;
                 m1 = m\<lparr>phys := k_memcpy new_phys data (n_size f) (phys m),
                        frames := pmm_free_pages data (n_capacity f div PAGE_SIZE) p\<rparr>;
                 t1 = upd_node i (\<lambda>f. f\<lparr>n_data := Some new_phys, n_capacity := new_cap_pages * PAGE_SIZE\<rparr>) t
             in Some (int count, put_bytes i src offset (m1, t1))
     else Some (int count, put_bytes i src offset (m, t)))"

definition tmpfs_file_stat :: "nat \<Rightarrow> tmpfs \<Rightarrow> nat" where
  "tmpfs_file_stat i t = n_size (node_pool t i)"

section \<open>Directories\<close>

fun sib_list :: "nat \<Rightarrow> (nat \<Rightarrow> tmpfs_node) \<Rightarrow> nat option \<Rightarrow> nat list" where
  "sib_list 0 ns p = []"
| "sib_list (Suc fuel) ns None = []"
| "sib_list (Suc fuel) ns (Some i) = i # sib_list fuel ns (next_sibling (ns i))"

definition children :: "tmpfs \<Rightarrow> nat \<Rightarrow> nat list" where
  "children t d = sib_list (node_count t + 1) (node_pool t) (first_child (node_pool t d))"

definition named :: "tmpfs \<Rightarrow> string \<Rightarrow> nat \<Rightarrow> bool" where
  "named t name i \<longleftrightarrow> k_strcmp (v_name (n_vnode (node_pool t i))) name = 0"

definition tmpfs_dir_lookup :: "nat \<Rightarrow> string \<Rightarrow> tmpfs \<Rightarrow> nat option" where
  "tmpfs_dir_lookup d name t = find (named t name) (children t d)"

text \<open>\<open>None\<close> is the result 0, past the last child.\<close>

definition tmpfs_dir_readdir :: "nat \<Rightarrow> int \<Rightarrow> nat \<Rightarrow> tmpfs \<Rightarrow> string option" where
  "tmpfs_dir_readdir d index sz t =
     (if 0 \<le> index \<and> nat index < length (children t d)
      then Some (name_copy (v_name (n_vnode (node_pool t (children t d ! nat index)))) sz) else None)"

definition tmpfs_dir_create :: "nat \<Rightarrow> string \<Rightarrow> mm \<times> tmpfs \<Rightarrow> int \<times> mm \<times> tmpfs" where
  "tmpfs_dir_create d name = (\<lambda>(m, t).
     if tmpfs_dir_lookup d name t \<noteq> None then (- EEXIST, m, t)
     else case tmpfs_create_file d name (m, t) of
            (None, st) \<Rightarrow> (- ENOMEM, st) | (Some f, st) \<Rightarrow> (0, st))"

definition tmpfs_dir_mkdir :: "nat \<Rightarrow> string \<Rightarrow> tmpfs \<Rightarrow> int \<times> tmpfs" where
  "tmpfs_dir_mkdir d name t =
     (if tmpfs_dir_lookup d name t \<noteq> None then (- EEXIST, t)
      else case tmpfs_create_dir d name t of
             (None, t1) \<Rightarrow> (- ENOMEM, t1) | (Some f, t1) \<Rightarrow> (0, t1))"

text \<open>The walk with the node before: the predecessor (if any) and the child found.\<close>

fun find_prev :: "(nat \<Rightarrow> bool) \<Rightarrow> nat option \<Rightarrow> nat list \<Rightarrow> (nat option \<times> nat) option" where
  "find_prev P prev [] = None"
| "find_prev P prev (i # is) = (if P i then Some (prev, i) else find_prev P (Some i) is)"

definition unlink_child :: "nat \<Rightarrow> nat option \<Rightarrow> nat \<Rightarrow> tmpfs \<Rightarrow> tmpfs" where
  "unlink_child d prev c t = (case prev of
      Some q \<Rightarrow> upd_node q (\<lambda>n. n\<lparr>next_sibling := next_sibling (node_pool t c)\<rparr>) t
    | None \<Rightarrow> upd_node d (\<lambda>n. n\<lparr>first_child := next_sibling (node_pool t c)\<rparr>) t)"

definition tmpfs_dir_unlink :: "nat \<Rightarrow> string \<Rightarrow> mm \<times> tmpfs \<Rightarrow> int \<times> mm \<times> tmpfs" where
  "tmpfs_dir_unlink d name = (\<lambda>(m, t).
     case find_prev (named t name) None (children t d) of
       None \<Rightarrow> (- ENOENT, m, t)
     | Some (prev, c) \<Rightarrow>
         let child = node_pool t c in
         if v_type (n_vnode child) = VNODE_DIR \<and> first_child child \<noteq> None then (- ENOTEMPTY, m, t)
         else
           let t1 = unlink_child d prev c t;
               m1 = (case n_data child of
                       Some a \<Rightarrow> if v_type (n_vnode child) = VNODE_FILE
                                 then m\<lparr>frames := pmm_free_pages a ((n_capacity child + (PAGE_SIZE - 1)) div PAGE_SIZE) (frames m)\<rparr>
                                 else m
                     | None \<Rightarrow> m)
           in (0, m1, t1))"

section \<open>Sibling chains\<close>

definition older :: "(nat \<Rightarrow> tmpfs_node) \<Rightarrow> bool" where
  "older ns \<longleftrightarrow> (\<forall>i j. next_sibling (ns i) = Some j \<longrightarrow> j < i)"

lemma olderD: "older ns \<Longrightarrow> next_sibling (ns i) = Some j \<Longrightarrow> j < i"
  by (simp add: older_def)

lemma sib_list_fuel:
  assumes "older ns" "\<And>i. p = Some i \<Longrightarrow> i < f \<and> i < g" "0 < f" "0 < g"
  shows "sib_list f ns p = sib_list g ns p"
  using assms(2-4)
proof (induction f arbitrary: g p)
  case (Suc f)
  then obtain g' where g: "g = Suc g'" by (cases g) auto
  show ?case
  proof (cases p)
    case (Some i)
    show ?thesis
    proof (cases "next_sibling (ns i)")
      case None
      then show ?thesis using Some g by (cases f; cases g') auto
    next
      case (Some j)
      have "j < i" using olderD [OF assms(1)] Some by simp
      then have "sib_list f ns (Some j) = sib_list g' ns (Some j)"
        using Suc.prems g \<open>p = Some i\<close> by (intro Suc.IH) auto
      then show ?thesis using \<open>p = Some i\<close> g Some by simp
    qed
  qed (simp add: g)
qed simp

lemma sib_list_cong:
  assumes "\<And>i. i \<in> set (sib_list f ns p) \<Longrightarrow> next_sibling (ns' i) = next_sibling (ns i)"
  shows "sib_list f ns' p = sib_list f ns p"
  using assms
proof (induction f ns p rule: sib_list.induct)
  case (3 fuel ns i)
  have "sib_list fuel ns' (next_sibling (ns i)) = sib_list fuel ns (next_sibling (ns i))"
    by (rule "3.IH") (use "3.prems" in simp)
  moreover have "next_sibling (ns' i) = next_sibling (ns i)" using "3.prems" by simp
  ultimately show ?case by simp
qed simp_all

lemma sib_list_le:
  assumes "older ns"
  shows "x \<in> set (sib_list f ns (Some i)) \<Longrightarrow> x \<le> i"
proof (induction f arbitrary: i)
  case (Suc f)
  show ?case
  proof (cases "x = i")
    case False
    then obtain j where j: "next_sibling (ns i) = Some j" "x \<in> set (sib_list f ns (Some j))"
      using Suc.prems by (cases "next_sibling (ns i)"; cases f) auto
    then show ?thesis using Suc.IH [of j] olderD [OF assms, of i j] by simp
  qed simp
qed simp

text \<open>The invariant of the tree: chains go to older nodes, a node is in one directory, and the
  names in a directory are different.\<close>

definition node_name :: "tmpfs \<Rightarrow> nat \<Rightarrow> string" where
  "node_name t i = v_name (n_vnode (node_pool t i))"

definition tree_inv :: "tmpfs \<Rightarrow> bool" where
  "tree_inv t \<longleftrightarrow> node_count t \<le> TMPFS_MAX_NODES \<and>
     older (node_pool t) \<and>
     (\<forall>d j. first_child (node_pool t d) = Some j \<longrightarrow> j < node_count t) \<and>
     (\<forall>d e. d \<noteq> e \<longrightarrow> set (children t d) \<inter> set (children t e) = {}) \<and>
     (\<forall>d. distinct (map (node_name t) (children t d))) \<and> (\<forall>i. no_nul (node_name t i))"

lemma children_below: "tree_inv t \<Longrightarrow> x \<in> set (children t d) \<Longrightarrow> x < node_count t"
proof -
  assume t: "tree_inv t" and x: "x \<in> set (children t d)"
  then obtain j where j: "first_child (node_pool t d) = Some j" by (cases "first_child (node_pool t d)") (auto simp: children_def)
  have dec: "older (node_pool t)" using t unfolding tree_inv_def by blast
  have "x \<in> set (sib_list (node_count t + 1) (node_pool t) (Some j))" using x unfolding children_def j .
  then have "x \<le> j" by (rule sib_list_le [OF dec])
  moreover have "j < node_count t" using t j unfolding tree_inv_def by blast
  ultimately show ?thesis by simp
qed

text \<open>The walk of the code: a child, then the walk from its sibling.\<close>

lemma sib_list_unfold:
  assumes "tree_inv t" "i < node_count t"
  shows "sib_list (node_count t + 1) (node_pool t) (Some i) =
    i # sib_list (node_count t + 1) (node_pool t) (next_sibling (node_pool t i))"
proof -
  have dec: "older (node_pool t)" using assms(1) unfolding tree_inv_def by blast
  have "sib_list (node_count t) (node_pool t) (next_sibling (node_pool t i)) =
      sib_list (node_count t + 1) (node_pool t) (next_sibling (node_pool t i))"
    using assms(2) dec by (intro sib_list_fuel) (auto dest: olderD [OF dec])
  then show ?thesis by simp
qed

lemma named_iff: "tree_inv t \<Longrightarrow> no_nul name \<Longrightarrow> named t name i \<longleftrightarrow> node_name t i = name"
  unfolding named_def tree_inv_def node_name_def using k_strcmp_0_iff by blast

lemma lookup_iff:
  assumes "tree_inv t" "no_nul name"
  shows "tmpfs_dir_lookup d name t = Some i \<longleftrightarrow> i \<in> set (children t d) \<and> node_name t i = name"
proof -
  have d: "distinct (map (node_name t) (children t d))" using assms(1) unfolding tree_inv_def by blast
  have n: "named t name = (\<lambda>i. node_name t i = name)" using named_iff [OF assms] by auto
  show ?thesis
  proof
    assume "tmpfs_dir_lookup d name t = Some i"
    then show "i \<in> set (children t d) \<and> node_name t i = name"
      unfolding tmpfs_dir_lookup_def n by (auto simp: find_Some_iff)
  next
    assume i: "i \<in> set (children t d) \<and> node_name t i = name"
    then obtain j where j: "find (\<lambda>i. node_name t i = name) (children t d) = Some j"
      by (cases "find (\<lambda>i. node_name t i = name) (children t d)") (auto simp: find_None_iff)
    then have "j \<in> set (children t d)" "node_name t j = name" by (auto simp: find_Some_iff)
    with i d have "j = i" by (auto simp: distinct_map inj_on_def)
    with j show "tmpfs_dir_lookup d name t = Some i" unfolding tmpfs_dir_lookup_def n by simp
  qed
qed

text \<open>Linking a fresh node \<open>f\<close> under \<open>d\<close>; the node itself has been filled in.\<close>

lemma link_effect:
  assumes t: "tree_inv t" and n: "node_count t < TMPFS_MAX_NODES" and d: "d < node_count t"
    and t2: "t2 = t\<lparr>node_count := node_count t + 1, node_pool := (node_pool t)(node_count t := nd)\<rparr>"
    and nd: "first_child nd = None" "no_nul (v_name (n_vnode nd))"
    and fresh: "\<forall>i \<in> set (children t d). node_name t i \<noteq> v_name (n_vnode nd)"
    and t3: "t3 = link_child d (node_count t) t2"
  shows "children t3 e = (if e = d then node_count t # children t d else if e = node_count t then [] else children t e)"
    "i \<noteq> node_count t \<Longrightarrow> node_name t3 i = node_name t i" "node_name t3 (node_count t) = v_name (n_vnode nd)"
    "tree_inv t3"
proof -
  let ?f = "node_count t"
  have dec: "older (node_pool t)"
    and fc: "\<And>d j. first_child (node_pool t d) = Some j \<Longrightarrow> j < ?f" using t unfolding tree_inv_def by blast+
  have np: "next_sibling (node_pool t3 i) = (if i = ?f then first_child (node_pool t d) else next_sibling (node_pool t i))"
    "first_child (node_pool t3 i) = (if i = d then Some ?f else if i = ?f then None else first_child (node_pool t i))"
    "n_vnode (node_pool t3 i) = (if i = ?f then n_vnode nd else n_vnode (node_pool t i))" for i
    using d nd by (auto simp: t3 t2 link_child_def)
  have cnt: "node_count t3 = ?f + 1" by (simp add: t3 t2 link_child_def)
  show nm: "node_name t3 i = node_name t i" if "i \<noteq> ?f" for i using that np by (simp add: node_name_def)
  show nf: "node_name t3 ?f = v_name (n_vnode nd)" using np by (simp add: node_name_def)
  have dec3: "older (node_pool t3)"
    unfolding older_def using np(1) olderD [OF dec] fc by (auto split: if_splits)
  have old: "sib_list (?f + 1) (node_pool t3) p = sib_list (?f + 1) (node_pool t) p"
    if "\<And>i. p = Some i \<Longrightarrow> i < ?f" for p
  proof (rule sib_list_cong)
    fix x assume "x \<in> set (sib_list (?f + 1) (node_pool t) p)"
    then have "x < ?f" using that sib_list_le [OF dec, of x "?f + 1"] by (cases p) fastforce+
    then show "next_sibling (node_pool t3 x) = next_sibling (node_pool t x)" using np(1) by simp
  qed
  have more: "sib_list (?f + 2) (node_pool t3) p = sib_list (?f + 1) (node_pool t3) p"
    if "\<And>i. p = Some i \<Longrightarrow> i < ?f" for p
    using that dec3 by (intro sib_list_fuel) auto
  show ch: "children t3 e = (if e = d then ?f # children t d else if e = ?f then [] else children t e)" for e
  proof (cases "e = d")
    case True
    have "children t3 d = ?f # sib_list (?f + 1) (node_pool t3) (first_child (node_pool t d))"
      using d by (simp add: children_def np cnt)
    also have "\<dots> = ?f # children t d" using old [of "first_child (node_pool t d)"] fc by (simp add: children_def)
    finally show ?thesis using True by simp
  next
    case False
    show ?thesis
    proof (cases "e = ?f")
      case True
      then show ?thesis using False by (simp add: children_def np cnt)
    next
      case nf: False
      then have "children t3 e = sib_list (?f + 2) (node_pool t3) (first_child (node_pool t e))"
        using False by (simp add: children_def np cnt)
      also have "\<dots> = children t e"
        using more [of "first_child (node_pool t e)"] old [of "first_child (node_pool t e)"] fc by (simp add: children_def)
      finally show ?thesis using False nf by simp
    qed
  qed
  have below: "x < ?f" if "x \<in> set (children t e)" for x e using children_below [OF t that] .
  have "distinct (map (node_name t3) (children t3 e))" for e
  proof -
    have o: "map (node_name t3) (children t e) = map (node_name t) (children t e)" for e
      using nm below [of _ e] by (intro map_cong refl) (metis less_irrefl)
    have "distinct (map (node_name t) (children t e))" for e using t unfolding tree_inv_def by blast
    moreover have "v_name (n_vnode nd) \<notin> set (map (node_name t) (children t d))" using fresh by force
    moreover have "set (map (node_name t3) (children t d)) = set (map (node_name t) (children t d))" unfolding o ..
    ultimately have "distinct (map (node_name t3) (children t e))" "node_name t3 ?f \<notin> set (map (node_name t3) (children t d))"
      for e unfolding o nf by blast+
    then show ?thesis by (simp add: ch)
  qed
  moreover have "set (children t3 a) \<inter> set (children t3 b) = {}" if "a \<noteq> b" for a b
    using that t below unfolding tree_inv_def ch by (auto split: if_splits)
  moreover have "no_nul (node_name t3 i)" for i using t nd nm nf unfolding tree_inv_def by (cases "i = ?f") auto
  moreover have "j < node_count t3" if "first_child (node_pool t3 e) = Some j" for e j
    using that np(2) fc [of e j] cnt by (auto split: if_splits)
  ultimately show "tree_inv t3" using dec3 n cnt unfolding tree_inv_def by auto
qed

text \<open>Taking a child out of its chain.\<close>

lemma find_prev_split:
  "find_prev P prev xs = Some (q, c) \<Longrightarrow>
   \<exists>as bs. xs = as @ c # bs \<and> (\<forall>a \<in> set as. \<not> P a) \<and> P c \<and> q = (if as = [] then prev else Some (last as))"
proof (induction xs arbitrary: prev)
  case (Cons x xs)
  show ?case
  proof (cases "P x")
    case True
    then show ?thesis using Cons.prems by (intro exI [of _ "[]"] exI [of _ xs]) auto
  next
    case False
    then have "find_prev P (Some x) xs = Some (q, c)" using Cons.prems by simp
    from Cons.IH [OF this] obtain as bs where "xs = as @ c # bs" "\<forall>a \<in> set as. \<not> P a" "P c"
      "q = (if as = [] then Some x else Some (last as))" by blast
    then show ?thesis using False by (intro exI [of _ "x # as"] exI [of _ bs]) auto
  qed
qed simp

lemma find_prev_None: "find_prev P prev xs = None \<longleftrightarrow> (\<forall>x \<in> set xs. \<not> P x)"
  by (induction xs arbitrary: prev) auto

lemma sib_list_remove:
  assumes dec: "older ns"
    and eq: "sib_list f ns p = as @ c # bs" "as \<noteq> []" and f: "\<And>i. p = Some i \<Longrightarrow> i < f"
  shows "sib_list f (ns(last as := (ns (last as))\<lparr>next_sibling := next_sibling (ns c)\<rparr>)) p = as @ bs"
  using eq f
proof (induction f arbitrary: p as)
  case (Suc f)
  then obtain i where p: "p = Some i" by (cases p) auto
  then have i: "i = hd as" "sib_list f ns (next_sibling (ns i)) = tl as @ c # bs" using Suc.prems by (cases as; simp)+
  let ?ns = "ns(last as := (ns (last as))\<lparr>next_sibling := next_sibling (ns c)\<rparr>)"
  show ?case
  proof (cases "tl as")
    case Nil
    then have as: "as = [i]" using Suc.prems(2) i by (cases as) auto
    have s: "sib_list f ns (next_sibling (ns i)) = c # bs" using i Nil by simp
    then obtain f' where f': "f = Suc f'" "next_sibling (ns i) = Some c" "bs = sib_list f' ns (next_sibling (ns c))"
      by (cases f; cases "next_sibling (ns i)") auto
    have ci: "c < i" using olderD [OF dec] f' by simp
    have "sib_list f ?ns (next_sibling (ns c)) = sib_list f ns (next_sibling (ns c))"
    proof (rule sib_list_cong)
      fix x assume x: "x \<in> set (sib_list f ns (next_sibling (ns c)))"
      then obtain k where "next_sibling (ns c) = Some k" by (cases "next_sibling (ns c)"; cases f) auto
      with x sib_list_le [OF dec, of x f k] olderD [OF dec, of c k] ci have "x < i" by simp
      then show "next_sibling (?ns x) = next_sibling (ns x)" using as by simp
    qed
    moreover have "sib_list f ns (next_sibling (ns c)) = bs"
    proof (cases "next_sibling (ns c)")
      case None
      then show ?thesis using f' by (cases f') auto
    next
      case (Some k)
      have "k < c" using olderD [OF dec Some] .
      then show ?thesis using Some f' ci Suc.prems(3) p by (auto intro!: sib_list_fuel dec simp del: sib_list.simps)
    qed
    ultimately show ?thesis using p as by (simp add: fun_upd_def)
  next
    case (Cons x xs)
    then have l: "last as = last (tl as)" by (cases as) auto
    obtain k where k: "next_sibling (ns i) = Some k" using i(2) Cons by (cases "next_sibling (ns i)"; cases f) auto
    have "k < i" using olderD [OF dec k] .
    then have ih: "sib_list f ?ns (next_sibling (ns i)) = tl as @ bs"
      unfolding l using i(2) Cons Suc.prems(3) p k by (intro Suc.IH) auto
    have "last as \<in> set (sib_list f ns (next_sibling (ns i)))" unfolding i(2) l using Cons by simp
    then have "last as \<le> k" unfolding k by (rule sib_list_le [OF dec])
    then have "last as \<noteq> i" using \<open>k < i\<close> by simp
    then show ?thesis using ih p i(1) Suc.prems(2) by (cases as) (auto simp: fun_upd_def)
  qed
qed simp

lemma chain_less:
  assumes dec: "older ns" and eq: "sib_list f ns p = as @ c # bs" "as \<noteq> []"
  shows "c < last as"
  using eq
proof (induction f arbitrary: p as)
  case (Suc f)
  then obtain i where p: "p = Some i" by (cases p) auto
  have i: "i = hd as" "sib_list f ns (next_sibling (ns i)) = tl as @ c # bs" using Suc.prems p by (cases as; simp)+
  show ?case
  proof (cases "tl as")
    case Nil
    then have "next_sibling (ns i) = Some c" using i(2) by (cases "next_sibling (ns i)"; cases f) auto
    then have "c < i" by (rule olderD [OF dec])
    then show ?thesis using i(1) Nil Suc.prems(2) by (cases as) auto
  next
    case (Cons x xs)
    then have "c < last (tl as)" using i(2) by (intro Suc.IH) auto
    then show ?thesis using Cons by (cases as) auto
  qed
qed simp

lemma unlink_effect:
  assumes t: "tree_inv t" and ch: "children t d = as @ c # bs"
    and t': "t' = unlink_child d (if as = [] then None else Some (last as)) c t"
  shows "children t' e = (if e = d then as @ bs else children t e)" "node_name t' i = node_name t i" "tree_inv t'"
proof -
  let ?f = "node_count t + 1"
  have dec: "older (node_pool t)" and fc: "\<And>d j. first_child (node_pool t d) = Some j \<Longrightarrow> j < node_count t"
    using t unfolding tree_inv_def by blast+
  have cnt: "node_count t' = node_count t" by (simp add: t' unlink_child_def split: option.splits)
  have nm: "node_name t' i = node_name t i" for i
    by (simp add: t' unlink_child_def node_name_def split: option.splits)
  show "node_name t' i = node_name t i" by (rule nm)
  have cb: "c < node_count t" using children_below [OF t, of c d] ch by simp
  have dis: "set (children t a) \<inter> set (children t b) = {}" if "a \<noteq> b" for a b
    using t that unfolding tree_inv_def by blast
  have "children t' e = (if e = d then as @ bs else children t e) \<and> older (node_pool t') \<and>
      (\<forall>e j. first_child (node_pool t' e) = Some j \<longrightarrow> j < node_count t)" for e
  proof (cases "as = []")
    case True
    then have t1: "t' = upd_node d (\<lambda>n. n\<lparr>first_child := next_sibling (node_pool t c)\<rparr>) t" by (simp add: t' unlink_child_def)
    have ns: "next_sibling (node_pool t' i) = next_sibling (node_pool t i)" for i by (simp add: t1)
    have same: "sib_list ?f (node_pool t') p = sib_list ?f (node_pool t) p" for p by (rule sib_list_cong) (simp add: ns)
    obtain k where k: "first_child (node_pool t d) = Some k"
      using ch by (cases "first_child (node_pool t d)") (auto simp: children_def)
    have "children t d = k # sib_list ?f (node_pool t) (next_sibling (node_pool t k))"
      unfolding children_def k by (rule sib_list_unfold [OF t fc [OF k]])
    then have "bs = sib_list ?f (node_pool t) (next_sibling (node_pool t c))" using ch True by simp
    then have "children t' d = bs" using same by (simp add: children_def t1 del: sib_list.simps)
    moreover have "children t' e = children t e" if "e \<noteq> d" using that same by (simp add: children_def t1 del: sib_list.simps)
    moreover have "older (node_pool t')" using dec ns by (simp add: older_def)
    moreover have "j < node_count t" if "first_child (node_pool t' e) = Some j" for e j
      using that fc olderD [OF dec, of c j] cb by (auto simp: t1 split: if_splits)
    ultimately show ?thesis using True by auto
  next
    case False
    let ?q = "last as"
    have t1: "t' = upd_node ?q (\<lambda>n. n\<lparr>next_sibling := next_sibling (node_pool t c)\<rparr>) t"
      using False by (simp add: t' unlink_child_def)
    have fch: "first_child (node_pool t' i) = first_child (node_pool t i)" for i by (simp add: t1)
    have "i < ?f" if "first_child (node_pool t d) = Some i" for i using fc [OF that] by simp
    from sib_list_remove [OF dec ch [unfolded children_def] False this]
    have "sib_list ?f (node_pool t') (first_child (node_pool t d)) = as @ bs" by (simp add: t1 del: sib_list.simps)
    then have "children t' d = as @ bs" unfolding children_def fch cnt .
    moreover have qd: "?q \<in> set (children t d)" using ch False by simp
    have "children t' e = children t e" if "e \<noteq> d"
    proof -
      have "?q \<notin> set (children t e)" using dis [OF that] qd by auto
      then have "sib_list ?f (node_pool t') (first_child (node_pool t e)) = sib_list ?f (node_pool t) (first_child (node_pool t e))"
        by (intro sib_list_cong) (auto simp: t1 children_def simp del: sib_list.simps)
      then show ?thesis using fch by (simp add: children_def cnt del: sib_list.simps)
    qed
    moreover have "c < ?q" using chain_less [OF dec ch [unfolded children_def] False] .
    then have "older (node_pool t')" using dec unfolding older_def t1 by (auto intro: less_trans)
    ultimately show ?thesis using False fc fch by auto
  qed
  then have ch': "children t' e = (if e = d then as @ bs else children t e)" and dec': "older (node_pool t')"
    and fc': "first_child (node_pool t' e) = Some j \<Longrightarrow> j < node_count t" for e j by blast+
  show "children t' e = (if e = d then as @ bs else children t e)" by (rule ch')
  have sub: "set (children t' a) \<subseteq> set (children t a)" for a using ch ch' [of a] by auto
  have "distinct (map (node_name t') (children t' e))" for e
  proof -
    have "distinct (map (node_name t) (children t e))" for e using t unfolding tree_inv_def by blast
    from this [of d] this [of e] show ?thesis unfolding ch' nm [abs_def] ch by (cases "e = d") auto
  qed
  moreover have "set (children t' a) \<inter> set (children t' b) = {}" if "a \<noteq> b" for a b using sub dis [OF that] by blast
  moreover have "no_nul (node_name t' i)" for i using t nm unfolding tree_inv_def by simp
  moreover have "node_count t' \<le> TMPFS_MAX_NODES" using t cnt unfolding tree_inv_def by simp
  ultimately show "tree_inv t'" using dec' fc' cnt unfolding tree_inv_def by auto
qed

section \<open>File contents\<close>

lemma grow_cap_total:
  assumes "0 < c" "needed \<le> 2 ^ 63" "c * PAGE_SIZE < 2 ^ 64"
  shows "\<exists>c'. grow_cap needed c = Some c' \<and> needed \<le> c' * PAGE_SIZE \<and> c' * PAGE_SIZE < 2 ^ 64 \<and> c \<le> c'"
  using assms
proof (induction "needed - c * PAGE_SIZE" arbitrary: c rule: less_induct)
  case less
  have w: "wrap64 (c * PAGE_SIZE) = c * PAGE_SIZE" using less.prems by (simp add: wrap64_def)
  show ?case
  proof (cases "c * PAGE_SIZE < needed")
    case True
    have lt: "c * 2 * PAGE_SIZE < 2 ^ 64" using True less.prems by simp
    then have w2: "wrap64 (c * 2) = c * 2" by (simp add: wrap64_def)
    obtain c' where "grow_cap needed (c * 2) = Some c' \<and> needed \<le> c' * PAGE_SIZE \<and> c' * PAGE_SIZE < 2 ^ 64 \<and> c * 2 \<le> c'"
    proof -
      have "needed - c * 2 * PAGE_SIZE < needed - c * PAGE_SIZE" using True less.prems(1) by simp
      from less.hyps [OF this] less.prems lt show ?thesis using that by auto
    qed
    moreover have "grow_cap needed c = grow_cap needed (c * 2)"
      using True by (subst grow_cap.simps) (simp add: w w2)
    ultimately show ?thesis by auto
  next
    case False
    then show ?thesis using less.prems by (subst grow_cap.simps) (simp add: w)
  qed
qed

text \<open>A file in good order: its pages are a whole run of frames in use.\<close>

definition file_frames :: "tmpfs_node \<Rightarrow> nat set" where
  "file_frames f = {data_ptr f div PAGE_SIZE..<data_ptr f div PAGE_SIZE + n_capacity f div PAGE_SIZE}"

definition file_ok :: "mm \<Rightarrow> tmpfs_node \<Rightarrow> bool" where
  "file_ok m f \<longleftrightarrow> data_ptr f mod PAGE_SIZE = 0 \<and> PAGE_SIZE \<le> data_ptr f \<and> n_capacity f mod PAGE_SIZE = 0 \<and>
     0 < n_capacity f \<and> n_size f \<le> n_capacity f \<and> n_capacity f < 2 ^ 63 \<and> file_frames f \<subseteq> used_frames (frames m)"

definition contents :: "mm \<Rightarrow> tmpfs_node \<Rightarrow> bytes" where
  "contents m f = mem_read (phys m) (data_ptr f) (n_size f)"

lemma file_byte_frame:
  assumes "file_ok m f" "data_ptr f \<le> x" "x < data_ptr f + n_capacity f"
  shows "x div PAGE_SIZE \<in> file_frames f"
proof -
  from assms obtain a c where a: "data_ptr f = PAGE_SIZE * a" and c: "n_capacity f = PAGE_SIZE * c"
    unfolding file_ok_def by (metis dvd_def mod_0_imp_dvd)
  have "a \<le> x div PAGE_SIZE" using div_le_mono [OF assms(2), of PAGE_SIZE] a by simp
  moreover have "x div PAGE_SIZE < a + c"
    using assms(3) a c by (intro less_mult_imp_div_less) (simp add: algebra_simps)
  ultimately show ?thesis by (simp add: file_frames_def a c)
qed

lemma free_pages_used:
  "i \<in> used_frames p \<Longrightarrow> i \<notin> {a div PAGE_SIZE..<a div PAGE_SIZE + n} \<Longrightarrow> a mod PAGE_SIZE = 0 \<Longrightarrow>
   i \<in> used_frames (pmm_free_pages a n p)"
proof -
  assume i: "i \<in> used_frames p" "i \<notin> {a div PAGE_SIZE..<a div PAGE_SIZE + n}" "a mod PAGE_SIZE = 0"
  have "i \<in> used_frames (pmm_free_pages_from k n' a p)"
    if "i \<in> used_frames p" "i \<notin> {a div PAGE_SIZE + k..<a div PAGE_SIZE + k + n'}" for k n' p
    using that
  proof (induction n' arbitrary: k p)
    case (Suc n')
    have "(a + k * PAGE_SIZE) div PAGE_SIZE = a div PAGE_SIZE + k" by simp
    moreover have "i \<noteq> a div PAGE_SIZE + k" using Suc.prems(2) by auto
    ultimately have "i \<in> used_frames (pmm_free_page (a + k * PAGE_SIZE) p)"
      using Suc.prems(1) by (simp add: free_page_used)
    then show ?case using Suc.prems by (auto intro!: Suc.IH)
  qed simp
  from this [of p 0 n] i show ?thesis by (simp add: pmm_free_pages_def)
qed

text \<open>Overwriting a list from a position on.\<close>

definition splice :: "bytes \<Rightarrow> nat \<Rightarrow> bytes \<Rightarrow> bytes" where
  "splice old offset new = take offset old @ new @ drop (offset + length new) old"

lemma put_bytes_contents:
  assumes "offset \<le> n_size (node_pool t i)" "put_bytes i src offset (m, t) = (m', t')"
  shows "contents m' (node_pool t' i) = splice (contents m (node_pool t i)) offset src"
proof -
  let ?f = "node_pool t i"
  have e: "data_ptr (node_pool t' i) = data_ptr ?f"
    "n_size (node_pool t' i) = (if offset + length src > n_size ?f then offset + length src else n_size ?f)"
    "phys m' = mem_write (phys m) (data_ptr ?f + offset) src"
    using assms(2) by (auto simp: put_bytes_def data_ptr_def Let_def)
  show ?thesis
  proof (rule nth_equalityI)
    show "length (contents m' (node_pool t' i)) = length (splice (contents m ?f) offset src)"
      using assms(1) by (simp add: contents_def splice_def e)
    fix j assume "j < length (contents m' (node_pool t' i))"
    then have j: "j < n_size (node_pool t' i)" by (simp add: contents_def)
    then have a: "contents m' (node_pool t' i) ! j = phys m' (data_ptr ?f + j)" by (simp add: contents_def e(1))
    have "j < offset \<or> offset \<le> j \<and> j < offset + length src \<or> offset + length src \<le> j \<and> j < n_size ?f"
      using j unfolding e(2) by (auto split: if_splits)
    then consider "j < offset" | "offset \<le> j" "j < offset + length src" | "offset + length src \<le> j" "j < n_size ?f"
      by blast
    then show "contents m' (node_pool t' i) ! j = splice (contents m ?f) offset src ! j"
      using assms(1) unfolding a
      by cases (auto simp: splice_def contents_def nth_append e(3) mem_write_def less_diff_conv2 not_less)
  qed
qed

text \<open>What a change of file \<open>i\<close> keeps of every other file whose frames are not shared with it.\<close>

definition files_kept :: "nat \<Rightarrow> mm \<times> tmpfs \<Rightarrow> mm \<times> tmpfs \<Rightarrow> bool" where
  "files_kept i = (\<lambda>(m, t) (m', t'). \<forall>j. j \<noteq> i \<and> file_ok m (node_pool t j) \<and>
      file_frames (node_pool t j) \<inter> file_frames (node_pool t i) = {} \<longrightarrow>
      node_pool t' j = node_pool t j \<and> contents m' (node_pool t j) = contents m (node_pool t j) \<and>
      file_ok m' (node_pool t j) \<and> file_frames (node_pool t j) \<inter> file_frames (node_pool t' i) = {})"

lemma files_kept_trans:
  assumes "files_kept i st st1" "files_kept i st1 st2" shows "files_kept i st st2"
proof (cases st; cases st1; cases st2)
  fix m t m1 t1 m2 t2 assume [simp]: "st = (m, t)" "st1 = (m1, t1)" "st2 = (m2, t2)"
  show ?thesis using assms unfolding files_kept_def by (simp, metis)
qed

lemma contents_cong:
  assumes "file_ok m f" "\<And>x. x div PAGE_SIZE \<in> file_frames f \<Longrightarrow> phys m' x = phys m x"
  shows "contents m' f = contents m f"
  unfolding contents_def
  by (rule mem_read_cong, rule assms(2), rule file_byte_frame [OF assms(1)])
    (use assms(1) in \<open>auto simp: file_ok_def\<close>)

lemma put_bytes_ok:
  assumes f: "file_ok m (node_pool t i)" and o: "offset \<le> n_size (node_pool t i)"
    "offset + length src \<le> n_capacity (node_pool t i)" and p: "put_bytes i src offset (m, t) = (m', t')"
  shows "contents m' (node_pool t' i) = splice (contents m (node_pool t i)) offset src"
    "file_ok m' (node_pool t' i)" "frames m' = frames m" "files_kept i (m, t) (m', t')"
proof -
  let ?f = "node_pool t i"
  have e: "node_pool t' i = ?f\<lparr>n_size := (if offset + length src > n_size ?f then offset + length src else n_size ?f)\<rparr>"
    "\<And>j. j \<noteq> i \<Longrightarrow> node_pool t' j = node_pool t j"
    "m' = m\<lparr>phys := mem_write (phys m) (data_ptr ?f + offset) src\<rparr>"
    using p by (auto simp: put_bytes_def Let_def)
  have ff: "file_frames (node_pool t' i) = file_frames ?f" by (simp add: e(1) file_frames_def data_ptr_def)
  show "contents m' (node_pool t' i) = splice (contents m ?f) offset src" by (rule put_bytes_contents [OF o(1) p])
  show "frames m' = frames m" by (simp add: e(3))
  show "file_ok m' (node_pool t' i)"
    using f o unfolding file_ok_def ff by (simp add: e(1,3) data_ptr_def)
  show "files_kept i (m, t) (m', t')"
    unfolding files_kept_def prod.case
  proof (intro allI impI conjI)
    fix j assume j: "j \<noteq> i \<and> file_ok m (node_pool t j) \<and> file_frames (node_pool t j) \<inter> file_frames ?f = {}"
    show "node_pool t' j = node_pool t j" using j e(2) by simp
    show "file_ok m' (node_pool t j)" using j by (simp add: file_ok_def e(3))
    show "file_frames (node_pool t j) \<inter> file_frames (node_pool t' i) = {}" using j ff by simp
    show "contents m' (node_pool t j) = contents m (node_pool t j)"
    proof (rule contents_cong)
      show "file_ok m (node_pool t j)" using j by blast
      fix x assume x: "x div PAGE_SIZE \<in> file_frames (node_pool t j)"
      have "\<not> (data_ptr ?f + offset \<le> x \<and> x < data_ptr ?f + offset + length src)"
        using file_byte_frame [OF f, of x] x j o(2) by auto
      then show "phys m' x = phys m x" by (auto simp: e(3) mem_write_def)
    qed
  qed
qed

lemma used_after_alloc:
  "pmm_alloc_pages n p = (a, q) \<Longrightarrow> a \<noteq> 0 \<Longrightarrow>
   used_frames q = used_frames p \<union> {a div PAGE_SIZE..<a div PAGE_SIZE + n}"
  using alloc_pages_frames [of n p a q] unfolding used_frames_def free_frames_def by fastforce

lemma used_not_free: "i \<in> used_frames p \<Longrightarrow> i \<notin> free_frames p"
  by (simp add: used_frames_def free_frames_def)

lemma grow_file:
  assumes f: "file_ok m (node_pool t i)" and inv: "pmm_inv (frames m)" and a: "pmm_alloc_pages c (frames m) = (a, p)" "a \<noteq> 0"
    and c: "n_capacity (node_pool t i) \<le> c * PAGE_SIZE" "c * PAGE_SIZE < 2 ^ 63"
    and m1: "m1 = m\<lparr>phys := k_memcpy a (data_ptr (node_pool t i)) (n_size (node_pool t i)) (phys m),
                    frames := pmm_free_pages (data_ptr (node_pool t i)) (n_capacity (node_pool t i) div PAGE_SIZE) p\<rparr>"
    and t1: "t1 = upd_node i (\<lambda>f. f\<lparr>n_data := Some a, n_capacity := c * PAGE_SIZE\<rparr>) t"
  shows "contents m1 (node_pool t1 i) = contents m (node_pool t i)" "file_ok m1 (node_pool t1 i)"
    "pmm_inv (frames m1)" "files_kept i (m, t) (m1, t1)"
proof -
  let ?f = "node_pool t i" and ?new = "{a div PAGE_SIZE..<a div PAGE_SIZE + c}"
  note al = alloc_pages_frames [OF a]
  have new: "?new \<inter> used_frames (frames m) = {}" using al(2) used_not_free by blast
  have fo: "data_ptr ?f mod PAGE_SIZE = 0" "PAGE_SIZE \<le> data_ptr ?f" "file_frames ?f \<subseteq> used_frames (frames m)"
    "n_size ?f \<le> n_capacity ?f" "0 < n_capacity ?f" using f unfolding file_ok_def by blast+
  have d1: "data_ptr (node_pool t1 i) = a" "n_size (node_pool t1 i) = n_size ?f" "n_capacity (node_pool t1 i) = c * PAGE_SIZE"
    by (simp_all add: t1 data_ptr_def)
  have ff1: "file_frames (node_pool t1 i) = ?new" by (simp add: file_frames_def d1)
  have innew: "x div PAGE_SIZE \<in> ?new" if "a \<le> x" "x < a + c * PAGE_SIZE" for x
  proof -
    have "a = PAGE_SIZE * (a div PAGE_SIZE)" using al(1) by (metis add.right_neutral mult_div_mod_eq)
    then show ?thesis using that div_le_mono [OF that(1), of PAGE_SIZE]
      by (simp add: less_mult_imp_div_less algebra_simps)
  qed
  have apart: "\<not> (a \<le> x \<and> x < a + c * PAGE_SIZE)" if "x div PAGE_SIZE \<in> used_frames (frames m)" for x
    using innew new that by blast
  have old: "x div PAGE_SIZE \<in> used_frames (frames m)" if "data_ptr ?f \<le> x" "x < data_ptr ?f + n_capacity ?f" for x
    using file_byte_frame [OF f that] fo(3) by blast
  have "\<not> (data_ptr ?f \<le> a \<and> a < data_ptr ?f + n_capacity ?f)" using apart [OF old, of a] al(5) by auto
  moreover have "\<not> (a \<le> data_ptr ?f \<and> data_ptr ?f < a + c * PAGE_SIZE)" using apart [OF old, of "data_ptr ?f"] fo(5) by auto
  ultimately have dis: "a + c * PAGE_SIZE \<le> data_ptr ?f \<or> data_ptr ?f + n_capacity ?f \<le> a" by linarith
  have ph: "phys m1 = mem_write (phys m) a (mem_read (phys m) (data_ptr ?f) (n_size ?f))"
    using dis fo(4) c(1) by (auto simp: m1 intro!: k_memcpy_write)
  have us: "used_frames (frames m1) \<supseteq> (used_frames (frames m) \<union> ?new) - file_frames ?f"
    using free_pages_used [of _ p "data_ptr ?f" "n_capacity ?f div PAGE_SIZE"] fo(1) used_after_alloc [OF a]
    by (auto simp: m1 file_frames_def)
  show "contents m1 (node_pool t1 i) = contents m ?f"
    unfolding contents_def d1 ph using mem_read_write_same [of "phys m" a "mem_read (phys m) (data_ptr ?f) (n_size ?f)"] by simp
  have ge: "PAGE_SIZE \<le> a" using al(1) a(2) by (metis mod_less not_le)
  show "file_ok m1 (node_pool t1 i)"
    unfolding file_ok_def ff1 d1 using us new fo al(1,5) ge c by auto
  show "pmm_inv (frames m1)"
    using free_pages_from_inv [OF alloc_pages_inv [OF inv a(1)] fo(2)] by (simp add: m1 pmm_free_pages_def)
  show "files_kept i (m, t) (m1, t1)"
    unfolding files_kept_def prod.case ff1
  proof (intro allI impI conjI)
    fix j assume j: "j \<noteq> i \<and> file_ok m (node_pool t j) \<and> file_frames (node_pool t j) \<inter> file_frames ?f = {}"
    have u: "file_frames (node_pool t j) \<subseteq> used_frames (frames m)" using j unfolding file_ok_def by blast
    show "node_pool t1 j = node_pool t j" using j t1 by simp
    show "file_frames (node_pool t j) \<inter> ?new = {}" using u new by blast
    show "file_ok m1 (node_pool t j)" using j us u unfolding file_ok_def by blast
    show "contents m1 (node_pool t j) = contents m (node_pool t j)"
    proof (rule contents_cong)
      show "file_ok m (node_pool t j)" using j by blast
      fix x assume "x div PAGE_SIZE \<in> file_frames (node_pool t j)"
      then have "\<not> (a \<le> x \<and> x < a + c * PAGE_SIZE)" using apart u by blast
      then show "phys m1 x = phys m x" using fo(4) c(1) by (auto simp: ph mem_write_def)
    qed
  qed
qed

lemma file_read_contents:
  "tmpfs_file_read i n k (m, t) = take n (drop k (contents m (node_pool t i)))"
proof (cases "k \<ge> n_size (node_pool t i)")
  case False
  then show ?thesis
    by (intro nth_equalityI) (auto simp: tmpfs_file_read_def contents_def Let_def min_def add.assoc split: if_splits)
qed (simp add: tmpfs_file_read_def contents_def)

text \<open>The three ends of a write.\<close>

definition write_done :: "nat \<Rightarrow> bytes \<Rightarrow> nat \<Rightarrow> nat \<Rightarrow> mm \<times> tmpfs \<Rightarrow> mm \<times> tmpfs \<Rightarrow> bool" where
  "write_done i src offset r = (\<lambda>(m, t) (m', t').
     contents m' (node_pool t' i) = splice (contents m (node_pool t i)) offset (take r src) \<and>
     file_ok m' (node_pool t' i) \<and> pmm_inv (frames m') \<and> files_kept i (m, t) (m', t'))"

lemma write_put:
  assumes "pmm_inv (frames m)" "file_ok m (node_pool t i)" "offset \<le> n_size (node_pool t i)" "r \<le> length src"
    "offset + r \<le> n_capacity (node_pool t i)"
  shows "write_done i src offset r (m, t) (put_bytes i (take r src) offset (m, t))"
proof -
  obtain m' t' where p: "put_bytes i (take r src) offset (m, t) = (m', t')" by (cases "put_bytes i (take r src) offset (m, t)")
  have "offset + length (take r src) \<le> n_capacity (node_pool t i)" using assms(4,5) by simp
  from put_bytes_ok [OF assms(2,3) this p] assms(1) p show ?thesis by (simp add: write_done_def)
qed

lemma write_grow:
  assumes inv: "pmm_inv (frames m)" and f: "file_ok m (node_pool t i)" and o: "offset \<le> n_size (node_pool t i)"
    and n: "n_capacity (node_pool t i) < offset + length src" "offset + length src \<le> 2 ^ 63"
  shows "\<exists>r st. tmpfs_file_write i src offset (m, t) = Some (int r, st) \<and> r \<le> length src \<and>
    write_done i src offset r (m, t) st \<and>
    (r < length src \<longrightarrow> (\<exists>c. offset + length src \<le> c * PAGE_SIZE \<and> fst (pmm_alloc_pages c (frames m)) = 0))"
proof -
  let ?f = "node_pool t i" and ?c0 = "n_capacity (node_pool t i) div PAGE_SIZE" and ?n = "offset + length src"
  have fo: "n_capacity ?f mod PAGE_SIZE = 0" "0 < n_capacity ?f" "n_size ?f \<le> n_capacity ?f" "n_capacity ?f < 2 ^ 63"
    using f unfolding file_ok_def by blast+
  have c0: "?c0 * PAGE_SIZE = n_capacity ?f" "0 < ?c0" using fo by auto
  have w: "wrap64 ?n = ?n" using n by (simp add: wrap64_def)
  from grow_cap_total [of ?c0 ?n] c0 fo(4) n(2) obtain c where
    c: "grow_cap ?n ?c0 = Some c" "?n \<le> c * PAGE_SIZE" "?c0 \<le> c" by auto
  obtain a p where a: "pmm_alloc_pages c (frames m) = (a, p)" by (cases "pmm_alloc_pages c (frames m)")
  have grow: "grow_cap ?n (if ?c0 = 0 then 1 else ?c0) = Some c" using c c0 by simp
  show ?thesis
  proof (cases "a = 0")
    case True
    define r where "r = (if length src < n_capacity ?f - offset then length src else n_capacity ?f - offset)"
    have "tmpfs_file_write i src offset (m, t) = Some (int r, put_bytes i (take r src) offset (m, t))"
      using n o fo(3) grow a True unfolding r_def by (simp add: tmpfs_file_write_def w Let_def)
    moreover have r: "r \<le> length src" using n o fo(3) by (auto simp: r_def)
    moreover have "write_done i src offset r (m, t) (put_bytes i (take r src) offset (m, t))"
      by (rule write_put [OF inv f o r]) (use o fo(3) in \<open>auto simp: r_def\<close>)
    moreover have "fst (pmm_alloc_pages c (frames m)) = 0" using a True by simp
    ultimately show ?thesis using c(2) by blast
  next
    case False
    define m1 where "m1 = m\<lparr>phys := k_memcpy a (data_ptr ?f) (n_size ?f) (phys m), frames := pmm_free_pages (data_ptr ?f) ?c0 p\<rparr>"
    define t1 where "t1 = upd_node i (\<lambda>f. f\<lparr>n_data := Some a, n_capacity := c * PAGE_SIZE\<rparr>) t"
    have small: "c * PAGE_SIZE < 2 ^ 63"
      using a False inv by (cases rule: alloc_pages_cases [of c "frames m"]) (auto simp: pmm_inv_def MAX_PAGES_def)
    have "n_capacity ?f \<le> c * PAGE_SIZE" using c(2) n(1) by simp
    note g = grow_file [OF f inv a False this small m1_def t1_def]
    have sz: "n_size (node_pool t1 i) = n_size ?f" "n_capacity (node_pool t1 i) = c * PAGE_SIZE" by (simp_all add: t1_def)
    have "tmpfs_file_write i src offset (m, t) = Some (int (length src), put_bytes i src offset (m1, t1))"
      using n o fo(3) grow a False by (simp add: tmpfs_file_write_def w Let_def m1_def t1_def)
    moreover have "write_done i src offset (length src) (m1, t1) (put_bytes i (take (length src) src) offset (m1, t1))"
      by (rule write_put [OF g(3,2)]) (use o sz c(2) in auto)
    then have "write_done i src offset (length src) (m, t) (put_bytes i src offset (m1, t1))"
      using g(1,4) by (auto simp: write_done_def split: prod.splits intro: files_kept_trans)
    ultimately show ?thesis by blast
  qed
qed

lemma write_total:
  assumes inv: "pmm_inv (frames m)" and f: "file_ok m (node_pool t i)" and o: "offset \<le> n_size (node_pool t i)"
    and n: "offset + length src \<le> 2 ^ 63"
  shows "\<exists>r st. tmpfs_file_write i src offset (m, t) = Some (int r, st) \<and> r \<le> length src \<and>
    write_done i src offset r (m, t) st \<and>
    (r < length src \<longrightarrow> (\<exists>c. offset + length src \<le> c * PAGE_SIZE \<and> fst (pmm_alloc_pages c (frames m)) = 0))"
proof (cases "n_capacity (node_pool t i) < offset + length src")
  case False
  have "wrap64 (offset + length src) = offset + length src" using n by (simp add: wrap64_def)
  then have "tmpfs_file_write i src offset (m, t) = Some (int (length src), put_bytes i src offset (m, t))"
    using False by (simp add: tmpfs_file_write_def Let_def)
  moreover have "write_done i src offset (length src) (m, t) (put_bytes i (take (length src) src) offset (m, t))"
    by (rule write_put [OF inv f o]) (use False in auto)
  ultimately show ?thesis by auto
qed (rule write_grow [OF inv f o _ n])

section \<open>Directories as maps\<close>

text \<open>The interface of a directory tree: \<open>look\<close> reads it, \<open>add\<close> enters a new node under a name,
  \<open>remove\<close> takes a name out. A failed operation changes nothing.\<close>

locale directory =
  fixes inv :: "'s \<Rightarrow> bool"
    and isdir :: "'s \<Rightarrow> nat \<Rightarrow> bool"
    and look :: "nat \<Rightarrow> string \<Rightarrow> 's \<Rightarrow> nat option"
    and add :: "nat \<Rightarrow> string \<Rightarrow> 's \<Rightarrow> int \<times> 's"
    and remove :: "nat \<Rightarrow> string \<Rightarrow> 's \<Rightarrow> int \<times> 's"
    and good :: "string \<Rightarrow> bool"
  assumes add_exists: "inv s \<Longrightarrow> look d name s \<noteq> None \<Longrightarrow> add d name s = (- EEXIST, s)"
    and add_fails: "inv s \<Longrightarrow> add d name s = (r, s') \<Longrightarrow> r \<noteq> 0 \<Longrightarrow> s' = s"
    and add_works: "inv s \<Longrightarrow> isdir s d \<Longrightarrow> good name \<Longrightarrow> add d name s = (0, s') \<Longrightarrow>
      inv s' \<and> (\<forall>e. isdir s e \<longrightarrow> isdir s' e) \<and>
      (\<exists>i. \<not> isdir s i \<and> (\<forall>nm. good nm \<longrightarrow> look i nm s' = None) \<and>
        (\<forall>e nm. isdir s e \<longrightarrow> good nm \<longrightarrow> look e nm s' = (if e = d \<and> nm = name then Some i else look e nm s)))"
    and remove_missing: "inv s \<Longrightarrow> good name \<Longrightarrow> look d name s = None \<Longrightarrow> remove d name s = (- ENOENT, s)"
    and remove_fails: "inv s \<Longrightarrow> remove d name s = (r, s') \<Longrightarrow> r \<noteq> 0 \<Longrightarrow> s' = s"
    and remove_works: "inv s \<Longrightarrow> isdir s d \<Longrightarrow> good name \<Longrightarrow> remove d name s = (0, s') \<Longrightarrow>
      inv s' \<and> (\<forall>e. isdir s e \<longrightarrow> isdir s' e) \<and>
      (\<forall>e nm. isdir s e \<longrightarrow> good nm \<longrightarrow> look e nm s' = (if e = d \<and> nm = name then None else look e nm s))"
begin

lemma add_inv:
  assumes "inv s" "isdir s d" "good name" shows "inv (snd (add d name s)) \<and> (isdir s e \<longrightarrow> isdir (snd (add d name s)) e)"
proof (cases "add d name s")
  case (Pair r s')
  then show ?thesis using add_works [OF assms, of s'] add_fails [OF assms(1) Pair] assms by (cases "r = 0") auto
qed

lemma remove_inv:
  assumes "inv s" "isdir s d" "good name" shows "inv (snd (remove d name s)) \<and> (isdir s e \<longrightarrow> isdir (snd (remove d name s)) e)"
proof (cases "remove d name s")
  case (Pair r s')
  then show ?thesis using remove_works [OF assms, of s'] remove_fails [OF assms(1) Pair] assms by (cases "r = 0") auto
qed

lemma add_remove:
  assumes "inv s" "isdir s d" "good name" "add d name s = (0, s1)" "remove d name s1 = (0, s2)" "isdir s e" "good nm"
  shows "look e nm s2 = look e nm s"
proof -
  from add_works [OF assms(1-4)] obtain i where 1: "inv s1" "\<And>e. isdir s e \<Longrightarrow> isdir s1 e"
    "\<And>e nm. isdir s e \<Longrightarrow> good nm \<Longrightarrow> look e nm s1 = (if e = d \<and> nm = name then Some i else look e nm s)" by blast
  have 2: "look e nm s2 = (if e = d \<and> nm = name then None else look e nm s1)"
    using remove_works [OF 1(1) 1(2) [OF assms(2)] assms(3,5)] 1(2) assms(6,7) by blast
  have "look d name s = None" using add_exists [OF assms(1), of d name] assms(4) by (cases "look d name s") auto
  then show ?thesis using 2 1(3) [OF assms(6,7)] by auto
qed

end

definition good_name :: "string \<Rightarrow> bool" where
  "good_name s \<longleftrightarrow> no_nul s \<and> length s < VFS_MAX_NAME"

lemma good_name_copy: "good_name s \<Longrightarrow> name_copy s VFS_MAX_NAME = s"
  by (simp add: good_name_def name_copy_def VFS_MAX_NAME_def)

lemma lookup_children:
  assumes "tree_inv t" "tree_inv t'" "no_nul nm" "set (children t' e) = A"
    "\<And>i. i \<in> A \<Longrightarrow> node_name t' i = nm \<longleftrightarrow> x = Some i" "\<And>i. x = Some i \<Longrightarrow> i \<in> A"
  shows "tmpfs_dir_lookup e nm t' = x"
proof (cases "tmpfs_dir_lookup e nm t'")
  case None
  then show ?thesis using lookup_iff [OF assms(2,3), of e] assms(4-6) by (cases x) fastforce+
next
  case (Some i)
  then show ?thesis using lookup_iff [OF assms(2,3), of e i] assms(4) assms(5) [of i] by simp
qed

lemma link_lookup:
  assumes t: "tree_inv t" and n: "node_count t < TMPFS_MAX_NODES" and d: "d < node_count t"
    and t2: "t2 = t\<lparr>node_count := node_count t + 1, node_pool := (node_pool t)(node_count t := nd)\<rparr>"
    and nd: "first_child nd = None" "v_name (n_vnode nd) = name" and g: "good_name name"
    and none: "tmpfs_dir_lookup d name t = None" and t3: "t3 = link_child d (node_count t) t2"
  shows "tree_inv t3 \<and> node_count t3 = node_count t + 1 \<and> (\<forall>nm. good_name nm \<longrightarrow> tmpfs_dir_lookup (node_count t) nm t3 = None) \<and>
    (\<forall>e nm. e < node_count t \<longrightarrow> good_name nm \<longrightarrow>
       tmpfs_dir_lookup e nm t3 = (if e = d \<and> nm = name then Some (node_count t) else tmpfs_dir_lookup e nm t))"
proof -
  have gn: "no_nul name" using g by (simp add: good_name_def)
  have fresh: "\<forall>i \<in> set (children t d). node_name t i \<noteq> v_name (n_vnode nd)"
    using lookup_iff [OF t gn, of d] none nd by auto
  note l = link_effect [OF t n d t2 nd(1) _ fresh t3, unfolded nd(2), OF gn]
  have look: "tmpfs_dir_lookup e nm t3 = (if e = d \<and> nm = name then Some (node_count t) else tmpfs_dir_lookup e nm t)"
    if e: "e < node_count t" and nm: "good_name nm" for e nm
  proof (rule lookup_children [OF t l(4)])
    show nn: "no_nul nm" using nm by (simp add: good_name_def)
    show "set (children t3 e) = (if e = d then insert (node_count t) (set (children t d)) else set (children t e))"
      using e by (simp add: l(1))
    show "i \<in> (if e = d then insert (node_count t) (set (children t d)) else set (children t e))"
      if "(if e = d \<and> nm = name then Some (node_count t) else tmpfs_dir_lookup e nm t) = Some i" for i
      using that lookup_iff [OF t nn, of e i] by (auto split: if_splits)
    fix i assume i: "i \<in> (if e = d then insert (node_count t) (set (children t d)) else set (children t e))"
    show "(node_name t3 i = nm) = ((if e = d \<and> nm = name then Some (node_count t) else tmpfs_dir_lookup e nm t) = Some i)"
    proof (cases "i = node_count t")
      case True
      then have "i \<notin> set (children t e)" for e using children_below [OF t] by blast
      then show ?thesis using True i l(3) lookup_iff [OF t nn, of e i] by (auto split: if_splits)
    next
      case False
      then have "i \<in> set (children t e)" using i by (auto split: if_splits)
      then show ?thesis using l(2) [OF False] lookup_iff [OF t nn, of e i] fresh nd(2) False by auto
    qed
  qed
  moreover have "tmpfs_dir_lookup (node_count t) nm t3 = None" for nm
    using l(1) [of "node_count t"] d by (simp add: tmpfs_dir_lookup_def)
  moreover have "node_count t3 = node_count t + 1" by (simp add: t3 t2 link_child_def)
  ultimately show ?thesis using l(4) by blast
qed

lemma unlink_lookup:
  assumes t: "tree_inv t" and c: "find_prev (named t name) None (children t d) = Some (prev, c)" and g: "good_name name"
  shows "tree_inv (unlink_child d prev c t) \<and> (\<forall>e nm. good_name nm \<longrightarrow>
     tmpfs_dir_lookup e nm (unlink_child d prev c t) = (if e = d \<and> nm = name then None else tmpfs_dir_lookup e nm t))"
proof -
  let ?t = "unlink_child d prev c t"
  from find_prev_split [OF c] obtain as bs where s: "children t d = as @ c # bs" "\<forall>a \<in> set as. \<not> named t name a" "named t name c"
    "prev = (if as = [] then None else Some (last as))" by blast
  note u = unlink_effect [OF t s(1), of ?t, folded s(4), OF refl]
  have gn: "no_nul name" using g by (simp add: good_name_def)
  have cn: "node_name t c = name" using named_iff [OF t gn] s(3) by simp
  have dis: "distinct (map (node_name t) (children t d))" using t unfolding tree_inv_def by blast
  have look: "tmpfs_dir_lookup e nm ?t = (if e = d \<and> nm = name then None else tmpfs_dir_lookup e nm t)"
    if nm: "good_name nm" for e nm
  proof (rule lookup_children [OF t u(3)])
    show nn: "no_nul nm" using nm by (simp add: good_name_def)
    show "set (children ?t e) = (if e = d then set as \<union> set bs else set (children t e))" by (simp add: u(1))
    show "i \<in> (if e = d then set as \<union> set bs else set (children t e))"
      if "(if e = d \<and> nm = name then None else tmpfs_dir_lookup e nm t) = Some i" for i
      using that lookup_iff [OF t nn, of e i] s(1) cn by (auto split: if_splits)
    fix i assume i: "i \<in> (if e = d then set as \<union> set bs else set (children t e))"
    then have "i \<in> set (children t e)" using s(1) by (auto split: if_splits)
    moreover have "node_name t i \<noteq> name" if "e = d" using dis i that unfolding s(1) cn [symmetric] by auto (metis imageI)+
    ultimately show "(node_name ?t i = nm) = ((if e = d \<and> nm = name then None else tmpfs_dir_lookup e nm t) = Some i)"
      using lookup_iff [OF t nn, of e i] u(2) by auto
  qed
  then show ?thesis using u(3) by blast
qed

text \<open>Files and directories of the memory file system as directory trees.\<close>

definition mkdir_st :: "nat \<Rightarrow> string \<Rightarrow> mm \<times> tmpfs \<Rightarrow> int \<times> mm \<times> tmpfs" where
  "mkdir_st d name = (\<lambda>(m, t). let (r, t') = tmpfs_dir_mkdir d name t in (r, m, t'))"

lemma create_cases:
  obtains (exists) "tmpfs_dir_lookup d name t \<noteq> None" "tmpfs_dir_create d name (m, t) = (- EEXIST, m, t)"
  | (full) "tmpfs_dir_lookup d name t = None" "node_count t \<ge> TMPFS_MAX_NODES" "tmpfs_dir_create d name (m, t) = (- ENOMEM, m, t)"
  | (new) nd m' where "tmpfs_dir_lookup d name t = None" "node_count t < TMPFS_MAX_NODES"
      "first_child nd = None" "v_name (n_vnode nd) = name_copy name VFS_MAX_NAME"
      "tmpfs_dir_create d name (m, t) = (0, m', link_child d (node_count t)
         (t\<lparr>node_count := node_count t + 1, node_pool := (node_pool t)(node_count t := nd)\<rparr>))"
proof (cases "tmpfs_dir_lookup d name t = None")
  case none: True
  show ?thesis
  proof (cases "node_count t \<ge> TMPFS_MAX_NODES")
    case True
    with none show ?thesis by (intro full) (simp_all add: tmpfs_dir_create_def tmpfs_create_file_def tmpfs_alloc_node_def)
  next
    case False
    with none show ?thesis
      by (intro new [of "node_zero\<lparr>n_vnode := vnode_zero\<lparr>v_type := VNODE_FILE, v_ops := Some Tmpfs_file_ops,
            v_name := name_copy name VFS_MAX_NAME, v_parent := Some (VTmp d), v_mode := VFS_DEFAULT_FILE_MODE\<rparr>,
            n_data := Some (fst (pmm_alloc_pages 1 (frames m))), n_capacity := PAGE_SIZE, n_size := 0\<rparr>"
          "m\<lparr>frames := snd (pmm_alloc_pages 1 (frames m))\<rparr>"])
        (auto simp: tmpfs_dir_create_def tmpfs_create_file_def tmpfs_alloc_node_def set_name_def node_zero_def split: prod.splits)
  qed
qed (simp add: exists tmpfs_dir_create_def)

lemma mkdir_cases:
  obtains (exists) "tmpfs_dir_lookup d name t \<noteq> None" "tmpfs_dir_mkdir d name t = (- EEXIST, t)"
  | (full) "tmpfs_dir_lookup d name t = None" "node_count t \<ge> TMPFS_MAX_NODES" "tmpfs_dir_mkdir d name t = (- ENOMEM, t)"
  | (new) nd where "tmpfs_dir_lookup d name t = None" "node_count t < TMPFS_MAX_NODES"
      "first_child nd = None" "v_name (n_vnode nd) = name_copy name VFS_MAX_NAME"
      "tmpfs_dir_mkdir d name t = (0, link_child d (node_count t)
         (t\<lparr>node_count := node_count t + 1, node_pool := (node_pool t)(node_count t := nd)\<rparr>))"
proof (cases "tmpfs_dir_lookup d name t = None")
  case none: True
  show ?thesis
  proof (cases "node_count t \<ge> TMPFS_MAX_NODES")
    case True
    with none show ?thesis by (intro full) (simp_all add: tmpfs_dir_mkdir_def tmpfs_create_dir_def tmpfs_alloc_node_def)
  next
    case False
    with none show ?thesis
      by (intro new [of "node_zero\<lparr>n_vnode := vnode_zero\<lparr>v_type := VNODE_DIR, v_ops := Some Tmpfs_dir_ops,
            v_name := name_copy name VFS_MAX_NAME, v_parent := Some (VTmp d), v_mode := VFS_DEFAULT_DIR_MODE\<rparr>\<rparr>"])
        (auto simp: tmpfs_dir_mkdir_def tmpfs_create_dir_def tmpfs_alloc_node_def set_name_def node_zero_def)
  qed
qed (simp add: exists tmpfs_dir_mkdir_def)

lemma unlink_cases:
  obtains (none) "find_prev (named t name) None (children t d) = None" "tmpfs_dir_unlink d name (m, t) = (- ENOENT, m, t)"
  | (busy) prev c where "find_prev (named t name) None (children t d) = Some (prev, c)"
      "v_type (n_vnode (node_pool t c)) = VNODE_DIR" "first_child (node_pool t c) \<noteq> None"
      "tmpfs_dir_unlink d name (m, t) = (- ENOTEMPTY, m, t)"
  | (out) prev c m' where "find_prev (named t name) None (children t d) = Some (prev, c)"
      "tmpfs_dir_unlink d name (m, t) = (0, m', unlink_child d prev c t)"
proof (cases "find_prev (named t name) None (children t d)")
  case None
  then show ?thesis by (intro none) (simp_all add: tmpfs_dir_unlink_def)
next
  case (Some pc)
  obtain prev c where pc: "pc = (prev, c)" by (cases pc)
  show ?thesis
  proof (cases "v_type (n_vnode (node_pool t c)) = VNODE_DIR \<and> first_child (node_pool t c) \<noteq> None")
    case True
    then show ?thesis using Some pc by (intro busy [of prev c]) (simp_all add: tmpfs_dir_unlink_def)
  next
    case False
    then show ?thesis using Some pc by (intro out [of prev c]) (auto simp: tmpfs_dir_unlink_def Let_def)
  qed
qed

lemma unlink_child_count [simp]: "node_count (unlink_child d prev c t) = node_count t"
  by (simp add: unlink_child_def split: option.split)

lemma unlink_missing:
  assumes "tree_inv t" "good_name name" "tmpfs_dir_lookup d name t = None"
  shows "tmpfs_dir_unlink d name (m, t) = (- ENOENT, m, t)"
proof -
  have "find_prev (named t name) None (children t d) = None"
    using assms(3) unfolding tmpfs_dir_lookup_def find_None_iff find_prev_None by blast
  then show ?thesis by (simp add: tmpfs_dir_unlink_def)
qed

lemma unlink_works:
  assumes "tree_inv t" "good_name name" "tmpfs_dir_unlink d name (m, t) = (0, m', t')"
  shows "tree_inv t' \<and> node_count t' = node_count t \<and> (\<forall>e nm. good_name nm \<longrightarrow>
     tmpfs_dir_lookup e nm t' = (if e = d \<and> nm = name then None else tmpfs_dir_lookup e nm t))"
  using assms(3)
proof (cases rule: unlink_cases [of t name d m])
  case (out prev c m'')
  then show ?thesis using unlink_lookup [OF assms(1) out(1) assms(2)] assms(3) by simp
qed simp_all

lemma unlink_fails: "tmpfs_dir_unlink d name (m, t) = (r, st) \<Longrightarrow> r \<noteq> 0 \<Longrightarrow> st = (m, t)"
  by (cases rule: unlink_cases [of t name d m]) auto

lemma create_works:
  assumes "tree_inv t" "d < node_count t" "good_name name" "tmpfs_dir_create d name (m, t) = (0, m', t')"
  shows "tree_inv t' \<and> node_count t' = node_count t + 1 \<and> (\<forall>nm. good_name nm \<longrightarrow> tmpfs_dir_lookup (node_count t) nm t' = None) \<and>
    (\<forall>e nm. e < node_count t \<longrightarrow> good_name nm \<longrightarrow>
       tmpfs_dir_lookup e nm t' = (if e = d \<and> nm = name then Some (node_count t) else tmpfs_dir_lookup e nm t))"
  using assms(4)
proof (cases rule: create_cases [of d name t m])
  case (new nd m'')
  show ?thesis
    by (rule link_lookup [OF assms(1) new(2) assms(2) refl new(3) new(4) [unfolded good_name_copy [OF assms(3)]] assms(3) new(1)])
      (use new(5) assms(4) in simp)
qed simp_all

lemma mkdir_works:
  assumes "tree_inv t" "d < node_count t" "good_name name" "tmpfs_dir_mkdir d name t = (0, t')"
  shows "tree_inv t' \<and> node_count t' = node_count t + 1 \<and> (\<forall>nm. good_name nm \<longrightarrow> tmpfs_dir_lookup (node_count t) nm t' = None) \<and>
    (\<forall>e nm. e < node_count t \<longrightarrow> good_name nm \<longrightarrow>
       tmpfs_dir_lookup e nm t' = (if e = d \<and> nm = name then Some (node_count t) else tmpfs_dir_lookup e nm t))"
  using assms(4)
proof (cases rule: mkdir_cases [of d name t])
  case (new nd)
  show ?thesis
    by (rule link_lookup [OF assms(1) new(2) assms(2) refl new(3) new(4) [unfolded good_name_copy [OF assms(3)]] assms(3) new(1)])
      (use new(5) assms(4) in simp)
qed simp_all

interpretation tfile: directory "\<lambda>(m, t). tree_inv t" "\<lambda>(m, t) d. d < node_count t" "\<lambda>d nm (m, t). tmpfs_dir_lookup d nm t"
  tmpfs_dir_create tmpfs_dir_unlink good_name
proof (unfold_locales, goal_cases)
  case (1 s d name)
  then show ?case by (cases s) (auto simp: tmpfs_dir_create_def)
next
  case (2 s d name r s')
  then show ?case by (cases s) (cases rule: create_cases [of d name "snd s" "fst s"]; auto)
next
  case (3 s d name s')
  then show ?case using create_works [of "snd s" d name "fst s" "fst s'" "snd s'"]
    by (cases s; cases s') (auto intro!: exI [of _ "node_count (snd s)"])
next
  case (4 s name d)
  then show ?case by (cases s) (simp add: unlink_missing)
next
  case (5 s d name r s')
  then show ?case by (cases s) (auto dest: unlink_fails)
next
  case (6 s d name s')
  then show ?case using unlink_works [of "snd s" name d "fst s" "fst s'" "snd s'"] by (cases s; cases s') auto
qed

interpretation tdir: directory "\<lambda>(m, t). tree_inv t" "\<lambda>(m, t) d. d < node_count t" "\<lambda>d nm (m, t). tmpfs_dir_lookup d nm t"
  mkdir_st tmpfs_dir_unlink good_name
proof (unfold_locales, goal_cases)
  case (1 s d name)
  then show ?case by (cases s) (auto simp: tmpfs_dir_mkdir_def mkdir_st_def)
next
  case (2 s d name r s')
  then show ?case by (cases s) (cases rule: mkdir_cases [of d name "snd s"]; auto simp: mkdir_st_def)
next
  case (3 s d name s')
  then show ?case using mkdir_works [of "snd s" d name "snd s'"]
    by (cases s; cases s') (auto simp: mkdir_st_def split: prod.splits intro!: exI [of _ "node_count (snd s)"])
next
  case (4 s name d)
  then show ?case by (cases s) (simp add: unlink_missing)
next
  case (5 s d name r s')
  then show ?case by (cases s) (auto dest: unlink_fails)
next
  case (6 s d name s')
  then show ?case using unlink_works [of "snd s" name d "fst s" "fst s'" "snd s'"] by (cases s; cases s') auto
qed

section \<open>Properties\<close>

text \<open>The state after boot, and one with a file of three bytes in frame 1.\<close>

definition tmpfs_static :: tmpfs where
  "tmpfs_static = \<lparr>node_pool = \<lambda>_. node_zero, node_count = 0, tmp_root = 0\<rparr>"

definition demo_tmp :: tmpfs where
  "demo_tmp = (case tmpfs_init tmpfs_static of Some t \<Rightarrow> t | None \<Rightarrow> tmpfs_static)"

definition demo_file :: tmpfs where
  "demo_file = tmpfs_static\<lparr>node_pool := (\<lambda>_. node_zero)(1 := node_zero\<lparr>n_data := Some 4096, n_capacity := 4096, n_size := 3\<rparr>)\<rparr>"

lemma demo_tmp_simps: "node_count demo_tmp = 1" "first_child (node_pool demo_tmp i) = None"
  "next_sibling (node_pool demo_tmp i) = None" "v_name (n_vnode (node_pool demo_tmp i)) \<in> {[], ''/''}" "children demo_tmp i = []"
  by (simp_all add: demo_tmp_def tmpfs_init_def tmpfs_static_def tmpfs_alloc_node_def node_zero_def set_name_def
      name_copy_def VFS_MAX_NAME_def vnode_zero_def children_def)

lemma demo_tmp_inv: "tree_inv demo_tmp"
proof -
  have "no_nul (v_name (n_vnode (node_pool demo_tmp i)))" for i using demo_tmp_simps(4) [of i] by (auto simp: no_nul_def)
  then show ?thesis by (simp add: tree_inv_def demo_tmp_simps older_def node_name_def)
qed

lemma demo_file_ok: "file_ok demo_mm (node_pool demo_file 1)"
  using demo_mm_frames(3) by (simp add: file_ok_def demo_file_def data_ptr_def file_frames_def)

text \<open>A write to a file of the memory file system returns, whatever the free memory is: it
  returns the number of bytes written, and the file's contents are then the old contents with
  exactly these bytes spliced in at the offset (so a later read gives them back), the file
  owning all its pages again and the allocator in order. It is cut short only when the
  allocator has no run of pages for the new size, and every other file keeps its node, pages
  and contents.\<close>

theorem tmpfs_write_correct:
  assumes "pmm_inv (frames m)" "file_ok m (node_pool t i)" "offset \<le> n_size (node_pool t i)"
    "offset + length src \<le> 2 ^ 63"
  shows "\<exists>r m' t'. tmpfs_file_write i src offset (m, t) = Some (int r, m', t') \<and> r \<le> length src \<and>
    (\<forall>n k. tmpfs_file_read i n k (m', t') =
       take n (drop k (splice (tmpfs_file_read i (n_size (node_pool t i)) 0 (m, t)) offset (take r src)))) \<and>
    file_ok m' (node_pool t' i) \<and> pmm_inv (frames m') \<and> files_kept i (m, t) (m', t') \<and>
    (r < length src \<longrightarrow> (\<exists>c. offset + length src \<le> c * PAGE_SIZE \<and> fst (pmm_alloc_pages c (frames m)) = 0))"
proof -
  from write_total [OF assms] obtain r st where w: "tmpfs_file_write i src offset (m, t) = Some (int r, st)" "r \<le> length src"
    "write_done i src offset r (m, t) st"
    "r < length src \<longrightarrow> (\<exists>c. offset + length src \<le> c * PAGE_SIZE \<and> fst (pmm_alloc_pages c (frames m)) = 0)" by blast
  obtain m' t' where st: "st = (m', t')" by (cases st)
  have "take (n_size (node_pool t i)) (contents m (node_pool t i)) = contents m (node_pool t i)" by (simp add: contents_def)
  then show ?thesis using w unfolding st write_done_def by (intro exI [of _ r] exI [of _ m'] exI [of _ t']) (simp add: file_read_contents)
qed

theorem tmpfs_write_correct_witness:
  "\<exists>r m' t'. tmpfs_file_write 1 (replicate 5000 7) 2 (demo_mm, demo_file) = Some (int r, m', t') \<and> file_ok m' (node_pool t' 1)"
proof -
  have "\<exists>r m' t'. tmpfs_file_write 1 (replicate 5000 7) 2 (demo_mm, demo_file) = Some (int r, m', t') \<and> r \<le> length (replicate 5000 (7 :: u8)) \<and>
    (\<forall>n k. tmpfs_file_read 1 n k (m', t') = take n (drop k (splice (tmpfs_file_read 1 (n_size (node_pool demo_file 1)) 0 (demo_mm, demo_file)) 2
       (take r (replicate 5000 7))))) \<and>
    file_ok m' (node_pool t' 1) \<and> pmm_inv (frames m') \<and> files_kept 1 (demo_mm, demo_file) (m', t') \<and>
    (r < length (replicate 5000 (7 :: u8)) \<longrightarrow> (\<exists>c. 2 + length (replicate 5000 (7 :: u8)) \<le> c * PAGE_SIZE \<and> fst (pmm_alloc_pages c (frames demo_mm)) = 0))"
    by (rule tmpfs_write_correct [OF demo_mm_frames(1) demo_file_ok]) (simp_all add: demo_file_def)
  then show ?thesis by blast
qed



end
