(* ===== verification/Queue.thy ===== *)
theory Queue
  imports Prelude
begin

text \<open>
  Bounded first-in first-out queues: the contract that the ring buffers of
  \<^verbatim>\<open>kernel/pipe.c\<close> (head and count) and \<^verbatim>\<open>kernel/keyboard.c\<close> (head and tail) share, with the
  consequences their callers use. \<open>drain\<close> is the loop \<^verbatim>\<open>while (n < count && pop) dst[n++] = c\<close>.
\<close>

fun drain :: "('s \<Rightarrow> ('a \<times> 's) option) \<Rightarrow> nat \<Rightarrow> 's \<Rightarrow> 'a list \<times> 's" where
  "drain pop 0 s = ([], s)"
| "drain pop (Suc n) s =
     (case pop s of None \<Rightarrow> ([], s)
      | Some (x, s1) \<Rightarrow> let (xs, s2) = drain pop n s1 in (x # xs, s2))"

text \<open>The same loop that also stops after an element satisfying \<open>stop\<close>.\<close>

fun drain_until :: "('a \<Rightarrow> bool) \<Rightarrow> ('s \<Rightarrow> ('a \<times> 's) option) \<Rightarrow> nat \<Rightarrow> 's \<Rightarrow> 'a list \<times> 's" where
  "drain_until stop pop 0 s = ([], s)"
| "drain_until stop pop (Suc n) s =
     (case pop s of None \<Rightarrow> ([], s)
      | Some (x, s1) \<Rightarrow>
          if stop x then ([x], s1)
          else let (xs, s2) = drain_until stop pop n s1 in (x # xs, s2))"

text \<open>The prefix up to and including the first element that satisfies \<open>stop\<close>, at most \<open>n\<close> long.\<close>

fun line_of :: "('a \<Rightarrow> bool) \<Rightarrow> nat \<Rightarrow> 'a list \<Rightarrow> 'a list" where
  "line_of stop 0 xs = []"
| "line_of stop (Suc n) [] = []"
| "line_of stop (Suc n) (x # xs) = (if stop x then [x] else x # line_of stop n xs)"

locale fifo =
  fixes inv :: "'s \<Rightarrow> bool" and content :: "'s \<Rightarrow> 'a list" and cap :: nat
    and push :: "'a \<Rightarrow> 's \<Rightarrow> 's" and pop :: "'s \<Rightarrow> ('a \<times> 's) option"
  assumes push_inv: "inv s \<Longrightarrow> length (content s) < cap \<Longrightarrow> inv (push x s)"
    and push_content: "inv s \<Longrightarrow> length (content s) < cap \<Longrightarrow> content (push x s) = content s @ [x]"
    and pop_None: "inv s \<Longrightarrow> pop s = None \<longleftrightarrow> content s = []"
    and pop_Some: "inv s \<Longrightarrow> pop s = Some (x, s') \<Longrightarrow> inv s' \<and> content s = x # content s'"
begin

lemma push_all:
  "inv s \<Longrightarrow> length (content s) + length xs \<le> cap \<Longrightarrow>
   inv (fold push xs s) \<and> content (fold push xs s) = content s @ xs"
proof (induction xs arbitrary: s)
  case (Cons x xs)
  then show ?case using push_inv [of s x] push_content [of s x] by simp
qed simp

lemma drain_content:
  "inv s \<Longrightarrow> drain pop n s = (xs, s') \<Longrightarrow> inv s' \<and> xs = take n (content s) \<and> content s' = drop n (content s)"
proof (induction n arbitrary: s xs s')
  case (Suc n)
  show ?case
  proof (cases "pop s")
    case None
    with Suc.prems pop_None [of s] show ?thesis by simp
  next
    case (Some r)
    obtain x s1 where r: "r = (x, s1)" by (cases r)
    obtain ys s2 where d: "drain pop n s1 = (ys, s2)" by (cases "drain pop n s1")
    from Some r pop_Some [OF Suc.prems(1)] have "inv s1" "content s = x # content s1" by auto
    with Suc.IH [OF _ d] Suc.prems Some r d show ?thesis by auto
  qed
qed simp

lemma drain_until_content:
  "inv s \<Longrightarrow> drain_until stop pop n s = (xs, s') \<Longrightarrow>
   inv s' \<and> xs = line_of stop n (content s) \<and> content s = xs @ content s'"
proof (induction n arbitrary: s xs s')
  case (Suc n)
  show ?case
  proof (cases "pop s")
    case None
    with Suc.prems pop_None [of s] show ?thesis by simp
  next
    case (Some r)
    obtain x s1 where r: "r = (x, s1)" by (cases r)
    obtain ys s2 where d: "drain_until stop pop n s1 = (ys, s2)" by (cases "drain_until stop pop n s1")
    from Some r pop_Some [OF Suc.prems(1)] have c: "inv s1" "content s = x # content s1" by auto
    note ih = Suc.IH [OF c(1) d]
    show ?thesis
    proof (cases "stop x")
      case True
      with Suc.prems Some r c show ?thesis by auto
    next
      case False
      then have xs: "xs = x # ys" "s' = s2" using Suc.prems Some r d by auto
      have i: "inv s2" and a: "ys = line_of stop n (content s1)" and b: "content s1 = ys @ content s2"
        using ih by blast+
      have "x # ys = line_of stop (Suc n) (x # content s1)" by (simp add: False a [symmetric])
      moreover have "x # content s1 = (x # ys) @ content s2" by (simp add: b [symmetric])
      ultimately show ?thesis using i unfolding xs c(2) by blast
    qed
  qed
qed simp

lemma push_drain:
  assumes "inv s" "content s = []" "length xs \<le> cap"
  shows "fst (drain pop (length xs) (fold push xs s)) = xs"
proof -
  obtain ys s' where d: "drain pop (length xs) (fold push xs s) = (ys, s')" by (metis surj_pair)
  from push_all [of s xs] assms drain_content [OF _ d] d show ?thesis by simp
qed

end

section \<open>Ring arithmetic\<close>

text \<open>The elements of a ring of size \<open>n\<close> from position \<open>h\<close> on.\<close>

definition ring_list :: "nat \<Rightarrow> (nat \<Rightarrow> 'a) \<Rightarrow> nat \<Rightarrow> nat \<Rightarrow> 'a list" where
  "ring_list n b h k = map (\<lambda>i. b ((h + i) mod n)) [0..<k]"

lemma ring_list_length [simp]: "length (ring_list n b h k) = k"
  by (simp add: ring_list_def)

lemma ring_list_0 [simp]: "ring_list n b h 0 = []"
  by (simp add: ring_list_def)

lemma ring_list_Cons: "0 < n \<Longrightarrow> h < n \<Longrightarrow> ring_list n b h (Suc k) = b h # ring_list n b ((h + 1) mod n) k"
  by (auto simp: ring_list_def upt_conv_Cons map_Suc_upt [symmetric] mod_simps simp del: upt_Suc map_Suc_upt)

lemma ring_list_snoc:
  assumes "k < n"
  shows "ring_list n (b((h + k) mod n := x)) h (Suc k) = ring_list n b h k @ [x]"
proof -
  have "(h + i) mod n \<noteq> (h + k) mod n" if "i < k" for i
  proof
    assume "(h + i) mod n = (h + k) mod n"
    then have "n dvd (h + k) - (h + i)" using that mod_eq_dvd_iff_nat [of "h + i" "h + k" n] by linarith
    then have "n dvd k - i" by simp
    then show False using that assms by (auto dest: dvd_imp_le)
  qed
  then show ?thesis by (simp add: ring_list_def)
qed

end
