(* ===== verification/Task.thy ===== *)
theory Task
  imports Vmm
begin

text \<open>
  Tasks and the round-robin scheduler, \<^verbatim>\<open>kernel/task.c\<close> and \<^verbatim>\<open>kernel/task.h\<close>. The task pool is
  a function from slot numbers, a task pointer is a slot number, and the circular list is
  the \<open>t_next\<close> field. The two loops that follow the ring are partial functions whose value
  \<open>None\<close> means that they do not end; the ring invariant gives their results.

  A sleeping task is identified with the channel it waits on: a process, a pipe, or the
  keyboard queue. The addresses of the assembly trampolines are parameters, as they are
  fixed by the linker.
\<close>

section \<open>State\<close>

definition MAX_TASKS :: nat where [simp]: "MAX_TASKS = 16"
definition TASK_STACK_PAGES :: nat where [simp]: "TASK_STACK_PAGES = 4"
definition USER_KSTACK_PAGES :: nat where [simp]: "USER_KSTACK_PAGES = 4"

datatype task_state = TASK_READY | TASK_RUNNING | TASK_BLOCKED | TASK_STOPPED | TASK_TERMINATED

datatype chan = ChProc nat | ChPipe nat | ChKbd

record task =
  t_rsp :: nat
  stack_phys :: nat
  stack_pages :: nat
  kernel_stack_top :: nat
  t_entry :: "nat option"
  user_entry_rip :: nat
  user_entry_rsp :: nat
  t_state :: task_state
  wait_chan :: "chan option"
  t_name :: string
  t_proc :: "nat option"
  t_next :: nat

record sched =
  tasks :: "nat \<Rightarrow> task"
  task_count :: nat
  current_task :: nat
  tss_rsp0 :: nat
  msr_fs_base :: nat

abbreviation upd_task :: "nat \<Rightarrow> (task \<Rightarrow> task) \<Rightarrow> sched \<Rightarrow> sched" where
  "upd_task i f s \<equiv> s\<lparr>tasks := (tasks s)(i := f (tasks s i))\<rparr>"

section \<open>The ring\<close>

partial_function (option) unlink_walk :: "(nat \<Rightarrow> task) \<Rightarrow> nat \<Rightarrow> nat \<Rightarrow> nat \<Rightarrow> nat option" where
  "unlink_walk ts cur t iter =
     (if t_next (ts iter) \<noteq> t \<and> t_next (ts iter) \<noteq> cur
      then unlink_walk ts cur t (t_next (ts iter)) else Some iter)"

definition unlink_task_from_ring :: "nat \<Rightarrow> sched \<Rightarrow> sched option" where
  "unlink_task_from_ring t s =
     (if t = current_task s then Some s
      else map_option
        (\<lambda>iter. if t_next (tasks s iter) = t
                then upd_task iter (\<lambda>x. x\<lparr>t_next := t_next (tasks s t)\<rparr>) s else s)
        (unlink_walk (tasks s) (current_task s) t (current_task s)))"

definition find_terminated_task :: "sched \<Rightarrow> nat option" where
  "find_terminated_task s =
     scan_up (\<lambda>i. i \<noteq> current_task s \<and> t_state (tasks s i) = TASK_TERMINATED) 0 MAX_TASKS"

partial_function (option) pick_walk :: "(nat \<Rightarrow> task) \<Rightarrow> nat \<Rightarrow> nat \<Rightarrow> nat option option" where
  "pick_walk ts from t =
     (if t = from then Some None
      else if t_state (ts t) = TASK_READY then Some (Some t)
      else pick_walk ts from (t_next (ts t)))"

definition pick_next_ready :: "sched \<Rightarrow> nat \<Rightarrow> nat option option" where
  "pick_next_ready s from = pick_walk (tasks s) from (t_next (tasks s from))"

section \<open>Creation\<close>

definition task_init :: "sched \<Rightarrow> sched" where
  "task_init s =
     (let i = task_count s in
      (upd_task i (\<lambda>t. t\<lparr>t_name := ''main'', t_entry := None, t_proc := None, kernel_stack_top := 0,
          t_state := TASK_RUNNING, wait_chan := None, t_rsp := 0, t_next := i\<rparr>) s)
        \<lparr>task_count := i + 1, current_task := i\<rparr>)"

text \<open>The slot \<open>task_alloc_raw\<close> takes, with the frames of a recycled kernel stack released.\<close>

definition take_slot :: "pmm \<times> sched \<Rightarrow> (nat option \<times> pmm \<times> sched) option" where
  "take_slot = (\<lambda>(p, s).
     if task_count s < MAX_TASKS then Some (Some (task_count s), p, s\<lparr>task_count := task_count s + 1\<rparr>)
     else case find_terminated_task s of
            None \<Rightarrow> Some (None, p, s)
          | Some t \<Rightarrow> map_option
              (\<lambda>s1. (Some t,
                 (if stack_phys (tasks s1 t) \<noteq> 0 \<and> stack_pages (tasks s1 t) \<noteq> 0
                  then pmm_free_pages (stack_phys (tasks s1 t)) (stack_pages (tasks s1 t)) p else p), s1))
              (unlink_task_from_ring t s))"

definition fresh_task :: "string \<Rightarrow> nat \<Rightarrow> task" where
  "fresh_task name next = \<lparr>t_rsp = 0, stack_phys = 0, stack_pages = 0, kernel_stack_top = 0,
     t_entry = None, user_entry_rip = 0, user_entry_rsp = 0, t_state = TASK_READY, wait_chan = None,
     t_name = name, t_proc = None, t_next = next\<rparr>"

definition splice_task :: "nat \<Rightarrow> string \<Rightarrow> sched \<Rightarrow> sched" where
  "splice_task t name s =
     (let s1 = s\<lparr>tasks := (tasks s)(t := fresh_task name (t_next (tasks s (current_task s))))\<rparr>
      in upd_task (current_task s) (\<lambda>x. x\<lparr>t_next := t\<rparr>) s1)"

definition task_alloc_raw :: "string \<Rightarrow> pmm \<times> sched \<Rightarrow> (nat option \<times> pmm \<times> sched) option" where
  "task_alloc_raw name ps =
     map_option (\<lambda>(r, p, s). case r of None \<Rightarrow> (None, p, s) | Some t \<Rightarrow> (Some t, p, splice_task t name s))
       (take_slot ps)"

text \<open>The eight words of the fake frame that \<open>switch_context\<close> pops, pushed from the stack top
  down: padding, the trampoline as return address, six zero registers.\<close>

fun push_frame :: "nat \<Rightarrow> u64 list \<Rightarrow> mem \<Rightarrow> mem" where
  "push_frame sp [] m = m"
| "push_frame sp (w # ws) m = push_frame (sp - 8) ws (wr64 m (sp - 8) w)"

definition start_frame :: "nat \<Rightarrow> u64 list" where
  "start_frame trampoline = [0, of_nat trampoline, 0, 0, 0, 0, 0, 0]"

text \<open>Give a task its kernel stack; a stack address is a direct-map address, written in
  physical memory at the same distance from the base.\<close>

definition install_stack :: "nat \<Rightarrow> nat \<Rightarrow> nat \<Rightarrow> nat \<Rightarrow> mm \<times> sched \<Rightarrow> mm \<times> sched" where
  "install_stack t phys_base pages trampoline = (\<lambda>(m, s).
     let top_phys = phys_base + pages * PAGE_SIZE; top = hhdm_offset_g m + top_phys in
     (m\<lparr>phys := push_frame top_phys (start_frame trampoline) (phys m)\<rparr>,
      upd_task t (\<lambda>x. x\<lparr>stack_phys := phys_base, stack_pages := pages, kernel_stack_top := top,
                        t_rsp := top - 64\<rparr>) s))"

definition task_create :: "nat \<Rightarrow> string \<Rightarrow> nat \<Rightarrow> mm \<times> sched \<Rightarrow> (nat option \<times> mm \<times> sched) option" where
  "task_create trampoline name ent = (\<lambda>(m, s).
     map_option (\<lambda>(r, p, s1). case r of None \<Rightarrow> (None, m\<lparr>frames := p\<rparr>, s1)
       | Some t \<Rightarrow>
           let s2 = upd_task t (\<lambda>x. x\<lparr>t_entry := Some ent\<rparr>) s1;
               (stk, p2) = pmm_alloc_pages TASK_STACK_PAGES p;
               m2 = m\<lparr>frames := p2\<rparr>
           in if stk = 0 then (None, m2, s2)
              else (Some t, install_stack t stk TASK_STACK_PAGES trampoline (m2, s2)))
     (task_alloc_raw name (frames m, s)))"

text \<open>Besides the result, the value stored in \<^verbatim>\<open>proc->task\<close>, if the function got as far as that.\<close>

definition task_create_user ::
    "nat \<Rightarrow> string \<Rightarrow> nat \<Rightarrow> nat \<Rightarrow> nat \<Rightarrow> mm \<times> sched \<Rightarrow> (nat option \<times> nat option \<times> mm \<times> sched) option" where
  "task_create_user trampoline name proc rip rsp = (\<lambda>(m, s).
     map_option (\<lambda>(r, p, s1). case r of None \<Rightarrow> (None, None, m\<lparr>frames := p\<rparr>, s1)
       | Some t \<Rightarrow>
           let s2 = upd_task t (\<lambda>x. x\<lparr>t_proc := Some proc, user_entry_rip := rip, user_entry_rsp := rsp\<rparr>) s1;
               (stk, p2) = pmm_alloc_pages USER_KSTACK_PAGES p;
               m2 = m\<lparr>frames := p2\<rparr>
           in if stk = 0 then (None, Some t, m2, s2)
              else (Some t, Some t, install_stack t stk USER_KSTACK_PAGES trampoline (m2, s2)))
     (task_alloc_raw name (frames m, s)))"

section \<open>Scheduling\<close>

text \<open>\<open>Keep\<close>: nobody else is ready and the caller goes on. \<open>Switch\<close>: the previous task, the
  page tables of the next one. \<open>Halt\<close>: nothing is runnable, the processor waits for an
  interrupt.\<close>

datatype yield_result = Keep sched | Switch nat nat sched | Halt sched

text \<open>\<open>fs\<close> and \<open>pml4\<close> read \<^verbatim>\<open>proc->fs_base\<close> and \<^verbatim>\<open>proc->pml4_phys\<close>; \<open>kpml4\<close> is
  \<^verbatim>\<open>vmm_kernel_pml4()\<close>.\<close>

definition yield :: "(nat \<Rightarrow> nat) \<Rightarrow> (nat \<Rightarrow> nat) \<Rightarrow> nat \<Rightarrow> sched \<Rightarrow> yield_result option" where
  "yield fs pml4 kpml4 s =
     (let prev = current_task s;
          s1 = (if t_state (tasks s prev) = TASK_RUNNING
                then upd_task prev (\<lambda>x. x\<lparr>t_state := TASK_READY\<rparr>) s else s)
      in case pick_next_ready s1 prev of
           None \<Rightarrow> None
         | Some None \<Rightarrow>
             (if t_state (tasks s1 prev) = TASK_READY
              then Some (Keep (upd_task prev (\<lambda>x. x\<lparr>t_state := TASK_RUNNING\<rparr>) s1))
              else Some (Halt s1))
         | Some (Some next) \<Rightarrow>
             let s2 = (upd_task next (\<lambda>x. x\<lparr>t_state := TASK_RUNNING\<rparr>) s1)
                        \<lparr>current_task := next, tss_rsp0 := kernel_stack_top (tasks s1 next)\<rparr>
             in (case t_proc (tasks s1 next) of
                   None \<Rightarrow> Some (Switch prev kpml4 s2)
                 | Some pr \<Rightarrow> Some (Switch prev (pml4 pr) (s2\<lparr>msr_fs_base := fs pr\<rparr>))))"

definition block_current :: "chan \<Rightarrow> sched \<Rightarrow> sched" where
  "block_current ch s =
     upd_task (current_task s) (\<lambda>x. x\<lparr>wait_chan := Some ch, t_state := TASK_BLOCKED\<rparr>) s"

definition task_block :: "(nat \<Rightarrow> nat) \<Rightarrow> (nat \<Rightarrow> nat) \<Rightarrow> nat \<Rightarrow> chan \<Rightarrow> sched \<Rightarrow> yield_result option" where
  "task_block fs pml4 kpml4 ch s = yield fs pml4 kpml4 (block_current ch s)"

definition wake_one :: "chan \<Rightarrow> nat \<Rightarrow> sched \<Rightarrow> sched" where
  "wake_one ch i s =
     (if t_state (tasks s i) = TASK_BLOCKED \<and> wait_chan (tasks s i) = Some ch
      then upd_task i (\<lambda>x. x\<lparr>t_state := TASK_READY, wait_chan := None\<rparr>) s else s)"

definition task_wake :: "chan \<Rightarrow> sched \<Rightarrow> sched" where
  "task_wake ch s = fold (wake_one ch) [0..<task_count s] s"

section \<open>Specification\<close>

fun path :: "(nat \<Rightarrow> task) \<Rightarrow> nat \<Rightarrow> nat list \<Rightarrow> nat \<Rightarrow> bool" where
  "path ts a [] b \<longleftrightarrow> t_next (ts a) = b"
| "path ts a (x # xs) b \<longleftrightarrow> t_next (ts a) = x \<and> path ts x xs b"

text \<open>\<open>ring s c xs\<close>: from \<open>c\<close> the ring goes through \<open>xs\<close> and back to \<open>c\<close>, and it holds every
  slot in use exactly once.\<close>

definition ring :: "sched \<Rightarrow> nat \<Rightarrow> nat list \<Rightarrow> bool" where
  "ring s c xs \<longleftrightarrow> path (tasks s) c xs c \<and> distinct (c # xs) \<and> set (c # xs) = {..<task_count s}"

definition sched_inv :: "sched \<Rightarrow> bool" where
  "sched_inv s \<longleftrightarrow> task_count s \<le> MAX_TASKS \<and> (\<exists>xs. ring s (current_task s) xs) \<and>
     (\<forall>i < task_count s. t_state (tasks s i) = TASK_RUNNING \<longrightarrow> i = current_task s)"

section \<open>Paths and rings\<close>

lemma path_append: "path ts a (xs @ b # ys) c \<longleftrightarrow> path ts a xs b \<and> path ts b ys c"
  by (induction xs arbitrary: a) auto

lemma path_cong: "(\<And>i. i \<in> set (a # xs) \<Longrightarrow> t_next (ts' i) = t_next (ts i)) \<Longrightarrow> path ts' a xs b = path ts a xs b"
  by (induction xs arbitrary: a) auto

lemma ring_cong:
  assumes "\<And>i. t_next (tasks s' i) = t_next (tasks s i)" "task_count s' = task_count s"
  shows "ring s' c xs = ring s c xs"
  using path_cong [of c xs "tasks s'" "tasks s" c] assms by (simp add: ring_def)

lemma ring_rotate:
  assumes "ring s c (ys @ d # zs)"
  shows "ring s d (zs @ c # ys)"
  using assms unfolding ring_def path_append by auto

lemma ring_other:
  assumes "ring s c xs" "d < task_count s"
  obtains ys where "ring s d ys"
proof (cases "d = c")
  case False
  then have "d \<in> set xs" using assms by (auto simp: ring_def)
  then obtain ys zs where "xs = ys @ d # zs" by (meson split_list)
  with assms that ring_rotate show thesis by blast
qed (use assms that in blast)

lemma find_append_first: "\<forall>a \<in> set as. \<not> P a \<Longrightarrow> P b \<Longrightarrow> find P (as @ b # cs) = Some b"
  by (induction as) auto

lemma pick_walk_find:
  "path ts a xs from \<Longrightarrow> from \<notin> set xs \<Longrightarrow>
   pick_walk ts from (t_next (ts a)) = Some (find (\<lambda>i. t_state (ts i) = TASK_READY) xs)"
proof (induction xs arbitrary: a)
  case Nil
  then show ?case by (simp add: pick_walk.simps)
next
  case (Cons x xs)
  then show ?case by (subst pick_walk.simps) auto
qed

lemma pick_next_ready_find:
  assumes "ring s c xs"
  shows "pick_next_ready s c = Some (find (\<lambda>i. t_state (tasks s i) = TASK_READY) xs)"
  using assms pick_walk_find [of "tasks s" c xs c] by (simp add: pick_next_ready_def ring_def)

lemma unlink_walk_last:
  "path ts a (ys @ t # zs) cur \<Longrightarrow> t \<notin> set ys \<Longrightarrow> cur \<notin> set ys \<Longrightarrow>
   unlink_walk ts cur t a = Some (last (a # ys))"
proof (induction ys arbitrary: a)
  case Nil
  then show ?case by (simp add: unlink_walk.simps)
next
  case (Cons y ys)
  then show ?case by (subst unlink_walk.simps) auto
qed

text \<open>Taking a task out of the ring.\<close>

lemma path_unlink:
  assumes "path ts a (ys @ t # zs) b" "distinct (a # ys @ t # zs)"
  shows "path (ts(last (a # ys) := (ts (last (a # ys)))\<lparr>t_next := t_next (ts t)\<rparr>)) a (ys @ zs) b"
  using assms
proof (induction ys arbitrary: a)
  case Nil
  then show ?case
  proof (cases zs)
    case (Cons z zs')
    have "path (ts(a := ts a\<lparr>t_next := z\<rparr>)) z zs' b = path ts z zs' b"
      using Nil Cons by (intro path_cong) auto
    with Nil Cons show ?thesis by (simp add: fun_upd_def)
  qed simp
next
  case (Cons y ys)
  have "last (y # ys) \<noteq> a" using Cons.prems by (metis append_Cons distinct.simps(2) in_set_conv_decomp
        last_in_set list.distinct(1) UnCI set_append)
  with Cons show ?case by simp
qed

lemma unlink_ring:
  assumes r: "ring s (current_task s) xs" and t: "t \<noteq> current_task s" "t < task_count s"
  obtains s' ys zs where "unlink_task_from_ring t s = Some s'" "xs = ys @ t # zs"
    "path (tasks s') (current_task s) (ys @ zs) (current_task s)"
    "task_count s' = task_count s" "current_task s' = current_task s"
    "\<And>i. t_state (tasks s' i) = t_state (tasks s i)"
proof -
  let ?c = "current_task s"
  have "t \<in> set xs" using r t by (auto simp: ring_def)
  then obtain ys zs where xs: "xs = ys @ t # zs" by (meson split_list)
  have d: "distinct (?c # ys @ t # zs)" "path (tasks s) ?c (ys @ t # zs) ?c" using r xs by (auto simp: ring_def)
  let ?i = "last (?c # ys)"
  let ?s' = "upd_task ?i (\<lambda>x. x\<lparr>t_next := t_next (tasks s t)\<rparr>) s"
  have "unlink_walk (tasks s) ?c t ?c = Some ?i" using d by (intro unlink_walk_last) auto
  moreover have "t_next (tasks s ?i) = t"
  proof (cases ys rule: rev_cases)
    case (snoc zs' z)
    with d(2) show ?thesis using path_append [of "tasks s" ?c zs' z] by (simp add: path_append)
  qed (use d(2) in simp)
  ultimately have u: "unlink_task_from_ring t s = Some ?s'" using t(1) by (simp add: unlink_task_from_ring_def)
  have p: "path (tasks ?s') ?c (ys @ zs) ?c" using path_unlink [OF d(2,1)] by simp
  show thesis by (rule that [OF u xs p]) simp_all
qed

lemma splice_ring:
  assumes p: "path (tasks s) c ys c" and c: "c = current_task s" and d: "distinct (c # ys)" "t \<notin> set (c # ys)"
  shows "path (tasks (splice_task t name s)) c (t # ys) c"
proof -
  have "path (tasks (splice_task t name s)) t ys c"
  proof (cases ys)
    case Nil
    with p c d show ?thesis by (simp add: splice_task_def fresh_task_def)
  next
    case (Cons y zs)
    have "path (tasks (splice_task t name s)) y zs c = path (tasks s) y zs c"
      using Cons c d by (intro path_cong) (auto simp: splice_task_def fresh_task_def Let_def)
    with Cons p c d show ?thesis by (auto simp: splice_task_def fresh_task_def Let_def)
  qed
  with c d show ?thesis by (simp add: splice_task_def Let_def)
qed

section \<open>The invariant\<close>

lemma splice_fields [simp]:
  "task_count (splice_task t name s) = task_count s" "current_task (splice_task t name s) = current_task s"
  by (simp_all add: splice_task_def Let_def)

lemma splice_state:
  "t_state (tasks (splice_task t name s) i) = (if i = t then TASK_READY else t_state (tasks s i))"
  by (simp add: splice_task_def Let_def fresh_task_def)

text \<open>\<open>task_alloc_raw\<close> ends, keeps the ring, and fails only when all slots are taken by
  tasks that have not terminated.\<close>

lemma take_slot_append:
  assumes "sched_inv s" "task_count s < MAX_TASKS"
  shows "sched_inv (splice_task (task_count s) name (s\<lparr>task_count := task_count s + 1\<rparr>))"
proof -
  let ?t = "task_count s" and ?c = "current_task s"
  obtain xs where r: "ring s ?c xs" using assms(1) by (auto simp: sched_inv_def)
  then have st: "set (?c # xs) = {..<?t}" by (simp add: ring_def)
  then have t: "?t \<notin> set (?c # xs)" by simp
  let ?s = "s\<lparr>task_count := ?t + 1\<rparr>"
  have dx: "distinct (?c # xs)" "path (tasks s) ?c xs ?c" using r unfolding ring_def by blast+
  have "path (tasks (splice_task ?t name ?s)) ?c (?t # xs) ?c"
    using dx t by (intro splice_ring) auto
  moreover have "set (?c # ?t # xs) = insert ?t (set (?c # xs))" by auto
  then have "set (?c # ?t # xs) = {..<Suc ?t}" unfolding st by (simp add: lessThan_Suc)
  moreover have "distinct (?c # ?t # xs)" using dx t by auto
  ultimately have "ring (splice_task ?t name ?s) ?c (?t # xs)" by (simp add: ring_def)
  then show ?thesis using assms by (auto simp: sched_inv_def splice_state less_Suc_eq)
qed

lemma take_slot_recycle:
  assumes "sched_inv s" "t \<noteq> current_task s" "t < task_count s"
  obtains s' where "unlink_task_from_ring t s = Some s'" "sched_inv (splice_task t name s')"
    "\<And>i. t_state (tasks s' i) = t_state (tasks s i)" "task_count s' = task_count s"
    "current_task s' = current_task s"
proof -
  let ?c = "current_task s"
  obtain xs where r: "ring s ?c xs" using assms(1) by (auto simp: sched_inv_def)
  from unlink_ring [OF r assms(2,3)] obtain s' ys zs where
    u: "unlink_task_from_ring t s = Some s'" and xs: "xs = ys @ t # zs"
    and p: "path (tasks s') ?c (ys @ zs) ?c" and n: "task_count s' = task_count s" "current_task s' = ?c"
    and f: "\<And>i. t_state (tasks s' i) = t_state (tasks s i)" by metis
  have d: "distinct (?c # ys @ zs)" "t \<notin> set (?c # ys @ zs)" using r xs by (auto simp: ring_def)
  have "path (tasks (splice_task t name s')) ?c (t # ys @ zs) ?c" using p d n by (intro splice_ring) auto
  moreover have "set (?c # t # ys @ zs) = {..<task_count s'}" using r xs n by (auto simp: ring_def)
  ultimately have "ring (splice_task t name s') ?c (t # ys @ zs)" using d by (auto simp: ring_def)
  then have "sched_inv (splice_task t name s')"
    using assms(1) n f by (auto simp: sched_inv_def splice_state)
  with u n f show thesis by (intro that)
qed

lemma alloc_raw_cases:
  assumes inv: "sched_inv s"
  obtains (full) "task_alloc_raw name (p, s) = Some (None, p, s)" "task_count s = MAX_TASKS"
      "\<And>i. i < MAX_TASKS \<Longrightarrow> i \<noteq> current_task s \<Longrightarrow> t_state (tasks s i) \<noteq> TASK_TERMINATED"
  | (slot) t q s' where "task_alloc_raw name (p, s) = Some (Some t, q, s')" "sched_inv s'"
      "t_state (tasks s' t) = TASK_READY" "t \<noteq> current_task s'" "t < task_count s'"
      "current_task s' = current_task s" "t < task_count s \<Longrightarrow> t_state (tasks s t) = TASK_TERMINATED"
      "\<And>i. i \<noteq> t \<Longrightarrow> t_state (tasks s' i) = t_state (tasks s i)"
proof (cases "task_count s < MAX_TASKS")
  case True
  let ?t = "task_count s" and ?s = "splice_task (task_count s) name (s\<lparr>task_count := task_count s + 1\<rparr>)"
  have "task_alloc_raw name (p, s) = Some (Some ?t, p, ?s)"
    using True by (simp add: task_alloc_raw_def take_slot_def)
  moreover have "current_task s < task_count s" using inv by (auto simp: sched_inv_def ring_def)
  ultimately show thesis
    using take_slot_append [OF inv True] by (intro slot [of ?t p ?s]) (auto simp: splice_state)
next
  case False
  then have n: "task_count s = MAX_TASKS" using inv by (simp add: sched_inv_def)
  show thesis
  proof (cases "find_terminated_task s")
    case None
    then have "t_state (tasks s i) \<noteq> TASK_TERMINATED" if "i < MAX_TASKS" "i \<noteq> current_task s" for i
      using that by (auto simp: find_terminated_task_def scan_up_None_iff)
    moreover have "task_alloc_raw name (p, s) = Some (None, p, s)"
      using None n by (simp add: task_alloc_raw_def take_slot_def)
    ultimately show thesis using n full by blast
  next
    case (Some t)
    then have t: "t \<noteq> current_task s" "t < task_count s" "t_state (tasks s t) = TASK_TERMINATED"
      using scan_up_SomeD [OF Some [unfolded find_terminated_task_def]] n by auto
    from take_slot_recycle [OF inv t(1,2), of name] obtain s' where
      u: "unlink_task_from_ring t s = Some s'" "sched_inv (splice_task t name s')"
      "\<And>i. t_state (tasks s' i) = t_state (tasks s i)" "task_count s' = task_count s"
      "current_task s' = current_task s" by metis
    let ?q = "if stack_phys (tasks s' t) \<noteq> 0 \<and> stack_pages (tasks s' t) \<noteq> 0
      then pmm_free_pages (stack_phys (tasks s' t)) (stack_pages (tasks s' t)) p else p"
    have "task_alloc_raw name (p, s) = Some (Some t, ?q, splice_task t name s')"
      using n Some u(1) by (simp add: task_alloc_raw_def take_slot_def)
    then show thesis using u t by (intro slot [of t ?q "splice_task t name s'"]) (auto simp: splice_state)
  qed
qed

lemma upd_state_ring [simp]:
  "ring (upd_task i (\<lambda>x. x\<lparr>t_state := st\<rparr>) s) c xs = ring s c xs"
  "ring (upd_task i (\<lambda>x. x\<lparr>wait_chan := w, t_state := st\<rparr>) s) c xs = ring s c xs"
  "ring (upd_task i (\<lambda>x. x\<lparr>t_state := st, wait_chan := w\<rparr>) s) c xs = ring s c xs"
  "ring (s\<lparr>current_task := n\<rparr>) c xs = ring s c xs" "ring (s\<lparr>tss_rsp0 := n\<rparr>) c xs = ring s c xs"
  "ring (s\<lparr>msr_fs_base := n\<rparr>) c xs = ring s c xs"
  by (rule ring_cong; simp)+

definition after :: "yield_result \<Rightarrow> sched" where
  "after r = (case r of Keep s \<Rightarrow> s | Switch p m s \<Rightarrow> s | Halt s \<Rightarrow> s)"

text \<open>\<open>yield\<close> in terms of the ring: it always returns, and the next task is the first READY
  one after the current task in ring order.\<close>

lemma yield_cases:
  assumes r: "ring s (current_task s) xs"
  obtains (keep) s' where "yield fs pml4 k s = Some (Keep s')" "find (\<lambda>i. t_state (tasks s i) = TASK_READY) xs = None"
      "t_state (tasks s (current_task s)) \<in> {TASK_RUNNING, TASK_READY}"
      "s' = upd_task (current_task s) (\<lambda>x. x\<lparr>t_state := TASK_RUNNING\<rparr>) s"
  | (halt) "yield fs pml4 k s = Some (Halt s)" "find (\<lambda>i. t_state (tasks s i) = TASK_READY) xs = None"
      "t_state (tasks s (current_task s)) \<notin> {TASK_RUNNING, TASK_READY}"
  | (switch) n m s' where "yield fs pml4 k s = Some (Switch (current_task s) m s')"
      "find (\<lambda>i. t_state (tasks s i) = TASK_READY) xs = Some n" "current_task s' = n"
      "m = (case t_proc (tasks s n) of None \<Rightarrow> k | Some pr \<Rightarrow> pml4 pr)"
      "tss_rsp0 s' = kernel_stack_top (tasks s n)" "task_count s' = task_count s"
      "\<And>c ys. ring s' c ys = ring s c ys" "n \<noteq> current_task s"
      "\<And>i. t_state (tasks s' i) = (if i = n then TASK_RUNNING
         else if i = current_task s \<and> t_state (tasks s i) = TASK_RUNNING then TASK_READY else t_state (tasks s i))"
      "\<And>i. t_proc (tasks s' i) = t_proc (tasks s i)"
proof -
  let ?c = "current_task s"
  define s1 where "s1 = (if t_state (tasks s ?c) = TASK_RUNNING then upd_task ?c (\<lambda>x. x\<lparr>t_state := TASK_READY\<rparr>) s else s)"
  have c: "?c \<notin> set xs" using r by (simp add: ring_def)
  have r1: "ring s1 ?c xs" using r by (simp add: s1_def)
  have st1: "t_state (tasks s1 i) = (if i = ?c \<and> t_state (tasks s i) = TASK_RUNNING then TASK_READY else t_state (tasks s i))"
    and pr1: "t_proc (tasks s1 i) = t_proc (tasks s i)" "kernel_stack_top (tasks s1 i) = kernel_stack_top (tasks s i)" for i
    by (auto simp: s1_def)
  have f: "find (\<lambda>i. t_state (tasks s1 i) = TASK_READY) xs = find (\<lambda>i. t_state (tasks s i) = TASK_READY) xs"
    using c st1 by (intro find_cong) auto
  have pk: "pick_next_ready s1 ?c = Some (find (\<lambda>i. t_state (tasks s i) = TASK_READY) xs)"
    unfolding pick_next_ready_find [OF r1] f ..
  have y: "yield fs pml4 k s = (case pick_next_ready s1 ?c of None \<Rightarrow> None
      | Some None \<Rightarrow> (if t_state (tasks s1 ?c) = TASK_READY
           then Some (Keep (upd_task ?c (\<lambda>x. x\<lparr>t_state := TASK_RUNNING\<rparr>) s1)) else Some (Halt s1))
      | Some (Some next) \<Rightarrow> let s2 = (upd_task next (\<lambda>x. x\<lparr>t_state := TASK_RUNNING\<rparr>) s1)
             \<lparr>current_task := next, tss_rsp0 := kernel_stack_top (tasks s1 next)\<rparr>
          in (case t_proc (tasks s1 next) of None \<Rightarrow> Some (Switch ?c k s2)
              | Some pr \<Rightarrow> Some (Switch ?c (pml4 pr) (s2\<lparr>msr_fs_base := fs pr\<rparr>))))"
    unfolding yield_def s1_def Let_def by (rule refl)
  show thesis
  proof (cases "find (\<lambda>i. t_state (tasks s i) = TASK_READY) xs")
    case None
    show thesis
    proof (cases "t_state (tasks s ?c) \<in> {TASK_RUNNING, TASK_READY}")
      case True
      then have "upd_task ?c (\<lambda>x. x\<lparr>t_state := TASK_RUNNING\<rparr>) s1 = upd_task ?c (\<lambda>x. x\<lparr>t_state := TASK_RUNNING\<rparr>) s"
        by (auto simp: s1_def)
      with True None y pk st1 show thesis by (intro keep [OF _ None True refl]) auto
    next
      case False
      then have "s1 = s" by (auto simp: s1_def)
      with False None y pk show thesis by (intro halt [OF _ None False]) auto
    qed
  next
    case (Some n)
    then have n: "n \<in> set xs" by (auto simp: find_Some_iff)
    then have nc: "n \<noteq> ?c" using c by auto
    let ?s2 = "(upd_task n (\<lambda>x. x\<lparr>t_state := TASK_RUNNING\<rparr>) s1)\<lparr>current_task := n, tss_rsp0 := kernel_stack_top (tasks s1 n)\<rparr>"
    let ?s3 = "case t_proc (tasks s n) of None \<Rightarrow> ?s2 | Some pr \<Rightarrow> ?s2\<lparr>msr_fs_base := fs pr\<rparr>"
    have "yield fs pml4 k s = Some (Switch ?c (case t_proc (tasks s n) of None \<Rightarrow> k | Some pr \<Rightarrow> pml4 pr) ?s3)"
      unfolding y pk Some by (simp add: Let_def pr1 split: option.split)
    then show thesis
    proof (rule switch [OF _ Some _ refl])
      show "ring ?s3 c ys = ring s c ys" for c ys by (simp add: s1_def split: option.split)
    qed (use nc st1 pr1 in \<open>auto simp: s1_def split: option.split\<close>)
  qed
qed

lemma yield_inv:
  assumes "sched_inv s" "yield fs pml4 k s = Some r"
  shows "sched_inv (after r)"
proof -
  obtain xs where xs: "ring s (current_task s) xs" using assms(1) by (auto simp: sched_inv_def)
  have run: "i = current_task s" if "i < task_count s" "t_state (tasks s i) = TASK_RUNNING" for i
    using assms(1) that by (simp add: sched_inv_def)
  from xs show ?thesis
  proof (cases rule: yield_cases [of _ _ fs pml4 k])
    case (keep s')
    then show ?thesis using assms xs by (auto simp: sched_inv_def after_def)
  next
    case halt
    then show ?thesis using assms by (simp add: after_def)
  next
    case (switch n m s')
    then have "n \<in> set xs" by (auto simp: find_Some_iff)
    then have "n < task_count s" using xs by (auto simp: ring_def)
    then obtain ys where "ring s n ys" using ring_other [OF xs] by blast
    moreover have "i = n" if "i < task_count s" "t_state (tasks s' i) = TASK_RUNNING" for i
      using switch(9) [of i] that run [of i] by (auto split: if_splits)
    moreover have "task_count s \<le> MAX_TASKS" using assms(1) by (simp add: sched_inv_def)
    ultimately have "sched_inv s'" using switch(3,6,7) unfolding sched_inv_def by metis
    with switch(1) assms(2) show ?thesis by (simp add: after_def)
  qed
qed

lemma yield_total: "sched_inv s \<Longrightarrow> \<exists>r. yield fs pml4 k s = Some r"
proof -
  assume inv: "sched_inv s"
  then obtain xs where xs: "ring s (current_task s) xs" by (auto simp: sched_inv_def)
  show ?thesis
    by (rule yield_cases [OF xs, of fs pml4 k]) auto
qed

lemma block_current_inv: "sched_inv s \<Longrightarrow> sched_inv (block_current ch s)"
  by (auto simp: sched_inv_def block_current_def)

lemma task_wake_effect:
  shows "t_state (tasks (task_wake ch s) i) =
      (if i < task_count s \<and> t_state (tasks s i) = TASK_BLOCKED \<and> wait_chan (tasks s i) = Some ch
       then TASK_READY else t_state (tasks s i))"
    and "wait_chan (tasks (task_wake ch s) i) =
      (if i < task_count s \<and> t_state (tasks s i) = TASK_BLOCKED \<and> wait_chan (tasks s i) = Some ch
       then None else wait_chan (tasks s i))"
    and "ring (task_wake ch s) c xs = ring s c xs" "task_count (task_wake ch s) = task_count s"
    "current_task (task_wake ch s) = current_task s"
proof -
  define P where "P n u \<longleftrightarrow> task_count u = task_count s \<and> current_task u = current_task s \<and>
     (\<forall>i. tasks u i = (if i < n \<and> t_state (tasks s i) = TASK_BLOCKED \<and> wait_chan (tasks s i) = Some ch
        then (tasks s i)\<lparr>t_state := TASK_READY, wait_chan := None\<rparr> else tasks s i))" for n and u :: sched
  have "P (task_count s) (task_wake ch s)"
    unfolding task_wake_def
    by (rule fold_upt_inv [where P = P]) (auto simp: P_def wake_one_def less_Suc_eq)
  then have w: "tasks (task_wake ch s) i = (if i < task_count s \<and> t_state (tasks s i) = TASK_BLOCKED \<and>
        wait_chan (tasks s i) = Some ch then (tasks s i)\<lparr>t_state := TASK_READY, wait_chan := None\<rparr> else tasks s i)"
    and c: "task_count (task_wake ch s) = task_count s" "current_task (task_wake ch s) = current_task s" for i
    by (auto simp: P_def)
  show "ring (task_wake ch s) c xs = ring s c xs" by (rule ring_cong) (simp_all add: w c)
  show "t_state (tasks (task_wake ch s) i) =
      (if i < task_count s \<and> t_state (tasks s i) = TASK_BLOCKED \<and> wait_chan (tasks s i) = Some ch
       then TASK_READY else t_state (tasks s i))"
    and "wait_chan (tasks (task_wake ch s) i) =
      (if i < task_count s \<and> t_state (tasks s i) = TASK_BLOCKED \<and> wait_chan (tasks s i) = Some ch
       then None else wait_chan (tasks s i))" "task_count (task_wake ch s) = task_count s"
    "current_task (task_wake ch s) = current_task s"
    by (simp_all add: w c)
qed

lemma task_wake_inv: "sched_inv s \<Longrightarrow> sched_inv (task_wake ch s)"
  by (auto simp: sched_inv_def task_wake_effect)

lemma task_init_inv: "task_count s = 0 \<Longrightarrow> sched_inv (task_init s)"
  by (auto simp: sched_inv_def task_init_def ring_def Let_def intro: exI [of _ "[]"])

section \<open>Fairness\<close>

fun run_yields :: "(nat \<Rightarrow> nat) \<Rightarrow> (nat \<Rightarrow> nat) \<Rightarrow> nat \<Rightarrow> nat \<Rightarrow> sched \<Rightarrow> sched option" where
  "run_yields fs pml4 k 0 s = Some s"
| "run_yields fs pml4 k (Suc n) s =
     (case yield fs pml4 k s of None \<Rightarrow> None | Some r \<Rightarrow> run_yields fs pml4 k n (after r))"

lemma fair:
  assumes "sched_inv s" "ring s (current_task s) (ys @ d # zs)" "t_state (tasks s d) = TASK_READY"
  shows "\<exists>m s'. m \<le> Suc (length ys) \<and> run_yields fs pml4 k m s = Some s' \<and> current_task s' = d"
  using assms
proof (induction "length ys" arbitrary: ys zs s rule: less_induct)
  case less
  let ?xs = "ys @ d # zs"
  have some: "find (\<lambda>i. t_state (tasks s i) = TASK_READY) ?xs \<noteq> None"
    using less.prems(3) by (auto simp: find_None_iff)
  from less.prems(2) show ?case
  proof (cases rule: yield_cases [of _ _ fs pml4 k])
    case (switch n m s')
    have inv': "sched_inv s'" using yield_inv [OF less.prems(1) switch(1)] by (simp add: after_def)
    show ?thesis
    proof (cases "\<exists>b \<in> set ys. t_state (tasks s b) = TASK_READY")
      case False
      then have "n = d" using switch(2) less.prems(3) by (simp add: find_append_first)
      then show ?thesis using switch(1,3) by (intro exI [of _ "Suc 0"] exI [of _ s']) (auto simp: after_def)
    next
      case True
      obtain as b bs where ys: "ys = as @ b # bs" "t_state (tasks s b) = TASK_READY"
        "\<forall>a \<in> set as. t_state (tasks s a) \<noteq> TASK_READY" using split_list_first_prop [OF True] by blast
      have "n = b" using switch(2) ys by (simp add: find_append_first)
      have "ring s b ((bs @ d # zs) @ current_task s # as)" using ring_rotate [of s "current_task s" as b "bs @ d # zs"] less.prems(2) ys(1) by simp
      then have r': "ring s' (current_task s') (bs @ d # (zs @ current_task s # as))"
        using switch(3,7) \<open>n = b\<close> by simp
      have "b \<noteq> d" using less.prems(2) ys by (auto simp: ring_def)
      then have "t_state (tasks s' d) = TASK_READY" using switch(9) [of d] less.prems(3) \<open>n = b\<close> by simp
      from less.hyps [OF _ inv' r' this] obtain m' s'' where
        "m' \<le> Suc (length bs)" "run_yields fs pml4 k m' s' = Some s''" "current_task s'' = d"
        using ys by auto
      then show ?thesis using switch(1) ys by (intro exI [of _ "Suc m'"] exI [of _ s'']) (auto simp: after_def)
    qed
  qed (use some in auto)
qed

section \<open>Properties\<close>

definition sched_static :: sched where
  "sched_static = \<lparr>tasks = \<lambda>_. fresh_task [] 0, task_count = 0, current_task = 0, tss_rsp0 = 0, msr_fs_base = 0\<rparr>"

text \<open>Two tasks: \<open>main\<close> running, one more ready.\<close>

definition demo_sched :: sched where
  "demo_sched = splice_task 1 ''child'' ((task_init sched_static)\<lparr>task_count := 2\<rparr>)"

lemma demo_sched_inv: "sched_inv demo_sched" "current_task demo_sched = 0" "task_count demo_sched = 2"
proof -
  have "sched_inv (task_init sched_static)" by (rule task_init_inv) (simp add: sched_static_def)
  moreover have "task_count (task_init sched_static) = 1" by (simp add: task_init_def sched_static_def Let_def)
  ultimately show "sched_inv demo_sched"
    using take_slot_append [of "task_init sched_static" "''child''"] by (simp add: demo_sched_def numeral_2_eq_2)
  show "current_task demo_sched = 0" "task_count demo_sched = 2"
    by (simp_all add: demo_sched_def task_init_def sched_static_def Let_def)
qed

lemma demo_sched_ring: "ring demo_sched 0 [1]" "t_state (tasks demo_sched 1) = TASK_READY"
  by (auto simp: demo_sched_def ring_def task_init_def sched_static_def splice_task_def fresh_task_def Let_def)

text \<open>The scheduler's invariant (one ring through all slots in use, at most the current
  task RUNNING) is established by \<open>task_init\<close> and kept by slot allocation with or without
  recycling, by \<open>yield\<close>, by blocking and by waking; allocation and \<open>yield\<close> always return.\<close>

theorem sched_ops_inv:
  assumes "sched_inv s"
  shows "(\<exists>r q s'. task_alloc_raw name (p, s) = Some (r, q, s') \<and> sched_inv s') \<and>
    (\<exists>r. yield fs pml4 k s = Some r \<and> sched_inv (after r)) \<and>
    (\<exists>r. task_block fs pml4 k ch s = Some r \<and> sched_inv (after r)) \<and>
    sched_inv (task_wake ch s) \<and> (task_count z = 0 \<longrightarrow> sched_inv (task_init z))"
proof -
  have y: "\<exists>r. yield fs pml4 k u = Some r \<and> sched_inv (after r)" if "sched_inv u" for u
    using yield_total [OF that] yield_inv [OF that] by blast
  have "\<exists>r q s'. task_alloc_raw name (p, s) = Some (r, q, s') \<and> sched_inv s'"
    using assms by (cases rule: alloc_raw_cases [of s name p]) (use assms in auto)
  moreover have "\<exists>r. task_block fs pml4 k ch s = Some r \<and> sched_inv (after r)"
    unfolding task_block_def by (rule y [OF block_current_inv [OF assms]])
  ultimately show ?thesis using y [OF assms] task_wake_inv [OF assms] task_init_inv by blast
qed

theorem sched_ops_inv_witness:
  "sched_inv (task_wake ChKbd demo_sched) \<and>
   (\<exists>r. yield (\<lambda>_. 0) (\<lambda>_. 0) 0 demo_sched = Some r \<and> sched_inv (after r))"
  using sched_ops_inv [OF demo_sched_inv(1)] by blast

text \<open>C10. Round robin is fair: a READY task with \<open>n\<close> tasks before it in the ring runs after
  at most \<open>n + 1\<close> calls of \<open>yield\<close>, whatever the states of the others.\<close>

theorem yield_fair:
  assumes "sched_inv s" "ring s (current_task s) (ys @ d # zs)" "t_state (tasks s d) = TASK_READY"
  shows "\<exists>m s'. m \<le> Suc (length ys) \<and> run_yields fs pml4 k m s = Some s' \<and> current_task s' = d"
  using fair [OF assms] .

theorem yield_fair_witness:
  "\<exists>m s'. m \<le> 1 \<and> run_yields (\<lambda>_. 0) (\<lambda>_. 0) 0 m demo_sched = Some s' \<and> current_task s' = 1"
  using yield_fair [OF demo_sched_inv(1), of "[]" 1 "[]"] demo_sched_ring demo_sched_inv(2) by simp

text \<open>A context switch goes to the first READY task after the current one in ring order,
  loads that task's kernel stack into the TSS and its page tables (the kernel's for a task
  without a process), makes it the only RUNNING task, and leaves the previous task READY if
  it was RUNNING and otherwise as it was (blocked, stopped or terminated).\<close>

theorem yield_switch:
  assumes "sched_inv s" "ring s (current_task s) xs"
    and "find (\<lambda>i. t_state (tasks s i) = TASK_READY) xs = Some n"
  shows "\<exists>s'. yield fs pml4 k s =
      Some (Switch (current_task s) (case t_proc (tasks s n) of None \<Rightarrow> k | Some pr \<Rightarrow> pml4 pr) s') \<and>
    current_task s' = n \<and> tss_rsp0 s' = kernel_stack_top (tasks s n) \<and>
    t_state (tasks s' n) = TASK_RUNNING \<and>
    t_state (tasks s' (current_task s)) =
      (if t_state (tasks s (current_task s)) = TASK_RUNNING then TASK_READY else t_state (tasks s (current_task s)))"
  using assms(2)
proof (cases rule: yield_cases [of _ _ fs pml4 k])
  case (switch n' m s')
  then have "n' = n" using assms(3) by simp
  with switch show ?thesis by auto
qed (use assms(3) in auto)

theorem yield_switch_witness:
  "\<exists>s'. yield (\<lambda>_. 0) (\<lambda>_. 0) 7 demo_sched = Some (Switch 0 7 s') \<and> current_task s' = 1"
  using yield_switch [OF demo_sched_inv(1), of "[1]" 1 "\<lambda>_. 0" "\<lambda>_. 0" 7] demo_sched_ring demo_sched_inv(2)
  by (auto simp: demo_sched_def splice_task_def fresh_task_def Let_def)

end
