(* ===== verification/Pipe.thy ===== *)
theory Pipe
  imports Queue Task
begin

text \<open>
  Pipes, \<^verbatim>\<open>kernel/pipe.c\<close>: a pool of ring buffers with a reference count per end. A read or
  write that has to sleep returns \<open>Block\<close> with the channel and the number of bytes already
  transferred: the caller sleeps and, once woken, calls again with that number, which is
  what the loop around \<^verbatim>\<open>task_block\<close> does.
\<close>

section \<open>State\<close>

definition PIPE_BUF_SIZE :: nat where "PIPE_BUF_SIZE = 4096"
definition MAX_PIPES :: nat where [simp]: "MAX_PIPES = 16"

record pipe =
  p_buf :: "nat \<Rightarrow> u8"
  p_head :: nat
  p_count :: nat
  read_refcount :: int
  write_refcount :: int
  p_in_use :: bool

type_synonym pipes = "nat \<Rightarrow> pipe"

datatype 'r io = Done 'r | Block chan nat

section \<open>Operations\<close>

text \<open>One byte out of the buffer and one byte into it: the bodies of the two copy loops.\<close>

definition pipe_get :: "pipe \<Rightarrow> (u8 \<times> pipe) option" where
  "pipe_get p =
     (if p_count p > 0
      then Some (p_buf p (p_head p), p\<lparr>p_head := (p_head p + 1) mod PIPE_BUF_SIZE, p_count := p_count p - 1\<rparr>)
      else None)"

definition pipe_put :: "u8 \<Rightarrow> pipe \<Rightarrow> pipe" where
  "pipe_put b p =
     p\<lparr>p_buf := (p_buf p)((p_head p + p_count p) mod PIPE_BUF_SIZE := b), p_count := p_count p + 1\<rparr>"

definition pipe_read :: "nat \<Rightarrow> nat \<Rightarrow> pipes \<times> sched \<Rightarrow> bytes io \<times> pipes \<times> sched" where
  "pipe_read i count = (\<lambda>(ps, s).
     let p = ps i in
     if p_count p = 0 then
       (if write_refcount p = 0 then (Done [], ps, s) else (Block (ChPipe i) 0, ps, s))
     else let (bs, p') = drain pipe_get count p
          in (Done bs, ps(i := p'), task_wake (ChPipe i) s))"

text \<open>The loop of \<open>pipe_write\<close> from \<open>n\<close> on: its result, the pipe, and whether it calls
  \<^verbatim>\<open>task_wake\<close> before it ends or sleeps.\<close>

function write_loop :: "nat \<Rightarrow> bytes \<Rightarrow> nat \<Rightarrow> pipe \<Rightarrow> int io \<times> pipe \<times> bool" where
  "write_loop i src n p =
     (if n < length src then
        if read_refcount p = 0 then (Done (if n > 0 then int n else -1), p, False)
        else if p_count p = PIPE_BUF_SIZE then (Block (ChPipe i) n, p, True)
        else write_loop i src (n + 1) (pipe_put (src ! n) p)
      else (Done (int n), p, True))"
  by pat_completeness auto
termination
  by (relation "measure (\<lambda>(i, src, n, p). length src - n)") auto

declare write_loop.simps [simp del]

definition pipe_write :: "nat \<Rightarrow> bytes \<Rightarrow> nat \<Rightarrow> pipes \<times> sched \<Rightarrow> int io \<times> pipes \<times> sched" where
  "pipe_write i src n = (\<lambda>(ps, s).
     let (r, p', wake) = write_loop i src n (ps i)
     in (r, ps(i := p'), if wake then task_wake (ChPipe i) s else s))"

definition pipe_read_dup :: "nat \<Rightarrow> pipes \<Rightarrow> pipes" where
  "pipe_read_dup i ps = ps(i := (ps i)\<lparr>read_refcount := read_refcount (ps i) + 1\<rparr>)"

definition pipe_write_dup :: "nat \<Rightarrow> pipes \<Rightarrow> pipes" where
  "pipe_write_dup i ps = ps(i := (ps i)\<lparr>write_refcount := write_refcount (ps i) + 1\<rparr>)"

definition pipe_read_close :: "nat \<Rightarrow> pipes \<times> sched \<Rightarrow> pipes \<times> sched" where
  "pipe_read_close i = (\<lambda>(ps, s).
     let p = (ps i)\<lparr>read_refcount := read_refcount (ps i) - 1\<rparr>;
         s' = (if read_refcount p = 0 then task_wake (ChPipe i) s else s);
         p' = (if read_refcount p = 0 \<and> write_refcount p = 0 then p\<lparr>p_in_use := False\<rparr> else p)
     in (ps(i := p'), s'))"

definition pipe_write_close :: "nat \<Rightarrow> pipes \<times> sched \<Rightarrow> pipes \<times> sched" where
  "pipe_write_close i = (\<lambda>(ps, s).
     let p = (ps i)\<lparr>write_refcount := write_refcount (ps i) - 1\<rparr>;
         s' = (if write_refcount p = 0 then task_wake (ChPipe i) s else s);
         p' = (if read_refcount p = 0 \<and> write_refcount p = 0 then p\<lparr>p_in_use := False\<rparr> else p)
     in (ps(i := p'), s'))"

definition new_pipe :: pipe where
  "new_pipe = \<lparr>p_buf = \<lambda>_. 0, p_head = 0, p_count = 0, read_refcount = 1, write_refcount = 1, p_in_use = True\<rparr>"

text \<open>The error, or the slot whose two vnodes are the ends.\<close>

definition pipe_create :: "pipes \<Rightarrow> (int + nat) \<times> pipes" where
  "pipe_create ps =
     (case scan_up (\<lambda>i. \<not> p_in_use (ps i)) 0 MAX_PIPES of
        None \<Rightarrow> (Inl (- ENFILE), ps)
      | Some i \<Rightarrow> (Inr i, ps(i := new_pipe)))"

section \<open>The ring buffer is a queue\<close>

definition pipe_inv :: "pipe \<Rightarrow> bool" where
  "pipe_inv p \<longleftrightarrow> p_head p < PIPE_BUF_SIZE \<and> p_count p \<le> PIPE_BUF_SIZE"

definition pipe_data :: "pipe \<Rightarrow> bytes" where
  "pipe_data p = ring_list PIPE_BUF_SIZE (p_buf p) (p_head p) (p_count p)"

lemma pipe_data_length [simp]: "length (pipe_data p) = p_count p"
  by (simp add: pipe_data_def)

interpretation pipeq: fifo pipe_inv pipe_data PIPE_BUF_SIZE pipe_put pipe_get
proof
  fix s x assume "pipe_inv s" "length (pipe_data s) < PIPE_BUF_SIZE"
  then show "pipe_inv (pipe_put x s)" "pipe_data (pipe_put x s) = pipe_data s @ [x]"
    by (simp_all add: pipe_inv_def pipe_put_def pipe_data_def ring_list_snoc)
next
  fix s assume "pipe_inv s"
  then show "pipe_get s = None \<longleftrightarrow> pipe_data s = []"
    by (auto simp: pipe_get_def simp flip: length_0_conv)
next
  fix s x s' assume s: "pipe_inv s" "pipe_get s = Some (x, s')"
  then obtain k where "p_count s = Suc k" by (auto simp: pipe_get_def gr0_conv_Suc split: if_splits)
  with s show "pipe_inv s' \<and> pipe_data s = x # pipe_data s'"
    by (auto simp: pipe_get_def pipe_inv_def pipe_data_def ring_list_Cons)
qed

lemma pipe_put_fields [simp]:
  "read_refcount (pipe_put b p) = read_refcount p" "write_refcount (pipe_put b p) = write_refcount p"
  "p_in_use (pipe_put b p) = p_in_use p" "p_count (pipe_put b p) = p_count p + 1"
  by (simp_all add: pipe_put_def)

lemma drain_fields:
  "drain pipe_get n p = (bs, q) \<Longrightarrow> read_refcount q = read_refcount p \<and> write_refcount q = write_refcount p \<and> p_in_use q = p_in_use p"
  by (induction n arbitrary: p bs) (auto simp: pipe_get_def split: if_splits prod.splits)

text \<open>The write loop against the room in the buffer.\<close>

definition room :: "pipe \<Rightarrow> nat" where
  "room p = PIPE_BUF_SIZE - p_count p"

lemma write_loop_broken:
  "read_refcount p = 0 \<Longrightarrow> n < length src \<Longrightarrow> write_loop i src n p = (Done (if n > 0 then int n else -1), p, False)"
  by (simp add: write_loop.simps)

lemma write_loop_effect:
  assumes "pipe_inv p" "read_refcount p \<noteq> 0" "n \<le> length src"
  obtains q where "write_loop i src n p =
      ((if length src - n \<le> room p then Done (int (length src)) else Block (ChPipe i) (n + room p)), q, True)"
    "pipe_inv q" "pipe_data q = pipe_data p @ take (room p) (drop n src)"
    "read_refcount q = read_refcount p" "write_refcount q = write_refcount p" "p_in_use q = p_in_use p"
  using assms
proof (induction i src n p arbitrary: thesis rule: write_loop.induct)
  case (1 i src n p)
  show ?case
  proof (cases "n < length src")
    case False
    then show ?thesis using "1.prems" by (intro "1.prems"(1) [of p]) (simp_all add: write_loop.simps)
  next
    case n: True
    show ?thesis
    proof (cases "p_count p = PIPE_BUF_SIZE")
      case True
      then show ?thesis using n "1.prems"
        by (intro "1.prems"(1) [of p]) (simp_all add: write_loop.simps room_def)
    next
      case False
      then have lt: "p_count p < PIPE_BUF_SIZE" using "1.prems" by (simp add: pipe_inv_def)
      let ?p = "pipe_put (src ! n) p"
      have pi: "pipe_inv ?p" "pipe_data ?p = pipe_data p @ [src ! n]"
        using pipeq.push_inv pipeq.push_content "1.prems"(2) lt by simp_all
      have rm: "room p = Suc (room ?p)" using lt by (simp add: room_def)
      obtain q where q: "write_loop i src (n + 1) ?p =
          ((if length src - (n + 1) \<le> room ?p then Done (int (length src)) else Block (ChPipe i) (n + 1 + room ?p)), q, True)"
        "pipe_inv q" "pipe_data q = pipe_data ?p @ take (room ?p) (drop (n + 1) src)"
        "read_refcount q = read_refcount ?p" "write_refcount q = write_refcount ?p" "p_in_use q = p_in_use ?p"
        using "1.IH" [OF n "1.prems"(3) False] pi(1) "1.prems" n by (metis Suc_eq_plus1 Suc_leI pipe_put_fields(1))
      have "write_loop i src n p = write_loop i src (n + 1) ?p"
        using n False "1.prems"(3) by (simp add: write_loop.simps [of i src n p])
      moreover have "drop n src = src ! n # drop (n + 1) src" using n by (simp add: Cons_nth_drop_Suc)
      ultimately show ?thesis using q pi rm n by (intro "1.prems"(1) [of q]) auto
    qed
  qed
qed

section \<open>Streams\<close>

text \<open>A history of reads and (resumed) writes on pipe \<open>i\<close>, and the bytes that came out and
  went in.\<close>

datatype pipe_event = PRead nat | PWrite bytes nat

definition progress :: "int io \<Rightarrow> nat" where
  "progress r = (case r of Done v \<Rightarrow> nat v | Block ch m \<Rightarrow> m)"

definition read_bytes :: "bytes io \<Rightarrow> bytes" where
  "read_bytes r = (case r of Done bs \<Rightarrow> bs | Block ch m \<Rightarrow> [])"

fun pipe_run :: "nat \<Rightarrow> pipe_event list \<Rightarrow> pipes \<times> sched \<Rightarrow> bytes \<times> bytes \<times> pipes \<times> sched" where
  "pipe_run i [] st = ([], [], st)"
| "pipe_run i (PRead n # es) st =
     (let (r, st1) = pipe_read i n st; (rs, ws, st2) = pipe_run i es st1 in (read_bytes r @ rs, ws, st2))"
| "pipe_run i (PWrite src n # es) st =
     (let (r, st1) = pipe_write i src n st; (rs, ws, st2) = pipe_run i es st1
      in (rs, take (progress r - n) (drop n src) @ ws, st2))"

fun event_ok :: "pipe_event \<Rightarrow> bool" where
  "event_ok (PRead n) = True"
| "event_ok (PWrite src n) = (n \<le> length src)"

lemma pipe_read_effect:
  assumes "pipe_inv (ps i)" "pipe_read i n (ps, s) = (r, ps', s')"
  shows "pipe_inv (ps' i)" "pipe_data (ps i) = read_bytes r @ pipe_data (ps' i)"
    "j \<noteq> i \<Longrightarrow> ps' j = ps j" "read_refcount (ps' i) = read_refcount (ps i)" "write_refcount (ps' i) = write_refcount (ps i)"
proof -
  obtain bs q where d: "drain pipe_get n (ps i) = (bs, q)" by (metis surj_pair)
  note e = pipeq.drain_content [OF assms(1) d] drain_fields [OF d]
  show "pipe_inv (ps' i)" "pipe_data (ps i) = read_bytes r @ pipe_data (ps' i)"
    "j \<noteq> i \<Longrightarrow> ps' j = ps j" "read_refcount (ps' i) = read_refcount (ps i)" "write_refcount (ps' i) = write_refcount (ps i)"
    using assms e d by (auto simp: pipe_read_def Let_def read_bytes_def split: if_splits)
qed

lemma pipe_write_effect:
  assumes "pipe_inv (ps i)" "n \<le> length src" "pipe_write i src n (ps, s) = (r, ps', s')"
  shows "pipe_inv (ps' i)" "pipe_data (ps' i) = pipe_data (ps i) @ take (progress r - n) (drop n src)"
    "j \<noteq> i \<Longrightarrow> ps' j = ps j"
proof -
  consider "n = length src" | "n < length src" "read_refcount (ps i) = 0" | "n < length src" "read_refcount (ps i) \<noteq> 0"
    using assms(2) by linarith
  then have "pipe_inv (ps' i) \<and> pipe_data (ps' i) = pipe_data (ps i) @ take (progress r - n) (drop n src) \<and> (j \<noteq> i \<longrightarrow> ps' j = ps j)"
  proof cases
    case 1
    then show ?thesis using assms by (auto simp: pipe_write_def write_loop.simps)
  next
    case 2
    then show ?thesis using assms by (auto simp: pipe_write_def write_loop_broken progress_def split: if_splits)
  next
    case 3
    obtain q where q: "write_loop i src n (ps i) = ((if length src - n \<le> room (ps i) then Done (int (length src))
        else Block (ChPipe i) (n + room (ps i))), q, True)" "pipe_inv q"
      "pipe_data q = pipe_data (ps i) @ take (room (ps i)) (drop n src)"
      using write_loop_effect [OF assms(1) 3(2) assms(2)] by metis
    then show ?thesis using assms(3) by (auto simp: pipe_write_def progress_def)
  qed
  then show "pipe_inv (ps' i)" "pipe_data (ps' i) = pipe_data (ps i) @ take (progress r - n) (drop n src)"
    "j \<noteq> i \<Longrightarrow> ps' j = ps j" by auto
qed

lemma pipe_run_stream:
  assumes "pipe_inv (ps i)" "\<forall>e \<in> set es. event_ok e" "pipe_run i es (ps, s) = (rs, ws, ps', s')"
  shows "pipe_inv (ps' i) \<and> rs @ pipe_data (ps' i) = pipe_data (ps i) @ ws"
  using assms
proof (induction es arbitrary: ps s rs ws)
  case (Cons e es)
  show ?case
  proof (cases e)
    case (PRead n)
    obtain r ps1 s1 where r: "pipe_read i n (ps, s) = (r, ps1, s1)" by (metis surj_pair)
    obtain rs1 ws1 ps2 s2 where u: "pipe_run i es (ps1, s1) = (rs1, ws1, ps2, s2)" by (metis surj_pair)
    note e = pipe_read_effect [OF Cons.prems(1) r]
    have "pipe_inv (ps' i) \<and> rs1 @ pipe_data (ps' i) = pipe_data (ps1 i) @ ws1"
      by (rule Cons.IH [of ps1, OF e(1)]) (use Cons.prems PRead r u in auto)
    with e(2) Cons.prems(3) PRead r u show ?thesis by auto
  next
    case (PWrite src n)
    obtain r ps1 s1 where r: "pipe_write i src n (ps, s) = (r, ps1, s1)" by (metis surj_pair)
    obtain rs1 ws1 ps2 s2 where u: "pipe_run i es (ps1, s1) = (rs1, ws1, ps2, s2)" by (metis surj_pair)
    have "n \<le> length src" using Cons.prems(2) PWrite by simp
    note e = pipe_write_effect [OF Cons.prems(1) this r]
    have "pipe_inv (ps' i) \<and> rs1 @ pipe_data (ps' i) = pipe_data (ps1 i) @ ws1"
      by (rule Cons.IH [of ps1, OF e(1)]) (use Cons.prems PWrite r u in auto)
    with e(2) Cons.prems(3) PWrite r u show ?thesis by auto
  qed
qed simp

section \<open>Properties\<close>

definition blocked_on :: "chan \<Rightarrow> sched \<Rightarrow> nat set" where
  "blocked_on ch s = {t. t < task_count s \<and> t_state (tasks s t) = TASK_BLOCKED \<and> wait_chan (tasks s t) = Some ch}"

definition demo_pipes :: pipes where "demo_pipes = (\<lambda>_. new_pipe)"

lemma demo_pipe: "pipe_inv (demo_pipes i)" "pipe_data (demo_pipes i) = []" "room (demo_pipes i) = 4096"
  "read_refcount (demo_pipes i) = 1"
  by (simp_all add: demo_pipes_def new_pipe_def pipe_inv_def pipe_data_def PIPE_BUF_SIZE_def room_def)

text \<open>C11. A pipe is a byte stream: over any history of reads and writes, with writes that block
  half-way and are resumed, the bytes read followed by the bytes still buffered are the
  bytes buffered at the start followed by the bytes the writes accepted, in order; nothing
  is lost, duplicated or reordered.\<close>

theorem pipe_stream:
  assumes "pipe_inv (ps i)" "\<forall>e \<in> set es. event_ok e" "pipe_run i es (ps, s) = (rs, ws, ps', s')"
  shows "pipe_inv (ps' i) \<and> rs @ pipe_data (ps' i) = pipe_data (ps i) @ ws"
  using pipe_run_stream [OF assms] .

theorem pipe_stream_witness:
  "case pipe_run 0 [PWrite [1, 2, 3] 0, PRead 2] (demo_pipes, demo_sched) of
     (rs, ws, ps', s') \<Rightarrow> rs @ pipe_data (ps' 0) = ws"
proof -
  obtain rs ws ps' s' where u: "pipe_run 0 [PWrite [1, 2, 3] 0, PRead 2] (demo_pipes, demo_sched) = (rs, ws, ps', s')"
    by (metis surj_pair)
  from pipe_stream [of demo_pipes, OF demo_pipe(1) _ u] show ?thesis unfolding u by (simp add: demo_pipe)
qed

text \<open>\<open>pipe_write\<close> on a pipe with a reader: it appends as much as fits; it returns the full
  count exactly when the rest of the data fits in the room left, and otherwise sleeps with
  the buffer full and the number of bytes transferred so far recorded. Without a reader it
  changes nothing and returns the bytes already written, or \<open>-1\<close> when there are none.\<close>

theorem pipe_write_correct:
  assumes "pipe_inv (ps i)" "n < length src" "pipe_write i src n (ps, s) = (r, ps', s')"
  shows "if read_refcount (ps i) = 0 then r = Done (if n > 0 then int n else -1) \<and> ps' = ps \<and> s' = s
    else r = (if length src - n \<le> room (ps i) then Done (int (length src)) else Block (ChPipe i) (n + room (ps i))) \<and>
      pipe_data (ps' i) = pipe_data (ps i) @ take (room (ps i)) (drop n src) \<and> (\<forall>j. j \<noteq> i \<longrightarrow> ps' j = ps j)"
proof (cases "read_refcount (ps i) = 0")
  case True
  then show ?thesis using assms by (auto simp: pipe_write_def write_loop_broken)
next
  case False
  obtain q where "write_loop i src n (ps i) = ((if length src - n \<le> room (ps i) then Done (int (length src))
      else Block (ChPipe i) (n + room (ps i))), q, True)"
    "pipe_data q = pipe_data (ps i) @ take (room (ps i)) (drop n src)"
    using write_loop_effect [OF assms(1) False less_imp_le [OF assms(2)]] by metis
  with False assms(3) show ?thesis by (auto simp: pipe_write_def)
qed

theorem pipe_write_correct_witness:
  "fst (pipe_write 0 [1, 2, 3] 0 (demo_pipes, demo_sched)) = Done 3"
proof -
  obtain r ps' s' where u: "pipe_write 0 [1, 2, 3] 0 (demo_pipes, demo_sched) = (r, ps', s')" by (metis surj_pair)
  from pipe_write_correct [of demo_pipes, OF demo_pipe(1) _ u] show ?thesis by (simp add: u demo_pipe)
qed

text \<open>C12. No wake-up is lost: whenever an operation changes what a sleeper waits for (a read
  takes bytes, a write adds bytes or is about to sleep, the last reader or writer goes
  away), no task is left blocked on that pipe.\<close>

theorem pipe_no_lost_wakeup:
  shows "(0 < p_count (ps i) \<longrightarrow> blocked_on (ChPipe i) (snd (snd (pipe_read i n (ps, s)))) = {}) \<and>
    (read_refcount (ps i) \<noteq> 0 \<longrightarrow> pipe_inv (ps i) \<longrightarrow> m \<le> length src \<longrightarrow>
       blocked_on (ChPipe i) (snd (snd (pipe_write i src m (ps, s)))) = {}) \<and>
    (read_refcount (ps i) = 1 \<longrightarrow> blocked_on (ChPipe i) (snd (pipe_read_close i (ps, s))) = {}) \<and>
    (write_refcount (ps i) = 1 \<longrightarrow> blocked_on (ChPipe i) (snd (pipe_write_close i (ps, s))) = {})"
proof -
  have w: "blocked_on ch (task_wake ch u) = {}" for ch u
    by (auto simp: blocked_on_def task_wake_effect split: if_splits)
  have "snd (snd (pipe_write i src m (ps, s))) = task_wake (ChPipe i) s"
    if a: "read_refcount (ps i) \<noteq> 0" "pipe_inv (ps i)" "m \<le> length src"
  proof -
    obtain q where "write_loop i src m (ps i) = ((if length src - m \<le> room (ps i) then Done (int (length src))
        else Block (ChPipe i) (m + room (ps i))), q, True)"
      using write_loop_effect [OF a(2,1,3)] by metis
    then show ?thesis by (simp add: pipe_write_def)
  qed
  with w show ?thesis
    by (auto simp: pipe_read_def pipe_read_close_def pipe_write_close_def Let_def split: prod.splits)
qed

theorem pipe_no_lost_wakeup_witness:
  "blocked_on (ChPipe 0) (snd (pipe_read_close 0 (demo_pipes, demo_sched))) = {}"
  using pipe_no_lost_wakeup [of demo_pipes 0] demo_pipe(4) by blast

end
