(* ===== verification/Keyboard.thy ===== *)
theory Keyboard
  imports Queue Pipe
begin

text \<open>
  The keyboard driver and line discipline, \<^verbatim>\<open>kernel/keyboard.c\<close>: scancode translation with
  shift and control state, canonical mode with a local edit line that is committed on Enter,
  raw mode, echo, and the character queue that readers drain. What the handler does outside
  the driver is its result: the text echoed to the terminal and an action, waking readers or
  signalling the foreground processes.
\<close>

section \<open>State\<close>

definition EDIT_LINE_MAX :: nat where "EDIT_LINE_MAX = 256"
definition KBD_QUEUE_SIZE :: nat where "KBD_QUEUE_SIZE = 1024"
definition SC_LSHIFT :: nat where [simp]: "SC_LSHIFT = 0x2A"
definition SC_RSHIFT :: nat where [simp]: "SC_RSHIFT = 0x36"
definition SC_LCTRL :: nat where [simp]: "SC_LCTRL = 0x1D"
definition SIGINT :: int where "SIGINT = 2"
definition SIGTSTP :: int where "SIGTSTP = 20"

definition lower_entries :: "(nat \<times> char) list" where
  "lower_entries = [
    (0x01, CHR 0x1B), (0x02, CHR 0x31), (0x03, CHR 0x32), (0x04, CHR 0x33), (0x05, CHR 0x34), (0x06, CHR 0x35),
    (0x07, CHR 0x36), (0x08, CHR 0x37), (0x09, CHR 0x38), (0x0A, CHR 0x39), (0x0B, CHR 0x30), (0x0C, CHR 0x2D),
    (0x0D, CHR 0x3D), (0x0E, CHR 0x08), (0x0F, CHR 0x09), (0x10, CHR 0x71), (0x11, CHR 0x77), (0x12, CHR 0x65),
    (0x13, CHR 0x72), (0x14, CHR 0x74), (0x15, CHR 0x79), (0x16, CHR 0x75), (0x17, CHR 0x69), (0x18, CHR 0x6F),
    (0x19, CHR 0x70), (0x1A, CHR 0x5B), (0x1B, CHR 0x5D), (0x1C, CHR 0x0A), (0x1E, CHR 0x61), (0x1F, CHR 0x73),
    (0x20, CHR 0x64), (0x21, CHR 0x66), (0x22, CHR 0x67), (0x23, CHR 0x68), (0x24, CHR 0x6A), (0x25, CHR 0x6B),
    (0x26, CHR 0x6C), (0x27, CHR 0x3B), (0x28, CHR 0x27), (0x29, CHR 0x60), (0x2B, CHR 0x5C), (0x2C, CHR 0x7A),
    (0x2D, CHR 0x78), (0x2E, CHR 0x63), (0x2F, CHR 0x76), (0x30, CHR 0x62), (0x31, CHR 0x6E), (0x32, CHR 0x6D),
    (0x33, CHR 0x2C), (0x34, CHR 0x2E), (0x35, CHR 0x2F), (0x39, CHR 0x20)]"

definition upper_entries :: "(nat \<times> char) list" where
  "upper_entries = [
    (0x02, CHR 0x21), (0x03, CHR 0x40), (0x04, CHR 0x23), (0x05, CHR 0x24), (0x06, CHR 0x25), (0x07, CHR 0x5E),
    (0x08, CHR 0x26), (0x09, CHR 0x2A), (0x0A, CHR 0x28), (0x0B, CHR 0x29), (0x0C, CHR 0x5F), (0x0D, CHR 0x2B),
    (0x0E, CHR 0x08), (0x0F, CHR 0x09), (0x10, CHR 0x51), (0x11, CHR 0x57), (0x12, CHR 0x45), (0x13, CHR 0x52),
    (0x14, CHR 0x54), (0x15, CHR 0x59), (0x16, CHR 0x55), (0x17, CHR 0x49), (0x18, CHR 0x4F), (0x19, CHR 0x50),
    (0x1A, CHR 0x7B), (0x1B, CHR 0x7D), (0x1C, CHR 0x0A), (0x1E, CHR 0x41), (0x1F, CHR 0x53), (0x20, CHR 0x44),
    (0x21, CHR 0x46), (0x22, CHR 0x47), (0x23, CHR 0x48), (0x24, CHR 0x4A), (0x25, CHR 0x4B), (0x26, CHR 0x4C),
    (0x27, CHR 0x3A), (0x28, CHR 0x22), (0x29, CHR 0x7E), (0x2B, CHR 0x7C), (0x2C, CHR 0x5A), (0x2D, CHR 0x58),
    (0x2E, CHR 0x43), (0x2F, CHR 0x56), (0x30, CHR 0x42), (0x31, CHR 0x4E), (0x32, CHR 0x4D), (0x33, CHR 0x3C),
    (0x34, CHR 0x3E), (0x35, CHR 0x3F), (0x39, CHR 0x20)]"

text \<open>Unlisted entries of the tables are 0.\<close>

definition table_get :: "(nat \<times> char) list \<Rightarrow> nat \<Rightarrow> char" where
  "table_get t i = (case map_of t i of None \<Rightarrow> CHR 0x00 | Some c \<Rightarrow> c)"

definition lower_table :: "nat \<Rightarrow> char" where "lower_table = table_get lower_entries"
definition upper_table :: "nat \<Rightarrow> char" where "upper_table = table_get upper_entries"

record kbd =
  shift_held :: bool
  ctrl_held :: bool
  raw_mode :: bool
  echo_enabled :: bool
  edit_line :: "nat \<Rightarrow> char"
  edit_len :: nat
  kbd_queue :: "nat \<Rightarrow> char"
  kbd_head :: nat
  kbd_tail :: nat

definition kbd_static :: kbd where
  "kbd_static = \<lparr>shift_held = False, ctrl_held = False, raw_mode = False, echo_enabled = True,
     edit_line = \<lambda>_. CHR 0x00, edit_len = 0, kbd_queue = \<lambda>_. CHR 0x00, kbd_head = 0, kbd_tail = 0\<rparr>"

datatype kbd_action = KNone | KWake | KSignal int

section \<open>Operations\<close>

definition kbd_queue_push :: "char \<Rightarrow> kbd \<Rightarrow> kbd" where
  "kbd_queue_push c k =
     (let next = (kbd_head k + 1) mod KBD_QUEUE_SIZE in
      if next = kbd_tail k then k
      else k\<lparr>kbd_queue := (kbd_queue k)(kbd_head k := c), kbd_head := next\<rparr>)"

definition kbd_queue_pop :: "kbd \<Rightarrow> (char \<times> kbd) option" where
  "kbd_queue_pop k =
     (if kbd_tail k = kbd_head k then None
      else Some (kbd_queue k (kbd_tail k), k\<lparr>kbd_tail := (kbd_tail k + 1) mod KBD_QUEUE_SIZE\<rparr>))"

definition edited :: "kbd \<Rightarrow> string" where
  "edited k = map (edit_line k) [0..<edit_len k]"

definition commit_char :: "char \<Rightarrow> kbd \<Rightarrow> string \<times> kbd_action \<times> kbd" where
  "commit_char c k =
     (if c = CHR 0x08 then
        (if edit_len k > 0
         then ((if echo_enabled k then [CHR 0x08, CHR '' '', CHR 0x08] else []), KNone, k\<lparr>edit_len := edit_len k - 1\<rparr>)
         else ([], KNone, k))
      else if c = CHR 0x0A then
        ((if echo_enabled k then [CHR 0x0A] else []), KWake,
         (kbd_queue_push (CHR 0x0A) (fold kbd_queue_push (edited k) k))\<lparr>edit_len := 0\<rparr>)
      else if edit_len k < EDIT_LINE_MAX - 1 then
        ((if echo_enabled k then [c] else []), KNone,
         k\<lparr>edit_line := (edit_line k)(edit_len k := c), edit_len := edit_len k + 1\<rparr>)
      else ([], KNone, k))"

definition keyboard_handle_scancode :: "nat \<Rightarrow> kbd \<Rightarrow> string \<times> kbd_action \<times> kbd" where
  "keyboard_handle_scancode sc k =
     (let released = (sc div 128 mod 2 = 1); code = sc mod 128 in
      if code = SC_LSHIFT \<or> code = SC_RSHIFT then ([], KNone, k\<lparr>shift_held := \<not> released\<rparr>)
      else if code = SC_LCTRL then ([], KNone, k\<lparr>ctrl_held := \<not> released\<rparr>)
      else if released then ([], KNone, k)
      else if ctrl_held k then
        (if code = 0x2E then (''^C'' @ [CHR 0x0A], KSignal SIGINT, k)
         else if code = 0x2C then (''^Z'' @ [CHR 0x0A], KSignal SIGTSTP, k)
         else ([], KNone, k))
      else
        let c = (if shift_held k then upper_table code else lower_table code) in
        if c = CHR 0x00 then ([], KNone, k)
        else if raw_mode k then ((if echo_enabled k then [c] else []), KWake, kbd_queue_push c k)
        else commit_char c k)"

definition tty_set_raw :: "int \<Rightarrow> kbd \<Rightarrow> kbd" where
  "tty_set_raw enable k = k\<lparr>raw_mode := (enable \<noteq> 0), edit_len := 0\<rparr>"

definition tty_set_echo :: "int \<Rightarrow> kbd \<Rightarrow> kbd" where
  "tty_set_echo enable k = k\<lparr>echo_enabled := (enable \<noteq> 0)\<rparr>"

text \<open>The first character is stored whatever \<open>count\<close> is, as in the code.\<close>

definition keyboard_read :: "nat \<Rightarrow> kbd \<Rightarrow> string io \<times> kbd" where
  "keyboard_read count k =
     (case kbd_queue_pop k of
        None \<Rightarrow> (Block ChKbd 0, k)
      | Some (c, k1) \<Rightarrow>
          if c = CHR 0x0A then (Done [c], k1)
          else let (cs, k2) = drain_until (\<lambda>c. c = CHR 0x0A) kbd_queue_pop (count - 1) k1
               in (Done (c # cs), k2))"

section \<open>The character queue\<close>

definition kbd_inv :: "kbd \<Rightarrow> bool" where
  "kbd_inv k \<longleftrightarrow> kbd_head k < KBD_QUEUE_SIZE \<and> kbd_tail k < KBD_QUEUE_SIZE \<and> edit_len k < EDIT_LINE_MAX"

definition kbd_used :: "kbd \<Rightarrow> nat" where
  "kbd_used k = (if kbd_tail k \<le> kbd_head k then kbd_head k - kbd_tail k
     else KBD_QUEUE_SIZE - (kbd_tail k - kbd_head k))"

definition kbd_chars :: "kbd \<Rightarrow> string" where
  "kbd_chars k = ring_list KBD_QUEUE_SIZE (kbd_queue k) (kbd_tail k) (kbd_used k)"

lemma kbd_chars_length [simp]: "length (kbd_chars k) = kbd_used k"
  by (simp add: kbd_chars_def)

lemma kbd_head_tail:
  assumes "kbd_inv k"
  shows "kbd_head k = (kbd_tail k + kbd_used k) mod KBD_QUEUE_SIZE"
  using assms by (auto simp: kbd_inv_def kbd_used_def mod_if)

lemma kbd_full_iff:
  assumes "kbd_inv k"
  shows "(kbd_head k + 1) mod KBD_QUEUE_SIZE = kbd_tail k \<longleftrightarrow> kbd_used k = KBD_QUEUE_SIZE - 1"
  using assms by (auto simp: kbd_inv_def kbd_used_def mod_if KBD_QUEUE_SIZE_def)

lemma kbd_used_push:
  assumes "kbd_inv k" "kbd_used k < KBD_QUEUE_SIZE - 1"
  shows "kbd_used (kbd_queue_push c k) = Suc (kbd_used k)"
  using assms kbd_full_iff [OF assms(1)]
  by (auto simp: kbd_inv_def kbd_used_def kbd_queue_push_def mod_if KBD_QUEUE_SIZE_def Let_def)

interpretation kbdq: fifo kbd_inv kbd_chars "KBD_QUEUE_SIZE - 1" kbd_queue_push kbd_queue_pop
proof
  fix s x assume s: "kbd_inv s" "length (kbd_chars s) < KBD_QUEUE_SIZE - 1"
  then have nf: "(kbd_head s + 1) mod KBD_QUEUE_SIZE \<noteq> kbd_tail s" using kbd_full_iff by auto
  with s(1) show "kbd_inv (kbd_queue_push x s)"
    by (auto simp: kbd_inv_def kbd_queue_push_def KBD_QUEUE_SIZE_def Let_def)
  have "kbd_used s < KBD_QUEUE_SIZE" using s(2) by simp
  from ring_list_snoc [OF this, of "kbd_queue s" "kbd_tail s" x]
  have "ring_list KBD_QUEUE_SIZE ((kbd_queue s)(kbd_head s := x)) (kbd_tail s) (Suc (kbd_used s)) = kbd_chars s @ [x]"
    unfolding kbd_head_tail [OF s(1)] kbd_chars_def .
  with nf s kbd_used_push [of s x] show "kbd_chars (kbd_queue_push x s) = kbd_chars s @ [x]"
    by (simp add: kbd_chars_def kbd_queue_push_def Let_def)
next
  fix s assume "kbd_inv s"
  then show "kbd_queue_pop s = None \<longleftrightarrow> kbd_chars s = []"
    by (auto simp: kbd_queue_pop_def kbd_used_def kbd_inv_def KBD_QUEUE_SIZE_def simp flip: length_0_conv)
next
  fix s x s' assume s: "kbd_inv s" "kbd_queue_pop s = Some (x, s')"
  then have ne: "kbd_tail s \<noteq> kbd_head s" by (auto simp: kbd_queue_pop_def)
  then have u: "kbd_used s = Suc (kbd_used s')"
    using s by (auto simp: kbd_queue_pop_def kbd_used_def kbd_inv_def KBD_QUEUE_SIZE_def mod_if)
  have "kbd_tail s < KBD_QUEUE_SIZE" "0 < KBD_QUEUE_SIZE" using s by (auto simp: kbd_inv_def)
  with s ne u show "kbd_inv s' \<and> kbd_chars s = x # kbd_chars s'"
    by (auto simp: kbd_queue_pop_def kbd_chars_def kbd_inv_def ring_list_Cons)
qed

section \<open>The line discipline\<close>

text \<open>What editing means: backspace removes the last character, Enter clears the line, any
  other character is appended while the line has room.\<close>

definition edit_step :: "string \<Rightarrow> char \<Rightarrow> string" where
  "edit_step l c = (if c = CHR 0x08 then butlast l else if c = CHR 0x0A then []
     else if length l < EDIT_LINE_MAX - 1 then l @ [c] else l)"

lemma push_fields [simp]:
  "edit_len (kbd_queue_push c k) = edit_len k" "edit_line (kbd_queue_push c k) = edit_line k"
  "shift_held (kbd_queue_push c k) = shift_held k" "ctrl_held (kbd_queue_push c k) = ctrl_held k"
  "raw_mode (kbd_queue_push c k) = raw_mode k" "echo_enabled (kbd_queue_push c k) = echo_enabled k"
  by (simp_all add: kbd_queue_push_def Let_def)

lemma push_inv: "kbd_inv k \<Longrightarrow> kbd_inv (kbd_queue_push c k)"
  by (auto simp: kbd_inv_def kbd_queue_push_def KBD_QUEUE_SIZE_def Let_def)

lemma push_all_inv: "kbd_inv k \<Longrightarrow> kbd_inv (fold kbd_queue_push cs k)"
  by (induction cs arbitrary: k) (simp_all add: push_inv)

lemma push_all_fields [simp]:
  "edit_len (fold kbd_queue_push cs k) = edit_len k" "edit_line (fold kbd_queue_push cs k) = edit_line k"
  by (induction cs arbitrary: k) simp_all

lemma edited_length [simp]: "length (edited k) = edit_len k"
  by (simp add: edited_def)

lemma commit_edited: "kbd_inv k \<Longrightarrow> commit_char c k = (out, act, k') \<Longrightarrow> edited k' = edit_step (edited k) c"
  by (auto simp: commit_char_def edited_def edit_step_def butlast_conv_take take_map split: if_splits)

lemma commit_inv: "kbd_inv k \<Longrightarrow> commit_char c k = (out, act, k') \<Longrightarrow> kbd_inv k'"
  using push_inv push_all_inv
  by (auto simp: commit_char_def EDIT_LINE_MAX_def split: if_splits) (auto simp: kbd_inv_def EDIT_LINE_MAX_def)

lemma chars_edit_upd [simp]:
  "kbd_chars (k\<lparr>edit_len := n\<rparr>) = kbd_chars k" "kbd_chars (k\<lparr>edit_line := f\<rparr>) = kbd_chars k"
  by (simp_all add: kbd_chars_def kbd_used_def)

lemma commit_chars:
  assumes "kbd_inv k" "commit_char c k = (out, act, k')"
    and "c = CHR 0x0A \<Longrightarrow> kbd_used k + edit_len k < KBD_QUEUE_SIZE - 1"
  shows "kbd_chars k' = (if c = CHR 0x0A then kbd_chars k @ edited k @ [c] else kbd_chars k)"
proof (cases "c = CHR 0x0A")
  case True
  let ?k = "fold kbd_queue_push (edited k) k"
  have "kbd_inv ?k" "kbd_chars ?k = kbd_chars k @ edited k"
    using kbdq.push_all [of k "edited k"] assms(1,3) True by auto
  moreover have "kbd_chars (kbd_queue_push c ?k) = kbd_chars ?k @ [c]"
    using calculation assms(3) True by (intro kbdq.push_content) (auto simp flip: kbd_chars_length)
  ultimately show ?thesis using assms(2) True by (auto simp: commit_char_def)
next
  case False
  then show ?thesis using assms(2) by (auto simp: commit_char_def split: if_splits)
qed

section \<open>Properties\<close>

lemma kbd_static_inv: "kbd_inv kbd_static"
  by (simp add: kbd_static_def kbd_inv_def KBD_QUEUE_SIZE_def EDIT_LINE_MAX_def)

text \<open>A sequence of committed characters.\<close>

fun type_chars :: "string \<Rightarrow> kbd \<Rightarrow> kbd" where
  "type_chars [] k = k"
| "type_chars (c # cs) k = type_chars cs (snd (snd (commit_char c k)))"

lemma type_chars_edit:
  assumes "kbd_inv k" "CHR 0x0A \<notin> set cs"
  shows "kbd_inv (type_chars cs k) \<and> edited (type_chars cs k) = foldl edit_step (edited k) cs \<and>
    kbd_chars (type_chars cs k) = kbd_chars k"
  using assms
proof (induction cs arbitrary: k)
  case (Cons c cs)
  obtain out act k' where c: "commit_char c k = (out, act, k')" by (metis surj_pair)
  have "kbd_inv k'" "edited k' = edit_step (edited k) c" "kbd_chars k' = kbd_chars k"
    using commit_inv [OF Cons.prems(1) c] commit_edited [OF Cons.prems(1) c] commit_chars [OF Cons.prems(1) c] Cons.prems(2)
    by auto
  with Cons c show ?case by auto
qed simp

lemma line_of_more:
  "stop \<notin> set xs \<Longrightarrow> length xs < n \<Longrightarrow> line_of (\<lambda>c. c = stop) n (xs @ [stop]) = xs @ [stop]"
proof (induction xs arbitrary: n)
  case Nil
  then show ?case by (cases n) auto
next
  case (Cons x xs)
  then show ?case by (cases n) auto
qed

text \<open>C13. The cooked line discipline: after any typing (with backspaces) on an empty edit line
  and Enter, a reader that asks for enough bytes gets exactly the edited line with its
  newline, and the queue is empty again.\<close>

theorem keyboard_line_roundtrip:
  assumes "kbd_inv k" "edit_len k = 0" "kbd_chars k = []" "CHR 0x0A \<notin> set cs"
    and "length (foldl edit_step [] cs) < n"
  shows "\<exists>k'. keyboard_read n (type_chars (cs @ [CHR 0x0A]) k) = (Done (foldl edit_step [] cs @ [CHR 0x0A]), k') \<and>
    kbd_chars k' = []"
proof -
  let ?l = "foldl edit_step [] cs" and ?k1 = "type_chars cs k"
  have e0: "edited k = []" using assms(2) by (simp add: edited_def)
  note t = type_chars_edit [OF assms(1,4), unfolded e0 assms(3)]
  obtain out act k2 where c: "commit_char (CHR 0x0A) ?k1 = (out, act, k2)" by (metis surj_pair)
  have tt: "type_chars (cs @ [CHR 0x0A]) k = k2"
    using c by (induction cs arbitrary: k) auto
  have "edit_len ?k1 < EDIT_LINE_MAX" using t by (simp add: kbd_inv_def)
  moreover have "kbd_used ?k1 = 0" using t by (metis kbd_chars_length list.size(3))
  ultimately have "kbd_used ?k1 + edit_len ?k1 < KBD_QUEUE_SIZE - 1" by (simp add: EDIT_LINE_MAX_def KBD_QUEUE_SIZE_def)
  then have k2: "kbd_inv k2" "kbd_chars k2 = ?l @ [CHR 0x0A]"
    using commit_chars [OF _ c] commit_inv [OF _ c] t by auto
  have nl: "CHR 0x0A \<notin> set (foldl edit_step l cs)" if "CHR 0x0A \<notin> set l" for l
    using that assms(4) by (induction cs arbitrary: l) (auto simp: edit_step_def dest: in_set_butlastD)
  obtain x k3 where p: "kbd_queue_pop k2 = Some (x, k3)" using k2 kbdq.pop_None [of k2] by (cases "kbd_queue_pop k2") auto
  have k3: "kbd_inv k3" "x # kbd_chars k3 = ?l @ [CHR 0x0A]" using kbdq.pop_Some [OF k2(1) p] k2(2) by auto
  show ?thesis
  proof (cases ?l)
    case Nil
    then show ?thesis using k3 p tt by (auto simp: keyboard_read_def)
  next
    case (Cons y ys)
    then have x: "x = y" "kbd_chars k3 = ys @ [CHR 0x0A]" "x \<noteq> CHR 0x0A" "CHR 0x0A \<notin> set ys"
      using k3 nl [of "[]"] by auto
    obtain zs k4 where d: "drain_until (\<lambda>c. c = CHR 0x0A) kbd_queue_pop (n - 1) k3 = (zs, k4)" by (metis surj_pair)
    note dc = kbdq.drain_until_content [OF k3(1) d]
    have "zs = line_of (\<lambda>c. c = CHR 0x0A) (n - 1) (ys @ [CHR 0x0A])" using dc unfolding x(2) by blast
    also have "\<dots> = ys @ [CHR 0x0A]" using assms(5) Cons x(4) by (intro line_of_more) auto
    finally have zs: "zs = ys @ [CHR 0x0A]" .
    have "kbd_chars k3 = zs @ kbd_chars k4" using dc by blast
    then have "kbd_chars k4 = []" unfolding zs x(2) by simp
    note this zs
    then show ?thesis using Cons x p d tt by (simp add: keyboard_read_def)
  qed
qed

theorem keyboard_line_roundtrip_witness:
  "\<exists>k'. keyboard_read 80 (type_chars [CHR 0x61, CHR 0x62, CHR 0x08, CHR 0x0A] kbd_static) =
     (Done [CHR 0x61, CHR 0x0A], k') \<and> kbd_chars k' = []"
proof -
  have "foldl edit_step [] [CHR 0x61, CHR 0x62, CHR 0x08] = [CHR 0x61]"
    by (simp add: edit_step_def EDIT_LINE_MAX_def)
  moreover have "edit_len kbd_static = 0" "kbd_chars kbd_static = []"
    by (simp_all add: kbd_static_def kbd_chars_def kbd_used_def)
  ultimately show ?thesis
    using keyboard_line_roundtrip [OF kbd_static_inv, of "[CHR 0x61, CHR 0x62, CHR 0x08]" 80] by simp
qed

lemma keyboard_ops:
  assumes "kbd_inv k"
  shows "kbd_inv (snd (snd (keyboard_handle_scancode sc k))) \<and> kbd_inv (tty_set_raw e k) \<and>
    kbd_inv (tty_set_echo e k) \<and> kbd_inv (snd (keyboard_read n k))"
proof -
  have "kbd_inv (snd (snd (commit_char c k)))" for c using commit_inv [OF assms] by (metis prod.collapse)
  then have "kbd_inv (snd (snd (keyboard_handle_scancode sc k)))"
    using assms push_inv [OF assms] by (auto simp: keyboard_handle_scancode_def Let_def kbd_inv_def)
  moreover have "kbd_inv (snd (keyboard_read n k))"
  proof (cases "kbd_queue_pop k")
    case (Some r)
    obtain x k1 where r: "r = (x, k1)" by (cases r)
    have k1: "kbd_inv k1" using kbdq.pop_Some [OF assms] Some r by auto
    obtain zs k2 where d: "drain_until (\<lambda>c. c = CHR 0x0A) kbd_queue_pop (n - 1) k1 = (zs, k2)" by (metis surj_pair)
    show ?thesis using Some r k1 d kbdq.drain_until_content [OF k1 d, THEN conjunct1] by (simp add: keyboard_read_def)
  qed (use assms in \<open>simp add: keyboard_read_def\<close>)
  moreover have "kbd_inv (tty_set_raw e k)" "kbd_inv (tty_set_echo e k)"
    using assms by (simp_all add: tty_set_raw_def tty_set_echo_def kbd_inv_def EDIT_LINE_MAX_def)
  ultimately show ?thesis by blast
qed

text \<open>C14. Every driver operation keeps its indices in bounds: the queue positions stay inside
  the queue array and the edit line inside its buffer, for every scancode and mode.\<close>

theorem keyboard_inv:
  assumes "kbd_inv k"
  shows "kbd_inv (snd (snd (keyboard_handle_scancode sc k))) \<and> kbd_inv (tty_set_raw e k) \<and>
    kbd_inv (tty_set_echo e k) \<and> kbd_inv (snd (keyboard_read n k))"
  by (rule keyboard_ops [OF assms])

theorem keyboard_inv_witness: "kbd_inv (snd (snd (keyboard_handle_scancode 0x1E kbd_static)))"
  using keyboard_inv [OF kbd_static_inv] by blast

end
