(* ===== verification/Kstate.thy ===== *)
theory Kstate
  imports Tmpfs Fat Keyboard
begin

text \<open>
  The state of the whole kernel as one record: memory, the three file systems, pipes, keyboard,
  scheduler and the process table (\<^verbatim>\<open>kernel/process.h\<close>), with access to a vnode through a vnode
  pointer, and the devices of \<^verbatim>\<open>kernel/devfs.c\<close>. A process pointer is the number of its slot in
  the process pool. \<open>k_term\<close> is the sequence of characters handed to the terminal.
\<close>

section \<open>Processes\<close>

definition MAX_FDS :: nat where [simp]: "MAX_FDS = 16"
definition MAX_PROCESSES :: nat where [simp]: "MAX_PROCESSES = 16"
definition FOREGROUND_MAX_PIDS :: nat where [simp]: "FOREGROUND_MAX_PIDS = 8"

record fd_entry =
  fd_node :: "vptr option"
  fd_offset :: nat
  fd_used :: bool
  access_mode :: nat

record process =
  pml4_phys :: nat
  fds :: "nat \<Rightarrow> fd_entry"
  heap_start :: nat
  heap_end :: nat
  mmap_next :: nat
  cwd :: string
  p_uid :: nat
  p_gid :: nat
  fs_base :: nat
  pid :: int
  parent_pid :: int
  exit_code :: int
  is_zombie :: bool
  is_stopped :: bool
  stop_signal :: int
  stop_reported :: bool
  p_task :: "nat option"

definition fd_zero :: fd_entry where
  "fd_zero = \<lparr>fd_node = None, fd_offset = 0, fd_used = False, access_mode = 0\<rparr>"

definition process_zero :: process where
  "process_zero = \<lparr>pml4_phys = 0, fds = \<lambda>_. fd_zero, heap_start = 0, heap_end = 0, mmap_next = 0, cwd = [],
     p_uid = 0, p_gid = 0, fs_base = 0, pid = 0, parent_pid = 0, exit_code = 0, is_zombie = False,
     is_stopped = False, stop_signal = 0, stop_reported = False, p_task = None\<rparr>"

record procs =
  process_pool :: "nat \<Rightarrow> process"
  process_count :: int
  next_pid :: int
  foreground_pids :: "nat \<Rightarrow> int"
  foreground_count :: nat

record devfs =
  console_vnode :: vnode
  null_vnode :: vnode
  zero_vnode :: vnode

record kst =
  k_mm :: mm
  k_tmp :: tmpfs
  k_dev :: devfs
  k_disk :: disk
  k_fat :: fat
  k_pipes :: pipes
  k_kbd :: kbd
  k_term :: string
  k_sched :: sched
  k_root :: vptr
  k_procs :: procs

abbreviation proc :: "kst \<Rightarrow> nat \<Rightarrow> process" where
  "proc s i \<equiv> process_pool (k_procs s) i"

definition upd_proc :: "nat \<Rightarrow> (process \<Rightarrow> process) \<Rightarrow> kst \<Rightarrow> kst" where
  "upd_proc i f s = s\<lparr>k_procs := (k_procs s)\<lparr>process_pool := (process_pool (k_procs s))(i := f (proc s i))\<rparr>\<rparr>"

section \<open>Vnodes\<close>

text \<open>The vnodes of a pipe are zeroed when the pipe is created and never changed.\<close>

definition pipe_vnode :: "vnode_ops \<Rightarrow> vnode" where
  "pipe_vnode ops = vnode_zero\<lparr>v_type := VNODE_FILE, v_ops := Some ops, v_parent := None\<rparr>"

definition vnode_at :: "kst \<Rightarrow> vptr \<Rightarrow> vnode" where
  "vnode_at s p = (case p of
      VTmp i \<Rightarrow> n_vnode (node_pool (k_tmp s) i)
    | VFat i \<Rightarrow> fnode_pool (k_fat s) i
    | VConsole \<Rightarrow> console_vnode (k_dev s)
    | VNull \<Rightarrow> null_vnode (k_dev s)
    | VZero \<Rightarrow> zero_vnode (k_dev s)
    | VPipeR i \<Rightarrow> pipe_vnode Pipe_read_ops
    | VPipeW i \<Rightarrow> pipe_vnode Pipe_write_ops)"

definition set_vnode :: "vptr \<Rightarrow> (vnode \<Rightarrow> vnode) \<Rightarrow> kst \<Rightarrow> kst" where
  "set_vnode p g s = (case p of
      VTmp i \<Rightarrow> s\<lparr>k_tmp := upd_node i (\<lambda>n. n\<lparr>n_vnode := g (n_vnode n)\<rparr>) (k_tmp s)\<rparr>
    | VFat i \<Rightarrow> s\<lparr>k_fat := (k_fat s)\<lparr>fnode_pool := (fnode_pool (k_fat s))(i := g (fnode_pool (k_fat s) i))\<rparr>\<rparr>
    | VConsole \<Rightarrow> s\<lparr>k_dev := (k_dev s)\<lparr>console_vnode := g (console_vnode (k_dev s))\<rparr>\<rparr>
    | VNull \<Rightarrow> s\<lparr>k_dev := (k_dev s)\<lparr>null_vnode := g (null_vnode (k_dev s))\<rparr>\<rparr>
    | VZero \<Rightarrow> s\<lparr>k_dev := (k_dev s)\<lparr>zero_vnode := g (zero_vnode (k_dev s))\<rparr>\<rparr>
    | VPipeR i \<Rightarrow> s
    | VPipeW i \<Rightarrow> s)"

lemma vnode_set_same: "(\<forall>i. p \<noteq> VPipeR i \<and> p \<noteq> VPipeW i) \<Longrightarrow> vnode_at (set_vnode p g s) p = g (vnode_at s p)"
  by (cases p) (auto simp: vnode_at_def set_vnode_def)

lemma vnode_set_other: "q \<noteq> p \<Longrightarrow> vnode_at (set_vnode p g s) q = vnode_at s q"
  by (cases p; cases q) (auto simp: vnode_at_def set_vnode_def)

lemma set_vnode_procs [simp]: "k_procs (set_vnode p g s) = k_procs s" "k_sched (set_vnode p g s) = k_sched s"
  "k_mm (set_vnode p g s) = k_mm s"
  by (cases p; simp add: set_vnode_def)+

section \<open>Devices\<close>

text \<open>The mode 0666 of the devices.\<close>

definition device_vnode :: "string \<Rightarrow> vnode_ops \<Rightarrow> vnode" where
  "device_vnode name ops = vnode_zero\<lparr>v_type := VNODE_FILE, v_name := name, v_ops := Some ops, v_parent := None, v_mode := 438\<rparr>"

definition devfs_static :: devfs where
  "devfs_static = \<lparr>console_vnode = device_vnode ''tty'' Console_ops, null_vnode = device_vnode ''null'' Null_ops,
     zero_vnode = device_vnode ''zero'' Zero_ops\<rparr>"

definition devices :: "(string \<times> vptr) list" where
  "devices = [(''tty'', VConsole), (''null'', VNull), (''zero'', VZero)]"

definition devfs_lookup :: "string \<Rightarrow> vptr option" where
  "devfs_lookup name = map_option snd (find (\<lambda>(n, v). k_strcmp n name = 0) devices)"

definition devfs_readdir :: "int \<Rightarrow> nat \<Rightarrow> string option" where
  "devfs_readdir index sz =
     (if index < 0 \<or> nat index \<ge> length devices then None else Some (name_copy (fst (devices ! nat index)) sz))"

definition devfs_install :: "vptr \<Rightarrow> kst \<Rightarrow> kst" where
  "devfs_install dir s =
     (let par = (\<lambda>v. v\<lparr>v_parent := Some dir\<rparr>) in
      set_vnode dir (\<lambda>v. v\<lparr>v_ops := Some Devfs_dir_ops\<rparr>)
        (set_vnode VZero par (set_vnode VNull par (set_vnode VConsole par s))))"

definition devfs_console_vnode :: vptr where
  "devfs_console_vnode = VConsole"

definition console_write :: "bytes \<Rightarrow> kst \<Rightarrow> int \<times> kst" where
  "console_write src s = (int (length src), s\<lparr>k_term := k_term s @ map to_char src\<rparr>)"

definition console_read :: "nat \<Rightarrow> kst \<Rightarrow> bytes io \<times> kst" where
  "console_read count s =
     (case keyboard_read count (k_kbd s) of
        (Done cs, k) \<Rightarrow> (Done (map of_ch cs), s\<lparr>k_kbd := k\<rparr>)
      | (Block ch n, k) \<Rightarrow> (Block ch n, s\<lparr>k_kbd := k\<rparr>))"

definition null_read :: bytes where "null_read = []"

definition null_write :: "bytes \<Rightarrow> int" where "null_write src = int (length src)"

definition zero_read :: "nat \<Rightarrow> bytes" where "zero_read count = replicate count 0"

end
