(* ===== verification/Vfs.thy ===== *)
theory Vfs
  imports Kstate
begin

text \<open>
  The virtual file system, \<^verbatim>\<open>kernel/vfs.c\<close>: the calls through the operation tables of the
  vnodes, permission checks, pth resolution, canonical paths, the start of the file tree and
  the reading of whole files.

  An operation that may not return (a cyclic cluster chain, a null pointer dereference in the
  kernel, a cast of a vnode to the object of another file system) has the value \<open>None\<close>. Reads
  and writes return an \<open>io\<close> value, since a pipe or the keyboard may put the caller to sleep.
\<close>

section \<open>Calls through the operation tables\<close>

text \<open>Which entries of the tables of \<^verbatim>\<open>tmpfs.c\<close>, \<^verbatim>\<open>devfs.c\<close>, \<^verbatim>\<open>pipe.c\<close> and \<^verbatim>\<open>fat.c\<close> are not null.\<close>

definition has_read :: "vnode_ops \<Rightarrow> bool" where
  "has_read t \<longleftrightarrow> t \<in> {Tmpfs_file_ops, Console_ops, Null_ops, Zero_ops, Pipe_read_ops, Fat_file_ops}"

definition has_write :: "vnode_ops \<Rightarrow> bool" where
  "has_write t \<longleftrightarrow> t \<in> {Tmpfs_file_ops, Console_ops, Null_ops, Zero_ops, Pipe_write_ops, Fat_file_ops}"

definition has_lookup :: "vnode_ops \<Rightarrow> bool" where
  "has_lookup t \<longleftrightarrow> t \<in> {Tmpfs_dir_ops, Devfs_dir_ops, Fat_dir_ops}"

definition has_readdir :: "vnode_ops \<Rightarrow> bool" where
  "has_readdir t \<longleftrightarrow> t \<in> {Tmpfs_dir_ops, Devfs_dir_ops, Fat_dir_ops}"

definition has_mutate :: "vnode_ops \<Rightarrow> bool" where
  "has_mutate t \<longleftrightarrow> t \<in> {Tmpfs_dir_ops, Fat_dir_ops}"

definition has_stat :: "vnode_ops \<Rightarrow> bool" where
  "has_stat t \<longleftrightarrow> t \<in> {Tmpfs_file_ops, Fat_file_ops}"

definition has_dup :: "vnode_ops \<Rightarrow> bool" where
  "has_dup t \<longleftrightarrow> t \<in> {Pipe_read_ops, Pipe_write_ops}"

definition has_close :: "vnode_ops \<Rightarrow> bool" where
  "has_close t \<longleftrightarrow> t \<in> {Pipe_read_ops, Pipe_write_ops}"

text \<open>\<^verbatim>\<open>node->ops && node->ops->f\<close>.\<close>

definition has_op :: "(vnode_ops \<Rightarrow> bool) \<Rightarrow> vptr \<Rightarrow> kst \<Rightarrow> bool" where
  "has_op f p s = (case v_ops (vnode_at s p) of None \<Rightarrow> False | Some t \<Rightarrow> f t)"

definition with_fat :: "(disk \<times> fat \<Rightarrow> ('a \<times> disk \<times> fat) option) \<Rightarrow> kst \<Rightarrow> ('a \<times> kst) option" where
  "with_fat f s = map_option (\<lambda>(r, d, v). (r, s\<lparr>k_disk := d, k_fat := v\<rparr>)) (f (k_disk s, k_fat s))"

definition with_tmp :: "(mm \<times> tmpfs \<Rightarrow> 'a \<times> mm \<times> tmpfs) \<Rightarrow> kst \<Rightarrow> 'a \<times> kst" where
  "with_tmp f s = (let (r, m, t) = f (k_mm s, k_tmp s) in (r, s\<lparr>k_mm := m, k_tmp := t\<rparr>))"

definition with_pipe :: "(pipes \<times> sched \<Rightarrow> 'a \<times> pipes \<times> sched) \<Rightarrow> kst \<Rightarrow> 'a \<times> kst" where
  "with_pipe f s = (let (r, p, c) = f (k_pipes s, k_sched s) in (r, s\<lparr>k_pipes := p, k_sched := c\<rparr>))"

definition vnode_read :: "vptr \<Rightarrow> nat \<Rightarrow> nat \<Rightarrow> kst \<Rightarrow> (bytes io \<times> kst) option" where
  "vnode_read p count offset s = (case (v_ops (vnode_at s p), p) of
      (Some Tmpfs_file_ops, VTmp i) \<Rightarrow> Some (Done (tmpfs_file_read i count offset (k_mm s, k_tmp s)), s)
    | (Some Fat_file_ops, _) \<Rightarrow> map_option (map_prod Done id) (with_fat (fat_file_read p count offset) s)
    | (Some Console_ops, _) \<Rightarrow> Some (console_read count s)
    | (Some Null_ops, _) \<Rightarrow> Some (Done null_read, s)
    | (Some Zero_ops, _) \<Rightarrow> Some (Done (zero_read count), s)
    | (Some Pipe_read_ops, VPipeR i) \<Rightarrow> Some (with_pipe (pipe_read i count) s)
    | _ \<Rightarrow> None)"

text \<open>\<open>n\<close> bytes of a write that was put to sleep are already written.\<close>

definition vnode_write :: "vptr \<Rightarrow> bytes \<Rightarrow> nat \<Rightarrow> nat \<Rightarrow> kst \<Rightarrow> (int io \<times> kst) option" where
  "vnode_write p src offset n s = (case (v_ops (vnode_at s p), p) of
      (Some Tmpfs_file_ops, VTmp i) \<Rightarrow>
        map_option (\<lambda>(r, m, t). (Done r, s\<lparr>k_mm := m, k_tmp := t\<rparr>)) (tmpfs_file_write i src offset (k_mm s, k_tmp s))
    | (Some Fat_file_ops, _) \<Rightarrow> map_option (map_prod Done id) (with_fat (fat_file_write p src offset) s)
    | (Some Console_ops, _) \<Rightarrow> Some (map_prod Done id (console_write src s))
    | (Some Null_ops, _) \<Rightarrow> Some (Done (null_write src), s)
    | (Some Zero_ops, _) \<Rightarrow> Some (Done (null_write src), s)
    | (Some Pipe_write_ops, VPipeW i) \<Rightarrow> Some (with_pipe (pipe_write i src n) s)
    | _ \<Rightarrow> None)"

definition vnode_lookup :: "vptr \<Rightarrow> string \<Rightarrow> kst \<Rightarrow> (vptr option \<times> kst) option" where
  "vnode_lookup p name s = (case (v_ops (vnode_at s p), p) of
      (Some Tmpfs_dir_ops, VTmp i) \<Rightarrow> Some (map_option VTmp (tmpfs_dir_lookup i name (k_tmp s)), s)
    | (Some Devfs_dir_ops, _) \<Rightarrow> Some (devfs_lookup name, s)
    | (Some Fat_dir_ops, _) \<Rightarrow> with_fat (fat_dir_lookup p name) s
    | _ \<Rightarrow> None)"

definition vnode_readdir :: "vptr \<Rightarrow> int \<Rightarrow> nat \<Rightarrow> kst \<Rightarrow> (string option \<times> kst) option" where
  "vnode_readdir p index sz s = (case (v_ops (vnode_at s p), p) of
      (Some Tmpfs_dir_ops, VTmp i) \<Rightarrow> Some (tmpfs_dir_readdir i index sz (k_tmp s), s)
    | (Some Devfs_dir_ops, _) \<Rightarrow> Some (devfs_readdir index sz, s)
    | (Some Fat_dir_ops, _) \<Rightarrow> with_fat (fat_dir_readdir p index sz) s
    | _ \<Rightarrow> None)"

definition vnode_mkdir :: "vptr \<Rightarrow> string \<Rightarrow> kst \<Rightarrow> (int \<times> kst) option" where
  "vnode_mkdir p name s = (case (v_ops (vnode_at s p), p) of
      (Some Tmpfs_dir_ops, VTmp i) \<Rightarrow>
        Some (let (r, t) = tmpfs_dir_mkdir i name (k_tmp s) in (r, s\<lparr>k_tmp := t\<rparr>))
    | (Some Fat_dir_ops, _) \<Rightarrow> with_fat (fat_dir_mkdir p name) s
    | _ \<Rightarrow> None)"

definition vnode_create :: "vptr \<Rightarrow> string \<Rightarrow> kst \<Rightarrow> (int \<times> kst) option" where
  "vnode_create p name s = (case (v_ops (vnode_at s p), p) of
      (Some Tmpfs_dir_ops, VTmp i) \<Rightarrow> Some (with_tmp (tmpfs_dir_create i name) s)
    | (Some Fat_dir_ops, _) \<Rightarrow> with_fat (fat_dir_create p name) s
    | _ \<Rightarrow> None)"

definition vnode_unlink :: "vptr \<Rightarrow> string \<Rightarrow> kst \<Rightarrow> (int \<times> kst) option" where
  "vnode_unlink p name s = (case (v_ops (vnode_at s p), p) of
      (Some Tmpfs_dir_ops, VTmp i) \<Rightarrow> Some (with_tmp (tmpfs_dir_unlink i name) s)
    | (Some Fat_dir_ops, _) \<Rightarrow> with_fat (fat_dir_unlink p name) s
    | _ \<Rightarrow> None)"

text \<open>Both \<^verbatim>\<open>stat\<close> functions return 0; the size they store.\<close>

definition vnode_stat :: "vptr \<Rightarrow> kst \<Rightarrow> nat option" where
  "vnode_stat p s = (case (v_ops (vnode_at s p), p) of
      (Some Tmpfs_file_ops, VTmp i) \<Rightarrow> Some (tmpfs_file_stat i (k_tmp s))
    | (Some Fat_file_ops, _) \<Rightarrow> Some (fat_file_stat p (k_fat s))
    | _ \<Rightarrow> None)"

definition vnode_dup :: "vptr \<Rightarrow> kst \<Rightarrow> kst" where
  "vnode_dup p s = (case p of
      VPipeR i \<Rightarrow> s\<lparr>k_pipes := pipe_read_dup i (k_pipes s)\<rparr>
    | VPipeW i \<Rightarrow> s\<lparr>k_pipes := pipe_write_dup i (k_pipes s)\<rparr>
    | _ \<Rightarrow> s)"

definition vnode_close :: "vptr \<Rightarrow> kst \<Rightarrow> kst" where
  "vnode_close p s = (case p of
      VPipeR i \<Rightarrow> snd (with_pipe (Pair () \<circ> pipe_read_close i) s)
    | VPipeW i \<Rightarrow> snd (with_pipe (Pair () \<circ> pipe_write_close i) s)
    | _ \<Rightarrow> s)"

section \<open>Permissions\<close>

definition perm_bits :: "vnode \<Rightarrow> nat \<Rightarrow> nat \<Rightarrow> nat" where
  "perm_bits v uid gid =
     (if uid = v_uid v then v_mode v div 64 mod 8
      else if gid = v_gid v then v_mode v div 8 mod 8
      else v_mode v mod 8)"

definition vfs_check_perm :: "vnode \<Rightarrow> nat \<Rightarrow> nat \<Rightarrow> nat \<Rightarrow> bool" where
  "vfs_check_perm v uid gid want \<longleftrightarrow> uid = 0 \<or> and (perm_bits v uid gid) want = want"

section \<open>Paths\<close>

text \<open>Subtraction of \<^verbatim>\<open>uint64_t\<close>.\<close>

definition usub :: "nat \<Rightarrow> nat \<Rightarrow> nat" where
  "usub a b = wrap64 (a + 2 ^ 64 - b)"

definition basename_of :: "string \<Rightarrow> string" where
  "basename_of pth = rev (takeWhile (\<lambda>c. c \<noteq> CHR ''/'') (rev pth))"

text \<open>The position of the last slash, and the two parts. The sizes of the two buffers are not 0.\<close>

definition last_slash :: "string \<Rightarrow> nat option" where
  "last_slash pth =
     (let n = length (basename_of pth) in if n = length pth then None else Some (length pth - n - 1))"

definition vfs_split_path :: "string \<Rightarrow> nat \<Rightarrow> nat \<Rightarrow> string \<times> string" where
  "vfs_split_path pth dir_out_size base_out_size =
     (case last_slash pth of
        None \<Rightarrow> (''.'', take (base_out_size - 1) pth)
      | Some k \<Rightarrow>
          ((if k = 0 then ''/'' else take (if k \<ge> dir_out_size then dir_out_size - 1 else k) pth),
           take (base_out_size - 1) (drop (k + 1) pth)))"

definition vfs_root :: "kst \<Rightarrow> vptr" where
  "vfs_root s = k_root s"

text \<open>The loop of \<^verbatim>\<open>vfs_resolve_path\<close> cuts the path into components of at most 63 characters.\<close>

function components :: "string \<Rightarrow> string list" where
  "components [] = []"
| "components (c # cs) =
     (let cm = take (VFS_MAX_NAME - 1) (takeWhile (\<lambda>c. c \<noteq> CHR ''/'') (c # cs));
          rest = drop (length cm) (c # cs)
      in cm # components (if rest \<noteq> [] \<and> hd rest = CHR ''/'' then tl rest else rest))"
  by pat_completeness auto
termination
  by (relation "measure length") (auto simp: VFS_MAX_NAME_def Let_def split: if_splits)

declare components.simps [simp del]

fun walk :: "string list \<Rightarrow> vptr option \<Rightarrow> kst \<Rightarrow> (vptr option \<times> kst) option" where
  "walk [] cur s = Some (cur, s)"
| "walk (cm # cs) cur s =
     (if cm = [] \<or> cm = ''.'' then walk cs cur s
      else case cur of None \<Rightarrow> None
        | Some c \<Rightarrow>
            (if cm = ''..'' then walk cs (v_parent (vnode_at s c)) s
             else if \<not> has_op has_lookup c s then Some (None, s)
             else case vnode_lookup c cm s of None \<Rightarrow> None
               | Some (None, s1) \<Rightarrow> Some (None, s1)
               | Some (Some c1, s1) \<Rightarrow> walk cs (Some c1) s1))"

definition vfs_resolve_path :: "string \<Rightarrow> kst \<Rightarrow> (vptr option \<times> kst) option" where
  "vfs_resolve_path pth s =
     (case pth of [] \<Rightarrow> Some (None, s)
      | c # p \<Rightarrow> if c \<noteq> CHR ''/'' then Some (None, s) else walk (components p) (Some (k_root s)) s)"

definition vfs_combine_path :: "string \<Rightarrow> string \<Rightarrow> nat \<Rightarrow> string" where
  "vfs_combine_path dir pth out_size =
     (if (pth \<noteq> [] \<and> hd pth = CHR ''/'') \<or> out_size = 0 then name_copy pth out_size
      else let a = take (usub out_size 2) dir;
               b = (if a = [] \<or> List.last a \<noteq> CHR ''/'' then a @ ''/'' else a)
           in b @ take (out_size - 1 - length b) pth)"

definition vfs_resolve_path_cwd :: "string \<Rightarrow> string \<Rightarrow> kst \<Rightarrow> (vptr option \<times> kst) option" where
  "vfs_resolve_path_cwd dir pth = vfs_resolve_path (vfs_combine_path dir pth VFS_MAX_PATH)"

text \<open>The result with the name stored in the caller's buffer.\<close>

definition vfs_readdir_path :: "string \<Rightarrow> string \<Rightarrow> int \<Rightarrow> nat \<Rightarrow> kst \<Rightarrow> ((int \<times> string option) \<times> kst) option" where
  "vfs_readdir_path dir pth index sz s =
     do { (r, s1) \<leftarrow> vfs_resolve_path_cwd dir pth s;
          case r of None \<Rightarrow> Some ((- ENOENT, None), s1)
          | Some node \<Rightarrow>
              if v_type (vnode_at s1 node) \<noteq> VNODE_DIR \<or> \<not> has_op has_readdir node s1 then Some ((- ENOTDIR, None), s1)
              else do { (n, s2) \<leftarrow> vnode_readdir node index sz s1;
                        Some ((if n = None then 0 else 1, n), s2) } }"

section \<open>Canonical paths\<close>

text \<open>The vnodes on the way up, the start first, at most as many as the stack holds.\<close>

fun climb :: "nat \<Rightarrow> kst \<Rightarrow> vptr option \<Rightarrow> vptr list option" where
  "climb k s None = None"
| "climb 0 s (Some cur) = Some []"
| "climb (Suc k) s (Some cur) =
     (if v_parent (vnode_at s cur) = Some cur then Some []
      else map_option (Cons cur) (climb k s (v_parent (vnode_at s cur))))"

text \<open>The names from the top down, behind what is already in the buffer.\<close>

fun emit :: "nat \<Rightarrow> string \<Rightarrow> string list \<Rightarrow> string" where
  "emit sz out [] = out"
| "emit sz out (n # ns) =
     (let o1 = out @ take (sz - 1 - length out) n
      in emit sz (if ns \<noteq> [] \<and> length o1 + 1 < sz then o1 @ ''/'' else o1) ns)"

definition vfs_canonical_path :: "vptr \<Rightarrow> nat \<Rightarrow> kst \<Rightarrow> string option" where
  "vfs_canonical_path node out_size s =
     map_option (\<lambda>stack.
         let out = emit out_size (if out_size > 0 then ''/'' else []) (map (\<lambda>p. v_name (vnode_at s p)) (rev stack))
         in if length out < out_size then out else take (out_size - 1) out)
       (climb VFS_MAX_PATH s (Some node))"

section \<open>Reading a whole file\<close>

definition VFS_READ_INITIAL_PAGES :: nat where [simp]: "VFS_READ_INITIAL_PAGES = 4"

text \<open>\<open>Loaded\<close>: the buffer with the size of the file and the pages of the buffer. \<open>LoadWait\<close>: the
  read sleeps on a channel, with the frame of the buffer, its pages and the bytes read so
  far. No read of the kernel returns a negative number.\<close>

datatype load = Loaded nat nat nat | LoadFailed | LoadWait chan nat nat nat

partial_function (option) read_all :: "vptr \<Rightarrow> nat \<Rightarrow> nat \<Rightarrow> nat \<Rightarrow> kst \<Rightarrow> (load \<times> kst) option" where
  "read_all node fr cap_pages got s =
     (let cap_bytes = cap_pages * PAGE_SIZE in
      case vnode_read node (cap_bytes - got) got s of None \<Rightarrow> None
      | Some (Block ch n, s1) \<Rightarrow> Some (LoadWait ch fr cap_pages got, s1)
      | Some (Done bs, s1) \<Rightarrow>
          if bs = [] then Some (Loaded (vmm_hhdm_offset (k_mm s1) + fr) got cap_pages, s1)
          else
            let m1 = k_mm s1; m2 = m1\<lparr>phys := mem_write (phys m1) (fr + got) bs\<rparr>;
                got1 = got + length bs
            in if got1 = cap_bytes then
                 let (fr2, p) = pmm_alloc_pages (cap_pages * 2) (frames m2) in
                 if fr2 = 0 then
                   Some (LoadFailed, s1\<lparr>k_mm := m2\<lparr>frames := pmm_free_pages fr cap_pages p\<rparr>\<rparr>)
                 else read_all node fr2 (cap_pages * 2) got1
                   (s1\<lparr>k_mm := m2\<lparr>phys := k_memcpy fr2 fr got1 (phys m2), frames := pmm_free_pages fr cap_pages p\<rparr>\<rparr>)
               else read_all node fr cap_pages got1 (s1\<lparr>k_mm := m2\<rparr>))"

definition vfs_read_file_alloc :: "vptr \<Rightarrow> kst \<Rightarrow> (load \<times> kst) option" where
  "vfs_read_file_alloc node s =
     (if \<not> has_op has_read node s then Some (LoadFailed, s)
      else let (fr, p) = pmm_alloc_pages VFS_READ_INITIAL_PAGES (frames (k_mm s));
               s1 = s\<lparr>k_mm := (k_mm s)\<lparr>frames := p\<rparr>\<rparr>
           in if fr = 0 then Some (LoadFailed, s1) else read_all node fr VFS_READ_INITIAL_PAGES 0 s1)"

definition vfs_read_file_free :: "nat \<Rightarrow> nat \<Rightarrow> kst \<Rightarrow> kst" where
  "vfs_read_file_free buf npages s =
     (if buf = 0 \<or> npages = 0 then s
      else s\<lparr>k_mm := (k_mm s)\<lparr>frames := pmm_free_pages (buf - vmm_hhdm_offset (k_mm s)) npages (frames (k_mm s))\<rparr>\<rparr>)"

section \<open>The tree at start\<close>

text \<open>A boot module: its path and its contents. \<open>None\<close> is a null pointer dereference.\<close>

definition seed_file :: "nat \<Rightarrow> string \<Rightarrow> bytes \<Rightarrow> kst \<Rightarrow> (nat \<times> kst) option" where
  "seed_file dir name bs s =
     (case with_tmp (tmpfs_create_file dir name) s of (None, s1) \<Rightarrow> None
      | (Some f, s1) \<Rightarrow> do { (r, s2) \<leftarrow> vnode_write (VTmp f) bs 0 0 s1; Some (f, s2) })"

definition seed_module :: "nat \<Rightarrow> string \<times> bytes \<Rightarrow> kst \<Rightarrow> kst option" where
  "seed_module bin_dir = (\<lambda>(pth, bs) s.
     do { (f, s1) \<leftarrow> seed_file bin_dir (basename_of pth) bs s;
          Some (set_vnode (VTmp f) (\<lambda>v. v\<lparr>v_mode := VFS_DEFAULT_EXEC_MODE\<rparr>) s1) })"

fun seed_modules :: "nat \<Rightarrow> (string \<times> bytes) list \<Rightarrow> kst \<Rightarrow> kst option" where
  "seed_modules bin_dir [] s = Some s"
| "seed_modules bin_dir (md # mds) s = do { s1 \<leftarrow> seed_module bin_dir md s; seed_modules bin_dir mds s1 }"

definition seed_dir :: "string \<Rightarrow> kst \<Rightarrow> nat option \<times> kst" where
  "seed_dir name s = (let (r, t) = tmpfs_create_dir (tmp_root (k_tmp s)) name (k_tmp s) in (r, s\<lparr>k_tmp := t\<rparr>))"

definition hello_content :: bytes where
  "hello_content = map of_ch (''this file lives in tmpfs, mapped through the vfs.'' @ [CHR 0x0A])"

definition vfs_init :: "(string \<times> bytes) list \<Rightarrow> kst \<Rightarrow> kst option" where
  "vfs_init modules s =
     do { t \<leftarrow> tmpfs_init (k_tmp s);
          let s1 = s\<lparr>k_tmp := t, k_root := tmpfs_get_root t\<rparr>;
          (hello, s2) \<leftarrow> seed_file (tmp_root t) ''hello.txt'' hello_content s1;
          let (bin, s3) = seed_dir ''bin'' s2;
          s4 \<leftarrow> (case bin of None \<Rightarrow> (if modules = [] then Some s3 else None) | Some b \<Rightarrow> seed_modules b modules s3);
          let s5 = fold (\<lambda>n s. snd (seed_dir n s)) [''tmp'', ''etc'', ''home'', ''mnt''] s4;
          (case seed_dir ''dev'' s5 of (None, s6) \<Rightarrow> None
           | (Some d, s6) \<Rightarrow> Some (devfs_install (VTmp d) s6)) }"

end
