(* ===== verification/Process.thy ===== *)
theory Process
  imports Vfs
begin

text \<open>
  Processes, \<^verbatim>\<open>kernel/process.c\<close>: the process table, signals, waiting for children, the heap and
  anonymous mappings, the table of file descriptors and the operations on paths. A process
  pointer is the number of its slot. An operation that may not return has the value \<open>None\<close>, as
  in the virtual file system. Process identifiers and counters are integers without a bound;
  \<^verbatim>\<open>next_pid\<close> would overflow after two billion forks. An entry of the descriptor table that is in
  use has a vnode.
\<close>

section \<open>Constants\<close>

definition MMAP_ARENA_BASE :: nat where [simp]: "MMAP_ARENA_BASE = 0x40000000"

definition O_ACCMODE :: int where [simp]: "O_ACCMODE = 0x0003"
definition O_RDONLY :: nat where [simp]: "O_RDONLY = 0"
definition O_WRONLY :: nat where [simp]: "O_WRONLY = 1"
definition O_RDWR :: nat where [simp]: "O_RDWR = 2"
definition O_CREAT :: int where [simp]: "O_CREAT = 0x0040"
definition O_EXCL :: int where [simp]: "O_EXCL = 0x0080"
definition O_TRUNC :: int where [simp]: "O_TRUNC = 0x0200"
definition O_APPEND :: int where [simp]: "O_APPEND = 0x0400"

definition PROT_WRITE :: int where [simp]: "PROT_WRITE = 2"
definition MAP_ANONYMOUS :: int where [simp]: "MAP_ANONYMOUS = 0x20"

definition SIGKILL :: int where "SIGKILL = 9"
definition SIGSEGV :: int where "SIGSEGV = 11"
definition SIGTERM :: int where "SIGTERM = 15"
definition SIGCHLD :: int where "SIGCHLD = 17"
definition SIGCONT :: int where "SIGCONT = 18"

definition ENCODE_EXITED :: "int \<Rightarrow> int" where "ENCODE_EXITED code = code mod 256 * 256"
definition ENCODE_SIGNALED :: "int \<Rightarrow> int" where "ENCODE_SIGNALED sig = sig mod 128"
definition ENCODE_STOPPED :: "int \<Rightarrow> int" where "ENCODE_STOPPED sig = sig mod 256 * 256 + 127"

text \<open>\<^verbatim>\<open>flags & bit\<close> is not 0.\<close>

definition flag :: "int \<Rightarrow> int \<Rightarrow> bool" where
  "flag flags b \<longleftrightarrow> and flags b \<noteq> 0"

section \<open>The process table\<close>

definition process_alloc :: "int \<Rightarrow> kst \<Rightarrow> nat option \<times> kst" where
  "process_alloc parent s =
     (case scan_up (\<lambda>i. pid (proc s i) = 0) 0 MAX_PROCESSES of None \<Rightarrow> (None, s)
      | Some i \<Rightarrow>
          let s1 = upd_proc i (\<lambda>_. process_zero\<lparr>pid := next_pid (k_procs s), parent_pid := parent\<rparr>) s
          in (Some i, s1\<lparr>k_procs := (k_procs s1)\<lparr>next_pid := next_pid (k_procs s1) + 1,
                          process_count := process_count (k_procs s1) + 1\<rparr>\<rparr>))"

definition console_fd :: fd_entry where
  "console_fd = \<lparr>fd_node = Some devfs_console_vnode, fd_offset = 0, fd_used = True, access_mode = O_RDWR\<rparr>"

definition process_init :: "nat \<Rightarrow> nat \<Rightarrow> nat \<Rightarrow> kst \<Rightarrow> kst" where
  "process_init i pml4 heap =
     upd_proc i (\<lambda>p. p\<lparr>pml4_phys := pml4, heap_start := heap, heap_end := heap, mmap_next := MMAP_ARENA_BASE,
       cwd := ''/'', p_uid := 0, p_gid := 0, fs_base := 0,
       fds := (\<lambda>fd. if fd < 3 then console_fd else fds p fd)\<rparr>)"

definition dup_entry :: "fd_entry \<Rightarrow> kst \<Rightarrow> kst" where
  "dup_entry e s =
     (case fd_node e of None \<Rightarrow> s
      | Some v \<Rightarrow> if fd_used e \<and> has_op has_dup v s then vnode_dup v s else s)"

definition clone_fd :: "nat \<Rightarrow> nat \<Rightarrow> nat \<Rightarrow> kst \<Rightarrow> kst" where
  "clone_fd dst src fd s =
     (let e = fds (proc s src) fd in dup_entry e (upd_proc dst (\<lambda>p. p\<lparr>fds := (fds p)(fd := e)\<rparr>) s))"

definition process_clone_into :: "nat \<Rightarrow> nat \<Rightarrow> nat \<Rightarrow> kst \<Rightarrow> kst" where
  "process_clone_into dst src new_pml4 s =
     (let q = proc s src in
      fold (clone_fd dst src) [0..<MAX_FDS]
        (upd_proc dst (\<lambda>p. p\<lparr>pml4_phys := new_pml4, heap_start := heap_start q, heap_end := heap_end q,
           mmap_next := mmap_next q, p_uid := p_uid q, p_gid := p_gid q, fs_base := fs_base q, cwd := cwd q\<rparr>) s))"

definition process_current :: "kst \<Rightarrow> nat option" where
  "process_current s = t_proc (tasks (k_sched s) (current_task (k_sched s)))"

definition process_find_by_pid :: "int \<Rightarrow> kst \<Rightarrow> nat option" where
  "process_find_by_pid n s =
     (if n \<le> 0 then None else scan_up (\<lambda>i. pid (proc s i) = n) 0 MAX_PROCESSES)"

section \<open>Closing descriptors\<close>

text \<open>\<^verbatim>\<open>fd < 0 || fd >= MAX_FDS || !p->fds[fd].used\<close>.\<close>

definition bad_fd :: "nat \<Rightarrow> int \<Rightarrow> kst \<Rightarrow> bool" where
  "bad_fd i fd s \<longleftrightarrow> fd < 0 \<or> fd \<ge> int MAX_FDS \<or> \<not> fd_used (fds (proc s i) (nat fd))"

definition set_fd :: "nat \<Rightarrow> nat \<Rightarrow> (fd_entry \<Rightarrow> fd_entry) \<Rightarrow> kst \<Rightarrow> kst" where
  "set_fd i fd f = upd_proc i (\<lambda>p. p\<lparr>fds := (fds p)(fd := f (fds p fd))\<rparr>)"

definition close_node :: "vptr option \<Rightarrow> kst \<Rightarrow> kst" where
  "close_node v s = (case v of None \<Rightarrow> s | Some v \<Rightarrow> if has_op has_close v s then vnode_close v s else s)"

definition process_close :: "nat \<Rightarrow> int \<Rightarrow> kst \<Rightarrow> int \<times> kst" where
  "process_close i fd s =
     (if bad_fd i fd s then (- EBADF, s)
      else (0, set_fd i (nat fd) (\<lambda>e. e\<lparr>fd_used := False, fd_node := None, fd_offset := 0\<rparr>)
                 (close_node (fd_node (fds (proc s i) (nat fd))) s)))"

section \<open>Termination and signals\<close>

text \<open>\<^verbatim>\<open>if (parent) task_wake(parent)\<close> for the parent of a process.\<close>

definition wake_parent :: "nat \<Rightarrow> kst \<Rightarrow> kst" where
  "wake_parent i s =
     (case process_find_by_pid (parent_pid (proc s i)) s of None \<Rightarrow> s
      | Some q \<Rightarrow> s\<lparr>k_sched := task_wake (ChProc q) (k_sched s)\<rparr>)"

definition process_mark_zombie :: "nat \<Rightarrow> int \<Rightarrow> kst \<Rightarrow> kst" where
  "process_mark_zombie i code s = wake_parent i (upd_proc i (\<lambda>p. p\<lparr>exit_code := code, is_zombie := True\<rparr>) s)"

definition set_task_state :: "nat \<Rightarrow> task_state \<Rightarrow> kst \<Rightarrow> kst" where
  "set_task_state t st s = s\<lparr>k_sched := upd_task t (\<lambda>x. x\<lparr>t_state := st\<rparr>) (k_sched s)\<rparr>"

definition close_all :: "nat \<Rightarrow> kst \<Rightarrow> kst" where
  "close_all i s = fold (\<lambda>fd s. snd (process_close i (int fd) s)) [0..<MAX_FDS] s"

definition process_terminate :: "nat \<Rightarrow> nat \<Rightarrow> int \<Rightarrow> kst \<Rightarrow> kst" where
  "process_terminate i task code s = set_task_state task TASK_TERMINATED (process_mark_zombie i code (close_all i s))"

text \<open>The result 1 or 2 when the caller has signalled itself and must yield for ever or once.
  \<open>None\<close>: the process has no task, a null pointer dereference.\<close>

definition process_send_signal :: "nat \<Rightarrow> int \<Rightarrow> kst \<Rightarrow> (int \<times> kst) option" where
  "process_send_signal i sig s =
     (let p = proc s i; me = current_task (k_sched s) in
      if sig = SIGKILL \<or> sig = SIGTERM \<or> sig = SIGINT then
        (if is_zombie p then Some (0, s)
         else case p_task p of None \<Rightarrow> None
           | Some t \<Rightarrow> Some (if t = me then 1 else 0, process_terminate i t (ENCODE_SIGNALED sig) s))
      else if sig = SIGTSTP then
        (if is_zombie p \<or> is_stopped p then Some (0, s)
         else let s1 = wake_parent i (upd_proc i (\<lambda>p. p\<lparr>is_stopped := True, stop_signal := SIGTSTP, stop_reported := False\<rparr>) s)
              in case p_task p of None \<Rightarrow> None
                | Some t \<Rightarrow> Some (if t = me then 2 else 0, set_task_state t TASK_STOPPED s1))
      else if sig = SIGCONT then
        (if is_zombie p then Some (0, s)
         else if is_stopped p then
           (case p_task p of None \<Rightarrow> None
            | Some t \<Rightarrow> Some (0, set_task_state t TASK_READY (upd_proc i (\<lambda>p. p\<lparr>is_stopped := False\<rparr>) s)))
         else Some (0, s))
      else if sig = SIGCHLD then Some (0, s)
      else Some (- EINVAL, s))"

definition process_set_foreground :: "(nat \<Rightarrow> int) \<Rightarrow> int \<Rightarrow> kst \<Rightarrow> kst" where
  "process_set_foreground pids count s =
     (let n = (if count < 0 then 0 else if count > int FOREGROUND_MAX_PIDS then FOREGROUND_MAX_PIDS else nat count) in
      s\<lparr>k_procs := (k_procs s)\<lparr>foreground_pids := (\<lambda>i. if i < n then pids i else foreground_pids (k_procs s) i),
          foreground_count := n\<rparr>\<rparr>)"

fun signal_pids :: "int list \<Rightarrow> int \<Rightarrow> int \<Rightarrow> kst \<Rightarrow> (int \<times> kst) option" where
  "signal_pids [] sig act s = Some (act, s)"
| "signal_pids (n # ns) sig act s =
     (case process_find_by_pid n s of None \<Rightarrow> signal_pids ns sig act s
      | Some i \<Rightarrow> do { (a, s1) \<leftarrow> process_send_signal i sig s;
                       signal_pids ns sig (if a > 0 then a else act) s1 })"

text \<open>The action that is left to do: 1 yield for ever, 2 yield once.\<close>

definition process_signal_foreground :: "int \<Rightarrow> kst \<Rightarrow> (int \<times> kst) option" where
  "process_signal_foreground sig s =
     signal_pids (map (foreground_pids (k_procs s)) [0..<foreground_count (k_procs s)]) sig 0 s"

section \<open>Waiting for children\<close>

definition is_child :: "nat \<Rightarrow> int \<Rightarrow> kst \<Rightarrow> nat \<Rightarrow> bool" where
  "is_child self target s i \<longleftrightarrow> pid (proc s i) \<noteq> 0 \<and> parent_pid (proc s i) = pid (proc s self) \<and>
     (target = - 1 \<or> pid (proc s i) = target)"

definition has_event :: "process \<Rightarrow> bool" where
  "has_event p \<longleftrightarrow> is_zombie p \<or> is_stopped p \<and> \<not> stop_reported p"

text \<open>One pass over the table: the result with the status to store, or the sleep on the own
  process.\<close>

definition process_waitpid :: "nat \<Rightarrow> int \<Rightarrow> kst \<Rightarrow> (int \<times> int option) io \<times> kst" where
  "process_waitpid self target s =
     (case scan_up (\<lambda>i. is_child self target s i \<and> has_event (proc s i)) 0 MAX_PROCESSES of
        Some i \<Rightarrow>
          let p = proc s i in
          if is_zombie p then
            let s1 = upd_proc i (\<lambda>_. process_zero) (s\<lparr>k_mm := vmm_destroy_address_space (pml4_phys p) (k_mm s)\<rparr>)
            in (Done (pid p, Some (exit_code p)),
                s1\<lparr>k_procs := (k_procs s1)\<lparr>process_count := process_count (k_procs s1) - 1\<rparr>\<rparr>)
          else (Done (pid p, Some (ENCODE_STOPPED (stop_signal p))), upd_proc i (\<lambda>p. p\<lparr>stop_reported := True\<rparr>) s)
      | None \<Rightarrow>
          if scan_up (is_child self target s) 0 MAX_PROCESSES = None then (Done (- ECHILD, None), s)
          else (Block (ChProc self) 0, s))"

section \<open>Memory\<close>

text \<open>A zeroed frame at an address; 0 when there is none.\<close>

definition map_zeroed :: "nat \<Rightarrow> nat \<Rightarrow> u64 \<Rightarrow> mm \<Rightarrow> bool \<times> mm" where
  "map_zeroed pml4 addr fl m =
     (let (fr, m1) = alloc_frame m in
      if fr = 0 then (False, m1)
      else (True, vmm_map_4k_in pml4 addr fr fl (m1\<lparr>phys := k_memset fr 0 PAGE_SIZE (phys m1)\<rparr>)))"

text \<open>\<open>n\<close> pages from \<open>addr\<close> on: the number of pages mapped before the memory ran out.\<close>

fun map_pages :: "nat \<Rightarrow> nat \<Rightarrow> nat \<Rightarrow> u64 \<Rightarrow> mm \<Rightarrow> nat \<times> mm" where
  "map_pages pml4 addr 0 fl m = (0, m)"
| "map_pages pml4 addr (Suc n) fl m =
     (let (ok, m1) = map_zeroed pml4 addr fl m in
      if \<not> ok then (0, m1)
      else let (k, m2) = map_pages pml4 (wrap64 (addr + PAGE_SIZE)) n fl m1 in (Suc k, m2))"

definition process_brk :: "nat \<Rightarrow> nat \<Rightarrow> kst \<Rightarrow> nat \<times> kst" where
  "process_brk i new_brk s =
     (let p = proc s i in
      if new_brk = 0 \<or> new_brk \<le> heap_end p then (heap_end p, s)
      else
        let old_top = page_up (heap_end p); new_top = page_up new_brk; n = (new_top - old_top) div PAGE_SIZE;
            (k, m) = map_pages (pml4_phys p) old_top n (PTE_WRITE OR PTE_USER) (k_mm s);
            s1 = s\<lparr>k_mm := m\<rparr>
        in if k < n then (heap_end p, s1)
           else (new_brk, upd_proc i (\<lambda>p. p\<lparr>heap_end := new_brk\<rparr>) s1))"

definition unmap_page :: "nat \<Rightarrow> nat \<Rightarrow> mm \<Rightarrow> mm" where
  "unmap_page pml4 v m =
     (case vmm_get_pte pml4 v m of None \<Rightarrow> m
      | Some ea \<Rightarrow>
          if present (rd64 (phys m) ea)
          then (free_frame (pte_addr (rd64 (phys m) ea)) m)\<lparr>phys := wr64 (phys m) ea 0\<rparr> else m)"

definition unmap_pages :: "nat \<Rightarrow> nat \<Rightarrow> nat \<Rightarrow> mm \<Rightarrow> mm" where
  "unmap_pages pml4 addr n m = fold (\<lambda>j. unmap_page pml4 (wrap64 (addr + j * PAGE_SIZE))) [0..<n] m"

definition page_count :: "nat \<Rightarrow> nat" where
  "page_count len = wrap64 (len + (PAGE_SIZE - 1)) div PAGE_SIZE"

definition process_mmap :: "nat \<Rightarrow> nat \<Rightarrow> int \<Rightarrow> int \<Rightarrow> int \<Rightarrow> kst \<Rightarrow> int \<times> kst" where
  "process_mmap i len prot flags fd s =
     (let p = proc s i in
      if len = 0 then (- EINVAL, s)
      else if \<not> flag flags MAP_ANONYMOUS \<or> fd \<noteq> - 1 then (- ENODEV, s)
      else
        let n = page_count len; base = mmap_next p;
            fl = (if flag prot PROT_WRITE then PTE_USER OR PTE_WRITE else PTE_USER);
            (k, m) = map_pages (pml4_phys p) base n fl (k_mm s)
        in if k < n then (- ENOMEM, s\<lparr>k_mm := unmap_pages (pml4_phys p) base k m\<rparr>)
           else (int base, upd_proc i (\<lambda>p. p\<lparr>mmap_next := wrap64 (base + n * PAGE_SIZE)\<rparr>) (s\<lparr>k_mm := m\<rparr>)))"

definition process_munmap :: "nat \<Rightarrow> nat \<Rightarrow> nat \<Rightarrow> kst \<Rightarrow> int \<times> kst" where
  "process_munmap i addr len s =
     (if len = 0 then (0, s)
      else (0, s\<lparr>k_mm := unmap_pages (pml4_phys (proc s i)) addr (page_count len) (k_mm s)\<rparr>))"

section \<open>Directories\<close>

definition may :: "nat \<Rightarrow> vptr \<Rightarrow> nat \<Rightarrow> kst \<Rightarrow> bool" where
  "may i v want s \<longleftrightarrow> vfs_check_perm (vnode_at s v) (p_uid (proc s i)) (p_gid (proc s i)) want"

definition resolve_parent_dir :: "nat \<Rightarrow> string \<Rightarrow> kst \<Rightarrow> ((int + vptr \<times> string) \<times> kst) option" where
  "resolve_parent_dir i pth s =
     (let (dir_path, base) = vfs_split_path (vfs_combine_path (cwd (proc s i)) pth VFS_MAX_PATH) VFS_MAX_PATH VFS_MAX_NAME in
      if base = [] then Some (Inl (- EINVAL), s)
      else do { (r, s1) \<leftarrow> vfs_resolve_path dir_path s;
                Some (case r of None \<Rightarrow> Inl (- ENOENT)
                      | Some d \<Rightarrow> if v_type (vnode_at s1 d) \<noteq> VNODE_DIR then Inl (- ENOTDIR) else Inr (d, base), s1) })"

text \<open>The common frame of the three operations that change a directory.\<close>

definition in_parent :: "(vptr \<Rightarrow> string \<Rightarrow> kst \<Rightarrow> (int \<times> kst) option) \<Rightarrow> nat \<Rightarrow> string \<Rightarrow> kst \<Rightarrow> (int \<times> kst) option" where
  "in_parent f i pth s =
     do { (r, s1) \<leftarrow> resolve_parent_dir i pth s;
          (case r of Inl e \<Rightarrow> Some (e, s1)
           | Inr (dir, name) \<Rightarrow>
               if \<not> has_op has_mutate dir s1 then Some (- EROFS, s1)
               else if \<not> may i dir VFS_PERM_WRITE s1 then Some (- EACCES, s1)
               else f dir name s1) }"

text \<open>The new node is given to the process that creates it.\<close>

definition own_new :: "nat \<Rightarrow> vptr \<Rightarrow> string \<Rightarrow> int \<times> kst \<Rightarrow> (int \<times> kst) option" where
  "own_new i dir name = (\<lambda>(rc, s).
     if rc = 0 \<and> has_op has_lookup dir s then
       do { (r, s1) \<leftarrow> vnode_lookup dir name s;
            Some (rc, case r of None \<Rightarrow> s1
                      | Some c \<Rightarrow> set_vnode c (\<lambda>v. v\<lparr>v_uid := p_uid (proc s1 i), v_gid := p_gid (proc s1 i)\<rparr>) s1) }
     else Some (rc, s))"

definition process_mkdir :: "nat \<Rightarrow> string \<Rightarrow> kst \<Rightarrow> (int \<times> kst) option" where
  "process_mkdir i = in_parent (\<lambda>dir name s. do { r \<leftarrow> vnode_mkdir dir name s; own_new i dir name r }) i"

definition process_create :: "nat \<Rightarrow> string \<Rightarrow> kst \<Rightarrow> (int \<times> kst) option" where
  "process_create i = in_parent (\<lambda>dir name s. do { r \<leftarrow> vnode_create dir name s; own_new i dir name r }) i"

definition process_unlink :: "nat \<Rightarrow> string \<Rightarrow> kst \<Rightarrow> (int \<times> kst) option" where
  "process_unlink i = in_parent vnode_unlink i"

definition process_chdir :: "nat \<Rightarrow> string \<Rightarrow> kst \<Rightarrow> (int \<times> kst) option" where
  "process_chdir i pth s =
     do { (r, s1) \<leftarrow> vfs_resolve_path (vfs_combine_path (cwd (proc s i)) pth VFS_MAX_PATH) s;
          (case r of None \<Rightarrow> Some (- ENOENT, s1)
           | Some node \<Rightarrow>
               if v_type (vnode_at s1 node) \<noteq> VNODE_DIR then Some (- ENOTDIR, s1)
               else if \<not> may i node VFS_PERM_EXEC s1 then Some (- EACCES, s1)
               else do { c \<leftarrow> vfs_canonical_path node VFS_MAX_PATH s1; Some (0, upd_proc i (\<lambda>p. p\<lparr>cwd := c\<rparr>) s1) }) }"

section \<open>Descriptors\<close>

text \<open>The first free descriptor from \<open>lo\<close> on.\<close>

definition free_fd :: "nat \<Rightarrow> nat \<Rightarrow> kst \<Rightarrow> nat option" where
  "free_fd i lo s = scan_up (\<lambda>fd. \<not> fd_used (fds (proc s i) fd)) lo MAX_FDS"

text \<open>The end of \<^verbatim>\<open>process_open\<close>: permissions, then the slot.\<close>

definition open_node :: "nat \<Rightarrow> vptr \<Rightarrow> int \<Rightarrow> nat \<Rightarrow> kst \<Rightarrow> int \<times> kst" where
  "open_node i node flags acc s =
     (if (acc = O_RDONLY \<or> acc = O_RDWR) \<and> \<not> may i node VFS_PERM_READ s then (- EACCES, s)
      else if (acc = O_WRONLY \<or> acc = O_RDWR) \<and> \<not> may i node VFS_PERM_WRITE s then (- EACCES, s)
      else case free_fd i 3 s of None \<Rightarrow> (- EMFILE, s)
        | Some fd \<Rightarrow>
            let start = (if flag flags O_APPEND \<and> has_op has_stat node s
                         then (case vnode_stat node s of Some sz \<Rightarrow> sz | None \<Rightarrow> 0) else 0)
            in (int fd, set_fd i fd (\<lambda>_. \<lparr>fd_node = Some node, fd_offset = start, fd_used = True, access_mode = acc\<rparr>) s))"

definition open_again :: "nat \<Rightarrow> string \<Rightarrow> (vptr \<Rightarrow> kst \<Rightarrow> (int \<times> kst) option) \<Rightarrow> kst \<Rightarrow> (int \<times> kst) option" where
  "open_again i pth k s =
     do { (err, s1) \<leftarrow> process_create i pth s;
          if err < 0 then Some (err, s1)
          else do { (r, s2) \<leftarrow> vfs_resolve_path_cwd (cwd (proc s1 i)) pth s1;
                    (case r of None \<Rightarrow> Some (- EIO, s2) | Some node \<Rightarrow> k node s2) } }"

definition process_open :: "nat \<Rightarrow> string \<Rightarrow> int \<Rightarrow> kst \<Rightarrow> (int \<times> kst) option" where
  "process_open i pth flags s =
     (let acc = nat (and flags O_ACCMODE); fin = (\<lambda>node s. Some (open_node i node flags acc s)) in
      do { (r, s1) \<leftarrow> vfs_resolve_path_cwd (cwd (proc s i)) pth s;
           (case r of
              None \<Rightarrow> if \<not> flag flags O_CREAT then Some (- ENOENT, s1) else open_again i pth fin s1
            | Some node \<Rightarrow>
                if flag flags O_CREAT \<and> flag flags O_EXCL then Some (- EEXIST, s1)
                else if flag flags O_TRUNC \<and> acc \<noteq> O_RDONLY then
                  do { (derr, s2) \<leftarrow> process_unlink i pth s1;
                       if derr < 0 then Some (derr, s2) else open_again i pth fin s2 }
                else fin node s1) })"

text \<open>The bytes read, or the error.\<close>

definition process_read :: "nat \<Rightarrow> int \<Rightarrow> nat \<Rightarrow> kst \<Rightarrow> ((int + bytes) io \<times> kst) option" where
  "process_read i fd count s =
     (if bad_fd i fd s \<or> access_mode (fds (proc s i) (nat fd)) = O_WRONLY then Some (Done (Inl (- EBADF)), s)
      else case fd_node (fds (proc s i) (nat fd)) of None \<Rightarrow> None
        | Some node \<Rightarrow>
            if \<not> has_op has_read node s then Some (Done (Inl (- EBADF)), s)
            else if \<not> may i node VFS_PERM_READ s then Some (Done (Inl (- EACCES)), s)
            else case vnode_read node count (fd_offset (fds (proc s i) (nat fd))) s of None \<Rightarrow> None
              | Some (Block ch n, s1) \<Rightarrow> Some (Block ch n, s1)
              | Some (Done bs, s1) \<Rightarrow>
                  Some (Done (Inr bs), if bs \<noteq> [] then set_fd i (nat fd) (\<lambda>e. e\<lparr>fd_offset := wrap64 (fd_offset e + length bs)\<rparr>) s1 else s1))"

text \<open>\<open>n\<close> bytes of a write that was put to sleep are already written.\<close>

definition process_write :: "nat \<Rightarrow> int \<Rightarrow> bytes \<Rightarrow> nat \<Rightarrow> kst \<Rightarrow> (int io \<times> kst) option" where
  "process_write i fd src n s =
     (if bad_fd i fd s \<or> access_mode (fds (proc s i) (nat fd)) = O_RDONLY then Some (Done (- EBADF), s)
      else case fd_node (fds (proc s i) (nat fd)) of None \<Rightarrow> None
        | Some node \<Rightarrow>
            if \<not> has_op has_write node s then Some (Done (- EBADF), s)
            else if \<not> may i node VFS_PERM_WRITE s then Some (Done (- EACCES), s)
            else case vnode_write node src (fd_offset (fds (proc s i) (nat fd))) n s of None \<Rightarrow> None
              | Some (Block ch k, s1) \<Rightarrow> Some (Block ch k, s1)
              | Some (Done r, s1) \<Rightarrow>
                  Some (Done r, if r > 0 then set_fd i (nat fd) (\<lambda>e. e\<lparr>fd_offset := wrap64 (fd_offset e + nat r)\<rparr>) s1 else s1))"

definition process_dup2 :: "nat \<Rightarrow> int \<Rightarrow> int \<Rightarrow> kst \<Rightarrow> int \<times> kst" where
  "process_dup2 i oldfd newfd s =
     (if bad_fd i oldfd s then (- EBADF, s)
      else if newfd < 0 \<or> newfd \<ge> int MAX_FDS then (- EBADF, s)
      else if oldfd = newfd then (newfd, s)
      else
        let s1 = (if fd_used (fds (proc s i) (nat newfd)) then snd (process_close i newfd s) else s);
            v = fd_node (fds (proc s1 i) (nat oldfd));
            s2 = set_fd i (nat newfd) (\<lambda>e. e\<lparr>fd_node := v, fd_offset := 0, fd_used := True\<rparr>) s1
        in (newfd, dup_entry (fds (proc s2 i) (nat newfd)) s2))"

definition put_end :: "nat \<Rightarrow> nat \<Rightarrow> vptr \<Rightarrow> kst \<Rightarrow> kst" where
  "put_end i fd v = set_fd i fd (\<lambda>e. e\<lparr>fd_node := Some v, fd_offset := 0, fd_used := True\<rparr>)"

definition process_pipe :: "nat \<Rightarrow> kst \<Rightarrow> (int + nat \<times> nat) \<times> kst" where
  "process_pipe i s =
     (case pipe_create (k_pipes s) of (Inl e, ps) \<Rightarrow> (Inl (- ENFILE), s\<lparr>k_pipes := ps\<rparr>)
      | (Inr k, ps) \<Rightarrow>
          let s1 = s\<lparr>k_pipes := ps\<rparr>; r = free_fd i 3 s1; w = (case r of None \<Rightarrow> None | Some fd \<Rightarrow> free_fd i (fd + 1) s1)
          in (case (r, w) of
                (Some rfd, Some wfd) \<Rightarrow> (Inr (rfd, wfd), put_end i wfd (VPipeW k) (put_end i rfd (VPipeR k) s1))
              | _ \<Rightarrow> (Inl (- EMFILE), vnode_close (VPipeW k) (vnode_close (VPipeR k) s1))))"

section \<open>Attributes\<close>

record vfs_stat =
  st_type :: nat
  st_size :: nat
  st_uid :: nat
  st_gid :: nat
  st_mode :: nat

definition process_stat :: "nat \<Rightarrow> string \<Rightarrow> kst \<Rightarrow> ((int + vfs_stat) \<times> kst) option" where
  "process_stat i pth s =
     do { (r, s1) \<leftarrow> vfs_resolve_path_cwd (cwd (proc s i)) pth s;
          Some (case r of None \<Rightarrow> Inl (- ENOENT)
                | Some node \<Rightarrow>
                    let v = vnode_at s1 node in
                    Inr \<lparr>st_type = (case v_type v of VNODE_FILE \<Rightarrow> 0 | VNODE_DIR \<Rightarrow> 1),
                         st_size = (if has_op has_stat node s1 then (case vnode_stat node s1 of Some n \<Rightarrow> n | None \<Rightarrow> 0) else 0),
                         st_uid = v_uid v, st_gid = v_gid v, st_mode = v_mode v\<rparr>, s1) }"

definition process_chmod :: "nat \<Rightarrow> string \<Rightarrow> nat \<Rightarrow> kst \<Rightarrow> (int \<times> kst) option" where
  "process_chmod i pth perm s =
     do { (r, s1) \<leftarrow> vfs_resolve_path_cwd (cwd (proc s i)) pth s;
          Some (case r of None \<Rightarrow> (- ENOENT, s1)
                | Some node \<Rightarrow>
                    if p_uid (proc s1 i) \<noteq> 0 \<and> p_uid (proc s1 i) \<noteq> v_uid (vnode_at s1 node) then (- EPERM, s1)
                    else (0, set_vnode node (\<lambda>v. v\<lparr>v_mode := perm mod 512\<rparr>) s1)) }"

definition process_chown :: "nat \<Rightarrow> string \<Rightarrow> nat \<Rightarrow> nat \<Rightarrow> kst \<Rightarrow> (int \<times> kst) option" where
  "process_chown i pth uid gid s =
     do { (r, s1) \<leftarrow> vfs_resolve_path_cwd (cwd (proc s i)) pth s;
          Some (case r of None \<Rightarrow> (- ENOENT, s1)
                | Some node \<Rightarrow>
                    if p_uid (proc s1 i) \<noteq> 0 then (- EPERM, s1)
                    else (0, set_vnode node (\<lambda>v. v\<lparr>v_uid := uid, v_gid := gid\<rparr>) s1)) }"

definition process_setuid :: "nat \<Rightarrow> nat \<Rightarrow> kst \<Rightarrow> int \<times> kst" where
  "process_setuid i new_uid s =
     (if p_uid (proc s i) \<noteq> 0 \<and> new_uid \<noteq> p_uid (proc s i) then (- EPERM, s)
      else (0, upd_proc i (\<lambda>p. p\<lparr>p_uid := new_uid\<rparr>) s))"

definition process_setgid :: "nat \<Rightarrow> nat \<Rightarrow> kst \<Rightarrow> int \<times> kst" where
  "process_setgid i new_gid s =
     (if p_uid (proc s i) \<noteq> 0 \<and> new_gid \<noteq> p_gid (proc s i) then (- EPERM, s)
      else (0, upd_proc i (\<lambda>p. p\<lparr>p_gid := new_gid\<rparr>) s))"

end
