(* ===== verification/VfsPaths.thy ===== *)
theory VfsPaths
  imports Vfs
begin

text \<open>
  What path resolution does: the components of a path, walks along them, the canonical path of
  a vnode and resolution relative to a working directory.
\<close>

section \<open>Components\<close>

definition slash_free :: "string \<Rightarrow> bool" where
  "slash_free w \<longleftrightarrow> CHR ''/'' \<notin> set w \<and> length w < VFS_MAX_NAME"

definition component_ok :: "string \<Rightarrow> bool" where
  "component_ok n \<longleftrightarrow> n \<noteq> [] \<and> n \<noteq> ''.'' \<and> n \<noteq> ''..'' \<and> slash_free n"

text \<open>An absolute path with the given components.\<close>

definition abs_path :: "string list \<Rightarrow> string" where
  "abs_path ns = (if ns = [] then ''/'' else concat (map (Cons (CHR ''/'')) ns))"

lemma components_slash:
  assumes "slash_free w"
  shows "components (w @ CHR ''/'' # r) = w # components r"
proof -
  have t: "takeWhile (\<lambda>c. c \<noteq> CHR ''/'') (w @ CHR ''/'' # r) = w"
    using assms by (auto simp: slash_free_def takeWhile_append)
  obtain c cs where c: "w @ CHR ''/'' # r = c # cs" by (cases "w @ CHR ''/'' # r") auto
  have l: "take (VFS_MAX_NAME - 1) w = w" using assms by (auto simp: slash_free_def VFS_MAX_NAME_def)
  have d: "drop (length w) (c # cs) = CHR ''/'' # r" unfolding c [symmetric] by simp
  show ?thesis unfolding c components.simps Let_def using t l d by (simp add: c)
qed

lemma components_word:
  assumes "slash_free w" "w \<noteq> []"
  shows "components w = [w]"
proof -
  have t: "takeWhile (\<lambda>c. c \<noteq> CHR ''/'') w = w"
    using assms by (auto simp: slash_free_def takeWhile_eq_all_conv)
  obtain c cs where c: "w = c # cs" using assms(2) by (cases w) auto
  have l: "take (VFS_MAX_NAME - 1) w = w" using assms by (auto simp: slash_free_def VFS_MAX_NAME_def)
  show ?thesis using t l unfolding c by (simp add: components.simps)
qed

lemma components_abs_path:
  assumes "\<forall>n \<in> set ns. slash_free n \<and> n \<noteq> []"
  shows "components (tl (abs_path ns)) = ns"
proof (cases ns)
  case Nil
  then show ?thesis by (simp add: abs_path_def components.simps)
next
  case (Cons m ms)
  have "\<forall>n \<in> set (m # ms). slash_free n \<and> n \<noteq> [] \<Longrightarrow> components (m @ concat (map (Cons (CHR ''/'')) ms)) = m # ms"
  proof (induction ms arbitrary: m)
    case Nil
    then show ?case by (simp add: components_word)
  next
    case (Cons k ks)
    then show ?case by (simp add: components_slash)
  qed
  then show ?thesis using assms Cons by (simp add: abs_path_def)
qed

lemma walk_append:
  "walk cs cur s = Some (Some c, s1) \<Longrightarrow> walk (cs @ ds) cur s = walk ds (Some c) s1"
  by (induction cs cur s rule: walk.induct) (auto split: option.splits if_splits prod.splits)

section \<open>Vnodes on a path\<close>

text \<open>\<open>at_path s ns p\<close>: from the root, the names \<open>ns\<close> lead to \<open>p\<close> by lookups that change nothing,
  and every vnode on the way has its directory as parent and the name it was found by.\<close>

inductive at_path :: "kst \<Rightarrow> string list \<Rightarrow> vptr \<Rightarrow> bool" for s where
  at_root: "v_parent (vnode_at s (k_root s)) = Some (k_root s) \<Longrightarrow> at_path s [] (k_root s)"
| at_child: "at_path s ns d \<Longrightarrow> has_op has_lookup d s \<Longrightarrow> vnode_lookup d n s = Some (Some p, s) \<Longrightarrow>
    v_parent (vnode_at s p) = Some d \<Longrightarrow> v_name (vnode_at s p) = n \<Longrightarrow> p \<noteq> d \<Longrightarrow> component_ok n \<Longrightarrow>
    at_path s (ns @ [n]) p"

inductive_cases at_path_snoc: "at_path s (ns @ [n]) p"

lemma at_path_ok: "at_path s ns p \<Longrightarrow> n \<in> set ns \<Longrightarrow> component_ok n"
  by (induction rule: at_path.induct) auto

lemma at_path_walk: "at_path s ns p \<Longrightarrow> walk ns (Some (k_root s)) s = Some (Some p, s)"
proof (induction rule: at_path.induct)
  case at_root
  then show ?case by simp
next
  case (at_child ns d n p)
  have "walk (ns @ [n]) (Some (k_root s)) s = walk [n] (Some d) s" by (rule walk_append [OF at_child.IH])
  then show ?case using at_child by (auto simp: component_ok_def)
qed

lemma at_path_resolve:
  assumes "at_path s ns p"
  shows "vfs_resolve_path (abs_path ns) s = Some (Some p, s)"
proof -
  have ok: "\<forall>n \<in> set ns. slash_free n \<and> n \<noteq> []" using at_path_ok [OF assms] by (auto simp: component_ok_def)
  obtain r where r: "abs_path ns = CHR ''/'' # r" by (cases ns) (simp_all add: abs_path_def)
  have "vfs_resolve_path (abs_path ns) s = walk (components (tl (abs_path ns))) (Some (k_root s)) s"
    unfolding r vfs_resolve_path_def by simp
  then show ?thesis by (simp only: components_abs_path [OF ok] at_path_walk [OF assms])
qed

section \<open>The way up\<close>

lemma climb_at_path:
  "at_path s ns p \<Longrightarrow> length ns < k \<Longrightarrow>
     \<exists>stack. climb k s (Some p) = Some stack \<and> map (\<lambda>q. v_name (vnode_at s q)) (rev stack) = ns"
proof (induction arbitrary: k rule: at_path.induct)
  case at_root
  then show ?case by (cases k) auto
next
  case (at_child ns d n p)
  obtain j where j: "k = Suc j" using at_child.prems by (cases k) auto
  obtain stack where st: "climb j s (Some d) = Some stack" "map (\<lambda>q. v_name (vnode_at s q)) (rev stack) = ns"
    using at_child.IH [of j] at_child.prems j by auto
  then show ?case using at_child.hyps j by auto
qed

lemma emit_fits:
  assumes "length out + length (concat (map (Cons (CHR ''/'')) ns)) \<le> sz" "ns \<noteq> []"
  shows "emit sz out ns = out @ tl (concat (map (Cons (CHR ''/'')) ns))"
  using assms
proof (induction ns arbitrary: out)
  case Nil
  then show ?case by simp
next
  case (Cons n ns)
  have t: "take (sz - 1 - length out) n = n" using Cons.prems by simp
  show ?case
  proof (cases ns)
    case Nil
    then show ?thesis using t by simp
  next
    case (Cons m ms)
    have "length (out @ n) + 1 < sz" using \<open>length out + _ \<le> sz\<close> Cons by simp
    then have "emit sz out (n # ns) = emit sz (out @ n @ ''/'') ns"
      unfolding emit.simps Let_def t using Cons by simp
    then show ?thesis using Cons.IH [of "out @ n @ ''/''"] Cons.prems by (simp add: Cons del: emit.simps)
  qed
qed

lemma canonical_at_path:
  assumes p: "at_path s ns p" and l: "length (abs_path ns) < sz" and d: "length ns < VFS_MAX_PATH"
  shows "vfs_canonical_path p sz s = Some (abs_path ns)"
proof -
  obtain stack where st: "climb VFS_MAX_PATH s (Some p) = Some stack"
    and ns: "map (\<lambda>q. v_name (vnode_at s q)) (rev stack) = ns"
    using climb_at_path [OF p d] by blast
  have sz: "sz > 0" using l by simp
  have "emit sz ''/'' ns = abs_path ns"
  proof (cases ns)
    case (Cons m ms)
    then show ?thesis using emit_fits [of "''/''" ns sz] l by (simp add: abs_path_def)
  qed (simp add: abs_path_def)
  then show ?thesis unfolding vfs_canonical_path_def st using ns sz l by simp
qed

text \<open>A path has at least as many characters as components.\<close>

lemma abs_path_depth: "length ns \<le> length (abs_path ns)"
proof -
  have "length ns \<le> length (concat (map (Cons (CHR ''/'')) ns))" by (induction ns) auto
  then show ?thesis by (simp add: abs_path_def)
qed

section \<open>Relative paths\<close>

lemma components_behind:
  assumes "\<forall>n \<in> set ns. slash_free n \<and> n \<noteq> []" "ns \<noteq> []"
  shows "components (tl (abs_path ns) @ CHR ''/'' # r) = ns @ components r"
  using assms
proof (induction ns)
  case (Cons n ns)
  show ?case
  proof (cases ns)
    case Nil
    then show ?thesis using Cons.prems components_slash [of n r] by (simp add: abs_path_def)
  next
    case (Cons m ms)
    have e: "tl (abs_path (n # ns)) @ CHR ''/'' # r = n @ CHR ''/'' # (tl (abs_path ns) @ CHR ''/'' # r)"
      using Cons by (simp add: abs_path_def)
    show ?thesis unfolding e using Cons.IH Cons.prems Cons by (simp add: components_slash)
  qed
qed simp

lemma abs_path_no_slash_end:
  assumes "\<forall>n \<in> set ns. slash_free n \<and> n \<noteq> []" "ns \<noteq> []"
  shows "List.last (abs_path ns) \<noteq> CHR ''/''"
proof -
  obtain ms m where m: "ns = ms @ [m]" using assms(2) by (cases ns rule: rev_cases) auto
  then have ok: "m \<noteq> []" "slash_free m" using assms(1) by auto
  have "List.last m \<in> set m" using ok(1) by simp
  then have "List.last m \<noteq> CHR ''/''" using ok(2) unfolding slash_free_def by metis
  then show ?thesis unfolding m abs_path_def using ok(1) by simp
qed

lemma resolve_relative:
  assumes p: "at_path s ns c" and l: "length (abs_path ns) + length r + 1 < VFS_MAX_PATH"
    and r: "r = [] \<or> hd r \<noteq> CHR ''/''"
  shows "vfs_resolve_path_cwd (abs_path ns) r s = walk (components r) (Some c) s"
proof -
  have ok: "\<forall>n \<in> set ns. slash_free n \<and> n \<noteq> []" using at_path_ok [OF p] by (auto simp: component_ok_def)
  have u: "usub VFS_MAX_PATH 2 = 126" by (simp add: usub_def VFS_MAX_PATH_def wrap64_def)
  have t: "take 126 (abs_path ns) = abs_path ns" using l by (simp add: VFS_MAX_PATH_def)
  have ne: "abs_path ns \<noteq> []" by (cases ns) (simp_all add: abs_path_def)
  have cond: "\<not> (r \<noteq> [] \<and> hd r = CHR ''/'' \<or> VFS_MAX_PATH = 0)" using r by (auto simp: VFS_MAX_PATH_def)
  have comb: "vfs_combine_path (abs_path ns) r VFS_MAX_PATH =
      (if ns = [] then ''/'' @ r else abs_path ns @ CHR ''/'' # r)"
  proof (cases ns)
    case Nil
    then show ?thesis using cond l unfolding vfs_combine_path_def u t
      by (auto simp: abs_path_def VFS_MAX_PATH_def)
  next
    case (Cons m ms)
    have "List.last (abs_path ns) \<noteq> CHR ''/''" using abs_path_no_slash_end [OF ok] Cons by simp
    then show ?thesis using cond l ne Cons unfolding vfs_combine_path_def u t by (auto simp: VFS_MAX_PATH_def)
  qed
  show ?thesis
  proof (cases ns)
    case Nil
    have "c = k_root s" using p unfolding Nil by cases auto
    then show ?thesis unfolding vfs_resolve_path_cwd_def comb using Nil by (simp add: vfs_resolve_path_def)
  next
    case (Cons m ms)
    obtain q where q: "abs_path ns = CHR ''/'' # q" using Cons by (simp add: abs_path_def)
    have "components (q @ CHR ''/'' # r) = ns @ components r" using components_behind [OF ok] Cons q by simp
    then have "vfs_resolve_path_cwd (abs_path ns) r s = walk (ns @ components r) (Some (k_root s)) s"
      unfolding vfs_resolve_path_cwd_def comb using Cons q by (simp add: vfs_resolve_path_def)
    then show ?thesis using walk_append [OF at_path_walk [OF p]] by simp
  qed
qed

section \<open>Trees in memory\<close>

text \<open>The children of a directory of the memory file system, one step further down.\<close>

definition parents_ok :: "tmpfs \<Rightarrow> bool" where
  "parents_ok t \<longleftrightarrow> (\<forall>d i. i \<in> set (children t d) \<longrightarrow> v_parent (n_vnode (node_pool t i)) = Some (VTmp d))"

lemma tmpfs_at_path:
  assumes "tree_inv (k_tmp s)" "parents_ok (k_tmp s)" "at_path s ns (VTmp d)"
    and ops: "v_ops (n_vnode (node_pool (k_tmp s) d)) = Some Tmpfs_dir_ops"
    and i: "i \<in> set (children (k_tmp s) d)" "i \<noteq> d" "component_ok (node_name (k_tmp s) i)"
  shows "at_path s (ns @ [node_name (k_tmp s) i]) (VTmp i)"
proof -
  have nn: "no_nul (node_name (k_tmp s) i)" using assms(1) unfolding tree_inv_def by blast
  have "tmpfs_dir_lookup d (node_name (k_tmp s) i) (k_tmp s) = Some i" using lookup_iff [OF assms(1) nn] i by blast
  then have "vnode_lookup (VTmp d) (node_name (k_tmp s) i) s = Some (Some (VTmp i), s)"
    using ops by (simp add: vnode_lookup_def vnode_at_def)
  moreover have "v_parent (vnode_at s (VTmp i)) = Some (VTmp d)"
    using assms(2) i unfolding parents_ok_def by (simp add: vnode_at_def)
  ultimately show ?thesis using assms(3) ops i
    by (intro at_child) (auto simp: has_op_def has_lookup_def vnode_at_def node_name_def)
qed

section \<open>Properties\<close>

text \<open>A small kernel: \<^verbatim>\<open>/etc/rc\<close> in memory, one process slot in use by the process 1.\<close>

definition demo_dir :: "string \<Rightarrow> nat \<Rightarrow> vnode" where
  "demo_dir name up = \<lparr>v_type = VNODE_DIR, v_name = name, v_ops = Some Tmpfs_dir_ops, v_parent = Some (VTmp up),
     v_uid = 0, v_gid = 0, v_mode = VFS_DEFAULT_DIR_MODE\<rparr>"

definition demo_tree :: tmpfs where
  "demo_tree = \<lparr>node_pool = (\<lambda>_. node_zero)(
       0 := node_zero\<lparr>n_vnode := demo_dir ''/'' 0, first_child := Some 1\<rparr>,
       1 := node_zero\<lparr>n_vnode := demo_dir ''etc'' 0, first_child := Some 2\<rparr>,
       2 := node_zero\<lparr>n_vnode := (demo_dir ''rc'' 1)\<lparr>v_type := VNODE_FILE, v_ops := Some Tmpfs_file_ops,
              v_mode := VFS_DEFAULT_FILE_MODE\<rparr>, n_data := Some 4096, n_capacity := 4096, n_size := 3\<rparr>),
     node_count = 3, tmp_root = 0\<rparr>"

definition demo_kst :: kst where
  "demo_kst = \<lparr>k_mm = demo_mm, k_tmp = demo_tree, k_dev = devfs_static, k_disk = demo_disk, k_fat =
      \<lparr>fat_mounted = False, bytes_per_sector = 0, sectors_per_cluster = 0, root_entry_count = 0, num_fats = 0,
       fat_size_16 = 0, first_fat_sector = 0, first_root_dir_sector = 0, root_dir_sectors = 0, first_data_sector = 0,
       fnode_pool = \<lambda>_. vnode_zero, meta_pool = \<lambda>_. meta_zero, fnode_count = 0, root_meta = meta_zero\<rparr>,
     k_pipes = \<lambda>_. new_pipe\<lparr>p_in_use := False, read_refcount := 0, write_refcount := 0\<rparr>, k_kbd = kbd_static, k_term = [],
     k_sched = demo_sched, k_root = VTmp 0,
     k_procs = \<lparr>process_pool = (\<lambda>_. process_zero)(0 := process_zero\<lparr>pid := 1, cwd := ''/etc'', p_task := Some 0\<rparr>),
       process_count = 1, next_pid = 2, foreground_pids = \<lambda>_. 0, foreground_count = 0\<rparr>\<rparr>"

lemma demo_children: "children demo_tree 0 = [1]" "children demo_tree 1 = [2]" "children demo_tree 2 = []"
  by (simp_all add: children_def demo_tree_def node_zero_def eval_nat_numeral)

lemma demo_at_path: "at_path demo_kst [''etc''] (VTmp 1)" "at_path demo_kst [''etc'', ''rc''] (VTmp 2)"
proof -
  have 0: "at_path demo_kst [] (VTmp 0)"
    using at_root [of demo_kst] by (simp add: demo_kst_def demo_tree_def demo_dir_def vnode_at_def)
  have n: "v_name (n_vnode (node_pool demo_tree 1)) = ''etc''" "v_name (n_vnode (node_pool demo_tree 2)) = ''rc''"
    by (simp_all add: demo_tree_def demo_dir_def)
  have 1: "at_path demo_kst ([] @ [''etc'']) (VTmp 1)"
    by (rule at_child [OF 0]) (simp_all add: demo_kst_def demo_tree_def demo_dir_def vnode_at_def has_op_def has_lookup_def
        vnode_lookup_def tmpfs_dir_lookup_def children_def node_zero_def eval_nat_numeral named_def uc_def component_ok_def slash_free_def VFS_MAX_NAME_def)
  then show "at_path demo_kst [''etc''] (VTmp 1)" by simp
  have "at_path demo_kst ([''etc''] @ [''rc'']) (VTmp 2)"
    by (rule at_child [OF 1 [simplified]]) (simp_all add: demo_kst_def demo_tree_def demo_dir_def vnode_at_def has_op_def has_lookup_def
        vnode_lookup_def tmpfs_dir_lookup_def children_def node_zero_def eval_nat_numeral named_def uc_def component_ok_def slash_free_def VFS_MAX_NAME_def)
  then show "at_path demo_kst [''etc'', ''rc''] (VTmp 2)" by simp
qed

text \<open>C20. Canonical paths and path resolution are inverse to each other. For a vnode that names lead to
  from the root, and whose path fits into the buffer, \<open>vfs_canonical_path\<close> prints exactly the slash-separated
  names, and \<open>vfs_resolve_path\<close> of the printed path returns that vnode and changes nothing.\<close>

theorem canonical_path_roundtrip:
  assumes "at_path s ns p" and "length (abs_path ns) < VFS_MAX_PATH"
  shows "\<exists>str. vfs_canonical_path p VFS_MAX_PATH s = Some str \<and> str = abs_path ns \<and>
    vfs_resolve_path str s = Some (Some p, s)"
  using canonical_at_path [OF assms] at_path_resolve [OF assms(1)] abs_path_depth [of ns] assms(2) by simp

theorem canonical_path_roundtrip_witness:
  "vfs_canonical_path (VTmp 2) VFS_MAX_PATH demo_kst = Some ''/etc/rc'' \<and>
   vfs_resolve_path ''/etc/rc'' demo_kst = Some (Some (VTmp 2), demo_kst)"
  using canonical_path_roundtrip [OF demo_at_path(2)] by (simp add: abs_path_def VFS_MAX_PATH_def)

text \<open>C21. A relative path is resolved from the working directory: if the canonical path of a directory is
  the working directory and the two strings fit into the path buffer, \<open>vfs_resolve_path_cwd\<close> is the walk
  along the components of the path that starts at that directory, with \<^verbatim>\<open>.\<close> and \<^verbatim>\<open>..\<close> included.\<close>

theorem resolve_path_cwd_walk:
  assumes "at_path s ns c" "vfs_canonical_path c VFS_MAX_PATH s = Some dir" "length (abs_path ns) < VFS_MAX_PATH"
    "length dir + length r + 1 < VFS_MAX_PATH" "r = [] \<or> hd r \<noteq> CHR ''/''"
  shows "vfs_resolve_path_cwd dir r s = walk (components r) (Some c) s"
proof -
  have "dir = abs_path ns" using canonical_at_path [OF assms(1,3)] abs_path_depth [of ns] assms(2,3) by simp
  then show ?thesis using resolve_relative [OF assms(1)] assms(4,5) by simp
qed

theorem resolve_path_cwd_walk_witness:
  "vfs_resolve_path_cwd ''/etc'' ''../etc/./rc'' demo_kst = walk [''..'', ''etc'', ''.'', ''rc''] (Some (VTmp 1)) demo_kst"
proof -
  have c: "vfs_canonical_path (VTmp 1) VFS_MAX_PATH demo_kst = Some ''/etc''"
    using canonical_at_path [OF demo_at_path(1), of VFS_MAX_PATH] by (simp add: abs_path_def VFS_MAX_PATH_def)
  have w: "components ''../etc/./rc'' = [''..'', ''etc'', ''.'', ''rc'']"
    by (simp add: components.simps Let_def VFS_MAX_NAME_def)
  show ?thesis using resolve_path_cwd_walk [OF demo_at_path(1) c] by (simp add: abs_path_def VFS_MAX_PATH_def w)
qed

end
