(* ===== verification/ProcRefs.thy ===== *)
theory ProcRefs
  imports Process VfsPaths
begin

text \<open>
  The reference counts of pipes against the descriptor tables of all processes: every
  operation on descriptors, and the operations that make, copy, end and reap processes, keep
  the count of each end equal to the number of descriptors that refer to it.
\<close>

section \<open>Who holds a vnode\<close>

definition holders :: "kst \<Rightarrow> vptr \<Rightarrow> (nat \<times> nat) set" where
  "holders s v = {(i, fd). i < MAX_PROCESSES \<and> fd < MAX_FDS \<and> fd_used (fds (proc s i) fd) \<and> fd_node (fds (proc s i) fd) = Some v}"

definition refs :: "kst \<Rightarrow> vptr \<Rightarrow> int" where
  "refs s v = (case v of VPipeR k \<Rightarrow> read_refcount (k_pipes s k) | VPipeW k \<Rightarrow> write_refcount (k_pipes s k) | _ \<Rightarrow> 0)"

definition is_pipe :: "vptr \<Rightarrow> bool" where
  "is_pipe v \<longleftrightarrow> (\<exists>k. v = VPipeR k \<or> v = VPipeW k)"

definition refs_ok :: "kst \<Rightarrow> bool" where
  "refs_ok s \<longleftrightarrow> (\<forall>v. is_pipe v \<longrightarrow> refs s v = int (card (holders s v)))"

definition in_use_ok :: "kst \<Rightarrow> bool" where
  "in_use_ok s \<longleftrightarrow> (\<forall>k. p_in_use (k_pipes s k) \<longleftrightarrow> refs s (VPipeR k) \<noteq> 0 \<or> refs s (VPipeW k) \<noteq> 0)"

text \<open>Free slots and zombies have no open descriptors.\<close>

definition idle_ok :: "kst \<Rightarrow> bool" where
  "idle_ok s \<longleftrightarrow> (\<forall>i < MAX_PROCESSES. pid (proc s i) = 0 \<or> is_zombie (proc s i) \<longrightarrow> (\<forall>fd < MAX_FDS. \<not> fd_used (fds (proc s i) fd)))"

definition fd_inv :: "kst \<Rightarrow> bool" where
  "fd_inv s \<longleftrightarrow> refs_ok s \<and> in_use_ok s \<and> idle_ok s"

definition alive :: "kst \<Rightarrow> nat \<Rightarrow> bool" where
  "alive s i \<longleftrightarrow> i < MAX_PROCESSES \<and> pid (proc s i) \<noteq> 0 \<and> \<not> is_zombie (proc s i)"

lemma holders_finite [simp]: "finite (holders s v)"
proof -
  have "holders s v \<subseteq> {..<MAX_PROCESSES} \<times> {..<MAX_FDS}" by (auto simp: holders_def)
  then show ?thesis by (rule finite_subset) simp
qed

lemma proc_upd [simp]: "proc (upd_proc i f s) j = (if j = i then f (proc s i) else proc s j)"
  by (simp add: upd_proc_def)

lemma upd_proc_fields [simp]:
  "k_pipes (upd_proc i f s) = k_pipes s" "k_sched (upd_proc i f s) = k_sched s" "k_mm (upd_proc i f s) = k_mm s"
  "k_tmp (upd_proc i f s) = k_tmp s" "k_root (upd_proc i f s) = k_root s" "k_disk (upd_proc i f s) = k_disk s"
  "k_fat (upd_proc i f s) = k_fat s" "k_dev (upd_proc i f s) = k_dev s"
  by (simp_all add: upd_proc_def)

lemma holders_procs: "k_procs s = k_procs t \<Longrightarrow> holders s = holders t"
  by (auto simp: holders_def fun_eq_iff)

lemma holders_set_fd:
  assumes "i < MAX_PROCESSES" "fd < MAX_FDS"
  shows "holders (set_fd i fd f s) v =
    (if fd_used (f (fds (proc s i) fd)) \<and> fd_node (f (fds (proc s i) fd)) = Some v
     then insert (i, fd) (holders s v) else holders s v - {(i, fd)})"
  using assms by (auto simp: holders_def set_fd_def split: if_splits)

section \<open>References\<close>

lemma vnode_ops_pipe [simp]:
  "has_op has_dup (VPipeR k) s" "has_op has_dup (VPipeW k) s" "has_op has_close (VPipeR k) s" "has_op has_close (VPipeW k) s"
  by (simp_all add: has_op_def vnode_at_def pipe_vnode_def has_dup_def has_close_def)

lemma dup_procs [simp]: "k_procs (vnode_dup v s) = k_procs s"
  by (cases v) (simp_all add: vnode_dup_def)

lemma close_procs [simp]: "k_procs (vnode_close v s) = k_procs s"
  by (cases v) (simp_all add: vnode_close_def with_pipe_def split: prod.splits)

lemma refs_dup: "is_pipe v \<Longrightarrow> refs (vnode_dup v s) w = refs s w + (if w = v then 1 else 0)"
  by (cases v; cases w) (auto simp: refs_def vnode_dup_def pipe_read_dup_def pipe_write_dup_def is_pipe_def)

lemma refs_close: "is_pipe v \<Longrightarrow> refs (vnode_close v s) w = refs s w - (if w = v then 1 else 0)"
  by (cases v; cases w) (auto simp: refs_def vnode_close_def with_pipe_def pipe_read_close_def pipe_write_close_def is_pipe_def Let_def)

lemma in_use_dup: "is_pipe v \<Longrightarrow> p_in_use (k_pipes (vnode_dup v s) k) = p_in_use (k_pipes s k)"
  by (cases v) (auto simp: vnode_dup_def pipe_read_dup_def pipe_write_dup_def is_pipe_def)

lemma in_use_close:
  assumes "is_pipe v"
  shows "p_in_use (k_pipes (vnode_close v s) k) \<longleftrightarrow> p_in_use (k_pipes s k) \<and>
    \<not> ((v = VPipeR k \<or> v = VPipeW k) \<and> refs (vnode_close v s) (VPipeR k) = 0 \<and> refs (vnode_close v s) (VPipeW k) = 0)"
  using assms by (cases v) (auto simp: vnode_close_def with_pipe_def pipe_read_close_def pipe_write_close_def is_pipe_def refs_def Let_def)

lemma dup_other: "\<not> is_pipe v \<Longrightarrow> vnode_dup v s = s" "\<not> is_pipe v \<Longrightarrow> vnode_close v s = s"
  by (cases v; auto simp: vnode_dup_def vnode_close_def is_pipe_def)+

lemma refs_cong: "k_pipes t = k_pipes s \<Longrightarrow> refs t w = refs s w"
  by (cases w) (simp_all add: refs_def)

text \<open>The three effects on the counts: a descriptor more, a descriptor less, no change.\<close>

lemma fd_inv_more:
  assumes "fd_inv s" "holders s v \<noteq> {}"
    and h: "\<forall>w. is_pipe w \<longrightarrow> holders t w = (if w = v then insert x (holders s w) else holders s w)" and x: "x \<notin> holders s v"
    and p: "k_pipes t = k_pipes (vnode_dup v s)" and idle: "idle_ok t"
  shows "fd_inv t"
proof -
  have r: "refs t w = refs (vnode_dup v s) w" for w by (rule refs_cong [OF p])
  show ?thesis
  proof (cases "is_pipe v")
    case True
    have "refs_ok t" unfolding refs_ok_def
      using assms(1) h x refs_dup [OF True] by (simp add: r fd_inv_def refs_ok_def)
    moreover have "in_use_ok t" unfolding in_use_ok_def
    proof
      fix k
      have old: "p_in_use (k_pipes s k) \<longleftrightarrow> refs s (VPipeR k) \<noteq> 0 \<or> refs s (VPipeW k) \<noteq> 0"
        using assms(1) by (simp add: fd_inv_def in_use_ok_def)
      have pos: "refs s w \<ge> 0" if "is_pipe w" for w using assms(1) that by (simp add: fd_inv_def refs_ok_def)
      have "refs s v > 0" using assms(1,2) True by (simp add: fd_inv_def refs_ok_def card_gt_0_iff)
      then show "p_in_use (k_pipes t k) \<longleftrightarrow> refs t (VPipeR k) \<noteq> 0 \<or> refs t (VPipeW k) \<noteq> 0"
        unfolding r refs_dup [OF True] p in_use_dup [OF True] old
        using pos [of "VPipeR k"] pos [of "VPipeW k"] by (auto simp: is_pipe_def)
    qed
    ultimately show ?thesis using idle by (simp add: fd_inv_def)
  next
    case False
    have k: "k_pipes t = k_pipes s" using p by (simp add: dup_other [OF False])
    have "holders t w = holders s w" if "is_pipe w" for w using h that False by auto
    then show ?thesis using assms(1) idle k refs_cong [OF k] by (simp add: fd_inv_def refs_ok_def in_use_ok_def)
  qed
qed

lemma fd_inv_less:
  assumes "fd_inv s" "x \<in> holders s v"
    and h: "\<forall>w. is_pipe w \<longrightarrow> holders t w = (if w = v then holders s w - {x} else holders s w)"
    and p: "k_pipes t = k_pipes (vnode_close v s)" and idle: "idle_ok t"
  shows "fd_inv t"
proof -
  have r: "refs t w = refs (vnode_close v s) w" for w by (rule refs_cong [OF p])
  show ?thesis
  proof (cases "is_pipe v")
    case True
    have c: "card (holders s v) > 0" using assms(2) unfolding card_gt_0_iff by auto
    have c1: "int (card (holders s v - {x})) = int (card (holders s v)) - 1"
      using c assms(2) by (simp add: card_Diff_singleton of_nat_diff)
    have "refs_ok t" unfolding refs_ok_def
    proof (intro allI impI)
      fix w assume w: "is_pipe w"
      then have "refs s w = int (card (holders s w))" using assms(1) by (simp add: fd_inv_def refs_ok_def)
      then show "refs t w = int (card (holders t w))" using h w c1 by (simp add: r refs_close [OF True])
    qed
    moreover have "in_use_ok t" unfolding in_use_ok_def
    proof
      fix k
      have old: "p_in_use (k_pipes s k) \<longleftrightarrow> refs s (VPipeR k) \<noteq> 0 \<or> refs s (VPipeW k) \<noteq> 0"
        using assms(1) by (simp add: fd_inv_def in_use_ok_def)
      have "refs s v > 0" using assms(1) c True by (simp add: fd_inv_def refs_ok_def)
      then show "p_in_use (k_pipes t k) \<longleftrightarrow> refs t (VPipeR k) \<noteq> 0 \<or> refs t (VPipeW k) \<noteq> 0"
        unfolding r p in_use_close [OF True] old refs_close [OF True] by auto
    qed
    ultimately show ?thesis using idle by (simp add: fd_inv_def)
  next
    case False
    have k: "k_pipes t = k_pipes s" using p by (simp add: dup_other [OF False])
    have "holders t w = holders s w" if "is_pipe w" for w using h that False by auto
    then show ?thesis using assms(1) idle k refs_cong [OF k] by (simp add: fd_inv_def refs_ok_def in_use_ok_def)
  qed
qed

lemma fd_inv_same:
  assumes "fd_inv s" "\<forall>w. is_pipe w \<longrightarrow> holders t w = holders s w" "k_pipes t = k_pipes s" "idle_ok t"
  shows "fd_inv t"
  using assms refs_cong [OF assms(3)] by (simp add: fd_inv_def refs_ok_def in_use_ok_def)

lemma idle_set_fd:
  assumes "idle_ok s" "alive s i \<or> \<not> fd_used (f (fds (proc s i) fd))" "k_procs t = k_procs (set_fd i fd f s)"
  shows "idle_ok t"
  using assms unfolding idle_ok_def set_fd_def alive_def by (auto simp: upd_proc_def)

section \<open>Operations on descriptors\<close>

lemma close_node_effect:
  "k_procs (close_node q s) = k_procs s"
  "k_pipes (close_node (Some v) s) = k_pipes (vnode_close v s)" "k_pipes (close_node None s) = k_pipes s"
proof -
  show "k_pipes (close_node (Some v) s) = k_pipes (vnode_close v s)" for v
    using dup_other(2) [of v s] by (cases "is_pipe v") (auto simp: close_node_def is_pipe_def)
qed (simp_all add: close_node_def split: option.split)

lemma dup_entry_effect:
  "k_procs (dup_entry e s) = k_procs s"
  "fd_used e \<Longrightarrow> fd_node e = Some v \<Longrightarrow> k_pipes (dup_entry e s) = k_pipes (vnode_dup v s)"
  "fd_node e = None \<or> \<not> fd_used e \<Longrightarrow> k_pipes (dup_entry e s) = k_pipes s"
proof -
  show "k_pipes (dup_entry e s) = k_pipes (vnode_dup v s)" if "fd_used e" "fd_node e = Some v" for v
    using that dup_other(1) [of v s] by (cases "is_pipe v") (auto simp: dup_entry_def is_pipe_def)
qed (auto simp: dup_entry_def split: option.split)

lemma proc_cong: "k_procs s = k_procs t \<Longrightarrow> proc s = proc t"
  by simp

lemma set_fd_cong: "k_procs s = k_procs t \<Longrightarrow> k_procs (set_fd i fd f s) = k_procs (set_fd i fd f t)"
  by (simp add: set_fd_def upd_proc_def)

lemma set_fd_pipes [simp]: "k_pipes (set_fd i fd f s) = k_pipes s"
  by (simp add: set_fd_def)

lemma close_inv:
  assumes "fd_inv s" "i < MAX_PROCESSES"
  shows "fd_inv (snd (process_close i fd s))"
proof (cases "bad_fd i fd s")
  case True
  then show ?thesis using assms by (simp add: process_close_def)
next
  case False
  define e where "e = fds (proc s i) (nat fd)"
  define f :: "fd_entry \<Rightarrow> fd_entry" where "f = (\<lambda>e. e\<lparr>fd_used := False, fd_node := None, fd_offset := 0\<rparr>)"
  define t where "t = set_fd i (nat fd) f (close_node (fd_node e) s)"
  have u: "fd_used e" and fd: "nat fd < MAX_FDS" using False by (auto simp: bad_fd_def e_def)
  have st: "snd (process_close i fd s) = t" using False by (simp add: process_close_def t_def e_def f_def)
  have kp: "k_procs t = k_procs (set_fd i (nat fd) f s)"
    unfolding t_def by (rule set_fd_cong) (simp add: close_node_effect)
  have h: "holders t w = holders s w - {(i, nat fd)}" for w
    unfolding holders_procs [OF kp] holders_set_fd [OF assms(2) fd] by (simp add: f_def)
  have idle: "idle_ok t" by (rule idle_set_fd [OF _ _ kp]) (use assms in \<open>simp_all add: fd_inv_def f_def\<close>)
  show ?thesis
  proof (cases "fd_node e")
    case None
    have "(i, nat fd) \<notin> holders s w" for w using None by (simp add: holders_def e_def)
    then show ?thesis unfolding st using h idle None
      by (intro fd_inv_same [OF assms(1)]) (simp_all add: t_def close_node_effect)
  next
    case (Some v)
    have m: "(i, nat fd) \<in> holders s w \<longleftrightarrow> w = v" for w using Some u fd assms(2) by (auto simp: holders_def e_def)
    have hv: "\<forall>w. is_pipe w \<longrightarrow> holders t w = (if w = v then holders s w - {(i, nat fd)} else holders s w)" using h m by auto
    show ?thesis unfolding st
      by (rule fd_inv_less [OF assms(1) _ hv]) (simp_all add: m t_def Some close_node_effect idle [unfolded t_def Some])
  qed
qed

lemma close_slots:
  "proc (snd (process_close i fd s)) j =
     (if j = i \<and> \<not> bad_fd i fd s then (proc s i)\<lparr>fds := (fds (proc s i))(nat fd := (fds (proc s i) (nat fd))
        \<lparr>fd_used := False, fd_node := None, fd_offset := 0\<rparr>)\<rparr> else proc s j)"
  by (auto simp: process_close_def set_fd_def close_node_effect(1))

lemma alive_close: "alive (snd (process_close i fd s)) j = alive s j"
  by (simp add: alive_def close_slots)

text \<open>A descriptor that was not in use becomes another reference to a vnode that is held.\<close>

lemma ref_inv:
  assumes "fd_inv s" "alive s i" "fd < MAX_FDS" "\<not> fd_used (fds (proc s i) fd)"
    and kp: "k_procs t = k_procs (set_fd i fd f s)" and f: "fd_used (f (fds (proc s i) fd))"
    and p: "\<forall>v. fd_node (f (fds (proc s i) fd)) = Some v \<longrightarrow> (is_pipe v \<longrightarrow> holders s v \<noteq> {}) \<and> k_pipes t = k_pipes (vnode_dup v s)"
    and n: "fd_node (f (fds (proc s i) fd)) = None \<longrightarrow> k_pipes t = k_pipes s"
  shows "fd_inv t"
proof -
  have i: "i < MAX_PROCESSES" using assms(2) by (simp add: alive_def)
  have fresh: "(i, fd) \<notin> holders s w" for w using assms(4) by (simp add: holders_def)
  have h: "holders t w = (if fd_node (f (fds (proc s i) fd)) = Some w then insert (i, fd) (holders s w) else holders s w)" for w
    unfolding holders_procs [OF kp] holders_set_fd [OF i assms(3)] using f fresh by auto
  have idle: "idle_ok t" by (rule idle_set_fd [OF _ _ kp]) (use assms in \<open>simp_all add: fd_inv_def\<close>)
  show ?thesis
  proof (cases "\<exists>v. fd_node (f (fds (proc s i) fd)) = Some v \<and> is_pipe v")
    case True
    then obtain v where v: "fd_node (f (fds (proc s i) fd)) = Some v" "is_pipe v" by blast
    show ?thesis by (rule fd_inv_more [OF assms(1), of v _ "(i, fd)"]) (use p v h fresh idle in auto)
  next
    case False
    have "k_pipes t = k_pipes s" using False p n dup_other(1) by (cases "fd_node (f (fds (proc s i) fd))") force+
    then show ?thesis using h idle False by (intro fd_inv_same [OF assms(1)]) auto
  qed
qed

lemma dup2_inv:
  assumes "fd_inv s" "alive s i"
  shows "fd_inv (snd (process_dup2 i a b s))"
proof (cases "bad_fd i a s \<or> b < 0 \<or> b \<ge> int MAX_FDS \<or> a = b")
  case True
  then show ?thesis using assms by (auto simp: process_dup2_def)
next
  case False
  define s1 where "s1 = (if fd_used (fds (proc s i) (nat b)) then snd (process_close i b s) else s)"
  define f :: "fd_entry \<Rightarrow> fd_entry" where "f = (\<lambda>e. e\<lparr>fd_node := fd_node (fds (proc s1 i) (nat a)), fd_offset := 0, fd_used := True\<rparr>)"
  define t where "t = dup_entry (fds (proc (set_fd i (nat b) f s1) i) (nat b)) (set_fd i (nat b) f s1)"
  have i: "i < MAX_PROCESSES" and b: "nat b < MAX_FDS" and a: "nat a < MAX_FDS" and ab: "nat a \<noteq> nat b"
    using assms(2) False by (auto simp: alive_def bad_fd_def)
  have st: "snd (process_dup2 i a b s) = t" using False by (simp add: process_dup2_def s1_def f_def t_def Let_def)
  have i1: "fd_inv s1" "alive s1 i" using assms close_inv [OF assms(1) i] by (simp_all add: s1_def alive_close)
  have free: "\<not> fd_used (fds (proc s1 i) (nat b))" and used: "fd_used (fds (proc s1 i) (nat a))"
    using False ab by (auto simp: s1_def close_slots bad_fd_def)
  have e: "fds (proc (set_fd i (nat b) f s1) i) (nat b) = f (fds (proc s1 i) (nat b))" by (simp add: set_fd_def)
  have held: "holders s1 v \<noteq> {}" if "fd_node (fds (proc s1 i) (nat a)) = Some v" for v
    using that used i a by (auto simp: holders_def)
  show ?thesis unfolding st
  proof (rule ref_inv [OF i1 b free, of _ f])
    show "k_procs t = k_procs (set_fd i (nat b) f s1)" unfolding t_def by (rule dup_entry_effect(1))
    show "fd_used (f (fds (proc s1 i) (nat b)))" by (simp add: f_def)
    show "\<forall>v. fd_node (f (fds (proc s1 i) (nat b))) = Some v \<longrightarrow> (is_pipe v \<longrightarrow> holders s1 v \<noteq> {}) \<and> k_pipes t = k_pipes (vnode_dup v s1)"
    proof (intro allI impI conjI)
      fix v assume v: "fd_node (f (fds (proc s1 i) (nat b))) = Some v"
      show "holders s1 v \<noteq> {}" using held v by (simp add: f_def)
      show "k_pipes t = k_pipes (vnode_dup v s1)" unfolding t_def e
        using dup_entry_effect(2) [of "f (fds (proc s1 i) (nat b))" v] v
        by (cases v) (simp_all add: f_def vnode_dup_def)
    qed
    show "fd_node (f (fds (proc s1 i) (nat b))) = None \<longrightarrow> k_pipes t = k_pipes s1"
      unfolding t_def e using dup_entry_effect(3) by simp
  qed
qed

text \<open>A new pipe: the slot was not in use, so nobody holds its ends.\<close>

lemma pipe_fresh:
  assumes "fd_inv s" "pipe_create (k_pipes s) = (Inr k, ps)"
  shows "ps = (k_pipes s)(k := new_pipe)" "holders s (VPipeR k) = {}" "holders s (VPipeW k) = {}"
proof -
  have k: "\<not> p_in_use (k_pipes s k)" "ps = (k_pipes s)(k := new_pipe)"
    using assms(2) by (auto simp: pipe_create_def split: option.splits dest: scan_up_SomeD)
  then show "ps = (k_pipes s)(k := new_pipe)" by simp
  have "refs s (VPipeR k) = 0 \<and> refs s (VPipeW k) = 0" using assms(1) k(1) by (auto simp: fd_inv_def in_use_ok_def)
  then have "card (holders s (VPipeR k)) = 0 \<and> card (holders s (VPipeW k)) = 0"
    using assms(1) by (auto simp: fd_inv_def refs_ok_def is_pipe_def)
  then show "holders s (VPipeR k) = {}" "holders s (VPipeW k) = {}" by simp_all
qed

lemma pipe_inv_both:
  assumes "fd_inv s" "pipe_create (k_pipes s) = (Inr k, ps)" "idle_ok t"
    and p: "\<forall>j. j \<noteq> k \<longrightarrow> k_pipes t j = k_pipes s j" and q: "read_refcount (k_pipes t k) = int n" "write_refcount (k_pipes t k) = int n"
      "p_in_use (k_pipes t k) \<longleftrightarrow> n \<noteq> 0"
    and h: "card (holders t (VPipeR k)) = n" "card (holders t (VPipeW k)) = n"
      "\<forall>w. is_pipe w \<longrightarrow> w \<noteq> VPipeR k \<longrightarrow> w \<noteq> VPipeW k \<longrightarrow> holders t w = holders s w"
  shows "fd_inv t"
proof -
  have r: "refs t w = (if w = VPipeR k \<or> w = VPipeW k then int n else refs s w)" for w
    using p q(1,2) by (cases w) (auto simp: refs_def)
  have "refs_ok t" unfolding refs_ok_def
  proof (intro allI impI)
    fix w assume "is_pipe w"
    then show "refs t w = int (card (holders t w))" using assms(1) h r by (auto simp: fd_inv_def refs_ok_def)
  qed
  moreover have "in_use_ok t" unfolding in_use_ok_def
  proof
    fix j show "p_in_use (k_pipes t j) \<longleftrightarrow> refs t (VPipeR j) \<noteq> 0 \<or> refs t (VPipeW j) \<noteq> 0"
      using assms(1) p q(3) r by (cases "j = k") (auto simp: fd_inv_def in_use_ok_def)
  qed
  ultimately show ?thesis using assms(3) by (simp add: fd_inv_def)
qed

lemma free_fdD: "free_fd i lo s = Some fd \<Longrightarrow> lo \<le> fd \<and> fd < MAX_FDS \<and> \<not> fd_used (fds (proc s i) fd)"
  unfolding free_fd_def by (auto dest: scan_up_SomeD)

lemma pipe_op_inv:
  assumes "fd_inv s" "alive s i"
  shows "fd_inv (snd (process_pipe i s))"
proof (cases "pipe_create (k_pipes s)")
  case (Pair r ps)
  show ?thesis
  proof (cases r)
    case (Inl e)
    then have "ps = k_pipes s" using Pair by (auto simp: pipe_create_def split: option.splits)
    then show ?thesis using assms(1) Pair Inl by (simp add: process_pipe_def)
  next
    case (Inr k)
    note c = Pair [unfolded Inr]
    note fresh = pipe_fresh [OF assms(1) c]
    define s1 where "s1 = s\<lparr>k_pipes := ps\<rparr>"
    define w where "w = (case free_fd i 3 s1 of None \<Rightarrow> None | Some fd \<Rightarrow> free_fd i (fd + 1) s1)"
    have i: "i < MAX_PROCESSES" using assms(2) by (simp add: alive_def)
    have idle: "idle_ok s" using assms(1) by (simp add: fd_inv_def)
    show ?thesis
    proof (cases "free_fd i 3 s1 = None \<or> w = None")
      case True
      define t where "t = vnode_close (VPipeW k) (vnode_close (VPipeR k) s1)"
      have t: "snd (process_pipe i s) = t"
        using True c unfolding process_pipe_def t_def s1_def w_def
        by (simp add: Let_def split: option.split) fastforce
      have kp: "k_procs t = k_procs s" by (simp add: t_def s1_def)
      show ?thesis unfolding t
        by (rule pipe_inv_both [OF assms(1) c, of _ 0])
          (use idle kp fresh holders_procs [OF kp] in \<open>auto simp: idle_ok_def t_def s1_def vnode_close_def with_pipe_def
            pipe_read_close_def pipe_write_close_def new_pipe_def Let_def\<close>)
    next
      case False
      then obtain rfd wfd where r: "free_fd i 3 s1 = Some rfd" and wf: "free_fd i (rfd + 1) s1 = Some wfd" by (auto simp: w_def)
      define t where "t = put_end i wfd (VPipeW k) (put_end i rfd (VPipeR k) s1)"
      have t: "snd (process_pipe i s) = t" using r wf c by (simp add: process_pipe_def Let_def s1_def t_def)
      have f: "rfd < MAX_FDS" "wfd < MAX_FDS" "rfd \<noteq> wfd" "\<not> fd_used (fds (proc s i) rfd)" "\<not> fd_used (fds (proc s i) wfd)"
        using free_fdD [OF r] free_fdD [OF wf] by (auto simp: s1_def)
      have h1: "holders s1 = holders s" by (rule holders_procs) (simp add: s1_def)
      have n: "(i, rfd) \<notin> holders s v" "(i, wfd) \<notin> holders s v" for v using f by (auto simp: holders_def)
      have h: "holders t v = (if v = VPipeW k then insert (i, wfd) (holders s v)
          else if v = VPipeR k then insert (i, rfd) (holders s v) else holders s v)" for v
        unfolding t_def put_end_def holders_set_fd [OF i f(2)] holders_set_fd [OF i f(1)] h1 using f(3) n by auto
      show ?thesis unfolding t
      proof (rule pipe_inv_both [OF assms(1) c, of _ 1])
        show "idle_ok t" using idle assms(2) unfolding idle_ok_def t_def put_end_def set_fd_def s1_def alive_def by auto
      qed (use fresh h in \<open>auto simp: t_def put_end_def s1_def new_pipe_def\<close>)
    qed
  qed
qed

lemma open_inv:
  assumes "fd_inv s" "alive s i" "\<not> is_pipe node"
  shows "fd_inv (snd (open_node i node flags acc s))"
proof (cases "free_fd i 3 s")
  case None
  then show ?thesis using assms(1) by (simp add: open_node_def)
next
  case (Some fd)
  note fd = free_fdD [OF Some]
  have "fd_inv (set_fd i fd (\<lambda>_. \<lparr>fd_node = Some node, fd_offset = n, fd_used = True, access_mode = acc\<rparr>) s)" for n
    by (rule ref_inv [OF assms(1,2)]) (use fd dup_other(1) [OF assms(3)] assms(3) in auto)
  then show ?thesis using assms(1) Some by (simp add: open_node_def Let_def)
qed

section \<open>Operations on processes\<close>

lemma alloc_slot:
  assumes "process_alloc par s = (Some i, t)"
  shows "i < MAX_PROCESSES" "pid (proc s i) = 0" "k_pipes t = k_pipes s" "k_sched t = k_sched s" "k_mm t = k_mm s"
    "proc t j = (if j = i then process_zero\<lparr>pid := next_pid (k_procs s), parent_pid := par\<rparr> else proc s j)"
  using assms by (auto simp: process_alloc_def Let_def upd_proc_def split: option.splits dest: scan_up_SomeD)

lemma process_zero_fds [simp]: "fd_used (fds process_zero fd) = False" "fd_node (fds process_zero fd) = None"
  by (simp_all add: process_zero_def fd_zero_def)

lemma alloc_inv:
  assumes "fd_inv s" "process_alloc par s = (r, t)"
  shows "fd_inv t"
proof (cases r)
  case None
  then show ?thesis using assms by (auto simp: process_alloc_def Let_def split: option.splits)
next
  case (Some i)
  note a = alloc_slot [OF assms(2) [unfolded Some]]
  have u: "\<not> fd_used (fds (proc s i) fd)" if "fd < MAX_FDS" for fd
    using assms(1) a(1,2) that by (auto simp: fd_inv_def idle_ok_def)
  have "holders t w = holders s w" for w using u unfolding holders_def a(6) by (auto split: if_splits)
  moreover have "idle_ok t" using assms(1) unfolding fd_inv_def idle_ok_def a(6) by auto
  ultimately show ?thesis using a(3) by (intro fd_inv_same [OF assms(1)]) auto
qed

text \<open>Copying the table of descriptors into an empty one.\<close>

lemma clone_fd_inv:
  assumes "fd_inv s" "alive s dst" "src < MAX_PROCESSES" "src \<noteq> dst" "fd < MAX_FDS" "\<not> fd_used (fds (proc s dst) fd)"
  shows "fd_inv (clone_fd dst src fd s)"
proof -
  define e where "e = fds (proc s src) fd"
  have cl: "clone_fd dst src fd s = dup_entry e (set_fd dst fd (\<lambda>_. e) s)" by (simp add: clone_fd_def set_fd_def e_def Let_def)
  have kp: "k_procs (clone_fd dst src fd s) = k_procs (set_fd dst fd (\<lambda>_. e) s)" unfolding cl by (rule dup_entry_effect(1))
  have dupk: "k_pipes (vnode_dup v (set_fd dst fd (\<lambda>_. e) s)) = k_pipes (vnode_dup v s)" for v
    by (cases v) (simp_all add: vnode_dup_def)
  show ?thesis
  proof (cases "fd_used e")
    case True
    have held: "holders s v \<noteq> {}" if "fd_node e = Some v" for v using that True assms(3,5) by (auto simp: holders_def e_def)
    show ?thesis
    proof (rule ref_inv [OF assms(1,2,5,6) kp])
      show "fd_used e" by (rule True)
      show "\<forall>v. fd_node e = Some v \<longrightarrow> (is_pipe v \<longrightarrow> holders s v \<noteq> {}) \<and> k_pipes (clone_fd dst src fd s) = k_pipes (vnode_dup v s)"
        using held dup_entry_effect(2) [OF True] dupk unfolding cl by simp
      show "fd_node e = None \<longrightarrow> k_pipes (clone_fd dst src fd s) = k_pipes s" unfolding cl using dup_entry_effect(3) by simp
    qed
  next
    case False
    have d: "dst < MAX_PROCESSES" using assms(2) by (simp add: alive_def)
    have n: "(dst, fd) \<notin> holders s w" for w using assms(6) by (simp add: holders_def)
    have h: "holders (clone_fd dst src fd s) w = holders s w" for w
      unfolding holders_procs [OF kp] holders_set_fd [OF d assms(5)] using False n by simp
    have "k_pipes (clone_fd dst src fd s) = k_pipes s" unfolding cl using dup_entry_effect(3) [of e] False by simp
    moreover have "idle_ok (clone_fd dst src fd s)"
      by (rule idle_set_fd [OF _ _ kp]) (use assms in \<open>simp_all add: fd_inv_def\<close>)
    ultimately show ?thesis using h by (intro fd_inv_same [OF assms(1)]) auto
  qed
qed

lemma clone_fd_proc:
  "proc (clone_fd dst src fd s) j = (if j = dst then (proc s dst)\<lparr>fds := (fds (proc s dst))(fd := fds (proc s src) fd)\<rparr> else proc s j)"
  by (simp add: clone_fd_def dup_entry_effect(1) Let_def)

lemma clone_fds_inv:
  assumes "fd_inv s" "alive s dst" "src < MAX_PROCESSES" "src \<noteq> dst" "\<forall>fd < MAX_FDS. \<not> fd_used (fds (proc s dst) fd)" "n \<le> MAX_FDS"
  defines "t \<equiv> fold (clone_fd dst src) [0..<n] s"
  shows "fd_inv t \<and> proc t src = proc s src \<and>
    proc t dst = (proc s dst)\<lparr>fds := (\<lambda>fd. if fd < n then fds (proc s src) fd else fds (proc s dst) fd)\<rparr>"
  using assms(6) unfolding t_def
proof (induction n)
  case 0
  then show ?case using assms by simp
next
  case (Suc n)
  define u where "u = fold (clone_fd dst src) [0..<n] s"
  have IH: "fd_inv u" "proc u src = proc s src"
    "proc u dst = (proc s dst)\<lparr>fds := (\<lambda>fd. if fd < n then fds (proc s src) fd else fds (proc s dst) fd)\<rparr>"
    using Suc unfolding u_def by auto
  have st: "fold (clone_fd dst src) [0..<Suc n] s = clone_fd dst src n u" by (simp add: u_def)
  have "fd_inv (clone_fd dst src n u)"
    by (rule clone_fd_inv [OF IH(1)]) (use IH Suc.prems assms in \<open>auto simp: alive_def\<close>)
  moreover have "(\<lambda>fd. if fd < n then fds (proc s src) fd else fds (proc s dst) fd)(n := fds (proc s src) n) =
      (\<lambda>fd. if fd < Suc n then fds (proc s src) fd else fds (proc s dst) fd)" by (auto simp: less_Suc_eq)
  ultimately show ?case unfolding st clone_fd_proc using IH assms(4) by simp
qed

lemma upd_proc_inv:
  assumes "fd_inv s" "\<forall>p. fds (f p) = fds p" "\<forall>p. pid (f p) = pid p" "\<forall>p. is_zombie (f p) = is_zombie p"
  shows "fd_inv (upd_proc i f s)"
proof (rule fd_inv_same [OF assms(1)])
  show "\<forall>w. is_pipe w \<longrightarrow> holders (upd_proc i f s) w = holders s w" using assms(2) by (auto simp: holders_def split: if_splits)
  show "idle_ok (upd_proc i f s)" using assms unfolding fd_inv_def idle_ok_def by auto
qed simp

lemma clone_into_inv:
  assumes "fd_inv s" "alive s dst" "src < MAX_PROCESSES" "src \<noteq> dst" "\<forall>fd < MAX_FDS. \<not> fd_used (fds (proc s dst) fd)"
  shows "fd_inv (process_clone_into dst src pml4 s)"
    "\<forall>fd < MAX_FDS. fds (proc (process_clone_into dst src pml4 s) dst) fd = fds (proc s src) fd"
proof -
  define f where "f = (\<lambda>p. p\<lparr>pml4_phys := pml4, heap_start := heap_start (proc s src), heap_end := heap_end (proc s src),
           mmap_next := mmap_next (proc s src), p_uid := p_uid (proc s src), p_gid := p_gid (proc s src),
           fs_base := fs_base (proc s src), cwd := cwd (proc s src)\<rparr> :: process)"
  define u where "u = upd_proc dst f s"
  have u: "fd_inv u" "alive u dst" "proc u src = proc s src" "fds (proc u dst) = fds (proc s dst)"
    using upd_proc_inv [OF assms(1), of f dst] assms(2,4) by (simp_all add: u_def f_def alive_def)
  have c: "process_clone_into dst src pml4 s = fold (clone_fd dst src) [0..<MAX_FDS] u"
    by (simp only: process_clone_into_def Let_def u_def f_def)
  have "\<forall>fd < MAX_FDS. \<not> fd_used (fds (proc u dst) fd)" using u(4) assms(5) by simp
  from clone_fds_inv [OF u(1,2) assms(3,4) this order.refl] u(3)
  show "fd_inv (process_clone_into dst src pml4 s)"
    "\<forall>fd < MAX_FDS. fds (proc (process_clone_into dst src pml4 s) dst) fd = fds (proc s src) fd" unfolding c by simp_all
qed

text \<open>Closing everything.\<close>

lemma close_upto:
  assumes "fd_inv s" "i < MAX_PROCESSES"
  defines "t n \<equiv> fold (\<lambda>fd s. snd (process_close i (int fd) s)) [0..<n] s"
  shows "n \<le> MAX_FDS \<Longrightarrow> fd_inv (t n) \<and> (\<forall>fd < n. \<not> fd_used (fds (proc (t n) i) fd)) \<and>
    (\<forall>j. \<exists>F. proc (t n) j = (proc s j)\<lparr>fds := F\<rparr>) \<and> (\<forall>j. j \<noteq> i \<longrightarrow> proc (t n) j = proc s j)"
proof (induction n)
  case 0
  have "\<exists>F. proc s j = (proc s j)\<lparr>fds := F\<rparr>" for j by (rule exI [of _ "fds (proc s j)"]) simp
  then show ?case using assms by simp
next
  case (Suc n)
  have st: "t (Suc n) = snd (process_close i (int n) (t n))" by (simp add: t_def)
  have IH: "fd_inv (t n)" "\<forall>fd < n. \<not> fd_used (fds (proc (t n) i) fd)" "\<forall>j. j \<noteq> i \<longrightarrow> proc (t n) j = proc s j"
    "\<exists>F. proc (t n) j = (proc s j)\<lparr>fds := F\<rparr>" for j using Suc by auto
  have b: "bad_fd i (int n) (t n) \<longleftrightarrow> \<not> fd_used (fds (proc (t n) i) n)" using Suc.prems by (simp add: bad_fd_def)
  have c: "\<forall>fd < Suc n. \<not> fd_used (fds (proc (t (Suc n)) i) fd)"
    unfolding st close_slots b using IH(2) by (auto simp: less_Suc_eq)
  have d: "\<exists>F. proc (t (Suc n)) j = (proc s j)\<lparr>fds := F\<rparr>" for j
  proof -
    obtain F where "proc (t n) j = (proc s j)\<lparr>fds := F\<rparr>" using IH(4) by blast
    then show ?thesis unfolding st close_slots by auto
  qed
  show ?case using close_inv [OF IH(1) assms(2), of "int n"] c d IH(3) unfolding st close_slots by auto
qed

lemma close_all_effect:
  assumes "fd_inv s" "i < MAX_PROCESSES"
  shows "fd_inv (close_all i s)" "fd < MAX_FDS \<Longrightarrow> \<not> fd_used (fds (proc (close_all i s) i) fd)"
    "proc (close_all i s) j = (proc s j)\<lparr>fds := fds (proc (close_all i s) j)\<rparr>" "j \<noteq> i \<Longrightarrow> proc (close_all i s) j = proc s j"
proof -
  note c = close_upto [OF assms, of MAX_FDS, folded close_all_def]
  obtain F where "proc (close_all i s) j = (proc s j)\<lparr>fds := F\<rparr>" using c by blast
  then show "proc (close_all i s) j = (proc s j)\<lparr>fds := fds (proc (close_all i s) j)\<rparr>" by simp
qed (use close_upto [OF assms, of MAX_FDS, folded close_all_def] in simp_all)

lemma wake_parent_fields [simp]:
  "k_procs (wake_parent i s) = k_procs s" "k_pipes (wake_parent i s) = k_pipes s" "k_mm (wake_parent i s) = k_mm s"
  by (simp_all add: wake_parent_def split: option.split)

lemma set_task_state_fields [simp]:
  "k_procs (set_task_state t x s) = k_procs s" "k_pipes (set_task_state t x s) = k_pipes s" "k_mm (set_task_state t x s) = k_mm s"
  by (simp_all add: set_task_state_def)

lemma terminate_procs: "k_procs (process_terminate i t c s) = k_procs (upd_proc i (\<lambda>p. p\<lparr>exit_code := c, is_zombie := True\<rparr>) (close_all i s))"
  by (simp add: process_terminate_def process_mark_zombie_def)

lemma terminate_inv:
  assumes "fd_inv s" "i < MAX_PROCESSES"
  shows "fd_inv (process_terminate i t c s)"
proof -
  note e = close_all_effect [OF assms]
  have h: "holders (process_terminate i t c s) w = holders (close_all i s) w" for w
    by (auto simp: holders_def terminate_procs split: if_splits)
  have "idle_ok (process_terminate i t c s)" using e(1,2) unfolding fd_inv_def idle_ok_def terminate_procs by auto
  then show ?thesis
    using h by (intro fd_inv_same [OF e(1)]) (simp_all add: process_terminate_def process_mark_zombie_def)
qed

text \<open>Reaping.\<close>

lemma waitpid_inv:
  assumes "fd_inv s"
  shows "fd_inv (snd (process_waitpid i target s))"
proof (cases "scan_up (\<lambda>j. is_child i target s j \<and> has_event (proc s j)) 0 MAX_PROCESSES")
  case None
  then show ?thesis using assms by (simp add: process_waitpid_def)
next
  case (Some j)
  have j: "j < MAX_PROCESSES" using scan_up_SomeD [OF Some] by simp
  show ?thesis
  proof (cases "is_zombie (proc s j)")
    case True
    define t where "t = snd (process_waitpid i target s)"
    have p: "proc t k = (if k = j then process_zero else proc s k)" for k
      using Some True by (auto simp: t_def process_waitpid_def Let_def upd_proc_def)
    have u: "\<not> fd_used (fds (proc s j) fd)" if "fd < MAX_FDS" for fd using assms True j that by (auto simp: fd_inv_def idle_ok_def)
    have "holders t w = holders s w" for w using u unfolding holders_def p by (auto split: if_splits)
    moreover have "idle_ok t" using assms unfolding fd_inv_def idle_ok_def p by auto
    moreover have "k_pipes t = k_pipes s" using Some True by (simp add: t_def process_waitpid_def Let_def)
    ultimately show ?thesis unfolding t_def [symmetric] by (intro fd_inv_same [OF assms]) auto
  next
    case False
    then show ?thesis using Some upd_proc_inv [OF assms, of "\<lambda>p. p\<lparr>stop_reported := True\<rparr>" j]
      by (simp add: process_waitpid_def Let_def)
  qed
qed

text \<open>Reading and writing changes no reference.\<close>

definition same_refs :: "kst \<Rightarrow> kst \<Rightarrow> bool" where
  "same_refs s t \<longleftrightarrow> k_procs t = k_procs s \<and> (\<forall>k. read_refcount (k_pipes t k) = read_refcount (k_pipes s k) \<and>
     write_refcount (k_pipes t k) = write_refcount (k_pipes s k) \<and> p_in_use (k_pipes t k) = p_in_use (k_pipes s k))"

lemma same_refs_inv:
  assumes "fd_inv s" "same_refs s t"
  shows "fd_inv t"
proof -
  have r: "refs t w = refs s w" for w using assms(2) by (cases w) (simp_all add: refs_def same_refs_def)
  have kp: "k_procs t = k_procs s" using assms(2) by (simp add: same_refs_def)
  have "holders t = holders s" by (rule holders_procs [OF kp])
  then show ?thesis using assms kp by (simp add: fd_inv_def refs_ok_def in_use_ok_def idle_ok_def r same_refs_def)
qed

definition refs_of :: "pipe \<Rightarrow> int \<times> int \<times> bool" where
  "refs_of p = (read_refcount p, write_refcount p, p_in_use p)"

lemma drain_refs: "refs_of (snd (drain pipe_get n p)) = refs_of p"
proof (induction n arbitrary: p)
  case (Suc n)
  show ?case
  proof (cases "p_count p > 0")
    case True
    define q where "q = p\<lparr>p_head := (p_head p + 1) mod PIPE_BUF_SIZE, p_count := p_count p - 1\<rparr>"
    have "pipe_get p = Some (p_buf p (p_head p), q)" using True by (simp add: pipe_get_def q_def)
    then have "refs_of (snd (drain pipe_get (Suc n) p)) = refs_of (snd (drain pipe_get n q))" by (simp add: case_prod_beta)
    also have "\<dots> = refs_of p" unfolding Suc.IH by (simp add: q_def refs_of_def)
    finally show ?thesis .
  next
    case False
    then show ?thesis by (simp add: pipe_get_def)
  qed
qed simp

lemma write_loop_refs: "refs_of (fst (snd (write_loop k src n p))) = refs_of p"
proof (induction k src n p rule: write_loop.induct)
  case (1 k src n p)
  show ?case by (subst write_loop.simps) (use 1 in \<open>simp add: refs_of_def pipe_put_def\<close>)
qed

lemma pipe_io_refs:
  "same_refs s (snd (with_pipe (pipe_read k n) s))" "same_refs s (snd (with_pipe (pipe_write k src n) s))"
  using drain_refs [of n "k_pipes s k"] write_loop_refs [of k src n "k_pipes s k"]
  by (auto simp: same_refs_def with_pipe_def pipe_read_def pipe_write_def Let_def refs_of_def split: prod.splits)

lemma same_refs_refl [simp]: "same_refs s s"
  by (simp add: same_refs_def)

lemma vnode_read_refs: "vnode_read v n off s = Some (r, t) \<Longrightarrow> same_refs s t"
  using pipe_io_refs(1) [of s]
  by (auto simp: vnode_read_def with_fat_def console_read_def same_refs_def split: option.splits vnode_ops.splits vptr.splits prod.splits io.splits)
    (metis snd_conv)+

lemma vnode_write_refs: "vnode_write v src off n s = Some (r, t) \<Longrightarrow> same_refs s t"
  using pipe_io_refs(2) [of s]
  by (auto simp: vnode_write_def with_fat_def console_write_def same_refs_def split: option.splits vnode_ops.splits vptr.splits prod.splits io.splits)
    (metis snd_conv)+

lemma set_offset_inv: "fd_inv s \<Longrightarrow> i < MAX_PROCESSES \<Longrightarrow> fd < MAX_FDS \<Longrightarrow> fd_inv (set_fd i fd (\<lambda>e. e\<lparr>fd_offset := f e\<rparr>) s)"
proof (rule fd_inv_same)
  assume a: "fd_inv s" "i < MAX_PROCESSES" "fd < MAX_FDS"
  show "\<forall>w. is_pipe w \<longrightarrow> holders (set_fd i fd (\<lambda>e. e\<lparr>fd_offset := f e\<rparr>) s) w = holders s w"
    unfolding holders_set_fd [OF a(2,3)] using a by (auto simp: holders_def)
  show "idle_ok (set_fd i fd (\<lambda>e. e\<lparr>fd_offset := f e\<rparr>) s)" using a unfolding fd_inv_def idle_ok_def set_fd_def by auto
qed simp_all

lemma read_write_inv:
  assumes "fd_inv s" "i < MAX_PROCESSES"
  shows "process_read i fd n s = Some (r, t) \<Longrightarrow> fd_inv t" "process_write i fd src n s = Some (q, t) \<Longrightarrow> fd_inv t"
proof -
  have fd: "\<not> bad_fd i fd s \<Longrightarrow> nat fd < MAX_FDS" by (auto simp: bad_fd_def)
  note off = set_offset_inv [OF same_refs_inv [OF assms(1)] assms(2)]
  show "process_read i fd n s = Some (r, t) \<Longrightarrow> fd_inv t"
    using assms(1) fd same_refs_inv [OF assms(1) vnode_read_refs] off [OF vnode_read_refs, of _ _ _ _ _ "nat fd"]
    by (auto simp: process_read_def split: if_splits option.splits io.splits prod.splits)
  show "process_write i fd src n s = Some (q, t) \<Longrightarrow> fd_inv t"
    using assms(1) fd same_refs_inv [OF assms(1) vnode_write_refs] off [OF vnode_write_refs, of _ _ _ _ _ _ "nat fd"]
    by (auto simp: process_write_def split: if_splits option.splits io.splits prod.splits)
qed

section \<open>Properties\<close>

lemma demo_fd_inv: "fd_inv demo_kst" "alive demo_kst 0" "next_pid (k_procs demo_kst) > 0"
proof -
  have u: "\<not> fd_used (fds (proc demo_kst i) fd)" for i fd by (simp add: demo_kst_def process_zero_def fd_zero_def)
  then have h: "holders demo_kst w = {}" for w by (simp add: holders_def)
  have "refs demo_kst w = 0" for w by (cases w) (simp_all add: refs_def demo_kst_def)
  then show "fd_inv demo_kst" using u h by (simp add: fd_inv_def refs_ok_def in_use_ok_def idle_ok_def) (simp add: demo_kst_def)
qed (simp_all add: demo_kst_def alive_def process_zero_def)

text \<open>The reference counts of pipes are right: in every state the count of each end of each pipe is the
  number of descriptors, over all processes, that refer to it, a pipe slot is in use exactly while one of its
  counts is not 0, and free and zombie processes have no open descriptors. Closing, duplicating, reading,
  writing, making a pipe, opening a file, copying the table for a forked child, ending a process and reaping a
  child all keep this.\<close>

theorem fd_refcounts:
  assumes "fd_inv s" "alive s i" "next_pid (k_procs s) > 0"
  shows "fd_inv (snd (process_close i fd s)) \<and> fd_inv (snd (process_dup2 i fd fd2 s)) \<and> fd_inv (snd (process_pipe i s)) \<and>
    (\<not> is_pipe node \<longrightarrow> fd_inv (snd (open_node i node flags acc s))) \<and>
    (\<forall>r t. process_read i fd n s = Some (r, t) \<longrightarrow> fd_inv t) \<and>
    (\<forall>r t. process_write i fd src n s = Some (r, t) \<longrightarrow> fd_inv t) \<and>
    (\<forall>c t. process_alloc (pid (proc s i)) s = (Some c, t) \<longrightarrow> fd_inv (process_clone_into c i pml4 t)) \<and>
    fd_inv (process_terminate i task code s) \<and> fd_inv (snd (process_waitpid i target s))"
proof -
  have i: "i < MAX_PROCESSES" using assms(2) by (simp add: alive_def)
  have clone: "fd_inv (process_clone_into c i pml4 t)" if a: "process_alloc (pid (proc s i)) s = (Some c, t)" for c t
  proof (rule clone_into_inv(1) [OF alloc_inv [OF assms(1) a] _ i])
    note al = alloc_slot [OF a]
    show "alive t c" using al(1,6) assms(3) by (simp add: alive_def process_zero_def)
    show "i \<noteq> c" using al(2) assms(2) by (auto simp: alive_def)
    show "\<forall>fd < MAX_FDS. \<not> fd_used (fds (proc t c) fd)" using al(6) by simp
  qed
  show ?thesis
    by (intro conjI allI impI)
      (simp_all add: close_inv [OF assms(1) i] dup2_inv [OF assms(1,2)] pipe_op_inv [OF assms(1,2)] open_inv [OF assms(1,2)]
        read_write_inv [OF assms(1) i] clone terminate_inv [OF assms(1) i] waitpid_inv [OF assms(1)])
qed

theorem fd_refcounts_witness: "fd_inv (snd (process_pipe 0 demo_kst)) \<and> fd_inv (process_terminate 0 0 5 demo_kst)"
  using fd_refcounts [OF demo_fd_inv] by blast


text \<open>A process with the read end of the pipe 0, once alone and once with the write end as well.\<close>

definition demo_pipe_kst :: kst where
  "demo_pipe_kst = snd (process_pipe 0 demo_kst)"

lemma demo_pipe_kst: "demo_pipe_kst = put_end 0 4 (VPipeW 0) (put_end 0 3 (VPipeR 0)
    (demo_kst\<lparr>k_pipes := (k_pipes demo_kst)(0 := new_pipe)\<rparr>))"
proof -
  have p: "pipe_create (k_pipes demo_kst) = (Inr 0, (k_pipes demo_kst)(0 := new_pipe))"
    by (simp add: pipe_create_def demo_kst_def scan_up.simps)
  have "free_fd 0 3 (demo_kst\<lparr>k_pipes := ps\<rparr>) = Some 3" "free_fd 0 4 (demo_kst\<lparr>k_pipes := ps\<rparr>) = Some 4" for ps
    by (simp_all add: free_fd_def scan_up.simps demo_kst_def process_zero_def fd_zero_def)
  then show ?thesis by (simp add: demo_pipe_kst_def process_pipe_def p Let_def)
qed


text \<open>Only root can use a pipe. The vnodes of a pipe have owner 0 and no permission bits, so reading from or
  writing to a pipe through a descriptor that is open for it fails with \<open>EACCES\<close> for every other user, and
  changes nothing.\<close>

theorem pipe_denied_to_users:
  assumes "p_uid (proc s i) \<noteq> 0" "\<not> bad_fd i fd s"
  shows "(fd_node (fds (proc s i) (nat fd)) = Some (VPipeR k) \<and> access_mode (fds (proc s i) (nat fd)) \<noteq> O_WRONLY \<longrightarrow>
      process_read i fd n s = Some (Done (Inl (- EACCES)), s)) \<and>
    (fd_node (fds (proc s i) (nat fd)) = Some (VPipeW k) \<and> access_mode (fds (proc s i) (nat fd)) \<noteq> O_RDONLY \<longrightarrow>
      process_write i fd src m s = Some (Done (- EACCES), s))"
proof -
  have "\<not> may i (VPipeR k) VFS_PERM_READ s" "\<not> may i (VPipeW k) VFS_PERM_WRITE s"
    using assms(1) by (simp_all add: may_def vfs_check_perm_def perm_bits_def vnode_at_def pipe_vnode_def vnode_zero_def)
  then show ?thesis
    using assms by (simp add: process_read_def process_write_def has_op_def vnode_at_def pipe_vnode_def has_read_def has_write_def)
qed

theorem pipe_denied_to_users_witness:
  "process_read 0 3 10 (upd_proc 0 (\<lambda>p. p\<lparr>p_uid := 7\<rparr>) demo_pipe_kst) =
     Some (Done (Inl (- EACCES)), upd_proc 0 (\<lambda>p. p\<lparr>p_uid := 7\<rparr>) demo_pipe_kst)"
proof -
  let ?s = "upd_proc 0 (\<lambda>p. p\<lparr>p_uid := 7\<rparr>) demo_pipe_kst"
  have "p_uid (proc ?s 0) \<noteq> 0" "\<not> bad_fd 0 3 ?s" "fd_node (fds (proc ?s 0) (nat 3)) = Some (VPipeR 0)"
    "access_mode (fds (proc ?s 0) (nat 3)) \<noteq> O_WRONLY"
    by (simp_all add: demo_pipe_kst bad_fd_def put_end_def set_fd_def demo_kst_def process_zero_def fd_zero_def)
  then show ?thesis using pipe_denied_to_users by blast
qed

text \<open>C32. The write end of a new pipe keeps the access mode of its slot. In a slot that was never used, or last used for
  reading, a write to it fails with \<open>EBADF\<close> and changes nothing.\<close>

theorem pipe_write_end_unusable:
  assumes "process_pipe i s = (Inr (r, w), t)" "access_mode (fds (proc s i) w) = O_RDONLY"
  shows "process_write i (int w) src n t = Some (Done (- EBADF), t)"
proof -
  obtain k ps where "t = put_end i w (VPipeW k) (put_end i r (VPipeR k) (s\<lparr>k_pipes := ps\<rparr>))"
    using assms(1) by (auto simp: process_pipe_def Let_def split: prod.splits sum.splits option.splits)
  then have "access_mode (fds (proc t i) w) = O_RDONLY"
    using assms(2) by (auto simp: put_end_def set_fd_def upd_proc_def)
  then show ?thesis by (simp add: process_write_def)
qed

theorem pipe_write_end_unusable_witness: "process_write 0 4 [65] 0 demo_pipe_kst = Some (Done (- EBADF), demo_pipe_kst)"
proof -
  have p: "pipe_create (k_pipes demo_kst) = (Inr 0, (k_pipes demo_kst)(0 := new_pipe))"
    by (simp add: pipe_create_def demo_kst_def scan_up.simps)
  have "free_fd 0 3 (demo_kst\<lparr>k_pipes := ps\<rparr>) = Some 3" "free_fd 0 4 (demo_kst\<lparr>k_pipes := ps\<rparr>) = Some 4" for ps
    by (simp_all add: free_fd_def scan_up.simps demo_kst_def process_zero_def fd_zero_def)
  then have "process_pipe 0 demo_kst = (Inr (3, 4), demo_pipe_kst)" by (simp add: demo_pipe_kst_def process_pipe_def p Let_def)
  moreover have "access_mode (fds (proc demo_kst 0) 4) = O_RDONLY" by (simp add: demo_kst_def process_zero_def fd_zero_def)
  ultimately show ?thesis using pipe_write_end_unusable [of 0 demo_kst 3 4 demo_pipe_kst "[65]" 0] by simp
qed

end
