(* ===== verification/ProcWait.thy ===== *)
theory ProcWait
  imports ProcRefs
begin

text \<open>
  The process table: identifiers are unique, a process that ends wakes its parent, and the parent's
  \<^verbatim>\<open>waitpid\<close> gets the exit status exactly once.
\<close>

section \<open>Unique identifiers\<close>

definition live_slots :: "kst \<Rightarrow> nat set" where
  "live_slots s = {i. i < MAX_PROCESSES \<and> pid (proc s i) \<noteq> 0}"

definition pids_ok :: "kst \<Rightarrow> bool" where
  "pids_ok s \<longleftrightarrow> next_pid (k_procs s) > 0 \<and>
     (\<forall>i < MAX_PROCESSES. 0 \<le> pid (proc s i) \<and> pid (proc s i) < next_pid (k_procs s)) \<and>
     (\<forall>i < MAX_PROCESSES. \<forall>j < MAX_PROCESSES. pid (proc s i) = pid (proc s j) \<and> pid (proc s i) \<noteq> 0 \<longrightarrow> i = j) \<and>
     process_count (k_procs s) = int (card (live_slots s))"

lemma live_finite [simp]: "finite (live_slots s)"
  by (rule finite_subset [of _ "{..<MAX_PROCESSES}"]) (auto simp: live_slots_def)

lemma find_pid:
  assumes "pids_ok s" "n > 0"
  shows "process_find_by_pid n s = Some i \<longleftrightarrow> i < MAX_PROCESSES \<and> pid (proc s i) = n"
proof
  assume "process_find_by_pid n s = Some i"
  then show "i < MAX_PROCESSES \<and> pid (proc s i) = n"
    using assms(2) by (auto simp: process_find_by_pid_def dest: scan_up_SomeD)
next
  assume i: "i < MAX_PROCESSES \<and> pid (proc s i) = n"
  then obtain j where j: "scan_up (\<lambda>i. pid (proc s i) = n) 0 MAX_PROCESSES = Some j"
    using scan_up_total [of 0 i MAX_PROCESSES "\<lambda>i. pid (proc s i) = n"] by auto
  then have "j < MAX_PROCESSES \<and> pid (proc s j) = n" by (auto dest: scan_up_SomeD)
  then have "j = i" using assms i unfolding pids_ok_def by auto
  then show "process_find_by_pid n s = Some i" using assms(2) j by (simp add: process_find_by_pid_def)
qed

lemma find_pid_None:
  assumes "n > 0"
  shows "process_find_by_pid n s = None \<longleftrightarrow> (\<forall>i < MAX_PROCESSES. pid (proc s i) \<noteq> n)"
  using assms by (auto simp: process_find_by_pid_def scan_up_None_iff)

lemma pids_same:
  assumes "pids_ok s" "\<forall>i. pid (proc t i) = pid (proc s i)" "next_pid (k_procs t) = next_pid (k_procs s)"
    "process_count (k_procs t) = process_count (k_procs s)"
  shows "pids_ok t"
  using assms by (simp add: pids_ok_def live_slots_def)

lemma alloc_pids:
  assumes "pids_ok s" "process_alloc par s = (r, t)"
  shows "pids_ok t" "r = None \<longleftrightarrow> live_slots s = {..<MAX_PROCESSES}"
    "r = Some i \<Longrightarrow> process_find_by_pid (next_pid (k_procs s)) t = Some i \<and> process_find_by_pid (next_pid (k_procs s)) s = None"
proof -
  have r: "r = scan_up (\<lambda>i. pid (proc s i) = 0) 0 MAX_PROCESSES"
    using assms(2) by (auto simp: process_alloc_def Let_def split: option.splits)
  show "r = None \<longleftrightarrow> live_slots s = {..<MAX_PROCESSES}" unfolding r scan_up_None_iff by (auto simp: live_slots_def)
  show ok: "pids_ok t"
  proof (cases r)
    case None
    then show ?thesis using assms by (auto simp: process_alloc_def Let_def split: option.splits)
  next
    case (Some j)
    note a = alloc_slot [OF assms(2) [unfolded Some]]
    have n: "next_pid (k_procs t) = next_pid (k_procs s) + 1" "process_count (k_procs t) = process_count (k_procs s) + 1"
      using assms(2) Some by (auto simp: process_alloc_def Let_def upd_proc_def split: option.splits)
    have p: "pid (proc t k) = (if k = j then next_pid (k_procs s) else pid (proc s k))" for k using a(6) by simp
    have "next_pid (k_procs s) \<noteq> 0" using assms(1) by (simp add: pids_ok_def)
    then have "live_slots t = insert j (live_slots s)" unfolding live_slots_def p using a(1) by auto
    moreover have "j \<notin> live_slots s" using a(2) by (simp add: live_slots_def)
    ultimately have c: "process_count (k_procs t) = int (card (live_slots t))" using assms(1) n(2) by (simp add: pids_ok_def)
    have b: "0 \<le> pid (proc s k) \<and> pid (proc s k) < next_pid (k_procs s)" if "k < MAX_PROCESSES" for k
      using assms(1) that by (simp add: pids_ok_def)
    have u: "k = l" if "k < MAX_PROCESSES" "l < MAX_PROCESSES" "pid (proc t k) = pid (proc t l)" "pid (proc t k) \<noteq> 0" for k l
      using that b [OF that(1)] b [OF that(2)] assms(1) unfolding p pids_ok_def by (auto split: if_splits)
    have "0 \<le> pid (proc t k) \<and> pid (proc t k) < next_pid (k_procs t)" if "k < MAX_PROCESSES" for k
      using b [OF that] b [OF a(1)] unfolding p n(1) by simp
    moreover have "next_pid (k_procs t) > 0" using b [OF a(1)] unfolding n(1) by linarith
    ultimately show ?thesis unfolding pids_ok_def using u c by blast
  qed
  assume i: "r = Some i"
  note a = alloc_slot [OF assms(2) [unfolded i]]
  have n: "next_pid (k_procs s) > 0" using assms(1) by (simp add: pids_ok_def)
  show "process_find_by_pid (next_pid (k_procs s)) t = Some i \<and> process_find_by_pid (next_pid (k_procs s)) s = None"
    unfolding find_pid [OF ok n] find_pid_None [OF n] using a(1,6) assms(1) by (auto simp: pids_ok_def)
qed

lemma terminate_slots:
  assumes "fd_inv s" "i < MAX_PROCESSES"
  shows "pid (proc (process_terminate i t c s) j) = pid (proc s j)"
    "parent_pid (proc (process_terminate i t c s) j) = parent_pid (proc s j)"
    "exit_code (proc (process_terminate i t c s) j) = (if j = i then c else exit_code (proc s j))"
    "is_zombie (proc (process_terminate i t c s) j) = (j = i \<or> is_zombie (proc s j))"
    "is_stopped (proc (process_terminate i t c s) j) = is_stopped (proc s j)"
    "stop_reported (proc (process_terminate i t c s) j) = stop_reported (proc s j)"
proof -
  note e = close_all_effect(3) [OF assms, of j]
  have "pid (proc (close_all i s) j) = pid (proc s j)" "parent_pid (proc (close_all i s) j) = parent_pid (proc s j)"
    "exit_code (proc (close_all i s) j) = exit_code (proc s j)" "is_zombie (proc (close_all i s) j) = is_zombie (proc s j)"
    "is_stopped (proc (close_all i s) j) = is_stopped (proc s j)" "stop_reported (proc (close_all i s) j) = stop_reported (proc s j)"
    by (subst e; simp)+
  then show "pid (proc (process_terminate i t c s) j) = pid (proc s j)"
    "parent_pid (proc (process_terminate i t c s) j) = parent_pid (proc s j)"
    "exit_code (proc (process_terminate i t c s) j) = (if j = i then c else exit_code (proc s j))"
    "is_zombie (proc (process_terminate i t c s) j) = (j = i \<or> is_zombie (proc s j))"
    "is_stopped (proc (process_terminate i t c s) j) = is_stopped (proc s j)"
    "stop_reported (proc (process_terminate i t c s) j) = stop_reported (proc s j)"
    unfolding terminate_procs by auto
qed

lemma close_counters:
  "next_pid (k_procs (snd (process_close i fd s))) = next_pid (k_procs s)"
  "process_count (k_procs (snd (process_close i fd s))) = process_count (k_procs s)"
  by (simp_all add: process_close_def set_fd_def upd_proc_def close_node_effect(1))

lemma terminate_counters:
  "next_pid (k_procs (process_terminate i t c s)) = next_pid (k_procs s)"
  "process_count (k_procs (process_terminate i t c s)) = process_count (k_procs s)"
proof -
  have "next_pid (k_procs (fold (\<lambda>fd s. snd (process_close i (int fd) s)) xs s)) = next_pid (k_procs s) \<and>
      process_count (k_procs (fold (\<lambda>fd s. snd (process_close i (int fd) s)) xs s)) = process_count (k_procs s)" for xs s
    by (induction xs arbitrary: s) (simp_all add: close_counters)
  then show "next_pid (k_procs (process_terminate i t c s)) = next_pid (k_procs s)"
    "process_count (k_procs (process_terminate i t c s)) = process_count (k_procs s)"
    unfolding terminate_procs close_all_def by (simp_all add: upd_proc_def)
qed

lemma terminate_pids: "fd_inv s \<Longrightarrow> i < MAX_PROCESSES \<Longrightarrow> pids_ok s \<Longrightarrow> pids_ok (process_terminate i t c s)"
  by (rule pids_same) (simp_all add: terminate_slots terminate_counters)

text \<open>Reaping the child found.\<close>

lemma waitpid_reap:
  assumes "scan_up (\<lambda>j. is_child q target s j \<and> has_event (proc s j)) 0 MAX_PROCESSES = Some j" "is_zombie (proc s j)"
  shows "fst (process_waitpid q target s) = Done (pid (proc s j), Some (exit_code (proc s j)))"
    "proc (snd (process_waitpid q target s)) k = (if k = j then process_zero else proc s k)"
    "next_pid (k_procs (snd (process_waitpid q target s))) = next_pid (k_procs s)"
    "process_count (k_procs (snd (process_waitpid q target s))) = process_count (k_procs s) - 1"
    "k_mm (snd (process_waitpid q target s)) = vmm_destroy_address_space (pml4_phys (proc s j)) (k_mm s)"
  using assms by (auto simp: process_waitpid_def Let_def upd_proc_def)

lemma waitpid_pids:
  assumes "pids_ok s"
  shows "pids_ok (snd (process_waitpid q target s))"
proof (cases "scan_up (\<lambda>j. is_child q target s j \<and> has_event (proc s j)) 0 MAX_PROCESSES")
  case None
  then show ?thesis using assms by (simp add: process_waitpid_def)
next
  case (Some j)
  show ?thesis
  proof (cases "is_zombie (proc s j)")
    case True
    define t where "t = snd (process_waitpid q target s)"
    note r = waitpid_reap(2-4) [OF Some True, folded t_def]
    have j: "j \<in> live_slots s" using scan_up_SomeD [OF Some] by (simp add: is_child_def live_slots_def)
    have p: "pid (proc t k) = (if k = j then 0 else pid (proc s k))" for k using r(1) by (simp add: process_zero_def)
    have "live_slots t = live_slots s - {j}" unfolding live_slots_def p by auto
    moreover have "card (live_slots s) > 0" using j card_gt_0_iff [of "live_slots s"] by auto
    ultimately have "process_count (k_procs t) = int (card (live_slots t))"
      using assms r(3) j by (simp add: pids_ok_def of_nat_diff)
    then have "pids_ok t" using assms unfolding pids_ok_def p r(2) by auto
    then show ?thesis by (simp add: t_def)
  next
    case False
    then show ?thesis using Some by (intro pids_same [OF assms]) (simp_all add: process_waitpid_def Let_def upd_proc_def)
  qed
qed

text \<open>Nobody sleeps on the parent any more.\<close>

lemma terminate_wakes:
  assumes "fd_inv s" "i < MAX_PROCESSES" "process_find_by_pid (parent_pid (proc s i)) s = Some q"
  shows "blocked_on (ChProc q) (k_sched (process_terminate i t c s)) = {}"
proof -
  define u where "u = upd_proc i (\<lambda>p. p\<lparr>exit_code := c, is_zombie := True\<rparr>) (close_all i s)"
  note e = close_all_effect(3) [OF assms(1,2)]
  have pp: "pid (proc u j) = pid (proc s j)" "parent_pid (proc u j) = parent_pid (proc s j)" for j
    by (simp_all add: u_def) (subst e, simp)+
  then have "process_find_by_pid (parent_pid (proc u i)) u = Some q" using assms(3) by (simp only: process_find_by_pid_def pp)
  then have "k_sched (process_mark_zombie i c (close_all i s)) = task_wake (ChProc q) (k_sched u)"
    by (simp add: process_mark_zombie_def u_def [symmetric] wake_parent_def)
  then show ?thesis
    by (auto simp: process_terminate_def set_task_state_def blocked_on_def task_wake_effect)
qed

section \<open>The wait status\<close>

text \<open>The macros of \<^verbatim>\<open>lib/mini_libc.h\<close> that take a status apart.\<close>

definition WIFEXITED :: "int \<Rightarrow> bool" where "WIFEXITED st \<longleftrightarrow> and st 0x7f = 0"
definition WEXITSTATUS :: "int \<Rightarrow> int" where "WEXITSTATUS st = and (drop_bit 8 st) 0xff"
definition WTERMSIG :: "int \<Rightarrow> int" where "WTERMSIG st = and st 0x7f"
definition WIFSIGNALED :: "int \<Rightarrow> bool" where "WIFSIGNALED st \<longleftrightarrow> and st 0x7f \<noteq> 0 \<and> and st 0x7f \<noteq> 0x7f"
definition WIFSTOPPED :: "int \<Rightarrow> bool" where "WIFSTOPPED st \<longleftrightarrow> and st 0xff = 0x7f"
definition WSTOPSIG :: "int \<Rightarrow> int" where "WSTOPSIG st = and (drop_bit 8 st) 0xff"

lemma and_mask: "and (a :: int) 0x7f = a mod 128" "and (a :: int) 0xff = a mod 256"
  using take_bit_eq_mask [of 7 a] take_bit_eq_mask [of 8 a] by (simp_all add: take_bit_eq_mod mask_eq_exp_minus_1)

section \<open>Properties\<close>

text \<open>The status the kernel stores for a child and the macros of the C library agree: an exit code is
  recovered modulo 256, a terminating signal and a stop signal are recovered, and exactly one of the three
  tests holds for each kind of status.\<close>

theorem wait_status_roundtrip:
  assumes "1 \<le> sig" "sig < 0x7f"
  shows "WIFEXITED (ENCODE_EXITED code) \<and> WEXITSTATUS (ENCODE_EXITED code) = code mod 256 \<and>
    \<not> WIFSIGNALED (ENCODE_EXITED code) \<and> \<not> WIFSTOPPED (ENCODE_EXITED code) \<and>
    WIFSIGNALED (ENCODE_SIGNALED sig) \<and> WTERMSIG (ENCODE_SIGNALED sig) = sig \<and>
    \<not> WIFEXITED (ENCODE_SIGNALED sig) \<and> \<not> WIFSTOPPED (ENCODE_SIGNALED sig) \<and>
    WIFSTOPPED (ENCODE_STOPPED sig) \<and> WSTOPSIG (ENCODE_STOPPED sig) = sig \<and>
    \<not> WIFEXITED (ENCODE_STOPPED sig) \<and> \<not> WIFSIGNALED (ENCODE_STOPPED sig)"
proof -
  have d: "drop_bit 8 (a :: int) = a div 256" for a by (simp add: drop_bit_eq_div)
  have k: "k * 256 mod 128 = 0" "k * 256 mod 256 = 0" "(k * 256 + 127) mod 128 = 127" "(k * 256 + 127) mod 256 = 127" for k :: int
  proof -
    show "k * 256 mod 128 = 0" "(k * 256 + 127) mod 128 = 127"
      using mod_mult_self1 [of 0 "k * 2" 128] mod_mult_self1 [of 127 "k * 2" 128] by (simp_all add: ac_simps)
    show "k * 256 mod 256 = 0" "(k * 256 + 127) mod 256 = 127"
      using mod_mult_self1 [of 0 k 256] mod_mult_self1 [of 127 k 256] by (simp_all add: ac_simps)
  qed
  note e = k(1,2) [of "code mod 256"] and t = k(3,4) [of "sig mod 256"]
  show ?thesis using assms
    unfolding WIFEXITED_def WEXITSTATUS_def WTERMSIG_def WIFSIGNALED_def WIFSTOPPED_def WSTOPSIG_def and_mask d
      ENCODE_EXITED_def ENCODE_SIGNALED_def ENCODE_STOPPED_def by (simp add: e t k)
qed

theorem wait_status_roundtrip_witness:
  "WEXITSTATUS (ENCODE_EXITED 3) = 3 \<and> WTERMSIG (ENCODE_SIGNALED 9) = 9 \<and> WSTOPSIG (ENCODE_STOPPED 20) = 20"
  using wait_status_roundtrip [of 9 3] wait_status_roundtrip [of 20 3] by simp


lemma demo_pids: "pids_ok demo_kst"
proof -
  have p: "pid (proc demo_kst i) = (if i = 0 then 1 else 0)" for i by (simp add: demo_kst_def process_zero_def)
  have "live_slots demo_kst = {0}" unfolding live_slots_def p by auto
  then show ?thesis unfolding pids_ok_def p by (simp add: demo_kst_def)
qed


text \<open>C23. The exit of a child reaches its parent, exactly once. When a child ends, no task is left asleep on the
  channel of the parent, so a parent that waits runs again; the parent's \<open>waitpid\<close> for the child then returns
  at once the child's identifier and its exit status, and frees the slot; a second wait for the same child
  fails with \<open>ECHILD\<close> unless the identifier is given out again.\<close>

theorem exit_reaches_parent:
  assumes "pids_ok s" "fd_inv s" "alive s i" "q < MAX_PROCESSES" "q \<noteq> i" "parent_pid (proc s i) = pid (proc s q)"
    "pid (proc s q) > 0" and t_def: "t = process_terminate i task code s"
  shows "blocked_on (ChProc q) (k_sched t) = {} \<and>
    (\<exists>u. process_waitpid q (pid (proc s i)) t = (Done (pid (proc s i), Some code), u) \<and>
      process_find_by_pid (pid (proc s i)) u = None \<and> fst (process_waitpid q (pid (proc s i)) u) = Done (- ECHILD, None) \<and>
      process_count (k_procs u) = process_count (k_procs s) - 1)"
proof -
  have i: "i < MAX_PROCESSES" and pos: "pid (proc s i) > 0" using assms(1,3) by (auto simp: alive_def pids_ok_def order_less_le)
  note ts = terminate_slots [OF assms(2) i, of task code, folded t_def]
  have w: "blocked_on (ChProc q) (k_sched t) = {}" unfolding t_def
    by (rule terminate_wakes [OF assms(2) i]) (simp only: assms(6) find_pid [OF assms(1,7)], simp add: assms(4)[simplified])
  have uniq: "is_child q (pid (proc s i)) t j \<longleftrightarrow> j = i" if "j < MAX_PROCESSES" for j
    using that i assms(1,6) pos unfolding is_child_def ts(1,2) pids_ok_def by auto
  have "scan_up (\<lambda>j. is_child q (pid (proc s i)) t j \<and> has_event (proc t j)) 0 MAX_PROCESSES = Some i"
  proof -
    obtain j where j: "scan_up (\<lambda>j. is_child q (pid (proc s i)) t j \<and> has_event (proc t j)) 0 MAX_PROCESSES = Some j"
      by (rule scan_up_total [of 0 i MAX_PROCESSES "\<lambda>j. is_child q (pid (proc s i)) t j \<and> has_event (proc t j)"])
        (use i uniq [OF i] ts(4) [of i] in \<open>simp_all add: has_event_def\<close>)
    then have "j = i" using scan_up_SomeD [OF j] uniq by blast
    then show ?thesis using j by simp
  qed
  note r = waitpid_reap [OF this, unfolded ts, simplified]
  define u where "u = snd (process_waitpid q (pid (proc s i)) t)"
  have p: "pid (proc u j) = (if j = i then 0 else pid (proc s j))" for j
    using r(2) [of j] ts(1) [of j] by (simp add: u_def process_zero_def)
  have gone: "\<forall>j < MAX_PROCESSES. pid (proc u j) \<noteq> pid (proc s i)" using pos assms(1) i unfolding p pids_ok_def by auto
  then have none: "scan_up (is_child q (pid (proc s i)) u) 0 MAX_PROCESSES = None"
    "scan_up (\<lambda>j. is_child q (pid (proc s i)) u j \<and> has_event (proc u j)) 0 MAX_PROCESSES = None"
    using pos by (auto simp: scan_up_None_iff is_child_def)
  have "fst (process_waitpid q (pid (proc s i)) u) = Done (- ECHILD, None)"
    using none by (simp add: process_waitpid_def del: MAX_PROCESSES_def)
  moreover have "process_waitpid q (pid (proc s i)) t = (Done (pid (proc s i), Some code), u)"
    using r(1) by (simp add: u_def prod_eq_iff)
  moreover have "process_count (k_procs u) = process_count (k_procs s) - 1"
    using r(4) by (simp add: u_def t_def terminate_counters)
  ultimately show ?thesis using w gone find_pid_None [OF pos] by blast
qed

text \<open>The small kernel with a second process, a child of the first.\<close>

definition demo_two :: kst where
  "demo_two = snd (process_alloc 1 demo_kst)"

lemma demo_two: "fd_inv demo_two" "pids_ok demo_two" "proc demo_two j = (if j = 1 then process_zero\<lparr>pid := 2, parent_pid := 1\<rparr> else proc demo_kst j)"
proof -
  have a: "process_alloc 1 demo_kst = (Some 1, demo_two)"
    by (simp add: demo_two_def process_alloc_def scan_up.simps demo_kst_def process_zero_def Let_def)
  show "fd_inv demo_two" "pids_ok demo_two" by (rule alloc_inv [OF demo_fd_inv(1) a], rule alloc_pids(1) [OF demo_pids a])
  show "proc demo_two j = (if j = 1 then process_zero\<lparr>pid := 2, parent_pid := 1\<rparr> else proc demo_kst j)"
    using alloc_slot(6) [OF a, of j] by (simp add: demo_kst_def)
qed

theorem exit_reaches_parent_witness:
  "\<exists>u. process_waitpid 0 2 (process_terminate 1 1 768 demo_two) = (Done (2, Some 768), u)"
proof -
  have p: "pid (proc demo_two 0) = 1" "pid (proc demo_two 1) = 2" "parent_pid (proc demo_two 1) = 1" "\<not> is_zombie (proc demo_two 1)"
    by (simp_all add: demo_two(3) demo_kst_def process_zero_def)
  have a: "alive demo_two 1" using p by (simp add: alive_def)
  show ?thesis
    using exit_reaches_parent [OF demo_two(2,1) a, of 0 "process_terminate 1 1 768 demo_two" 1 768] p by auto
qed

end
