(* ===== verification/Elf.thy ===== *)
theory Elf
  imports Process
begin

text \<open>
  The program loader, \<^verbatim>\<open>kernel/elf.c\<close>, and the first stack of a program, \<^verbatim>\<open>kernel/userstack.c\<close>.
  The file lies in physical memory at \<open>data\<close> (the kernel reads it through its direct map). The
  fields of the headers are read at the offsets of the packed structures.
\<close>

section \<open>Reading the file\<close>

definition rd_le :: "nat \<Rightarrow> mem \<Rightarrow> nat \<Rightarrow> nat" where
  "rd_le n m a = unat (le_val (mem_read m a n))"

record elf64_ehdr =
  e_class :: nat
  e_machine :: nat
  e_entry :: nat
  e_phoff :: nat
  e_phentsize :: nat
  e_phnum :: nat

record elf64_phdr =
  p_type :: nat
  p_flags :: nat
  p_offset :: nat
  p_vaddr :: nat
  p_filesz :: nat
  p_memsz :: nat

definition EHDR_SIZE :: nat where [simp]: "EHDR_SIZE = 64"
definition PT_LOAD :: nat where [simp]: "PT_LOAD = 1"
definition PF_X :: nat where [simp]: "PF_X = 1"
definition PF_W :: nat where [simp]: "PF_W = 2"
definition PF_R :: nat where [simp]: "PF_R = 4"
definition ELFCLASS64 :: nat where [simp]: "ELFCLASS64 = 2"
definition EM_X86_64 :: nat where [simp]: "EM_X86_64 = 0x3e"

definition elf_magic :: bytes where "elf_magic = [0x7f, 0x45, 0x4c, 0x46]"

definition read_ehdr :: "mem \<Rightarrow> nat \<Rightarrow> elf64_ehdr" where
  "read_ehdr m a = \<lparr>e_class = rd_le 1 m (a + 4), e_machine = rd_le 2 m (a + 18), e_entry = rd_le 8 m (a + 24),
     e_phoff = rd_le 8 m (a + 32), e_phentsize = rd_le 2 m (a + 54), e_phnum = rd_le 2 m (a + 56)\<rparr>"

definition read_phdr :: "mem \<Rightarrow> nat \<Rightarrow> elf64_phdr" where
  "read_phdr m a = \<lparr>p_type = rd_le 4 m a, p_flags = rd_le 4 m (a + 4), p_offset = rd_le 8 m (a + 8),
     p_vaddr = rd_le 8 m (a + 16), p_filesz = rd_le 8 m (a + 32), p_memsz = rd_le 8 m (a + 40)\<rparr>"

section \<open>Loading\<close>

definition kprint :: "string \<Rightarrow> kst \<Rightarrow> kst" where
  "kprint str s = s\<lparr>k_disk := serial_print (str @ nl) (k_disk s)\<rparr>"

definition seg_start :: "elf64_phdr \<Rightarrow> nat" where
  "seg_start ph = page_down (p_vaddr ph)"

definition seg_end :: "elf64_phdr \<Rightarrow> nat" where
  "seg_end ph = page_up (p_vaddr ph + p_memsz ph)"

definition seg_pages :: "elf64_phdr \<Rightarrow> nat" where
  "seg_pages ph = usub (seg_end ph) (seg_start ph) div PAGE_SIZE"

definition map_run :: "nat \<Rightarrow> nat \<Rightarrow> nat \<Rightarrow> nat \<Rightarrow> u64 \<Rightarrow> mm \<Rightarrow> mm" where
  "map_run pml4 v fr n fl m =
     fold (\<lambda>p. vmm_map_4k_in pml4 (wrap64 (v + p * PAGE_SIZE)) (fr + p * PAGE_SIZE) fl) [0..<n] m"

definition log_segment :: "elf64_phdr \<Rightarrow> kst \<Rightarrow> kst" where
  "log_segment ph s =
     (let d1 = serial_print_hex (p_vaddr ph) (serial_print ''[elf] segment vaddr '' (k_disk s));
          d2 = serial_print_dec (p_memsz ph) (serial_print '' memsz '' d1);
          perm = (\<lambda>b c. if and (p_flags ph) b \<noteq> 0 then [c] else ''-'')
      in s\<lparr>k_disk := serial_print ('' bytes, perms '' @ perm PF_R (CHR ''r'') @ perm PF_W (CHR ''w'') @ perm PF_X (CHR ''x'') @ nl) d2\<rparr>)"

text \<open>One segment: \<open>False\<close> when no run of frames is free.\<close>

definition load_segment :: "nat \<Rightarrow> nat \<Rightarrow> elf64_phdr \<Rightarrow> mm \<Rightarrow> bool \<times> mm" where
  "load_segment pml4 data ph m =
     (let n = seg_pages ph; (fr, p) = pmm_alloc_pages n (frames m) in
      if fr = 0 then (False, m\<lparr>frames := p\<rparr>)
      else
        let dst_off = p_vaddr ph - seg_start ph;
            mem1 = k_memset fr 0 (n * PAGE_SIZE) (phys m);
            mem2 = k_memcpy (fr + dst_off) (data + p_offset ph) (p_filesz ph) mem1;
            fl = (if and (p_flags ph) PF_W \<noteq> 0 then PTE_USER OR PTE_WRITE else PTE_USER)
        in (True, map_run pml4 (seg_start ph) fr n fl (m\<lparr>frames := p, phys := mem2\<rparr>)))"

text \<open>The loop over the program headers, with the highest end and the address of the header
  table found so far.\<close>

fun load_segments :: "nat \<Rightarrow> nat \<Rightarrow> elf64_ehdr \<Rightarrow> nat list \<Rightarrow> nat \<Rightarrow> nat \<Rightarrow> kst \<Rightarrow> (nat \<times> nat) option \<times> kst" where
  "load_segments pml4 data eh [] highest phdr s = (Some (highest, phdr), s)"
| "load_segments pml4 data eh (i # is) highest phdr s =
     (let ph = read_phdr (phys (k_mm s)) (data + e_phoff eh + i * e_phentsize eh) in
      if p_type ph \<noteq> PT_LOAD \<or> p_memsz ph = 0 then load_segments pml4 data eh is highest phdr s
      else
        let phdr1 = (if p_offset ph = 0 then wrap64 (p_vaddr ph + e_phoff eh) else phdr);
            (ok, m) = load_segment pml4 data ph (k_mm s);
            s1 = s\<lparr>k_mm := m\<rparr>
        in if \<not> ok then (None, kprint ''[elf] out of memory loading a segment'' s1)
           else load_segments pml4 data eh is (max highest (seg_end ph)) phdr1 (log_segment ph s1))"

record elf_image =
  im_entry :: nat
  im_highest :: nat
  im_phdr :: nat
  im_phentsize :: nat
  im_phnum :: nat

definition elf_load :: "nat \<Rightarrow> nat \<Rightarrow> nat \<Rightarrow> kst \<Rightarrow> elf_image option \<times> kst" where
  "elf_load pml4 data sz s =
     (if sz < EHDR_SIZE then (None, kprint ''[elf] file too small to even hold a header'' s)
      else
        let m = phys (k_mm s); eh = read_ehdr m data in
        if mem_read m data 4 \<noteq> elf_magic then (None, kprint ''[elf] bad magic -- not an ELF file'' s)
        else if e_class eh \<noteq> ELFCLASS64 then (None, kprint ''[elf] not a 64-bit ELF'' s)
        else if e_machine eh \<noteq> EM_X86_64 then (None, kprint ''[elf] not x86_64'' s)
        else if wrap64 (e_phoff eh + e_phnum eh * e_phentsize eh) > sz
        then (None, kprint ''[elf] program header table runs past end of file'' s)
        else case load_segments pml4 data eh [0..<e_phnum eh] 0 0 s of
               (None, s1) \<Rightarrow> (None, s1)
             | (Some (highest, phdr), s1) \<Rightarrow>
                 (Some \<lparr>im_entry = e_entry eh, im_highest = highest, im_phdr = phdr,
                        im_phentsize = e_phentsize eh, im_phnum = e_phnum eh\<rparr>, s1))"

section \<open>The first stack\<close>

definition AT_NULL :: u64 where [simp]: "AT_NULL = 0"
definition AT_PHDR :: u64 where [simp]: "AT_PHDR = 3"
definition AT_PHENT :: u64 where [simp]: "AT_PHENT = 4"
definition AT_PHNUM :: u64 where [simp]: "AT_PHNUM = 5"
definition AT_PAGESZ :: u64 where [simp]: "AT_PAGESZ = 6"
definition AT_ENTRY :: u64 where [simp]: "AT_ENTRY = 9"
definition AT_RANDOM :: u64 where [simp]: "AT_RANDOM = 25"
definition MAX_STACK_ARGS :: nat where [simp]: "MAX_STACK_ARGS = 8"
definition MAX_STACK_ENVS :: nat where [simp]: "MAX_STACK_ENVS = 16"
definition AUXV_ENTRIES :: nat where [simp]: "AUXV_ENTRIES = 6"

definition xorshift64 :: "u64 \<Rightarrow> u64" where
  "xorshift64 x0 =
     (let x1 = x0 XOR push_bit 13 x0; x2 = x1 XOR drop_bit 7 x1 in x2 XOR push_bit 17 x2)"

text \<open>Strings with their terminators, the last one first, below \<open>wp\<close>. Pointers are offsets in
  the direct map at \<open>hhdm\<close>; \<open>shift\<close> takes a direct-map address to the user's.\<close>

definition c_bytes :: "string \<Rightarrow> bytes" where
  "c_bytes str = map of_ch str @ [0]"

fun place_strings :: "nat \<Rightarrow> (nat \<Rightarrow> nat) \<Rightarrow> string list \<Rightarrow> nat \<Rightarrow> mem \<Rightarrow> nat list \<times> nat \<times> mem" where
  "place_strings hhdm user [] wp m = ([], wp, m)"
| "place_strings hhdm user (str # strs) wp m =
     (let (ps, wp1, m1) = place_strings hhdm user strs wp m;
          wp2 = wp1 - (length str + 1)
      in (user wp2 # ps, wp2, mem_write m1 (wp2 - hhdm) (c_bytes str)))"

fun put_words :: "nat \<Rightarrow> u64 list \<Rightarrow> mem \<Rightarrow> mem" where
  "put_words a [] m = m"
| "put_words a (w # ws) m = put_words (a + 8) ws (wr64 m a w)"

definition auxv :: "elf_image \<Rightarrow> nat \<Rightarrow> u64 list" where
  "auxv im rnd =
     [AT_PHDR, of_nat (im_phdr im), AT_PHENT, of_nat (im_phentsize im), AT_PHNUM, of_nat (im_phnum im),
      AT_PAGESZ, 4096, AT_ENTRY, of_nat (im_entry im), AT_RANDOM, of_nat rnd, AT_NULL, 0]"

text \<open>\<open>seed\<close> is the time stamp counter combined with the address of the argument vector.\<close>

definition build_initial_stack ::
    "nat \<Rightarrow> nat \<Rightarrow> nat \<Rightarrow> string list \<Rightarrow> string list \<Rightarrow> elf_image \<Rightarrow> u64 \<Rightarrow> mm \<Rightarrow> nat \<times> mm" where
  "build_initial_stack stk base sz args envs im seed m =
     (let argv = take MAX_STACK_ARGS args; envp = take MAX_STACK_ENVS envs;
          hhdm = hhdm_offset_g m; top = hhdm + stk + sz; user = (\<lambda>a. base + sz - (top - a));
          (argp, wp1, m1) = place_strings hhdm user argv top (phys m);
          (envq, wp2, m2) = place_strings hhdm user envp wp1 m1;
          wp3 = wp2 - 16; r1 = xorshift64 seed; r2 = xorshift64 r1;
          m3 = mem_write m2 (wp3 - hhdm) (le_bytes 8 r1 @ le_bytes 8 r2);
          wp4 = wp3 div 8 * 8;
          n = 1 + (length argv + 1) + (length envp + 1) + (AUXV_ENTRIES + 1) * 2;
          a0 = wp4 - n * 8; arr = (if a0 mod 16 \<noteq> 0 then a0 - 8 else a0);
          ws = [of_nat (length argv)] @ map of_nat argp @ [0] @ map of_nat envq @ [0] @ auxv im (user wp3)
      in (base + sz - (top - arr), m\<lparr>phys := put_words (arr - hhdm) ws m3\<rparr>))"

end
