(* ===== verification/Exec.thy ===== *)
theory Exec
  imports Elf
begin

text \<open>
  \<^verbatim>\<open>kernel/fork.c\<close> and \<^verbatim>\<open>kernel/exec.c\<close>: a second process from a running one, and a new program in a
  process. \<open>um\<close> is the memory of the calling process as it sees it, \<open>ret_point\<close> the address of
  \<^verbatim>\<open>syscall_return_point\<close>, which the linker fixes.
\<close>

section \<open>Trap frames\<close>

record interrupt_frame =
  f_r15 :: u64
  f_r14 :: u64
  f_r13 :: u64
  f_r12 :: u64
  f_r11 :: u64
  f_r10 :: u64
  f_r9 :: u64
  f_r8 :: u64
  f_rbp :: u64
  f_rdi :: u64
  f_rsi :: u64
  f_rdx :: u64
  f_rcx :: u64
  f_rbx :: u64
  f_rax :: u64
  f_int_no :: u64
  f_err_code :: u64
  f_rip :: u64
  f_cs :: u64
  f_rflags :: u64
  f_rsp :: u64
  f_ss :: u64

text \<open>The frame as it lies in memory.\<close>

definition frame_words :: "interrupt_frame \<Rightarrow> u64 list" where
  "frame_words f = [f_r15 f, f_r14 f, f_r13 f, f_r12 f, f_r11 f, f_r10 f, f_r9 f, f_r8 f, f_rbp f, f_rdi f, f_rsi f,
     f_rdx f, f_rcx f, f_rbx f, f_rax f, f_int_no f, f_err_code f, f_rip f, f_cs f, f_rflags f, f_rsp f, f_ss f]"

section \<open>fork\<close>

definition FORK_KSTACK_PAGES :: nat where [simp]: "FORK_KSTACK_PAGES = 4"

text \<open>The kernel stack of the child: the copy of the frame, the return point below it, and six
  zero registers.\<close>

definition fork_stack :: "nat \<Rightarrow> nat \<Rightarrow> interrupt_frame \<Rightarrow> mem \<Rightarrow> mem" where
  "fork_stack ret_point tp f m =
     push_frame (tp - 176) [of_nat ret_point, 0, 0, 0, 0, 0, 0] (put_words (tp - 176) (frame_words f) m)"

text \<open>The task of the child: its slot in the scheduler and its kernel stack.\<close>

definition fork_task :: "nat \<Rightarrow> interrupt_frame \<Rightarrow> nat \<Rightarrow> kst \<Rightarrow> (int \<times> kst) option" where
  "fork_task ret_point frame child s =
     (case task_alloc_raw ''forked'' (frames (k_mm s), k_sched s) of None \<Rightarrow> None
      | Some (None, p, sc) \<Rightarrow>
          Some (- EAGAIN, kprint ''[fork] out of task slots'' (s\<lparr>k_mm := (k_mm s)\<lparr>frames := p\<rparr>, k_sched := sc\<rparr>))
      | Some (Some t, p, sc) \<Rightarrow>
          let s1 = upd_proc child (\<lambda>q. q\<lparr>p_task := Some t\<rparr>) (s\<lparr>k_sched := upd_task t (\<lambda>x. x\<lparr>t_proc := Some child\<rparr>) sc\<rparr>);
              (stk, p2) = pmm_alloc_pages FORK_KSTACK_PAGES p;
              m1 = (k_mm s1)\<lparr>frames := p2\<rparr>
          in if stk = 0 then Some (- ENOMEM, kprint ''[fork] failed to allocate child kernel stack'' (s1\<lparr>k_mm := m1\<rparr>))
             else
               let top_phys = stk + FORK_KSTACK_PAGES * PAGE_SIZE; top = vmm_hhdm_offset m1 + top_phys;
                   m2 = m1\<lparr>phys := fork_stack ret_point top_phys (frame\<lparr>f_rax := 0\<rparr>) (phys m1)\<rparr>;
                   sc2 = upd_task t (\<lambda>x. x\<lparr>stack_phys := stk, stack_pages := FORK_KSTACK_PAGES,
                           kernel_stack_top := top, t_rsp := top - 176 - 56, t_state := TASK_READY\<rparr>) (k_sched s1)
               in Some (pid (proc s1 child), s1\<lparr>k_mm := m2, k_sched := sc2\<rparr>))"

definition do_fork :: "nat \<Rightarrow> interrupt_frame \<Rightarrow> kst \<Rightarrow> (int \<times> kst) option" where
  "do_fork ret_point frame s =
     (case process_current s of None \<Rightarrow> Some (- EINVAL, s)
      | Some parent \<Rightarrow>
          (case process_alloc (pid (proc s parent)) s of
             (None, s1) \<Rightarrow> Some (- EAGAIN, kprint ''[fork] out of process slots'' s1)
           | (Some child, s1) \<Rightarrow>
               let (child_pml4, m1) = vmm_new_address_space (k_mm s1);
                   m2 = vmm_clone_lower_half child_pml4 (pml4_phys (proc s1 parent)) m1
               in fork_task ret_point frame child (process_clone_into child parent child_pml4 (s1\<lparr>k_mm := m2\<rparr>))))"

section \<open>exec\<close>

definition MAX_EXEC_ARGS :: nat where [simp]: "MAX_EXEC_ARGS = 8"
definition EXEC_ARG_MAXLEN :: nat where [simp]: "EXEC_ARG_MAXLEN = 64"
definition MAX_EXEC_ENVS :: nat where [simp]: "MAX_EXEC_ENVS = 16"
definition EXEC_ENV_MAXLEN :: nat where [simp]: "EXEC_ENV_MAXLEN = 128"
definition USER_STACK_TOP :: nat where [simp]: "USER_STACK_TOP = 0x600000"
definition USER_STACK_PAGES :: nat where [simp]: "USER_STACK_PAGES = 4"
definition GDT_USER_DATA :: u64 where "GDT_USER_DATA = 0x20 OR 3"
definition GDT_USER_CODE :: u64 where "GDT_USER_CODE = 0x28 OR 3"

text \<open>A string of the caller, cut to \<open>len - 1\<close> characters.\<close>

definition user_string :: "mem \<Rightarrow> nat \<Rightarrow> nat \<Rightarrow> string" where
  "user_string um a len = takeWhile (\<lambda>c. c \<noteq> CHR 0x00) (map to_char (mem_read um a (len - 1)))"

fun collect_strings :: "mem \<Rightarrow> nat \<Rightarrow> nat \<Rightarrow> nat \<Rightarrow> string list" where
  "collect_strings um a len 0 = []"
| "collect_strings um a len (Suc n) =
     (let p = unat (rd64 um a) in
      if p = 0 then [] else user_string um p len # collect_strings um (a + 8) len n)"

definition user_strings :: "mem \<Rightarrow> nat \<Rightarrow> nat \<Rightarrow> nat \<Rightarrow> string list" where
  "user_strings um a len n = (if a = 0 then [] else collect_strings um a len n)"

text \<open>\<open>ExecWait\<close>: the program is a device whose read sleeps; the kernel continues with \<open>exec_image\<close>
  when it has read the file.\<close>

datatype exec_result = ExecRet int interrupt_frame | ExecWait chan nat nat nat

definition fresh_frame :: "nat \<Rightarrow> nat \<Rightarrow> interrupt_frame \<Rightarrow> interrupt_frame" where
  "fresh_frame entry_point initial_rsp f =
     f\<lparr>f_rax := 0, f_rbx := 0, f_rcx := 0, f_rdx := 0, f_rsi := 0, f_rdi := 0, f_rbp := 0, f_r8 := 0, f_r9 := 0,
       f_r10 := 0, f_r11 := 0, f_r12 := 0, f_r13 := 0, f_r14 := 0, f_r15 := 0,
       f_rip := of_nat entry_point, f_rsp := of_nat initial_rsp, f_cs := GDT_USER_CODE, f_ss := GDT_USER_DATA,
       f_rflags := f_rflags f OR 0x200\<rparr>"

text \<open>From the loaded file on: the new address space, the segments, the stack, and the switch.\<close>

definition exec_image ::
    "nat \<Rightarrow> nat \<Rightarrow> nat \<Rightarrow> nat \<Rightarrow> string list \<Rightarrow> string list \<Rightarrow> u64 \<Rightarrow> interrupt_frame \<Rightarrow> kst \<Rightarrow> exec_result \<times> kst" where
  "exec_image i buf sz npages argv envp seed frame s =
     (let (new_pml4, m1) = vmm_new_address_space (k_mm s);
          (im, s1) = elf_load new_pml4 (buf - vmm_hhdm_offset m1) sz (s\<lparr>k_mm := m1\<rparr>);
          s2 = vfs_read_file_free buf npages s1
      in case im of
           None \<Rightarrow> (ExecRet (- ENOEXEC) frame, kprint ''[exec] elf_load failed -- old process image untouched'' s2)
         | Some im \<Rightarrow>
             let (stk, p) = pmm_alloc_pages USER_STACK_PAGES (frames (k_mm s2)); m2 = (k_mm s2)\<lparr>frames := p\<rparr> in
             if stk = 0 then (ExecRet (- ENOMEM) frame, kprint ''[exec] out of memory for the new stack'' (s2\<lparr>k_mm := m2\<rparr>))
             else
               let base = USER_STACK_TOP - USER_STACK_PAGES * PAGE_SIZE;
                   m3 = map_run new_pml4 base stk USER_STACK_PAGES (PTE_WRITE OR PTE_USER) m2;
                   (rsp, m4) = build_initial_stack stk base (USER_STACK_PAGES * PAGE_SIZE) argv envp im seed m3;
                   old_pml4 = pml4_phys (proc s2 i);
                   s3 = upd_proc i (\<lambda>q. q\<lparr>pml4_phys := new_pml4, heap_start := im_highest im, heap_end := im_highest im,
                          fs_base := 0\<rparr>) (s2\<lparr>k_sched := (k_sched s2)\<lparr>msr_fs_base := 0\<rparr>\<rparr>);
                   m5 = vmm_destroy_address_space old_pml4 (vmm_activate new_pml4 m4)
               in (ExecRet 0 (fresh_frame (im_entry im) rsp frame), s3\<lparr>k_mm := m5\<rparr>))"

text \<open>What follows the read of the file, at once or after a sleep.\<close>

definition exec_file ::
    "nat \<Rightarrow> string list \<Rightarrow> string list \<Rightarrow> u64 \<Rightarrow> interrupt_frame \<Rightarrow> load \<times> kst \<Rightarrow> exec_result \<times> kst" where
  "exec_file i argv envp seed frame = (\<lambda>(ld, s). case ld of
       LoadFailed \<Rightarrow> (ExecRet (- ENOEXEC) frame, kprint ''[exec] read failed or empty file'' s)
     | LoadWait ch fr cap got \<Rightarrow> (ExecWait ch fr cap got, s)
     | Loaded buf sz npages \<Rightarrow>
         if sz = 0 then (ExecRet (- ENOEXEC) frame, vfs_read_file_free buf npages (kprint ''[exec] read failed or empty file'' s))
         else exec_image i buf sz npages argv envp seed frame s)"

definition do_exec :: "mem \<Rightarrow> u64 \<Rightarrow> interrupt_frame \<Rightarrow> string \<Rightarrow> nat \<Rightarrow> nat \<Rightarrow> kst \<Rightarrow> (exec_result \<times> kst) option" where
  "do_exec um seed frame pth user_argv user_envp s =
     (let argv = user_strings um user_argv EXEC_ARG_MAXLEN MAX_EXEC_ARGS;
          envp = user_strings um user_envp EXEC_ENV_MAXLEN MAX_EXEC_ENVS
      in case process_current s of None \<Rightarrow> Some (ExecRet (- EINVAL) frame, s)
         | Some i \<Rightarrow>
             do { (r, s1) \<leftarrow> vfs_resolve_path_cwd (cwd (proc s i)) pth s;
                  (case r of
                     None \<Rightarrow> Some (ExecRet (- ENOENT) frame, kprint ''[exec] path not found'' s1)
                   | Some node \<Rightarrow>
                       if \<not> has_op has_read node s1
                       then Some (ExecRet (- EACCES) frame, kprint ''[exec] not a readable/executable file'' s1)
                       else if \<not> may i node VFS_PERM_EXEC s1
                       then Some (ExecRet (- EACCES) frame, kprint ''[exec] permission denied (missing execute bit)'' s1)
                       else map_option (exec_file i argv envp seed frame) (vfs_read_file_alloc node s1)) })"

end
