(* ===== verification/Syscall.thy ===== *)
theory Syscall
  imports Exec
begin

text \<open>
  The entries into the kernel: system calls (\<^verbatim>\<open>kernel/syscall.c\<close>), processor exceptions
  (\<^verbatim>\<open>kernel/exceptions.c\<close>) and hardware interrupts (\<^verbatim>\<open>kernel/irq.c\<close>, \<^verbatim>\<open>kernel/pic.c\<close>). \<open>um\<close> is the
  memory of the calling process as it sees it. What a system call stores there is part of the
  result, as a list of addresses and bytes.
\<close>

section \<open>System calls\<close>

definition SYS_READ :: nat where [simp]: "SYS_READ = 0"
definition SYS_WRITE :: nat where [simp]: "SYS_WRITE = 1"
definition SYS_OPEN :: nat where [simp]: "SYS_OPEN = 2"
definition SYS_CLOSE :: nat where [simp]: "SYS_CLOSE = 3"
definition SYS_STAT :: nat where [simp]: "SYS_STAT = 4"
definition SYS_MMAP :: nat where [simp]: "SYS_MMAP = 9"
definition SYS_MUNMAP :: nat where [simp]: "SYS_MUNMAP = 11"
definition SYS_BRK :: nat where [simp]: "SYS_BRK = 12"
definition SYS_PIPE :: nat where [simp]: "SYS_PIPE = 22"
definition SYS_DUP2 :: nat where [simp]: "SYS_DUP2 = 33"
definition SYS_GETPID :: nat where [simp]: "SYS_GETPID = 39"
definition SYS_FORK :: nat where [simp]: "SYS_FORK = 57"
definition SYS_EXECVE :: nat where [simp]: "SYS_EXECVE = 59"
definition SYS_EXIT :: nat where [simp]: "SYS_EXIT = 60"
definition SYS_WAITPID :: nat where [simp]: "SYS_WAITPID = 61"
definition SYS_KILL :: nat where [simp]: "SYS_KILL = 62"
definition SYS_GETCWD :: nat where [simp]: "SYS_GETCWD = 79"
definition SYS_CHDIR :: nat where [simp]: "SYS_CHDIR = 80"
definition SYS_MKDIR :: nat where [simp]: "SYS_MKDIR = 83"
definition SYS_UNLINK :: nat where [simp]: "SYS_UNLINK = 87"
definition SYS_CHMOD :: nat where [simp]: "SYS_CHMOD = 90"
definition SYS_CHOWN :: nat where [simp]: "SYS_CHOWN = 92"
definition SYS_GETUID :: nat where [simp]: "SYS_GETUID = 102"
definition SYS_GETGID :: nat where [simp]: "SYS_GETGID = 104"
definition SYS_SETUID :: nat where [simp]: "SYS_SETUID = 105"
definition SYS_SETGID :: nat where [simp]: "SYS_SETGID = 106"
definition SYS_ARCH_PRCTL :: nat where [simp]: "SYS_ARCH_PRCTL = 158"
definition SYS_READDIR :: nat where [simp]: "SYS_READDIR = 217"
definition SYS_SET_TID_ADDRESS :: nat where [simp]: "SYS_SET_TID_ADDRESS = 218"
definition SYS_EXIT_GROUP :: nat where [simp]: "SYS_EXIT_GROUP = 231"
definition SYS_SET_ROBUST_LIST :: nat where [simp]: "SYS_SET_ROBUST_LIST = 273"
definition SYS_SET_FOREGROUND :: nat where [simp]: "SYS_SET_FOREGROUND = 1000"
definition SYS_TTY_SET_RAW :: nat where [simp]: "SYS_TTY_SET_RAW = 1001"
definition SYS_TTY_SET_ECHO :: nat where [simp]: "SYS_TTY_SET_ECHO = 1002"
definition ARCH_SET_FS :: int where [simp]: "ARCH_SET_FS = 0x1002"
definition ARCH_GET_FS :: int where [simp]: "ARCH_GET_FS = 0x1003"

text \<open>
  \<open>SysRet\<close>: back to the caller with the frame and the stores into its memory. \<open>SysSleep\<close>: the task
  sleeps on a channel, with the bytes already transferred. \<open>SysYield\<close>: the task yields once and
  then returns with the frame. \<open>SysNever\<close>: the task yields for ever. \<open>SysLoad\<close>: \<^verbatim>\<open>exec\<close> sleeps in the
  read of the program. The value \<open>None\<close> of a handler is a fault of the kernel or a loop without
  end.
\<close>

datatype sys_result =
    SysRet interrupt_frame "(nat \<times> bytes) list" kst
  | SysSleep chan nat kst
  | SysYield interrupt_frame kst
  | SysNever kst
  | SysLoad exec_result kst

text \<open>A register as \<^verbatim>\<open>int\<close>, and a path of the caller: the kernel looks at no more than the first
  127 characters of it.\<close>

definition reg_int :: "u64 \<Rightarrow> int" where
  "reg_int r = sint (ucast r :: 32 word)"

definition user_path :: "mem \<Rightarrow> u64 \<Rightarrow> string" where
  "user_path um r = user_string um (unat r) 129"

definition ret :: "interrupt_frame \<Rightarrow> int \<times> kst \<Rightarrow> sys_result" where
  "ret f = (\<lambda>(r, s). SysRet (f\<lparr>f_rax := of_int r\<rparr>) [] s)"

definition ret_store :: "interrupt_frame \<Rightarrow> int \<Rightarrow> (nat \<times> bytes) list \<Rightarrow> kst \<Rightarrow> sys_result" where
  "ret_store f r ws s = SysRet (f\<lparr>f_rax := of_int r\<rparr>) ws s"

definition int_bytes :: "int \<Rightarrow> bytes" where
  "int_bytes n = le_bytes 4 (of_int n)"

definition user_int :: "mem \<Rightarrow> nat \<Rightarrow> int" where
  "user_int um a = sint (ucast (le_val (mem_read um a 4)) :: 32 word)"

definition stat_bytes :: "vfs_stat \<Rightarrow> bytes" where
  "stat_bytes st = concat (map (le_bytes 8 \<circ> of_nat) [st_type st, st_size st, st_uid st, st_gid st, st_mode st])"

definition sys_exit :: "int \<Rightarrow> kst \<Rightarrow> kst" where
  "sys_exit code s =
     (let d = serial_print_dec (nat \<bar>code\<bar>) (serial_print ''[syscall] exit('' (k_disk s));
          s1 = s\<lparr>k_disk := serial_print ('')'' @ nl) d\<rparr>; self = current_task (k_sched s1)
      in case process_current s1 of
           Some i \<Rightarrow> process_terminate i self (ENCODE_EXITED code) s1
         | None \<Rightarrow> set_task_state self TASK_TERMINATED s1)"

definition sys_kill :: "interrupt_frame \<Rightarrow> int \<Rightarrow> int \<Rightarrow> kst \<Rightarrow> sys_result option" where
  "sys_kill f target sig s =
     (case process_find_by_pid target s of None \<Rightarrow> Some (ret f (- ESRCH, s))
      | Some i \<Rightarrow>
          do { (act, s1) \<leftarrow> process_send_signal i sig s;
               Some (if act < 0 then ret f (- EINVAL, s1)
                     else if act = 1 then SysNever s1
                     else if act = 2 then SysYield (f\<lparr>f_rax := 0\<rparr>) s1
                     else ret f (0, s1)) })"

text \<open>The calls that use the current process.\<close>

definition sys_read :: "nat \<Rightarrow> interrupt_frame \<Rightarrow> kst \<Rightarrow> sys_result option" where
  "sys_read i f s =
     (case process_read i (reg_int (f_rdi f)) (unat (f_rdx f)) s of None \<Rightarrow> None
      | Some (Block ch n, s1) \<Rightarrow> Some (SysSleep ch n s1)
      | Some (Done (Inl e), s1) \<Rightarrow> Some (ret f (e, s1))
      | Some (Done (Inr bs), s1) \<Rightarrow> Some (ret_store f (int (length bs)) [(unat (f_rsi f), bs)] s1))"

definition sys_write :: "mem \<Rightarrow> nat \<Rightarrow> nat \<Rightarrow> interrupt_frame \<Rightarrow> kst \<Rightarrow> sys_result option" where
  "sys_write um n i f s =
     (case process_write i (reg_int (f_rdi f)) (mem_read um (unat (f_rsi f)) (unat (f_rdx f))) n s of None \<Rightarrow> None
      | Some (Block ch k, s1) \<Rightarrow> Some (SysSleep ch k s1)
      | Some (Done r, s1) \<Rightarrow> Some (ret f (r, s1)))"

definition sys_waitpid :: "nat \<Rightarrow> interrupt_frame \<Rightarrow> kst \<Rightarrow> sys_result" where
  "sys_waitpid i f s =
     (case process_waitpid i (reg_int (f_rdi f)) s of
        (Block ch n, s1) \<Rightarrow> SysSleep ch n s1
      | (Done (r, st), s1) \<Rightarrow>
          ret_store f r (case st of Some v \<Rightarrow> if f_rsi f = 0 then [] else [(unat (f_rsi f), int_bytes v)] | None \<Rightarrow> []) s1)"

definition sys_readdir :: "mem \<Rightarrow> nat \<Rightarrow> interrupt_frame \<Rightarrow> kst \<Rightarrow> sys_result option" where
  "sys_readdir um i f s =
     map_option (\<lambda>((r, name), s1). ret_store f r (case name of None \<Rightarrow> [] | Some n \<Rightarrow> [(unat (f_rdx f), c_bytes n)]) s1)
       (vfs_readdir_path (cwd (proc s i)) (user_path um (f_rdi f)) (reg_int (f_rsi f)) (unat (f_r10 f)) s)"

definition sys_getcwd :: "nat \<Rightarrow> interrupt_frame \<Rightarrow> kst \<Rightarrow> sys_result" where
  "sys_getcwd i f s =
     (let c = take (unat (f_rsi f) - 1) (cwd (proc s i)) in ret_store f (int (length c)) [(unat (f_rdi f), c_bytes c)] s)"

definition sys_stat :: "mem \<Rightarrow> nat \<Rightarrow> interrupt_frame \<Rightarrow> kst \<Rightarrow> sys_result option" where
  "sys_stat um i f s =
     map_option (\<lambda>(r, s1). case r of Inl e \<Rightarrow> ret f (e, s1)
                           | Inr st \<Rightarrow> ret_store f 0 [(unat (f_rsi f), stat_bytes st)] s1)
       (process_stat i (user_path um (f_rdi f)) s)"

definition sys_pipe :: "nat \<Rightarrow> interrupt_frame \<Rightarrow> kst \<Rightarrow> sys_result" where
  "sys_pipe i f s =
     (case process_pipe i s of (Inl e, s1) \<Rightarrow> ret f (e, s1)
      | (Inr (a, b), s1) \<Rightarrow> ret_store f 0 [(unat (f_rdi f), int_bytes (int a) @ int_bytes (int b))] s1)"

definition sys_arch_prctl :: "nat option \<Rightarrow> interrupt_frame \<Rightarrow> kst \<Rightarrow> sys_result" where
  "sys_arch_prctl pr f s =
     (let code = sint (f_rdi f); addr = unat (f_rsi f) in
      if code = ARCH_SET_FS then
        let s1 = (case pr of None \<Rightarrow> s | Some i \<Rightarrow> upd_proc i (\<lambda>p. p\<lparr>fs_base := addr\<rparr>) s)
        in ret f (0, s1\<lparr>k_sched := (k_sched s1)\<lparr>msr_fs_base := addr\<rparr>\<rparr>)
      else if code = ARCH_GET_FS then
        ret_store f 0 [(addr, le_bytes 8 (of_nat (case pr of None \<Rightarrow> 0 | Some i \<Rightarrow> fs_base (proc s i))))] s
      else ret f (- EINVAL, s))"

definition sys_execve :: "mem \<Rightarrow> u64 \<Rightarrow> interrupt_frame \<Rightarrow> kst \<Rightarrow> sys_result option" where
  "sys_execve um seed f s =
     map_option (\<lambda>(r, s1). case r of ExecRet c f1 \<Rightarrow> ret f1 (c, s1) | ExecWait ch fr cap got \<Rightarrow> SysLoad r s1)
       (do_exec um seed f (user_path um (f_rdi f)) (unat (f_rsi f)) (unat (f_rdx f)) s)"

text \<open>\<^verbatim>\<open>proc\<close> is dereferenced: a null pointer is a fault of the kernel.\<close>

definition with_proc :: "kst \<Rightarrow> (nat \<Rightarrow> 'a option) \<Rightarrow> 'a option" where
  "with_proc s k = (case process_current s of None \<Rightarrow> None | Some i \<Rightarrow> k i)"

text \<open>\<open>n\<close> is the progress of a write that was put to sleep.\<close>

definition syscall_handler :: "mem \<Rightarrow> nat \<Rightarrow> u64 \<Rightarrow> nat \<Rightarrow> interrupt_frame \<Rightarrow> kst \<Rightarrow> sys_result option" where
  "syscall_handler um ret_point seed n f s =
     (let no = unat (f_rax f); pr = process_current s; path1 = user_path um (f_rdi f) in
      if no = SYS_WRITE then with_proc s (\<lambda>i. sys_write um n i f s)
      else if no = SYS_OPEN then with_proc s (\<lambda>i. map_option (ret f) (process_open i path1 (reg_int (f_rsi f)) s))
      else if no = SYS_READ then with_proc s (\<lambda>i. sys_read i f s)
      else if no = SYS_CLOSE then with_proc s (\<lambda>i. Some (ret f (process_close i (reg_int (f_rdi f)) s)))
      else if no = SYS_BRK then
        with_proc s (\<lambda>i. Some (let (b, s1) = process_brk i (unat (f_rdi f)) s in ret f (int b, s1)))
      else if no = SYS_FORK then map_option (ret f) (do_fork ret_point f s)
      else if no = SYS_EXECVE then sys_execve um seed f s
      else if no = SYS_WAITPID then with_proc s (\<lambda>i. Some (sys_waitpid i f s))
      else if no = SYS_READDIR then with_proc s (\<lambda>i. sys_readdir um i f s)
      else if no = SYS_CHDIR then with_proc s (\<lambda>i. map_option (ret f) (process_chdir i path1 s))
      else if no = SYS_GETCWD then with_proc s (\<lambda>i. Some (sys_getcwd i f s))
      else if no = SYS_MKDIR then with_proc s (\<lambda>i. map_option (ret f) (process_mkdir i path1 s))
      else if no = SYS_UNLINK then with_proc s (\<lambda>i. map_option (ret f) (process_unlink i path1 s))
      else if no = SYS_STAT then with_proc s (\<lambda>i. sys_stat um i f s)
      else if no = SYS_DUP2 then
        with_proc s (\<lambda>i. Some (ret f (process_dup2 i (reg_int (f_rdi f)) (reg_int (f_rsi f)) s)))
      else if no = SYS_PIPE then with_proc s (\<lambda>i. Some (sys_pipe i f s))
      else if no = SYS_MMAP then
        with_proc s (\<lambda>i. Some (ret f (process_mmap i (unat (f_rsi f)) (reg_int (f_rdx f)) (reg_int (f_r10 f)) (reg_int (f_r8 f)) s)))
      else if no = SYS_MUNMAP then
        with_proc s (\<lambda>i. Some (ret f (process_munmap i (unat (f_rdi f)) (unat (f_rsi f)) s)))
      else if no = SYS_SET_FOREGROUND then
        Some (ret f (0, process_set_foreground (\<lambda>k. user_int um (unat (f_rdi f) + 4 * k)) (reg_int (f_rsi f)) s))
      else if no = SYS_KILL then sys_kill f (reg_int (f_rdi f)) (reg_int (f_rsi f)) s
      else if no = SYS_GETPID then Some (ret f (case pr of Some i \<Rightarrow> pid (proc s i) | None \<Rightarrow> - 1, s))
      else if no = SYS_CHMOD then with_proc s (\<lambda>i. map_option (ret f) (process_chmod i path1 (unat (f_rsi f)) s))
      else if no = SYS_CHOWN then
        with_proc s (\<lambda>i. map_option (ret f) (process_chown i path1 (unat (f_rsi f)) (unat (f_rdx f)) s))
      else if no = SYS_SETUID then with_proc s (\<lambda>i. Some (ret f (process_setuid i (unat (f_rdi f)) s)))
      else if no = SYS_SETGID then with_proc s (\<lambda>i. Some (ret f (process_setgid i (unat (f_rdi f)) s)))
      else if no = SYS_GETUID then Some (ret f (case pr of Some i \<Rightarrow> int (p_uid (proc s i)) | None \<Rightarrow> 0, s))
      else if no = SYS_GETGID then Some (ret f (case pr of Some i \<Rightarrow> int (p_gid (proc s i)) | None \<Rightarrow> 0, s))
      else if no = SYS_ARCH_PRCTL then Some (sys_arch_prctl pr f s)
      else if no = SYS_TTY_SET_RAW then Some (ret f (0, s\<lparr>k_kbd := tty_set_raw (reg_int (f_rdi f)) (k_kbd s)\<rparr>))
      else if no = SYS_TTY_SET_ECHO then Some (ret f (0, s\<lparr>k_kbd := tty_set_echo (reg_int (f_rdi f)) (k_kbd s)\<rparr>))
      else if no = SYS_SET_TID_ADDRESS then Some (ret f (case pr of Some i \<Rightarrow> pid (proc s i) | None \<Rightarrow> 0, s))
      else if no = SYS_SET_ROBUST_LIST then Some (ret f (0, s))
      else if no = SYS_EXIT \<or> no = SYS_EXIT_GROUP then Some (SysNever (sys_exit (reg_int (f_rdi f)) s))
      else
        let d = serial_print_dec no (serial_print ''[syscall] unknown syscall number '' (k_disk s))
        in Some (ret f (- ENOSYS, s\<lparr>k_disk := serial_print nl d\<rparr>)))"

section \<open>Exceptions\<close>

definition PF_ERR_PRESENT :: u64 where [simp]: "PF_ERR_PRESENT = 1"
definition PF_ERR_WRITE :: u64 where [simp]: "PF_ERR_WRITE = 2"

definition try_handle_cow_fault :: "nat \<Rightarrow> u64 \<Rightarrow> kst \<Rightarrow> bool \<times> kst" where
  "try_handle_cow_fault cr2_addr err s =
     (if err AND PF_ERR_PRESENT = 0 \<or> err AND PF_ERR_WRITE = 0 then (False, s)
      else case process_current s of None \<Rightarrow> (False, s)
        | Some i \<Rightarrow>
            let m = k_mm s in
            (case vmm_get_pte (pml4_phys (proc s i)) cr2_addr m of None \<Rightarrow> (False, s)
             | Some ea \<Rightarrow>
                 let pte = rd64 (phys m) ea; fr = pte_addr pte in
                 if pte AND PTE_COW = 0 then (False, s)
                 else if unat (pmm_page_refcount fr (frames m)) \<le> 1 then
                   (True, s\<lparr>k_mm := m\<lparr>phys := wr64 (phys m) ea (of_nat fr OR PTE_PRESENT OR PTE_WRITE OR PTE_USER)\<rparr>\<rparr>)
                 else
                   let (fr2, m1) = alloc_frame m in
                   if fr2 = 0 then (False, s\<lparr>k_mm := m1\<rparr>)
                   else
                     let mem1 = k_memcpy fr2 fr PAGE_SIZE (phys m1);
                         mem2 = wr64 mem1 ea (of_nat fr2 OR PTE_PRESENT OR PTE_WRITE OR PTE_USER)
                     in (True, s\<lparr>k_mm := free_frame fr (m1\<lparr>phys := mem2\<rparr>)\<rparr>)))"

text \<open>\<^verbatim>\<open>isr.asm\<close> enters the handler with vectors below 32 only.\<close>

definition exception_names :: "string list" where
  "exception_names =
     [''Divide-by-zero error'', ''Debug'', ''Non-maskable interrupt'', ''Breakpoint'',
      ''Overflow'', ''Bound range exceeded'', ''Invalid opcode'', ''Device not available'',
      ''Double fault'', ''Coprocessor segment overrun'', ''Invalid TSS'', ''Segment not present'',
      ''Stack-segment fault'', ''General protection fault'', ''Page fault'', ''Reserved'',
      ''x87 floating-point exception'', ''Alignment check'', ''Machine check'', ''SIMD floating-point exception'',
      ''Virtualization exception'', ''Control protection exception'', ''Reserved'', ''Reserved'',
      ''Reserved'', ''Reserved'', ''Reserved'', ''Reserved'',
      ''Hypervisor injection exception'', ''VMM communication exception'', ''Security exception'', ''Reserved'']"

definition print_reg :: "string \<Rightarrow> u64 \<Rightarrow> 'a io_scheme \<Rightarrow> 'a io_scheme" where
  "print_reg label v d = serial_print nl (serial_print_hex (unat v) (serial_print label d))"

definition exception_report :: "nat \<Rightarrow> interrupt_frame \<Rightarrow> 'a io_scheme \<Rightarrow> 'a io_scheme" where
  "exception_report cr2_addr f d =
     (let d1 = serial_print_dec (unat (f_int_no f)) (serial_print ''vector:      '' (serial_print (nl @ ''!!! cpu exception !!!'' @ nl) d));
          d2 = serial_print ('')'' @ nl) (serial_print (exception_names ! unat (f_int_no f)) (serial_print ''  ('' d1));
          d3 = print_reg ''rflags:      '' (f_rflags f) (print_reg ''cs:          '' (f_cs f)
                 (print_reg ''rip:         '' (f_rip f) (print_reg ''error code:  '' (f_err_code f) d2)));
          d4 = (if f_int_no f = 14
                then serial_print (''  (either unmapped, or a genuine protection violation -- not a COW case, see err_code above)'' @ nl)
                       (serial_print_hex cr2_addr (serial_print ''fault addr:  '' d3))
                else d3)
      in serial_print (''the kernel caught this instead of triple faulting. halting now.'' @ nl) d4)"

definition exception_halt :: "nat \<Rightarrow> interrupt_frame \<Rightarrow> kst \<Rightarrow> kst" where
  "exception_halt cr2_addr f s = s\<lparr>k_disk := exception_report cr2_addr f (k_disk s)\<rparr>"

text \<open>The faulting instruction is tried again, the process ends, or the machine stops.\<close>

datatype fault_result = FaultRetry kst | FaultKill kst | FaultHalt kst

definition exception_handler :: "nat \<Rightarrow> interrupt_frame \<Rightarrow> kst \<Rightarrow> fault_result" where
  "exception_handler cr2_addr f s =
     (case (if f_int_no f = 14 then try_handle_cow_fault cr2_addr (f_err_code f) s else (False, s)) of
        (True, s1) \<Rightarrow> FaultRetry s1
      | (False, s1) \<Rightarrow>
          (case process_current s1 of
             Some i \<Rightarrow>
               if f_cs f AND 3 = 3 then
                 let d = serial_print_dec (nat (pid (proc s1 i))) (serial_print (nl @ ''!!! unhandled fault in userspace (pid '') (k_disk s1));
                     s2 = s1\<lparr>k_disk := serial_print ('') -- terminating with SIGSEGV instead of halting the kernel !!!'' @ nl) d\<rparr>
                 in FaultKill (process_terminate i (current_task (k_sched s2)) (ENCODE_SIGNALED SIGSEGV) s2)
               else FaultHalt (exception_halt cr2_addr f s1)
           | None \<Rightarrow> FaultHalt (exception_halt cr2_addr f s1)))"

section \<open>Interrupts\<close>

definition PIC1_COMMAND :: nat where [simp]: "PIC1_COMMAND = 0x20"
definition PIC2_COMMAND :: nat where [simp]: "PIC2_COMMAND = 0xA0"
definition PIC1_DATA :: nat where [simp]: "PIC1_DATA = 0x21"
definition PIC2_DATA :: nat where [simp]: "PIC2_DATA = 0xA1"
definition KEYBOARD_DATA_PORT :: nat where [simp]: "KEYBOARD_DATA_PORT = 0x60"
definition TIME_SLICE_TICKS :: nat where [simp]: "TIME_SLICE_TICKS = 5"

definition pic_remap :: "'a io_scheme \<Rightarrow> 'a io_scheme" where
  "pic_remap d = fold (\<lambda>(p, v). outb p v)
     [(PIC1_COMMAND, 0x11), (PIC2_COMMAND, 0x11), (PIC1_DATA, 0x20), (PIC2_DATA, 0x28), (PIC1_DATA, 0x04), (PIC2_DATA, 0x02),
      (PIC1_DATA, 0x01), (PIC2_DATA, 0x01), (PIC1_DATA, 0xF8), (PIC2_DATA, 0xFF)] d"

definition pic_send_eoi :: "nat \<Rightarrow> 'a io_scheme \<Rightarrow> 'a io_scheme" where
  "pic_send_eoi irq d = outb PIC1_COMMAND 0x20 (if irq \<ge> 8 then outb PIC2_COMMAND 0x20 d else d)"

text \<open>The interrupted task goes on, yields once, or yields for ever.\<close>

datatype irq_result = IrqReturn nat kst | IrqYield nat kst | IrqNever nat kst

definition eoi :: "nat \<Rightarrow> kst \<Rightarrow> kst" where
  "eoi irq s = s\<lparr>k_disk := pic_send_eoi irq (k_disk s)\<rparr>"

text \<open>\<open>ticks\<close> is \<^verbatim>\<open>timer_ticks\<close>.\<close>

definition irq_handler :: "nat \<Rightarrow> nat \<times> kst \<Rightarrow> irq_result option" where
  "irq_handler int_no = (\<lambda>(ticks, s).
     let irq = usub int_no 32 in
     if irq = 0 then
       let t = wrap64 (ticks + 1); s1 = eoi 0 s in
       Some (if t mod TIME_SLICE_TICKS = 0 then IrqYield t s1 else IrqReturn t s1)
     else if irq = 1 then
       let (sc, d) = inb KEYBOARD_DATA_PORT (k_disk s);
           s1 = eoi 1 (s\<lparr>k_disk := d\<rparr>);
           (echo, act, k) = keyboard_handle_scancode sc (k_kbd s1);
           s2 = s1\<lparr>k_kbd := k, k_term := k_term s1 @ echo\<rparr>
       in (case act of KNone \<Rightarrow> Some (IrqReturn ticks s2)
           | KWake \<Rightarrow> Some (IrqReturn ticks (s2\<lparr>k_sched := task_wake ChKbd (k_sched s2)\<rparr>))
           | KSignal sig \<Rightarrow>
               do { (a, s3) \<leftarrow> process_signal_foreground sig s2;
                    Some (if a = 1 then IrqNever ticks s3 else if a = 2 then IrqYield ticks s3 else IrqReturn ticks s3) })
     else Some (IrqReturn ticks (eoi (irq mod 256) s)))"

end
