(* ===== verification/ProcMem.thy ===== *)
theory ProcMem
  imports ProcWait Syscall
begin

text \<open>
  The memory of processes: the copy-on-write fault, the growth of the heap, anonymous mappings
  and their removal.
\<close>

section \<open>Writes outside the frames in use\<close>

lemma agree_entry:
  assumes "space_wf s root" "\<forall>x. x div PAGE_SIZE \<in> used_frames (frames s) \<longrightarrow> phys s' x = phys s x"
    "lowp q" "tab s root q = Some t" "i < 512"
  shows "entry s' t i = entry s t i"
proof -
  have t: "t mod PAGE_SIZE = 0" "t div PAGE_SIZE \<in> used_frames (frames s)" using space_tabD [OF assms(1,3,4)] by auto
  have e: "t div PAGE_SIZE * PAGE_SIZE = t" using t(1) by (metis add.right_neutral div_mult_mod_eq)
  have "x div PAGE_SIZE \<in> used_frames (frames s)" if "t + 8 * i \<le> x" "x < t + 8 * i + 8" for x
    using page_cell_div [OF t(1) assms(5) that] t(2) e by (metis nonzero_mult_div_cancel_right zero_neq_numeral)
  then show ?thesis unfolding entry_def using assms(2) by (intro rd64_cong) blast
qed

lemma agree_space:
  assumes "space_wf s root" "\<forall>x. x div PAGE_SIZE \<in> used_frames (frames s) \<longrightarrow> phys s' x = phys s x"
    "used_frames (frames s) \<subseteq> used_frames (frames s')"
  shows "lowp q \<Longrightarrow> tab s' root q = tab s root q" "u < 2 ^ 47 \<Longrightarrow> leaf s' root u = leaf s root u"
    "space_wf s' root" "own s' root = own s root" "preserved s root (s'\<lparr>frames := (frames s)\<rparr>)"
proof -
  note ent = agree_entry [OF assms(1,2)]
  have tb: "tab s' root q = tab s root q" if "lowp q" for q
    using that
  proof (induction q rule: rev_induct)
    case (snoc i q)
    with lowp_snocD [OF snoc.prems] ent [of q] show ?case unfolding tab_snoc by (auto split: option.splits)
  qed simp
  then show "lowp q \<Longrightarrow> tab s' root q = tab s root q" .
  show "leaf s' root u = leaf s root u" if "u < 2 ^ 47"
    using tb [OF lowp_vpath [OF that]] ent [OF lowp_vpath [OF that]] by (auto simp: leaf_def split: option.splits)
  show own: "own s' root = own s root" using tb by (auto simp: own_def)
  show "space_wf s' root" unfolding space_wf_def
  proof (intro conjI allI impI; (elim conjE)?)
    fix p t assume "lowp p" "tab s' root p = Some t"
    with tb space_tabD [OF assms(1)] assms(3)
    show "t mod PAGE_SIZE = 0" "t div PAGE_SIZE \<in> used_frames (frames s')" by auto
  next
    fix p r t assume "lowp p" "lowp r" "tab s' root p = Some t" "tab s' root r = Some t"
    with tb space_tab_inj [OF assms(1)] show "p = r" by auto
  next
    fix p t i assume p: "lowp (p @ [i])" "length p = 2" "tab s' root p = Some t" "present (entry s' t i)"
    with lowp_snocD [OF p(1)] tb ent [of p t i] have "tab s root p = Some t" "entry s' t i = entry s t i" by auto
    with p assms(1) show "\<not> huge (entry s' t i)" unfolding space_wf_def by auto
  qed
  show "preserved s root (s'\<lparr>frames := (frames s)\<rparr>)" using assms(2) own tb by (auto simp: preserved_def)
qed

section \<open>Changing one leaf entry\<close>

lemma get_pte_place:
  assumes "space_wf s root" "v < 2 ^ 47" "leaf s root v = Some e"
  obtains pt where "vmm_get_pte root v s = Some (pt + 8 * pt_idx v)" "tab s root (vpath v) = Some pt" "rd64 (phys s) (pt + 8 * pt_idx v) = e"
proof -
  obtain ea where ea: "vmm_get_pte root v s = Some ea" "rd64 (phys s) ea = e"
    using get_pte_leaf [OF assms(1,2)] assms(3) by (cases "vmm_get_pte root v s") auto
  obtain pt where pt: "tab s root (vpath v) = Some pt" using assms(3) by (auto simp: leaf_def split: option.splits)
  have "ea = pt + 8 * pt_idx v"
    using ea(1) pt by (auto simp: vmm_get_pte_def Let_def vpath_def split: if_splits)
  then show ?thesis using that ea pt by blast
qed

lemma set_leaf:
  assumes wf: "space_wf s root" and v: "v < 2 ^ 47" and pt: "tab s root (vpath v) = Some pt"
    and s': "s' = s\<lparr>phys := wr64 (phys s) (pt + 8 * pt_idx v) e\<rparr>"
  shows "space_wf s' root" "preserved s root s'"
    "u < 2 ^ 47 \<Longrightarrow> leaf s' root u = (if u div PAGE_SIZE = v div PAGE_SIZE then (if present e then Some e else None) else leaf s root u)"
proof -
  have l: "lowp (vpath v)" "length (vpath v) = 3" "pt_idx v < 512" using lowp_vpath [OF v] by (simp_all add: vpath_def pt_idx_def)
  note st = store_leaf [OF wf l(1,2) pt l(3) s']
  show "space_wf s' root" "preserved s root s'" by (fact st(3,4))+
  assume u: "u < 2 ^ 47"
  have "tab s' root (vpath u) = tab s root (vpath u)" by (rule st(1) [OF lowp_vpath [OF u]])
  moreover have "entry s' t (pt_idx u) = (if vpath u = vpath v \<and> pt_idx u = pt_idx v then e else entry s t (pt_idx u))"
    if "tab s root (vpath u) = Some t" for t
    by (rule st(2) [OF lowp_vpath [OF u] that]) (simp add: pt_idx_def)
  ultimately show "leaf s' root u = (if u div PAGE_SIZE = v div PAGE_SIZE then (if present e then Some e else None) else leaf s root u)"
    using pt same_page_iff [OF u v] by (auto simp: leaf_def split: option.splits)
qed

section \<open>The copy-on-write fault\<close>

text \<open>What resolving a write fault on the page of \<open>v\<close> with entry \<open>e\<close> leaves: \<open>n\<close> is the frame the
  page has afterwards.\<close>

definition cow_resolved :: "mm \<Rightarrow> nat \<Rightarrow> nat \<Rightarrow> u64 \<Rightarrow> nat \<Rightarrow> mm \<Rightarrow> bool" where
  "cow_resolved m root v e n m' \<longleftrightarrow>
     pmm_inv (frames m') \<and> space_wf m' root \<and>
     (\<forall>u < 2 ^ 47. leaf m' root u =
        (if u div PAGE_SIZE = v div PAGE_SIZE then Some (of_nat n OR PTE_PRESENT OR PTE_WRITE OR PTE_USER) else leaf m root u)) \<and>
     mem_read (phys m') n PAGE_SIZE = mem_read (phys m) (pte_addr e) PAGE_SIZE \<and>
     n mod PAGE_SIZE = 0 \<and> n < 2 ^ 64 \<and> unat (refcount (frames m') (n div PAGE_SIZE)) \<le> 1 \<and>
     (if unat (refcount (frames m) (pte_addr e div PAGE_SIZE)) \<le> 1 then n = pte_addr e \<and> frames m' = frames m
      else n div PAGE_SIZE \<notin> used_frames (frames m) \<and>
        used_frames (frames m') = insert (n div PAGE_SIZE) (used_frames (frames m)) \<and>
        (\<forall>i \<in> used_frames (frames m). refcount (frames m') i =
           (if i = pte_addr e div PAGE_SIZE then refcount (frames m) i - 1 else refcount (frames m) i))) \<and>
     (\<forall>x. x div PAGE_SIZE \<in> used_frames (frames m) \<longrightarrow> x div PAGE_SIZE * PAGE_SIZE \<notin> own m root \<longrightarrow> phys m' x = phys m x) \<and>
     (\<forall>r. space_wf m r \<longrightarrow> own m root \<inter> own m r = {} \<longrightarrow> space_wf m' r \<and> (\<forall>u < 2 ^ 47. leaf m' r u = leaf m r u))"

lemma page_aligned: "a mod PAGE_SIZE = 0 \<Longrightarrow> a div PAGE_SIZE * PAGE_SIZE = a"
  by (metis add.right_neutral div_mult_mod_eq)

lemma page_inj: "a mod PAGE_SIZE = 0 \<Longrightarrow> b mod PAGE_SIZE = 0 \<Longrightarrow> a div PAGE_SIZE = b div PAGE_SIZE \<Longrightarrow> a = b"
  by (metis page_aligned)

lemma page_range: "a mod PAGE_SIZE = 0 \<Longrightarrow> x div PAGE_SIZE = a div PAGE_SIZE \<longleftrightarrow> a \<le> x \<and> x < a + PAGE_SIZE"
proof -
  assume "a mod PAGE_SIZE = 0"
  then obtain b where "a = PAGE_SIZE * b" by (metis dvd_def mod_0_imp_dvd)
  then show ?thesis by (auto simp: div_nat_eqI)
qed

lemma page_up_small: "x \<le> 2 ^ 47 \<Longrightarrow> page_up x = (x + 4095) div PAGE_SIZE * PAGE_SIZE"
  by (simp add: page_up_def wrap64_def)

lemma page_up_range:
  assumes "x \<le> 2 ^ 47"
  shows "page_up x mod PAGE_SIZE = 0" "x \<le> page_up x" "page_up x < x + PAGE_SIZE"
proof -
  have "(x + 4095) div PAGE_SIZE * PAGE_SIZE + (x + 4095) mod PAGE_SIZE = x + 4095" "(x + 4095) mod PAGE_SIZE < PAGE_SIZE" by simp_all
  then show "x \<le> page_up x" "page_up x < x + PAGE_SIZE" unfolding page_up_small [OF assms] by linarith+
  show "page_up x mod PAGE_SIZE = 0" unfolding page_up_small [OF assms] by simp
qed

lemma page_up_mono: "x \<le> y \<Longrightarrow> y \<le> 2 ^ 47 \<Longrightarrow> page_up x \<le> page_up y"
  by (simp add: page_up_small div_le_mono)

lemma page_diff: "a mod PAGE_SIZE = 0 \<Longrightarrow> b mod PAGE_SIZE = 0 \<Longrightarrow> a \<le> b \<Longrightarrow> a + (b - a) div PAGE_SIZE * PAGE_SIZE = b"
proof -
  assume "a mod PAGE_SIZE = 0" "b mod PAGE_SIZE = 0" and le: "a \<le> b"
  then have "(b - a) mod PAGE_SIZE = 0" by (metis dvd_diff_nat mod_0_imp_dvd dvd_imp_mod_0)
  then show ?thesis using le page_aligned [of "b - a"] by simp
qed

lemma page_read_kept:
  assumes "a mod PAGE_SIZE = 0" "\<And>x. x div PAGE_SIZE = a div PAGE_SIZE \<Longrightarrow> f x = g x"
  shows "mem_read f a PAGE_SIZE = mem_read g a PAGE_SIZE"
proof (rule mem_read_cong)
  fix x assume "a \<le> x" "x < a + PAGE_SIZE"
  then have "x div PAGE_SIZE = a div PAGE_SIZE" using page_range [OF assms(1)] by blast
  then show "f x = g x" by (rule assms(2))
qed

lemma pte_addr_mod [simp]: "pte_addr e mod PAGE_SIZE = 0"
proof -
  have "take_bit 12 (e AND NOT 0xFFF) = 0"
    by (simp add: take_bit_eq_mask mask_eq_exp_minus_1 and.assoc)
  then have "take_bit 12 (unat (e AND NOT 0xFFF)) = 0" by (metis unsigned_0 unsigned_take_bit_eq)
  then show ?thesis by (simp add: pte_addr_def take_bit_eq_mod)
qed

lemma pte_addr_less: "pte_addr e < 2 ^ 64"
  unfolding pte_addr_def using unsigned_less [of "e AND NOT 0xFFF", where 'a = nat] by simp

lemma cow_sole:
  assumes inv: "pmm_inv (frames m)" and wf: "space_wf m root" and v: "v < 2 ^ 47" and e: "leaf m root v = Some e"
    and own: "pte_addr e \<notin> own m root" and used: "pte_addr e div PAGE_SIZE \<in> used_frames (frames m)"
    and c: "unat (refcount (frames m) (pte_addr e div PAGE_SIZE)) \<le> 1"
    and ea: "vmm_get_pte root v m = Some ea"
    and m': "m' = m\<lparr>phys := wr64 (phys m) ea (of_nat (pte_addr e) OR PTE_PRESENT OR PTE_WRITE OR PTE_USER)\<rparr>"
  shows "cow_resolved m root v e (pte_addr e) m'"
proof -
  obtain pt where pt: "tab m root (vpath v) = Some pt" "ea = pt + 8 * pt_idx v"
    using get_pte_place [OF wf v e] ea by auto
  note st = set_leaf [OF wf v pt(1) m' [unfolded pt(2)]]
  have keep: "phys m' x = phys m x" if "x div PAGE_SIZE \<in> used_frames (frames m)" "x div PAGE_SIZE * PAGE_SIZE \<notin> own m root" for x
    using st(2) that by (simp add: preserved_def)
  have "mem_read (phys m') (pte_addr e) PAGE_SIZE = mem_read (phys m) (pte_addr e) PAGE_SIZE"
    by (rule page_read_kept [OF pte_addr_mod]) (rule keep; use used own page_aligned [OF pte_addr_mod [of e]] in simp)
  moreover have others: "space_wf m' r \<and> (\<forall>u < 2 ^ 47. leaf m' r u = leaf m r u)"
    if "space_wf m r" "own m root \<inter> own m r = {}" for r
    using other_space [OF st(2) that] by blast
  moreover have "frames m' = frames m" unfolding m' by simp
  ultimately show ?thesis
    using inv st(1) st(3) keep c others pte_addr_less [of e] unfolding cow_resolved_def by (simp del: of_nat_pte_addr)
qed

lemma cow_shared:
  assumes inv: "pmm_inv (frames m)" and wf: "space_wf m root" and v: "v < 2 ^ 47" and e: "leaf m root v = Some e"
    and own: "pte_addr e \<notin> own m root" and used: "pte_addr e div PAGE_SIZE \<in> used_frames (frames m)"
    and nz: "pte_addr e \<noteq> 0" and c: "1 < unat (refcount (frames m) (pte_addr e div PAGE_SIZE))" and free: "free_frames (frames m) \<noteq> {}"
    and ea: "vmm_get_pte root v m = Some ea" and al: "alloc_frame m = (n, m1)"
    and m': "m' = free_frame (pte_addr e) (m1\<lparr>phys := wr64 (k_memcpy n (pte_addr e) PAGE_SIZE (phys m1)) ea
                    (of_nat n OR PTE_PRESENT OR PTE_WRITE OR PTE_USER)\<rparr>)"
  shows "cow_resolved m root v e n m'"
proof -
  note fr = fresh_frame [OF inv al free]
  let ?o = "pte_addr e"
  define ma where "ma = m1\<lparr>phys := k_memcpy n ?o PAGE_SIZE (phys m1)\<rparr>"
  have ne: "n \<noteq> ?o" using fr(4) used by auto
  obtain a b where ab: "n = PAGE_SIZE * a" "?o = PAGE_SIZE * b" using fr(2) pte_addr_mod [of e] by (metis dvd_def mod_0_imp_dvd)
  have dis: "n \<le> ?o \<or> ?o + PAGE_SIZE \<le> n" using ne unfolding ab by (cases a b rule: linorder_cases) auto
  have pa: "phys ma = mem_write (phys m) n (mem_read (phys m) ?o PAGE_SIZE)"
    unfolding ma_def using k_memcpy_write [OF dis] fr(9) by simp
  have out: "phys ma x = phys m x" if "x div PAGE_SIZE \<noteq> n div PAGE_SIZE" for x
  proof -
    have "\<not> (n \<le> x \<and> x < n + PAGE_SIZE)" using that unfolding ab(1) by (auto simp: div_nat_eqI)
    then show ?thesis unfolding pa mem_write_def by auto
  qed
  have agree: "\<forall>x. x div PAGE_SIZE \<in> used_frames (frames m) \<longrightarrow> phys ma x = phys m x"
    using out fr(4) by metis
  have sub: "used_frames (frames m) \<subseteq> used_frames (frames ma)" unfolding ma_def using fr(6) by auto
  note ag = agree_space [OF wf agree sub]
  obtain pt where pt: "tab m root (vpath v) = Some pt" "ea = pt + 8 * pt_idx v"
    using get_pte_place [OF wf v e] ea by auto
  define mb where "mb = ma\<lparr>phys := wr64 (phys ma) (pt + 8 * pt_idx v) (of_nat n OR PTE_PRESENT OR PTE_WRITE OR PTE_USER)\<rparr>"
  have tb: "tab ma root (vpath v) = Some pt" using ag(1) [OF lowp_vpath [OF v]] pt(1) by simp
  note st = set_leaf [OF ag(3) v tb mb_def]
  have m'b: "m' = free_frame ?o mb" unfolding m' mb_def ma_def pt(2) by simp
  have fb: "frames mb = frames m1" unfolding mb_def ma_def by simp
  have ph: "phys m' = phys mb" unfolding m'b free_frame_def by simp
  have keepb: "phys mb x = phys ma x" if "x div PAGE_SIZE \<in> used_frames (frames m1)" "x div PAGE_SIZE * PAGE_SIZE \<notin> own m root" for x
    using st(2) that ag(4) by (simp add: preserved_def ma_def)
  have fn: "n div PAGE_SIZE * PAGE_SIZE \<notin> own m root"
    using space_tabD(2) [OF wf] fr(4) page_aligned [OF fr(2)] by (auto simp: own_def)
  have "mem_read (phys mb) n PAGE_SIZE = mem_read (phys ma) n PAGE_SIZE"
    by (rule page_read_kept [OF fr(2)]) (rule keepb; use fn fr(6) in simp)
  also have "\<dots> = mem_read (phys m) ?o PAGE_SIZE"
    unfolding pa using mem_read_write_same [of "phys m" n "mem_read (phys m) ?o PAGE_SIZE"] by simp
  finally have cp: "mem_read (phys mb) n PAGE_SIZE = mem_read (phys m) ?o PAGE_SIZE" .
  have fm: "frames m' = pmm_free_page ?o (frames m1)" unfolding m'b free_frame_def fb by simp
  have on: "?o div PAGE_SIZE \<noteq> n div PAGE_SIZE" using fr(4) used by metis
  have c1: "1 < refcount (frames m1) (?o div PAGE_SIZE)"
    using c on fr(8) by (simp add: word_less_nat_alt)
  have um: "used_frames (frames m') = insert (n div PAGE_SIZE) (used_frames (frames m))"
    unfolding fm free_page_used using c1 fr(6) by simp
  have cm: "refcount (frames m') i = (if i = ?o div PAGE_SIZE then refcount (frames m) i - 1 else refcount (frames m1) i)"
    if "i \<in> used_frames (frames m1)" for i
    unfolding fm free_page_count using that c1 fr(8) on by auto
  have "PAGE_SIZE \<le> ?o" using nz ab(2) by (cases b) auto
  then have "pmm_inv (frames m')" unfolding fm by (rule free_page_inv [OF fr(5)])
  moreover have "space_wf m' root"
    using st(1) space_wf_frames [of "frames m'" mb root] um fr(6) fb unfolding m'b free_frame_def by simp
  moreover have "leaf m' root u = (if u div PAGE_SIZE = v div PAGE_SIZE
      then Some (of_nat n OR PTE_PRESENT OR PTE_WRITE OR PTE_USER) else leaf m root u)" if "u < 2 ^ 47" for u
    using st(3) [OF that] ag(2) [OF that] unfolding m'b free_frame_def by simp
  moreover have "phys m' x = phys m x"
    if "x div PAGE_SIZE \<in> used_frames (frames m)" "x div PAGE_SIZE * PAGE_SIZE \<notin> own m root" for x
    using keepb [of x] agree that fr(6) unfolding ph by simp
  moreover have "space_wf m' r \<and> (\<forall>u < 2 ^ 47. leaf m' r u = leaf m r u)"
    if r: "space_wf m r" "own m root \<inter> own m r = {}" for r
  proof -
    note ar = agree_space [OF r(1) agree sub]
    have "own ma root \<inter> own ma r = {}" using r(2) ag(4) ar(4) by simp
    from other_space [OF st(2) ar(3) this] ar(2) have "space_wf mb r" "\<forall>u < 2 ^ 47. leaf mb r u = leaf m r u" by auto
    then show ?thesis
      using space_wf_frames [of "frames m'" mb r] um fr(6) fb unfolding m'b free_frame_def by simp
  qed
  moreover have "refcount (frames m') (n div PAGE_SIZE) = 1" using cm [of "n div PAGE_SIZE"] fr(6,8) on by simp
  moreover have "\<forall>i \<in> used_frames (frames m). refcount (frames m') i =
      (if i = ?o div PAGE_SIZE then refcount (frames m) i - 1 else refcount (frames m) i)"
    using cm fr(4,6,8) by auto
  ultimately show ?thesis
    using c cp um fr(2,3,4) unfolding cow_resolved_def ph [symmetric] by simp
qed

lemma new_pte_bits:
  assumes "n mod PAGE_SIZE = 0"
  shows "(of_nat n OR PTE_PRESENT OR PTE_WRITE OR PTE_USER) AND PTE_COW = 0"
    "(of_nat n OR PTE_PRESENT OR PTE_WRITE OR PTE_USER) AND PTE_WRITE \<noteq> 0"
proof -
  have "(of_nat n :: u64) AND PTE_COW = of_nat n AND 0xFFF AND PTE_COW" by (simp add: PTE_COW_def and.assoc)
  also have "\<dots> = 0" using word_low12 [OF assms] by (simp flip: and.assoc)
  finally show "(of_nat n OR PTE_PRESENT OR PTE_WRITE OR PTE_USER) AND PTE_COW = 0"
    by (simp add: bit.conj_disj_distrib2) (simp add: PTE_COW_def PTE_PRESENT_def PTE_WRITE_def PTE_USER_def)
  show "(of_nat n OR PTE_PRESENT OR PTE_WRITE OR PTE_USER) AND PTE_WRITE \<noteq> 0"
    by (simp add: bit.conj_disj_distrib2 or_eq_0_iff) (simp add: PTE_WRITE_def)
qed

section \<open>Zeroed pages\<close>

text \<open>The \<open>n\<close> pages from \<open>addr\<close> are mapped with \<open>fl\<close> to the zeroed frames \<open>F 0\<close>, \<open>F 1\<close>, \<dots> that were free before,
  and every other page is as it was.\<close>

definition zero_mapped :: "mm \<Rightarrow> nat \<Rightarrow> nat \<Rightarrow> nat \<Rightarrow> u64 \<Rightarrow> (nat \<Rightarrow> nat) \<Rightarrow> mm \<Rightarrow> bool" where
  "zero_mapped m root addr n fl F m' \<longleftrightarrow>
     (\<forall>j < n. F j mod PAGE_SIZE = 0 \<and> PAGE_SIZE \<le> F j \<and> F j < 2 ^ 64 \<and> F j div PAGE_SIZE \<notin> used_frames (frames m) \<and>
        F j div PAGE_SIZE \<in> used_frames (frames m') \<and> refcount (frames m') (F j div PAGE_SIZE) = 1 \<and> F j \<notin> own m' root \<and>
        (\<forall>x. x div PAGE_SIZE = F j div PAGE_SIZE \<longrightarrow> phys m' x = 0)) \<and>
     inj_on F {..<n} \<and>
     (\<forall>u < 2 ^ 47. leaf m' root u = (if addr \<le> u \<and> u < addr + n * PAGE_SIZE
        then Some (leaf_pte (F ((u - addr) div PAGE_SIZE)) fl) else leaf m root u))"

lemma zero_frame:
  assumes inv: "pmm_inv (frames m)" and wf: "space_wf m root" and free: "free_frames (frames m) \<noteq> {}" and al: "alloc_frame m = (n, m1)"
    and m2: "m2 = m1\<lparr>phys := k_memset n 0 PAGE_SIZE (phys m1)\<rparr>"
  shows "space_wf m2 root" "preserved m root m2" "n \<notin> own m2 root" "x div PAGE_SIZE = n div PAGE_SIZE \<Longrightarrow> phys m2 x = 0"
    "u < 2 ^ 47 \<Longrightarrow> leaf m2 root u = leaf m root u" "frames m2 = frames m1"
proof -
  note fr = fresh_frame [OF inv al free]
  have p: "phys m2 x = (if x div PAGE_SIZE = n div PAGE_SIZE then 0 else phys m x)" for x
  proof -
    show ?thesis unfolding m2 page_range [OF fr(2)] by (auto simp: k_memset_fill mem_fill_def fr(9))
  qed
  show "frames m2 = frames m1" unfolding m2 by simp
  have ag: "\<forall>x. x div PAGE_SIZE \<in> used_frames (frames m) \<longrightarrow> phys m2 x = phys m x" using fr(4) p by metis
  have sub: "used_frames (frames m) \<subseteq> used_frames (frames m2)" unfolding m2 using fr(6) by auto
  note as = agree_space [OF wf ag sub]
  show "space_wf m2 root" by (rule as)
  show "u < 2 ^ 47 \<Longrightarrow> leaf m2 root u = leaf m root u" by (rule as)
  show "x div PAGE_SIZE = n div PAGE_SIZE \<Longrightarrow> phys m2 x = 0" using p by simp
  show "n \<notin> own m2 root" using as(4) space_tabD(2) [OF wf] fr(4) by (auto simp: own_def)
  have rc: "refcount (frames m2) i = refcount (frames m) i" if "i \<in> used_frames (frames m)" for i
    using fr(4,8) that unfolding m2 by auto
  show "preserved m root m2" unfolding preserved_def using sub ag as(1,4) rc by auto
qed

lemma map_page_zeroed:
  assumes inv: "pmm_inv (frames m)" and wf: "space_wf m root" and room: "4 \<le> card (free_frames (frames m))" and v: "v < 2 ^ 47"
    and r: "map_zeroed root v fl m = (ok, m')"
  obtains n where "ok" "n mod PAGE_SIZE = 0" "PAGE_SIZE \<le> n" "n < 2 ^ 64" "n div PAGE_SIZE \<notin> used_frames (frames m)"
    "n div PAGE_SIZE \<in> used_frames (frames m')" "refcount (frames m') (n div PAGE_SIZE) = 1" "n \<notin> own m' root"
    "\<And>x. x div PAGE_SIZE = n div PAGE_SIZE \<Longrightarrow> phys m' x = 0"
    "\<And>u. u < 2 ^ 47 \<Longrightarrow> leaf m' root u = (if u div PAGE_SIZE = v div PAGE_SIZE then Some (leaf_pte n fl) else leaf m root u)"
    "pmm_inv (frames m')" "space_wf m' root" "preserved m root m'" "card (free_frames (frames m)) \<le> card (free_frames (frames m')) + 4"
proof -
  obtain n m1 where al: "alloc_frame m = (n, m1)" by fastforce
  have free: "free_frames (frames m) \<noteq> {}" using room by auto
  note fr = fresh_frame [OF inv al free]
  define m2 where "m2 = m1\<lparr>phys := k_memset n 0 PAGE_SIZE (phys m1)\<rparr>"
  note z = zero_frame [OF inv wf free al m2_def]
  have c: "card (free_frames (frames m2)) = card (free_frames (frames m)) - 1" using fr(7,12) z(6) by simp
  have inv2: "pmm_inv (frames m2)" using fr(5) z(6) by simp
  have m': "ok" "m' = vmm_map_4k_in root v n fl m2" using r fr(1) unfolding map_zeroed_def al m2_def by (auto simp: Let_def)
  have c3: "3 \<le> card (free_frames (frames m2))" using c room by simp
  note e = map_4k_effect [OF z(1) inv2 v c3 m'(2)]
  have u2: "n div PAGE_SIZE \<in> used_frames (frames m2)" "refcount (frames m2) (n div PAGE_SIZE) = 1" using fr(6,8) z(6) by auto
  have al_n: "n div PAGE_SIZE * PAGE_SIZE = n" by (rule page_aligned [OF fr(2)])
  show thesis
  proof (rule that [OF m'(1) fr(2) _ fr(3,4)])
    show "PAGE_SIZE \<le> n" using fr(1) al_n by (cases "n div PAGE_SIZE") auto
    show "n div PAGE_SIZE \<in> used_frames (frames m')" "refcount (frames m') (n div PAGE_SIZE) = 1" "n \<notin> own m' root"
      using e(3) u2 z(3) unfolding preserved_def by auto
    show "phys m' x = 0" if "x div PAGE_SIZE = n div PAGE_SIZE" for x
      using e(3) u2(1) z(3) z(4) [OF that] that al_n unfolding preserved_def by auto
    show "leaf m' root u = (if u div PAGE_SIZE = v div PAGE_SIZE then Some (leaf_pte n fl) else leaf m root u)" if "u < 2 ^ 47" for u
      using e(4) [OF that] z(5) [OF that] by simp
    show "pmm_inv (frames m')" "space_wf m' root" by (fact e(1,2))+
    show "preserved m root m'" by (rule preserved_trans [OF z(2) e(3)])
    show "card (free_frames (frames m)) \<le> card (free_frames (frames m')) + 4" using e(5) c by simp
  qed
qed

lemma map_pages_zeroed:
  assumes "pmm_inv (frames m)" "space_wf m root" "4 * n \<le> card (free_frames (frames m))" "addr mod PAGE_SIZE = 0"
    "addr + n * PAGE_SIZE \<le> 2 ^ 47" "map_pages root addr n fl m = (k, m')"
  shows "k = n \<and> pmm_inv (frames m') \<and> space_wf m' root \<and> preserved m root m' \<and> (\<exists>F. zero_mapped m root addr n fl F m')"
  using assms
proof (induction n arbitrary: addr m k)
  case 0
  then have "k = 0" "m' = m" by simp_all
  moreover have "zero_mapped m root addr 0 fl (\<lambda>_. 0) m" by (auto simp: zero_mapped_def)
  ultimately show ?case using "0.prems"(1,2) by auto
next
  case (Suc n)
  obtain ok m1 where z: "map_zeroed root addr fl m = (ok, m1)" by fastforce
  have v: "addr < 2 ^ 47" "4 \<le> card (free_frames (frames m))" using Suc.prems(3,5) by auto
  obtain f where f: "ok" "f mod PAGE_SIZE = 0" "PAGE_SIZE \<le> f" "f < 2 ^ 64" "f div PAGE_SIZE \<notin> used_frames (frames m)"
    "f div PAGE_SIZE \<in> used_frames (frames m1)" "refcount (frames m1) (f div PAGE_SIZE) = 1" "f \<notin> own m1 root"
    "\<And>x. x div PAGE_SIZE = f div PAGE_SIZE \<Longrightarrow> phys m1 x = 0"
    "\<And>u. u < 2 ^ 47 \<Longrightarrow> leaf m1 root u = (if u div PAGE_SIZE = addr div PAGE_SIZE then Some (leaf_pte f fl) else leaf m root u)"
    "pmm_inv (frames m1)" "space_wf m1 root" "preserved m root m1" "card (free_frames (frames m)) \<le> card (free_frames (frames m1)) + 4"
    by (rule map_page_zeroed [OF Suc.prems(1,2) v(2,1) z]) (rule that; assumption)
  let ?a = "addr + PAGE_SIZE"
  have w: "wrap64 ?a = ?a" using Suc.prems(5) by (simp add: wrap64_def)
  obtain k1 where k1: "map_pages root ?a n fl m1 = (k1, m')" "k = Suc k1"
    using Suc.prems(6) f(1) unfolding map_pages.simps z w by (auto split: prod.splits simp: Let_def)
  have pre: "4 * n \<le> card (free_frames (frames m1))" "?a mod PAGE_SIZE = 0" "?a + n * PAGE_SIZE \<le> 2 ^ 47"
    using Suc.prems(3-5) f(14) by auto
  from Suc.IH [OF f(11,12) pre k1(1)] obtain F where ih: "k1 = n" "pmm_inv (frames m')" "space_wf m' root" "preserved m1 root m'"
    "zero_mapped m1 root ?a n fl F m'" by blast
  define G where "G = (\<lambda>j. if j = 0 then f else F (j - 1))"
  have sub: "used_frames (frames m) \<subseteq> used_frames (frames m1)" using f(13) by (simp add: preserved_def)
  have fm': "f div PAGE_SIZE \<in> used_frames (frames m')" "refcount (frames m') (f div PAGE_SIZE) = 1" "f \<notin> own m' root"
    using ih(4) f(6,7,8) unfolding preserved_def by auto
  have z': "phys m' x = 0" if "x div PAGE_SIZE = f div PAGE_SIZE" for x
    using ih(4) f(6,8) f(9) [OF that] page_aligned [OF f(2)] that unfolding preserved_def by auto
  have "f \<notin> F ` {..<n}" "inj_on F {..<n}" using ih(5) f(6) unfolding zero_mapped_def by auto
  then have "inj_on G {..<Suc n}"
    unfolding G_def inj_on_def by (auto simp: gr0_conv_Suc)
  moreover have "leaf m' root u = (if addr \<le> u \<and> u < addr + Suc n * PAGE_SIZE
        then Some (leaf_pte (G ((u - addr) div PAGE_SIZE)) fl) else leaf m root u)" if u: "u < 2 ^ 47" for u
  proof -
    have pg: "u div PAGE_SIZE = addr div PAGE_SIZE \<longleftrightarrow> addr \<le> u \<and> u < ?a" by (rule page_range [OF Suc.prems(4)])
    have l: "leaf m' root u = (if ?a \<le> u \<and> u < ?a + n * PAGE_SIZE then Some (leaf_pte (F ((u - ?a) div PAGE_SIZE)) fl) else leaf m1 root u)"
      using ih(5) u unfolding zero_mapped_def by blast
    have d: "(u - addr) div PAGE_SIZE = Suc ((u - ?a) div PAGE_SIZE)" if "?a \<le> u"
      using that by (simp add: le_div_geq flip: diff_diff_left)
    show ?thesis unfolding l f(10) [OF u] pg by (auto simp: G_def d)
  qed
  moreover have "G j mod PAGE_SIZE = 0 \<and> PAGE_SIZE \<le> G j \<and> G j < 2 ^ 64 \<and> G j div PAGE_SIZE \<notin> used_frames (frames m) \<and>
      G j div PAGE_SIZE \<in> used_frames (frames m') \<and> refcount (frames m') (G j div PAGE_SIZE) = 1 \<and> G j \<notin> own m' root \<and>
      (\<forall>x. x div PAGE_SIZE = G j div PAGE_SIZE \<longrightarrow> phys m' x = 0)" if "j < Suc n" for j
    using that ih(5) fm' z' f(2-5) sub unfolding zero_mapped_def G_def by (cases j) auto
  ultimately have "zero_mapped m root addr (Suc n) fl G m'" unfolding zero_mapped_def by blast
  then show ?case using ih(1-4) k1(2) preserved_trans [OF f(13) ih(4)] by blast
qed

section \<open>Removing pages\<close>

lemma unmap_page_effect:
  assumes inv: "pmm_inv (frames m)" and wf: "space_wf m root" and v: "v < 2 ^ 47" and l: "leaf m root v = Some (leaf_pte a fl)"
    and fl: "fl AND NOT 0xFFF = 0" and a: "a mod PAGE_SIZE = 0" "PAGE_SIZE \<le> a" "a < 2 ^ 64" "a \<notin> own m root"
      "refcount (frames m) (a div PAGE_SIZE) = 1"
    and m': "m' = unmap_page root v m"
  shows "pmm_inv (frames m')" "space_wf m' root" "own m' root = own m root"
    "used_frames (frames m') = used_frames (frames m) - {a div PAGE_SIZE}"
    "i \<noteq> a div PAGE_SIZE \<Longrightarrow> refcount (frames m') i = refcount (frames m) i"
    "u < 2 ^ 47 \<Longrightarrow> leaf m' root u = (if u div PAGE_SIZE = v div PAGE_SIZE then None else leaf m root u)"
    "x div PAGE_SIZE \<in> used_frames (frames m) \<Longrightarrow> x div PAGE_SIZE * PAGE_SIZE \<notin> own m root \<Longrightarrow> phys m' x = phys m x"
proof -
  let ?e = "leaf_pte a fl"
  obtain pt where pt: "vmm_get_pte root v m = Some (pt + 8 * pt_idx v)" "tab m root (vpath v) = Some pt" "rd64 (phys m) (pt + 8 * pt_idx v) = ?e"
    by (rule get_pte_place [OF wf v l])
  have "(fl OR PTE_PRESENT) AND NOT 0xFFF = 0" using fl by (simp add: bit.conj_disj_distrib2) (simp add: PTE_PRESENT_def)
  then have pa: "pte_addr ?e = a" and pr: "present ?e"
    using pte_addr_or [OF a(1,3), of "fl OR PTE_PRESENT"] and_not_self [OF word_low12 [OF a(1)]] by (simp_all add: leaf_pte_def or.assoc)
  define mb where "mb = m\<lparr>phys := wr64 (phys m) (pt + 8 * pt_idx v) 0\<rparr>"
  note st = set_leaf [OF wf v pt(2) mb_def]
  have mb: "m' = mb\<lparr>frames := pmm_free_page a (frames m)\<rparr>"
    unfolding m' mb_def unmap_page_def using pt(1,3) pr pa by (simp add: free_frame_def)
  have t: "tab mb root q = tab m root q" if "lowp q" for q
    using store_leaf(1) [OF wf lowp_vpath [OF v] _ pt(2) _ mb_def that] by (simp add: vpath_def)
  then show own: "own m' root = own m root" unfolding mb by (auto simp: own_def)
  show us: "used_frames (frames m') = used_frames (frames m) - {a div PAGE_SIZE}" unfolding mb using a(5) by (simp add: free_page_used)
  show "i \<noteq> a div PAGE_SIZE \<Longrightarrow> refcount (frames m') i = refcount (frames m) i" unfolding mb by (simp add: free_page_count)
  show "pmm_inv (frames m')" unfolding mb using free_page_inv [OF inv a(2)] by simp
  show "u < 2 ^ 47 \<Longrightarrow> leaf m' root u = (if u div PAGE_SIZE = v div PAGE_SIZE then None else leaf m root u)"
    unfolding mb using st(3) [of u] by simp
  show "x div PAGE_SIZE \<in> used_frames (frames m) \<Longrightarrow> x div PAGE_SIZE * PAGE_SIZE \<notin> own m root \<Longrightarrow> phys m' x = phys m x"
    using st(2) unfolding mb preserved_def by simp
  have "t div PAGE_SIZE \<noteq> a div PAGE_SIZE" if "lowp q" "tab m root q = Some t" for q t
  proof
    assume "t div PAGE_SIZE = a div PAGE_SIZE"
    then have "t = a" by (rule page_inj [OF space_tabD(1) [OF wf that] a(1)])
    then show False using that a(4) by (auto simp: own_def)
  qed
  note na = this
  show "space_wf m' root" unfolding space_wf_def
  proof (intro conjI allI impI; (elim conjE)?)
    fix p q assume p: "lowp p" "tab m' root p = Some q"
    then have "tab m root p = Some q" using t unfolding mb by simp
    with space_tabD [OF wf p(1)] na [OF p(1)] show "q mod PAGE_SIZE = 0" "q div PAGE_SIZE \<in> used_frames (frames m')" unfolding us by simp_all
  next
    fix p r q assume "lowp p" "lowp r" "tab m' root p = Some q" "tab m' root r = Some q"
    then show "p = r" using space_tab_inj [OF st(1)] unfolding mb by simp
  next
    fix p q j assume "lowp (p @ [j])" "length p = 2" "tab m' root p = Some q" "present (entry m' q j)"
    then show "\<not> huge (entry m' q j)" using st(1) unfolding mb space_wf_def by auto
  qed
qed

lemma unmap_pages_effect:
  assumes inv: "pmm_inv (frames m)" and wf: "space_wf m root" and fl: "fl AND NOT 0xFFF = 0" and addr: "addr mod PAGE_SIZE = 0"
    and bd: "addr + n * PAGE_SIZE \<le> 2 ^ 47" and z: "zero_mapped m0 root addr n fl F m" and k: "k \<le> n"
  shows "\<exists>m'. unmap_pages root addr k m = m' \<and> pmm_inv (frames m') \<and> space_wf m' root \<and> own m' root = own m root \<and>
    used_frames (frames m') = used_frames (frames m) - (\<lambda>j. F j div PAGE_SIZE) ` {..<k} \<and>
    (\<forall>i. i \<notin> (\<lambda>j. F j div PAGE_SIZE) ` {..<k} \<longrightarrow> refcount (frames m') i = refcount (frames m) i) \<and>
    (\<forall>u < 2 ^ 47. leaf m' root u = (if addr \<le> u \<and> u < addr + k * PAGE_SIZE then None else leaf m root u)) \<and>
    (\<forall>x. x div PAGE_SIZE \<in> used_frames (frames m') \<longrightarrow> x div PAGE_SIZE * PAGE_SIZE \<notin> own m root \<longrightarrow> phys m' x = phys m x)"
  using k
proof (induction k)
  case 0
  then show ?case using inv wf by (auto simp: unmap_pages_def)
next
  case (Suc k)
  then obtain m1 where ih: "unmap_pages root addr k m = m1" "pmm_inv (frames m1)" "space_wf m1 root" "own m1 root = own m root"
    "used_frames (frames m1) = used_frames (frames m) - (\<lambda>j. F j div PAGE_SIZE) ` {..<k}"
    "\<forall>i. i \<notin> (\<lambda>j. F j div PAGE_SIZE) ` {..<k} \<longrightarrow> refcount (frames m1) i = refcount (frames m) i"
    "\<forall>u < 2 ^ 47. leaf m1 root u = (if addr \<le> u \<and> u < addr + k * PAGE_SIZE then None else leaf m root u)"
    "\<forall>x. x div PAGE_SIZE \<in> used_frames (frames m1) \<longrightarrow> x div PAGE_SIZE * PAGE_SIZE \<notin> own m root \<longrightarrow> phys m1 x = phys m x"
    by auto
  let ?v = "addr + k * PAGE_SIZE"
  have "Suc k * PAGE_SIZE \<le> n * PAGE_SIZE" using Suc.prems by (rule mult_le_mono1)
  then have v: "?v < 2 ^ 47" "wrap64 ?v = ?v" using bd by (simp_all add: wrap64_def)
  have zk: "F k mod PAGE_SIZE = 0" "PAGE_SIZE \<le> F k" "F k < 2 ^ 64" "F k \<notin> own m1 root" "refcount (frames m) (F k div PAGE_SIZE) = 1"
    "inj_on F {..<n}" "\<And>j. j < n \<Longrightarrow> F j mod PAGE_SIZE = 0"
    "leaf m root ?v = Some (leaf_pte (F k) fl)"
    using z v(1) Suc.prems ih(4) unfolding zero_mapped_def by auto
  have new: "F k div PAGE_SIZE \<notin> (\<lambda>j. F j div PAGE_SIZE) ` {..<k}"
  proof
    assume "F k div PAGE_SIZE \<in> (\<lambda>j. F j div PAGE_SIZE) ` {..<k}"
    then obtain j where j: "j < k" "F k div PAGE_SIZE = F j div PAGE_SIZE" by auto
    then have "F k = F j" using Suc.prems by (intro page_inj [OF zk(1) zk(7)]) simp_all
    from inj_onD [OF zk(6) this] show False using j(1) Suc.prems by simp
  qed
  have l: "leaf m1 root ?v = Some (leaf_pte (F k) fl)" using ih(7) v(1) zk(8) by simp
  have rc: "refcount (frames m1) (F k div PAGE_SIZE) = 1" using ih(6) new zk(5) by simp
  define m2 where "m2 = unmap_page root ?v m1"
  have st: "unmap_pages root addr (Suc k) m = m2" using ih(1) v(2) by (simp add: unmap_pages_def m2_def)
  note e = unmap_page_effect [OF ih(2,3) v(1) l fl zk(1-4) rc m2_def]
  have va: "?v mod PAGE_SIZE = 0" using addr by simp
  have "leaf m2 root u = (if addr \<le> u \<and> u < addr + Suc k * PAGE_SIZE then None else leaf m root u)" if u: "u < 2 ^ 47" for u
    using e(6) [OF u] ih(7) u unfolding page_range [OF va, of u] by auto
  moreover have "phys m2 x = phys m x"
    if "x div PAGE_SIZE \<in> used_frames (frames m2)" "x div PAGE_SIZE * PAGE_SIZE \<notin> own m root" for x
    using e(4,7) ih(4,8) that by auto
  ultimately show ?case unfolding st using e(1-5) ih(4-6) by (auto simp: lessThan_Suc)
qed


section \<open>Properties\<close>

text \<open>C25. A write to a shared page gets the writer a page of its own. When the page of the fault is a copy-on-write
  page of the current process and, if it is still shared, a frame is free, the fault is handled: the process
  has the page writable and without the copy-on-write mark, with the bytes it had, in a frame nobody else
  owns: the old frame when the process was its last owner, otherwise a fresh one, and then the old frame
  has one owner less and keeps its bytes. No other page of the process, no table and no page of another
  address space changes.\<close>

theorem cow_fault_correct:
  assumes "process_current s = Some i" "m = k_mm s" "root = pml4_phys (proc s i)"
    and "err AND PF_ERR_PRESENT \<noteq> 0" "err AND PF_ERR_WRITE \<noteq> 0"
    and inv: "pmm_inv (frames m)" and wf: "space_wf m root" and v: "v < 2 ^ 47" and e: "leaf m root v = Some e"
    and "e AND PTE_COW \<noteq> 0" and fr: "pte_addr e \<notin> own m root" "pte_addr e div PAGE_SIZE \<in> used_frames (frames m)" "pte_addr e \<noteq> 0"
    and free: "1 < unat (refcount (frames m) (pte_addr e div PAGE_SIZE)) \<longrightarrow> free_frames (frames m) \<noteq> {}"
  shows "\<exists>n m'. try_handle_cow_fault v err s = (True, s\<lparr>k_mm := m'\<rparr>) \<and> cow_resolved m root v e n m' \<and>
    (of_nat n OR PTE_PRESENT OR PTE_WRITE OR PTE_USER) AND PTE_COW = 0 \<and>
    (of_nat n OR PTE_PRESENT OR PTE_WRITE OR PTE_USER) AND PTE_WRITE \<noteq> 0"
proof -
  obtain ea where ea: "vmm_get_pte root v m = Some ea" "rd64 (phys m) ea = e"
    using get_pte_place [OF wf v e] by metis
  have rc: "pmm_page_refcount (pte_addr e) (frames m) = refcount (frames m) (pte_addr e div PAGE_SIZE)"
    using fr(2) by (simp add: pmm_page_refcount_def used_frames_def)
  note d = try_handle_cow_fault_def [of v err s] 
  show ?thesis
  proof (cases "unat (refcount (frames m) (pte_addr e div PAGE_SIZE)) \<le> 1")
    case True
    let ?m = "m\<lparr>phys := wr64 (phys m) ea (of_nat (pte_addr e) OR PTE_PRESENT OR PTE_WRITE OR PTE_USER)\<rparr>"
    have "try_handle_cow_fault v err s = (True, s\<lparr>k_mm := ?m\<rparr>)"
      using True assms(1-5,10) ea rc unfolding d by (simp add: Let_def del: of_nat_pte_addr)
    with cow_sole [OF inv wf v e fr(1,2) True ea(1) refl] new_pte_bits [OF pte_addr_mod] show ?thesis by blast
  next
    case False
    then have c: "1 < unat (refcount (frames m) (pte_addr e div PAGE_SIZE))" by simp
    obtain n m1 where al: "alloc_frame m = (n, m1)" by fastforce
    note f = fresh_frame [OF inv al] and sh = cow_shared [OF inv wf v e fr(1-3) c _ ea(1) al refl]
    let ?m = "free_frame (pte_addr e) (m1\<lparr>phys := wr64 (k_memcpy n (pte_addr e) PAGE_SIZE (phys m1)) ea
                    (of_nat n OR PTE_PRESENT OR PTE_WRITE OR PTE_USER)\<rparr>)"
    have ff: "free_frames (frames m) \<noteq> {}" using free c by blast
    have "n \<noteq> 0" using f(1) ff .
    have "try_handle_cow_fault v err s = (True, s\<lparr>k_mm := ?m\<rparr>)"
      using False assms(1-5,10) ea rc al \<open>n \<noteq> 0\<close> unfolding d by (simp add: Let_def)
    with sh [OF ff] new_pte_bits [OF f(2) [OF ff]] show ?thesis by blast
  qed
qed

text \<open>C26. A fault of a program ends that program and nothing else. A fault in user mode that is not a copy-on-write
  write ends the current process with the status of \<open>SIGSEGV\<close>: it is a zombie without open files, the parent
  that waits for it is woken, and every other process is as it was.\<close>

theorem user_fault_contained:
  assumes "process_current s = Some i" "alive s i" "fd_inv s" "f_cs f AND 3 = 3"
    and "f_int_no f = 14 \<longrightarrow> \<not> fst (try_handle_cow_fault v (f_err_code f) s)"
    and "process_find_by_pid (parent_pid (proc s i)) s = Some q"
  shows "\<exists>t. exception_handler v f s = FaultKill t \<and> is_zombie (proc t i) \<and>
    WIFSIGNALED (exit_code (proc t i)) \<and> WTERMSIG (exit_code (proc t i)) = SIGSEGV \<and>
    (\<forall>fd < MAX_FDS. \<not> fd_used (fds (proc t i) fd)) \<and> blocked_on (ChProc q) (k_sched t) = {} \<and>
    (\<forall>j. j \<noteq> i \<longrightarrow> proc t j = proc s j) \<and> fd_inv t"
proof -
  define s1 where "s1 = snd (if f_int_no f = 14 then try_handle_cow_fault v (f_err_code f) s else (False, s))"
  have "\<exists>m. s1 = s\<lparr>k_mm := m\<rparr>"
    unfolding s1_def try_handle_cow_fault_def by (auto simp: Let_def split: option.splits prod.splits if_splits intro: exI [of _ "k_mm s"])
  then obtain m where m: "s1 = s\<lparr>k_mm := m\<rparr>" ..
  have h: "(if f_int_no f = 14 then try_handle_cow_fault v (f_err_code f) s else (False, s)) = (False, s1)"
    unfolding s1_def using assms(5) by (auto simp: prod_eq_iff)
  define s2 where "s2 = s1\<lparr>k_disk := serial_print ('') -- terminating with SIGSEGV instead of halting the kernel !!!'' @ nl)
    (serial_print_dec (nat (pid (proc s1 i))) (serial_print (nl @ ''!!! unhandled fault in userspace (pid '') (k_disk s1)))\<rparr>"
  define t where "t = process_terminate i (current_task (k_sched s2)) (ENCODE_SIGNALED SIGSEGV) s2"
  have p: "proc s2 j = proc s j" "k_sched s2 = k_sched s" "k_pipes s2 = k_pipes s" "k_procs s2 = k_procs s" for j
    by (simp_all add: s2_def m)
  have i: "i < MAX_PROCESSES" using assms(2) by (simp add: alive_def)
  have "idle_ok s2" using assms(3) p(4) by (simp add: fd_inv_def idle_ok_def)
  then have inv: "fd_inv s2" using p by (intro fd_inv_same [OF assms(3)]) (simp_all add: holders_def)
  have "exception_handler v f s = FaultKill t"
    using assms(1,4) h unfolding exception_handler_def h t_def s2_def by (simp add: m process_current_def Let_def)
  moreover note terminate_slots [OF inv i, of "current_task (k_sched s2)" "ENCODE_SIGNALED SIGSEGV", folded t_def]
  moreover have "blocked_on (ChProc q) (k_sched t) = {}"
    unfolding t_def by (rule terminate_wakes [OF inv i]) (simp only: process_find_by_pid_def p assms(6) [unfolded process_find_by_pid_def])
  moreover have "proc t j = proc s j" if "j \<noteq> i" for j
    using close_all_effect(4) [OF inv i that] that p by (simp add: t_def terminate_procs)
  moreover have "\<not> fd_used (fds (proc t i) fd)" if "fd < MAX_FDS" for fd
    using close_all_effect(2) [OF inv i that] by (simp add: t_def terminate_procs)
  moreover have "WIFSIGNALED (ENCODE_SIGNALED SIGSEGV)" "WTERMSIG (ENCODE_SIGNALED SIGSEGV) = SIGSEGV"
    by (simp_all add: WIFSIGNALED_def WTERMSIG_def ENCODE_SIGNALED_def SIGSEGV_def)
  moreover have "fd_inv t" using terminate_inv [OF inv i] unfolding t_def .
  ultimately show ?thesis by (intro exI [of _ t]) (simp only: simp_thms if_True refl, blast)
qed

text \<open>Two concrete states: the process shares the page at 0x400000, whose frame has two owners; the second process
  of the table runs.\<close>

definition shared_mm :: mm where
  "shared_mm = vmm_map_4k_in 4096 0x400000 0x2000 (PTE_COW OR PTE_USER)
     (demo_mm\<lparr>frames := pmm_page_ref 0x2000 (pmm_page_ref 0x2000 (frames demo_mm))\<rparr>)"

definition demo_shared :: kst where
  "demo_shared = (upd_proc 0 (\<lambda>p. p\<lparr>pml4_phys := 4096\<rparr>) demo_kst)
     \<lparr>k_mm := shared_mm, k_sched := (k_sched demo_kst)\<lparr>tasks := (tasks (k_sched demo_kst))(0 := (tasks (k_sched demo_kst) 0)\<lparr>t_proc := Some 0\<rparr>)\<rparr>\<rparr>"

lemma shared_mm:
  "pmm_inv (frames shared_mm)" "space_wf shared_mm 4096" "leaf shared_mm 4096 0x400000 = Some (leaf_pte 0x2000 (PTE_COW OR PTE_USER))"
  "0x2000 \<notin> own shared_mm 4096" "2 \<in> used_frames (frames shared_mm)" "free_frames (frames shared_mm) \<noteq> {}"
  "refcount (frames shared_mm) 2 = refcount (frames demo_mm) 2 + 2"
proof -
  let ?f = "pmm_page_ref 0x2000 (pmm_page_ref 0x2000 (frames demo_mm))"
  let ?m = "demo_mm\<lparr>frames := ?f\<rparr>"
  have fr: "free_frames ?f = {3..<19}" unfolding demo_mm_frames(2) [symmetric] by (auto simp: free_frames_def pmm_page_ref_def Let_def)
  have wf: "space_wf ?m 4096" using space_wf_frames [of ?f demo_mm 4096] demo_spaces(1) by simp
  have inv: "pmm_inv (frames ?m)" using demo_mm_frames(1) by (simp add: page_ref_inv)
  have free: "3 \<le> card (free_frames (frames ?m))" by (simp add: fr)
  note m = map_4k_effect [OF wf inv _ free shared_mm_def]
  show "pmm_inv (frames shared_mm)" "space_wf shared_mm 4096" using m(1,2) by simp_all
  show "leaf shared_mm 4096 0x400000 = Some (leaf_pte 0x2000 (PTE_COW OR PTE_USER))" using m(4) [of "0x400000"] by simp
  show "0x2000 \<notin> own shared_mm 4096" "2 \<in> used_frames (frames shared_mm)"
    using m(3) demo_mm_frames(4) unfolding preserved_def by (auto simp: demo_spaces)
  show "refcount (frames shared_mm) 2 = refcount (frames demo_mm) 2 + 2"
    using m(3) demo_mm_frames(4) unfolding preserved_def by (auto simp: page_ref_count)
  show "free_frames (frames shared_mm) \<noteq> {}" using m(5) by (auto simp: fr)
qed

theorem cow_fault_correct_witness:
  "\<exists>n m'. try_handle_cow_fault 0x400000 3 demo_shared = (True, demo_shared\<lparr>k_mm := m'\<rparr>) \<and>
     cow_resolved shared_mm 4096 0x400000 (leaf_pte 0x2000 (PTE_COW OR PTE_USER)) n m'"
proof -
  have a: "pte_addr (leaf_pte 0x2000 (PTE_COW OR PTE_USER)) = 0x2000" "leaf_pte 0x2000 (PTE_COW OR PTE_USER) AND PTE_COW \<noteq> 0"
    by (simp_all add: leaf_pte_def pte_addr_def PTE_COW_def PTE_USER_def PTE_PRESENT_def)
  have "process_current demo_shared = Some 0" "k_mm demo_shared = shared_mm" "pml4_phys (proc demo_shared 0) = 4096"
    by (simp_all add: demo_shared_def process_current_def demo_kst_def demo_sched_inv upd_proc_def)
  with cow_fault_correct [of demo_shared 0 shared_mm 4096 3 "0x400000" "leaf_pte 0x2000 (PTE_COW OR PTE_USER)"] shared_mm a
  show ?thesis by auto
qed

definition demo_user :: kst where
  "demo_user = demo_two\<lparr>k_sched := (k_sched demo_two)\<lparr>tasks := (tasks (k_sched demo_two))(0 := (tasks (k_sched demo_two) 0)\<lparr>t_proc := Some 1\<rparr>)\<rparr>\<rparr>"

definition demo_gp_fault :: interrupt_frame where
  "demo_gp_fault = \<lparr>f_r15 = 0, f_r14 = 0, f_r13 = 0, f_r12 = 0, f_r11 = 0, f_r10 = 0, f_r9 = 0, f_r8 = 0, f_rbp = 0, f_rdi = 0,
     f_rsi = 0, f_rdx = 0, f_rcx = 0, f_rbx = 0, f_rax = 0, f_int_no = 13, f_err_code = 0, f_rip = 0x400000, f_cs = 0x1B,
     f_rflags = 0x202, f_rsp = 0, f_ss = 0x23\<rparr>"

theorem user_fault_contained_witness:
  "\<exists>t. exception_handler 0 demo_gp_fault demo_user = FaultKill t \<and> is_zombie (proc t 1) \<and> WTERMSIG (exit_code (proc t 1)) = SIGSEGV"
proof -
  have p: "proc demo_user j = proc demo_two j" "k_procs demo_user = k_procs demo_two" "k_pipes demo_user = k_pipes demo_two" for j
    by (simp_all add: demo_user_def)
  have s: "current_task (k_sched demo_two) = 0"
    by (simp add: demo_two_def process_alloc_def scan_up.simps demo_kst_def process_zero_def Let_def demo_sched_inv)
  have "idle_ok demo_user" using demo_two(1) p by (simp add: fd_inv_def idle_ok_def)
  then have "fd_inv demo_user" using p by (intro fd_inv_same [OF demo_two(1)]) (simp_all add: holders_def)
  moreover have "alive demo_user 1" by (simp add: alive_def p demo_two(3) process_zero_def)
  moreover have "process_current demo_user = Some 1" by (simp add: process_current_def demo_user_def s)
  moreover have "process_find_by_pid (parent_pid (proc demo_user 1)) demo_user = Some 0"
    by (simp add: process_find_by_pid_def p scan_up.simps demo_two(3) demo_kst_def)
  ultimately show ?thesis
    using user_fault_contained [of demo_user 1 demo_gp_fault 0 0] by (auto simp: demo_gp_fault_def)
qed

text \<open>Growing the heap. When the break moves up and there are enough free frames (one per page and up to three for
  tables), \<open>process_brk\<close> returns the new break and records it, and every page between the old and the new top
  is mapped writable to a zeroed frame of its own that was free before; every other page keeps its mapping and every
  frame in use its bytes and owners.\<close>

theorem process_brk_correct:
  assumes "m = k_mm s" "root = pml4_phys (proc s i)" "lo = page_up (heap_end (proc s i))" "hi = page_up new_brk"
    and inv: "pmm_inv (frames m)" and wf: "space_wf m root" and "heap_end (proc s i) < new_brk" "new_brk \<le> 2 ^ 47 - PAGE_SIZE"
    and room: "4 * ((hi - lo) div PAGE_SIZE) \<le> card (free_frames (frames m))"
  shows "\<exists>m' F. process_brk i new_brk s = (new_brk, upd_proc i (\<lambda>p. p\<lparr>heap_end := new_brk\<rparr>) (s\<lparr>k_mm := m'\<rparr>)) \<and>
    zero_mapped m root lo ((hi - lo) div PAGE_SIZE) (PTE_WRITE OR PTE_USER) F m' \<and> new_brk \<le> lo + (hi - lo) div PAGE_SIZE * PAGE_SIZE \<and>
    pmm_inv (frames m') \<and> space_wf m' root \<and> preserved m root m'"
proof -
  let ?n = "(hi - lo) div PAGE_SIZE"
  note h = page_up_range [of "heap_end (proc s i)"] and b = page_up_range [of new_brk]
  have lo: "lo mod PAGE_SIZE = 0" and hi: "new_brk \<le> hi" "hi \<le> 2 ^ 47" and span: "lo + ?n * PAGE_SIZE = hi"
    using h b page_up_mono [of "heap_end (proc s i)" new_brk] assms(3,4,7,8) by (simp_all add: page_diff)
  obtain k m' where mp: "map_pages root lo ?n (PTE_WRITE OR PTE_USER) m = (k, m')" by fastforce
  from map_pages_zeroed [OF inv wf room lo _ mp] span hi(2)
  obtain F where e: "k = ?n" "pmm_inv (frames m')" "space_wf m' root" "preserved m root m'"
    "zero_mapped m root lo ?n (PTE_WRITE OR PTE_USER) F m'" by auto
  have "process_brk i new_brk s = (new_brk, upd_proc i (\<lambda>p. p\<lparr>heap_end := new_brk\<rparr>) (s\<lparr>k_mm := m'\<rparr>))"
    using assms(1-4,7) mp e(1) unfolding process_brk_def by (simp add: Let_def)
  then show ?thesis using e span hi(1) by auto
qed

text \<open>C27. Anonymous mappings come and go. With enough free frames \<open>process_mmap\<close> returns the next free address of the
  process and maps zeroed fresh frames there, writable exactly when \<open>PROT_WRITE\<close> is asked for; a following
  \<open>process_munmap\<close> of the region unmaps every page of it and gives every one of those frames back, while
  every other page of the process keeps its mapping and every frame in use before its owners and its bytes.\<close>

theorem mmap_munmap_roundtrip:
  assumes "m = k_mm s" "root = pml4_phys (proc s i)" "base = mmap_next (proc s i)" "n = page_count len"
    and fl: "fl = (if flag prot PROT_WRITE then PTE_USER OR PTE_WRITE else PTE_USER)"
    and inv: "pmm_inv (frames m)" and wf: "space_wf m root" and "0 < len" "len \<le> 2 ^ 47" "flag flags MAP_ANONYMOUS"
    and base: "base mod PAGE_SIZE = 0" "base + n * PAGE_SIZE \<le> 2 ^ 47" and room: "4 * n \<le> card (free_frames (frames m))"
  shows "\<exists>s' s'' F. process_mmap i len prot flags (- 1) s = (int base, s') \<and> mmap_next (proc s' i) = base + n * PAGE_SIZE \<and>
    len \<le> n * PAGE_SIZE \<and> zero_mapped m root base n fl F (k_mm s') \<and> preserved m root (k_mm s') \<and> space_wf (k_mm s') root \<and>
    process_munmap i base len s' = (0, s'') \<and> space_wf (k_mm s'') root \<and> pmm_inv (frames (k_mm s'')) \<and>
    (\<forall>u < 2 ^ 47. leaf (k_mm s'') root u = (if base \<le> u \<and> u < base + n * PAGE_SIZE then None else leaf m root u)) \<and>
    (\<forall>j < n. F j div PAGE_SIZE \<notin> used_frames (frames (k_mm s''))) \<and>
    (\<forall>f \<in> used_frames (frames m). f \<in> used_frames (frames (k_mm s'')) \<and> refcount (frames (k_mm s'')) f = refcount (frames m) f) \<and>
    (\<forall>x. x div PAGE_SIZE \<in> used_frames (frames m) \<longrightarrow> x div PAGE_SIZE * PAGE_SIZE \<notin> own m root \<longrightarrow> phys (k_mm s'') x = phys m x)"
proof -
  obtain k m1 where mp: "map_pages root base n fl m = (k, m1)" by fastforce
  from map_pages_zeroed [OF inv wf room base mp]
  obtain F where e: "k = n" "pmm_inv (frames m1)" "space_wf m1 root" "preserved m root m1" "zero_mapped m root base n fl F m1" by auto
  have fl0: "fl AND NOT 0xFFF = 0" unfolding fl by (simp add: PTE_USER_def PTE_WRITE_def)
  from unmap_pages_effect [OF e(2,3) fl0 base e(5) order_refl]
  obtain m2 where u: "unmap_pages root base n m1 = m2" "pmm_inv (frames m2)" "space_wf m2 root"
    "used_frames (frames m2) = used_frames (frames m1) - (\<lambda>j. F j div PAGE_SIZE) ` {..<n}"
    "\<forall>i. i \<notin> (\<lambda>j. F j div PAGE_SIZE) ` {..<n} \<longrightarrow> refcount (frames m2) i = refcount (frames m1) i"
    "\<forall>u < 2 ^ 47. leaf m2 root u = (if base \<le> u \<and> u < base + n * PAGE_SIZE then None else leaf m1 root u)"
    "\<forall>x. x div PAGE_SIZE \<in> used_frames (frames m2) \<longrightarrow> x div PAGE_SIZE * PAGE_SIZE \<notin> own m1 root \<longrightarrow> phys m2 x = phys m1 x"
    by auto
  define s' where "s' = upd_proc i (\<lambda>p. p\<lparr>mmap_next := base + n * PAGE_SIZE\<rparr>) (s\<lparr>k_mm := m1\<rparr>)"
  define s'' where "s'' = s'\<lparr>k_mm := m2\<rparr>"
  have "wrap64 (base + n * PAGE_SIZE) = base + n * PAGE_SIZE" using base(2) by (simp add: wrap64_def)
  then have mm: "process_mmap i len prot flags (- 1) s = (int base, s')"
    unfolding process_mmap_def using assms(1-5,8,10) mp e(1) by (cases "flag prot PROT_WRITE") (simp_all add: Let_def s'_def)
  have s': "k_mm s' = m1" "pml4_phys (proc s' i) = root" "mmap_next (proc s' i) = base + n * PAGE_SIZE" unfolding s'_def assms(2) by simp_all
  then have mu: "process_munmap i base len s' = (0, s'')"
    unfolding process_munmap_def s''_def using assms(4,8) u(1) by simp
  have len: "len \<le> n * PAGE_SIZE"
    using page_up_range(2) [OF assms(9)] unfolding assms(4) page_count_def page_up_def by simp
  have old: "f \<notin> (\<lambda>j. F j div PAGE_SIZE) ` {..<n}" if "f \<in> used_frames (frames m)" for f
    using e(5) that unfolding zero_mapped_def by auto
  have leaf2: "leaf m2 root v = (if base \<le> v \<and> v < base + n * PAGE_SIZE then None else leaf m root v)" if "v < 2 ^ 47" for v
    using u(6) e(5) that unfolding zero_mapped_def by auto
  have kept: "f \<in> used_frames (frames m2) \<and> refcount (frames m2) f = refcount (frames m) f" if "f \<in> used_frames (frames m)" for f
    using e(4) u(4,5) old [OF that] that unfolding preserved_def by auto
  have bytes: "phys m2 x = phys m x" if x: "x div PAGE_SIZE \<in> used_frames (frames m)" "x div PAGE_SIZE * PAGE_SIZE \<notin> own m root" for x
  proof -
    have "x div PAGE_SIZE * PAGE_SIZE \<notin> own m1 root" using e(4) x unfolding preserved_def by auto
    then show ?thesis using u(7) kept x e(4) unfolding preserved_def by auto
  qed
  have k2: "k_mm s'' = m2" by (simp add: s''_def)
  have gone: "F j div PAGE_SIZE \<notin> used_frames (frames m2)" if "j < n" for j using u(4) that by auto
  show ?thesis
    by (rule exI [of _ s'], rule exI [of _ s''], rule exI [of _ F])
      (use mm mu len e(3-5) u(2,3) leaf2 kept bytes gone in \<open>simp add: s' k2\<close>)
qed

text \<open>The first process of the table with an address space of its own, in a machine with sixteen free frames.\<close>

definition demo_space :: kst where
  "demo_space = upd_proc 0 (\<lambda>p. p\<lparr>pml4_phys := 4096, heap_end := 0x500010, mmap_next := 0x700000\<rparr>) demo_kst"

lemma demo_space: "k_mm demo_space = demo_mm" "pml4_phys (proc demo_space 0) = 4096" "heap_end (proc demo_space 0) = 0x500010"
  "mmap_next (proc demo_space 0) = 0x700000"
  by (simp_all add: demo_space_def demo_kst_def upd_proc_def)

theorem process_brk_correct_witness: "fst (process_brk 0 0x502800 demo_space) = 0x502800"
proof -
  have "page_up 0x500010 = 0x501000" "page_up 0x502800 = 0x503000" by (simp_all add: page_up_def wrap64_def)
  then show ?thesis
    using process_brk_correct [OF demo_space(1,2) [symmetric] refl refl demo_mm_frames(1) demo_spaces(1), of "0x502800"]
    by (auto simp: demo_space demo_mm_frames)
qed

theorem mmap_munmap_roundtrip_witness: "fst (process_mmap 0 5000 2 0x20 (- 1) demo_space) = 0x700000"
proof -
  have "page_count 5000 = 2" by (simp add: page_count_def wrap64_def)
  moreover have "flag 0x20 MAP_ANONYMOUS" by (simp add: flag_def MAP_ANONYMOUS_def)
  ultimately show ?thesis
    using mmap_munmap_roundtrip [OF demo_space(1,2,4) [symmetric] refl refl demo_mm_frames(1) demo_spaces(1), of 5000 "0x20" 2]
    by (auto simp: demo_mm_frames)
qed

end
