(* ===== verification/Malloc.thy ===== *)
theory Malloc
  imports ProcMem
begin

text \<open>
  The heap of a user program, \<^verbatim>\<open>lib/mini_malloc.c\<close>: a singly linked list of blocks in the order of their
  addresses, searched first-fit, that grows at the program break. The headers are a store from addresses to
  records; the system call that moves the break is an argument of the operations, and a locale states what they rely
  on. The kernel's \<open>process_brk\<close> interprets it.
\<close>

section \<open>The operations\<close>

record block_header =
  bh_size :: nat
  bh_free :: bool
  bh_next :: "nat option"

record heap =
  headers :: "nat \<Rightarrow> block_header"
  heap_head :: "nat option"
  heap_tail :: "nat option"

definition HEADER :: nat where [simp]: "HEADER = 24"

definition ALIGN8 :: "nat \<Rightarrow> nat" where
  "ALIGN8 x = wrap64 (x + 7) div 8 * 8"

definition sys_brk :: "nat \<Rightarrow> nat \<Rightarrow> kst \<Rightarrow> nat \<times> kst" where
  "sys_brk i new_brk s = process_brk i new_brk s"

text \<open>Null pointers are the address 0 in results of \<open>request_block\<close> and arguments of \<open>free\<close>, and \<open>None\<close> in the list
  and in results of \<open>malloc\<close>.\<close>

definition request_block :: "(nat \<Rightarrow> 'k \<Rightarrow> nat \<times> 'k) \<Rightarrow> nat \<Rightarrow> heap \<times> 'k \<Rightarrow> nat \<times> heap \<times> 'k" where
  "request_block brk n = (\<lambda>(h, k).
     let (current_brk, k1) = brk 0 k in
     if current_brk \<ge> 2 ^ 63 then (0, h, k1)
     else
       let needed_end = wrap64 (current_brk + HEADER + n); (new_brk, k2) = brk needed_end k1 in
       if new_brk < needed_end then (0, h, k2)
       else (current_brk,
             h\<lparr>headers := (headers h)(current_brk := \<lparr>bh_size = n, bh_free = False, bh_next = None\<rparr>)\<rparr>, k2))"

text \<open>The first block that is free and large enough. A cyclic list would be walked for ever.\<close>

partial_function (option) first_fit :: "nat \<Rightarrow> (nat \<Rightarrow> block_header) \<Rightarrow> nat option \<Rightarrow> nat option option" where
  "first_fit n hs cur = (case cur of None \<Rightarrow> Some None
     | Some b \<Rightarrow> if bh_free (hs b) \<and> n \<le> bh_size (hs b) then Some (Some b) else first_fit n hs (bh_next (hs b)))"

declare first_fit.simps [code]

definition set_free :: "bool \<Rightarrow> nat \<Rightarrow> heap \<Rightarrow> heap" where
  "set_free v b h = h\<lparr>headers := (headers h)(b := (headers h b)\<lparr>bh_free := v\<rparr>)\<rparr>"

text \<open>\<^verbatim>\<open>heap_head\<close> and \<^verbatim>\<open>heap_tail\<close> are set together.\<close>

definition append_block :: "nat \<Rightarrow> heap \<Rightarrow> heap" where
  "append_block b h =
     (let h1 = (case heap_head h of None \<Rightarrow> h\<lparr>heap_head := Some b\<rparr>
        | Some _ \<Rightarrow> (case heap_tail h of None \<Rightarrow> h
            | Some t \<Rightarrow> h\<lparr>headers := (headers h)(t := (headers h t)\<lparr>bh_next := Some b\<rparr>)\<rparr>))
      in h1\<lparr>heap_tail := Some b\<rparr>)"

definition malloc :: "(nat \<Rightarrow> 'k \<Rightarrow> nat \<times> 'k) \<Rightarrow> nat \<Rightarrow> heap \<times> 'k \<Rightarrow> (nat option \<times> heap \<times> 'k) option" where
  "malloc brk size0 = (\<lambda>(h, k).
     if size0 = 0 then Some (None, h, k)
     else
       let n = ALIGN8 size0 in
       (case first_fit n (headers h) (heap_head h) of None \<Rightarrow> None
        | Some (Some b) \<Rightarrow> Some (Some (b + HEADER), set_free False b h, k)
        | Some None \<Rightarrow>
            (let (b, h1, k1) = request_block brk n (h, k)
             in if b = 0 then Some (None, h1, k1) else Some (Some (b + HEADER), append_block b h1, k1))))"

definition free :: "nat \<Rightarrow> heap \<Rightarrow> heap" where
  "free ptr h = (if ptr = 0 then h else set_free True (usub ptr HEADER) h)"

section \<open>The list of blocks\<close>

fun linked :: "(nat \<Rightarrow> block_header) \<Rightarrow> nat option \<Rightarrow> nat list \<Rightarrow> bool" where
  "linked hs p [] \<longleftrightarrow> p = None"
| "linked hs p (b # bs) \<longleftrightarrow> p = Some b \<and> linked hs (bh_next (hs b)) bs"

text \<open>The blocks lie one behind the other below \<open>brk\<close>, with their headers.\<close>

fun laid_out :: "(nat \<Rightarrow> block_header) \<Rightarrow> nat list \<Rightarrow> nat \<Rightarrow> bool" where
  "laid_out hs [] lim \<longleftrightarrow> True"
| "laid_out hs (b # bs) lim \<longleftrightarrow> b + HEADER + bh_size (hs b) \<le> (case bs of [] \<Rightarrow> lim | c # _ \<Rightarrow> c) \<and> laid_out hs bs lim"

definition heap_ok :: "heap \<Rightarrow> nat \<Rightarrow> nat list \<Rightarrow> bool" where
  "heap_ok h lim bs \<longleftrightarrow> linked (headers h) (heap_head h) bs \<and> laid_out (headers h) bs lim \<and>
     (bs \<noteq> [] \<longrightarrow> heap_tail h = Some (last bs))"

definition extent :: "heap \<Rightarrow> nat \<Rightarrow> nat set" where
  "extent h b = {b..<b + HEADER + bh_size (headers h b)}"

definition live :: "heap \<Rightarrow> nat list \<Rightarrow> nat set" where
  "live h bs = {b \<in> set bs. \<not> bh_free (headers h b)}"

lemma laid_out_bounds: "laid_out hs (b # bs) lim \<Longrightarrow> c \<in> set bs \<Longrightarrow> b + HEADER + bh_size (hs b) \<le> c"
proof (induction bs arbitrary: b)
  case (Cons d bs)
  then show ?case using Cons.IH [of d] by (cases "c = d") auto
qed simp

lemma laid_out_limit: "laid_out hs bs lim \<Longrightarrow> b \<in> set bs \<Longrightarrow> b + HEADER + bh_size (hs b) \<le> lim"
proof (induction bs arbitrary: b)
  case (Cons d bs)
  show ?case
  proof (cases bs)
    case Nil
    with Cons.prems show ?thesis by simp
  next
    case (Cons c cs)
    with Cons.IH [of c] \<open>laid_out hs (d # bs) lim\<close> have "d + HEADER + bh_size (hs d) \<le> lim" by simp
    with Cons.IH Cons.prems show ?thesis by auto
  qed
qed simp

lemma heap_disjoint:
  assumes "laid_out hs bs lim" "b \<in> set bs" "c \<in> set bs" "b \<noteq> c"
  shows "b + HEADER + bh_size (hs b) \<le> c \<or> c + HEADER + bh_size (hs c) \<le> b"
  using assms
proof (induction bs)
  case (Cons d bs)
  then show ?case using laid_out_bounds [OF Cons.prems(1)] by auto
qed simp

lemma linked_cong: "(\<And>b. b \<in> set bs \<Longrightarrow> bh_next (hs' b) = bh_next (hs b)) \<Longrightarrow> linked hs' p bs = linked hs p bs"
  by (induction bs arbitrary: p) auto

lemma laid_out_cong: "(\<And>b. b \<in> set bs \<Longrightarrow> bh_size (hs' b) = bh_size (hs b)) \<Longrightarrow> laid_out hs' bs lim = laid_out hs bs lim"
  by (induction bs) (auto split: list.split)

lemma laid_out_mono: "laid_out hs bs lim \<Longrightarrow> lim \<le> lim' \<Longrightarrow> laid_out hs bs lim'"
  by (induction bs) (auto split: list.splits)

lemma laid_out_snoc: "laid_out hs bs b \<Longrightarrow> b + HEADER + bh_size (hs b) \<le> lim \<Longrightarrow> laid_out hs (bs @ [b]) lim"
  by (induction bs) (auto split: list.splits)

lemma first_fit_find:
  "linked hs p bs \<Longrightarrow> first_fit n hs p = Some (find (\<lambda>b. bh_free (hs b) \<and> n \<le> bh_size (hs b)) bs)"
  by (induction bs arbitrary: p) (auto simp: first_fit.simps)

lemma linked_append:
  assumes "linked hs p bs" "bs \<noteq> []" "distinct bs" "b \<notin> set bs" "bh_next (hs b) = None"
  shows "linked (hs(last bs := (hs (last bs))\<lparr>bh_next := Some b\<rparr>)) p (bs @ [b])"
  using assms
proof (induction bs arbitrary: p)
  case (Cons c bs)
  show ?case
  proof (cases "bs = []")
    case True
    with Cons.prems show ?thesis by auto
  next
    case False
    with Cons.prems have "c \<noteq> last bs" by auto
    with Cons False show ?thesis by auto
  qed
qed simp

lemma laid_out_distinct: "laid_out hs bs lim \<Longrightarrow> distinct bs"
proof (induction bs)
  case (Cons b bs)
  then show ?case using laid_out_bounds [OF Cons.prems, of b] by auto
qed simp

lemma set_free_fields [simp]:
  "bh_next (headers (set_free v b h) c) = bh_next (headers h c)" "bh_size (headers (set_free v b h) c) = bh_size (headers h c)"
  "bh_free (headers (set_free v b h) c) = (if c = b then v else bh_free (headers h c))"
  "heap_head (set_free v b h) = heap_head h" "heap_tail (set_free v b h) = heap_tail h"
  by (simp_all add: set_free_def)

lemma set_free_ok [simp]: "heap_ok (set_free v b h) lim bs \<longleftrightarrow> heap_ok h lim bs"
proof -
  have "linked (headers (set_free v b h)) p bs = linked (headers h) p bs" for p by (rule linked_cong) simp
  moreover have "laid_out (headers (set_free v b h)) bs lim = laid_out (headers h) bs lim" by (rule laid_out_cong) simp
  ultimately show ?thesis by (simp add: heap_ok_def)
qed

section \<open>What malloc promises\<close>

text \<open>\<open>p\<close> is the result of a request for \<open>n\<close> bytes in the heap \<open>h\<close> with the blocks \<open>bs\<close> below the break \<open>l\<close>; afterwards there
  are the heap \<open>h'\<close> and the break \<open>l'\<close>.\<close>

definition malloc_post :: "heap \<Rightarrow> nat list \<Rightarrow> nat \<Rightarrow> nat \<Rightarrow> nat option \<Rightarrow> heap \<Rightarrow> nat \<Rightarrow> bool" where
  "malloc_post h bs l n p h' l' \<longleftrightarrow> (case p of
      None \<Rightarrow> h' = h \<and> heap_ok h l' bs \<and> l' < l + HEADER + ALIGN8 n \<and> (\<forall>b \<in> set bs. bh_free (headers h b) \<longrightarrow> bh_size (headers h b) < ALIGN8 n)
    | Some q \<Rightarrow> (\<exists>b bs'. q = b + HEADER \<and> heap_ok h' l' bs' \<and> set bs \<subseteq> set bs' \<and> b \<notin> live h bs \<and> live h' bs' = insert b (live h bs) \<and>
        n \<le> ALIGN8 n \<and> ALIGN8 n \<le> bh_size (headers h' b) \<and> extent h' b \<subseteq> {..<l'} \<and>
        (\<forall>c \<in> set bs. extent h' c = extent h c) \<and> (\<forall>c \<in> live h bs. extent h' b \<inter> extent h' c = {}) \<and>
        (\<forall>c \<in> set bs. bh_free (headers h c) \<and> ALIGN8 n \<le> bh_size (headers h c) \<longrightarrow> b \<in> set bs \<and> l' = l)))"

lemma ALIGN8_ge: "n < 2 ^ 63 \<Longrightarrow> n \<le> ALIGN8 n \<and> ALIGN8 n < n + 8"
proof -
  assume "n < 2 ^ 63"
  then have "wrap64 (n + 7) = n + 7" by (simp add: wrap64_def)
  moreover have "(n + 7) div 8 * 8 + (n + 7) mod 8 = n + 7" "(n + 7) mod 8 < 8" by simp_all
  ultimately show ?thesis unfolding ALIGN8_def by linarith
qed

lemma extent_disjoint: "heap_ok h l bs \<Longrightarrow> b \<in> set bs \<Longrightarrow> c \<in> set bs \<Longrightarrow> b \<noteq> c \<Longrightarrow> extent h b \<inter> extent h c = {}"
  using heap_disjoint [of "headers h" bs l b c] by (auto simp: heap_ok_def extent_def)

lemma extent_below: "heap_ok h l bs \<Longrightarrow> b \<in> set bs \<Longrightarrow> extent h b \<subseteq> {..<l}"
  using laid_out_limit [of "headers h" bs l b] by (auto simp: heap_ok_def extent_def)

text \<open>Reusing a block.\<close>

lemma reuse_post:
  assumes ok: "heap_ok h l bs" and b: "b \<in> set bs" "bh_free (headers h b)" "ALIGN8 n \<le> bh_size (headers h b)" and n: "n < 2 ^ 63"
  shows "malloc_post h bs l n (Some (b + HEADER)) (set_free False b h) l"
proof -
  let ?h = "set_free False b h"
  have e: "extent ?h c = extent h c" for c by (simp add: extent_def)
  have "live ?h bs = insert b (live h bs)" "b \<notin> live h bs" using b by (auto simp: live_def)
  moreover have "n \<le> ALIGN8 n \<and> ALIGN8 n \<le> bh_size (headers ?h b)" using b(3) ALIGN8_ge [OF n] by simp
  moreover have "extent ?h b \<inter> extent ?h c = {}" if "c \<in> live h bs" for c
    unfolding e by (rule extent_disjoint [OF ok b(1)]) (use that b(2) in \<open>auto simp: live_def\<close>)
  moreover have "extent ?h b \<subseteq> {..<l}" unfolding e by (rule extent_below [OF ok b(1)])
  ultimately show ?thesis unfolding malloc_post_def using ok b(1) e by (auto intro!: exI [of _ bs])
qed

text \<open>Adding a block at the break.\<close>

lemma append_post:
  assumes ok: "heap_ok h l bs" and l: "l + HEADER + ALIGN8 n \<le> l'" and n: "n < 2 ^ 63"
    and none: "\<forall>c \<in> set bs. \<not> (bh_free (headers h c) \<and> ALIGN8 n \<le> bh_size (headers h c))"
    and h': "h' = append_block l (h\<lparr>headers := (headers h)(l := \<lparr>bh_size = ALIGN8 n, bh_free = False, bh_next = None\<rparr>)\<rparr>)"
  shows "malloc_post h bs l n (Some (l + HEADER)) h' l'"
proof -
  define hs where "hs = (headers h)(l := \<lparr>bh_size = ALIGN8 n, bh_free = False, bh_next = None\<rparr>)"
  have new: "l \<notin> set bs" using laid_out_limit [of "headers h" bs l l] ok by (auto simp: heap_ok_def)
  have same: "hs b = headers h b" if "b \<in> set bs" for b using that new by (auto simp: hs_def)
  have "linked hs (heap_head h) bs = linked (headers h) (heap_head h) bs" by (rule linked_cong) (simp add: same)
  moreover have "laid_out hs bs l = laid_out (headers h) bs l" by (rule laid_out_cong) (simp add: same)
  ultimately have lk: "linked hs (heap_head h) bs" and lo: "laid_out hs bs l" using ok by (simp_all add: heap_ok_def)
  have fields: "bh_size (headers h' c) = bh_size (hs c)" "bh_free (headers h' c) = bh_free (hs c)" for c
    unfolding h' append_block_def hs_def [symmetric] by (auto simp: Let_def split: option.split)
  have ok': "heap_ok h' l' (bs @ [l])"
  proof -
    have "laid_out (headers h') (bs @ [l]) l'"
      using laid_out_snoc [OF lo, of l'] l laid_out_cong [of "bs @ [l]" "headers h'" hs] fields by (simp add: hs_def)
    moreover have "linked (headers h') (heap_head h') (bs @ [l])"
    proof (cases "bs = []")
      case True
      with lk show ?thesis unfolding h' append_block_def hs_def [symmetric] by (simp add: hs_def)
    next
      case False
      then have "heap_tail h = Some (last bs)" "\<exists>b. heap_head h = Some b" using ok by (cases bs; simp add: heap_ok_def)+
      moreover have "linked (hs(last bs := (hs (last bs))\<lparr>bh_next := Some l\<rparr>)) (heap_head h) (bs @ [l])"
        by (rule linked_append [OF lk False laid_out_distinct [OF lo] new]) (simp add: hs_def)
      ultimately show ?thesis unfolding h' append_block_def hs_def [symmetric] by (auto simp: Let_def)
    qed
    moreover have "heap_tail h' = Some l" unfolding h' append_block_def by (simp add: Let_def)
    ultimately show ?thesis by (simp add: heap_ok_def)
  qed
  have e: "extent h' c = extent h c" if "c \<in> set bs" for c using that new by (auto simp: extent_def fields hs_def)
  have "live h' (bs @ [l]) = insert l (live h bs)" using new by (auto simp: live_def fields hs_def)
  moreover have "n \<le> ALIGN8 n \<and> ALIGN8 n \<le> bh_size (headers h' l)" using ALIGN8_ge [OF n] by (simp add: fields hs_def)
  moreover have "extent h' l \<inter> extent h' c = {}" if "c \<in> live h bs" for c
    by (rule extent_disjoint [OF ok']) (use that new in \<open>auto simp: live_def\<close>)
  moreover have "extent h' l \<subseteq> {..<l'}" by (rule extent_below [OF ok']) simp
  ultimately show ?thesis unfolding malloc_post_def using ok' e none new by (auto simp: live_def intro!: exI [of _ "bs @ [l]"])
qed

section \<open>The break of the program\<close>

text \<open>What \<open>malloc\<close> relies on: a call with 0 asks for the break; any other call returns the break afterwards, which has not
  moved down and is the old one or the one asked for.\<close>

locale program_break =
  fixes brk :: "nat \<Rightarrow> 'k \<Rightarrow> nat \<times> 'k" and lim :: "'k \<Rightarrow> nat"
  assumes brk_query: "brk 0 k = (lim k, k)"
    and brk_move: "brk n k = (r, k') \<Longrightarrow> r = lim k' \<and> lim k \<le> r \<and> (r = lim k \<or> r = n)"
begin

lemma request_cases:
  assumes "lim k + HEADER + m < 2 ^ 63"
  obtains k' where "request_block brk m (h, k) = (0, h, k')" "lim k \<le> lim k'" "lim k' < lim k + HEADER + m"
  | k' where "lim k' = lim k + HEADER + m" "request_block brk m (h, k) =
      (lim k, h\<lparr>headers := (headers h)(lim k := \<lparr>bh_size = m, bh_free = False, bh_next = None\<rparr>)\<rparr>, k')"
proof -
  obtain r k' where r: "brk (lim k + HEADER + m) k = (r, k')" by fastforce
  have w: "wrap64 (lim k + HEADER + m) = lim k + HEADER + m" using assms by (simp add: wrap64_def)
  note mv = brk_move [OF r]
  show thesis
  proof (cases "r < lim k + HEADER + m")
    case True
    show ?thesis by (rule that(1)) (use True mv r w assms in \<open>auto simp: request_block_def brk_query Let_def\<close>)
  next
    case False
    show ?thesis by (rule that(2)) (use False mv r w assms in \<open>auto simp: request_block_def brk_query Let_def\<close>)
  qed
qed

lemma malloc_correct:
  assumes ok: "heap_ok h (lim k) bs" and n: "0 < n" "0 < lim k" and small: "lim k + n + 32 \<le> 2 ^ 63"
  shows "\<exists>p h' k'. malloc brk n (h, k) = Some (p, h', k') \<and> malloc_post h bs (lim k) n p h' (lim k') \<and>
    lim k \<le> lim k' \<and> lim k' \<le> lim k + HEADER + ALIGN8 n"
proof -
  have n63: "n < 2 ^ 63" using small by simp
  have fit: "first_fit (ALIGN8 n) (headers h) (heap_head h) = Some (find (\<lambda>b. bh_free (headers h b) \<and> ALIGN8 n \<le> bh_size (headers h b)) bs)"
    (is "_ = Some ?f") using ok by (intro first_fit_find) (simp add: heap_ok_def)
  show ?thesis
  proof (cases ?f)
    case (Some b)
    then have b: "b \<in> set bs" "bh_free (headers h b)" "ALIGN8 n \<le> bh_size (headers h b)" by (auto simp: find_Some_iff)
    have "malloc brk n (h, k) = Some (Some (b + HEADER), set_free False b h, k)"
      using n(1) fit Some by (simp add: malloc_def Let_def)
    then show ?thesis using reuse_post [OF ok b n63] by (auto intro!: exI [of _ k])
  next
    case None
    then have none: "\<forall>c \<in> set bs. \<not> (bh_free (headers h c) \<and> ALIGN8 n \<le> bh_size (headers h c))" by (auto simp: find_None_iff)
    have sm: "lim k + HEADER + ALIGN8 n < 2 ^ 63" using small ALIGN8_ge [OF n63] by simp
    show ?thesis
    proof (rule request_cases [OF sm, of h])
      fix k' assume r: "request_block brk (ALIGN8 n) (h, k) = (0, h, k')" and l: "lim k \<le> lim k'" "lim k' < lim k + HEADER + ALIGN8 n"
      have "malloc brk n (h, k) = Some (None, h, k')" using n(1) fit None r by (simp add: malloc_def Let_def)
      moreover have "heap_ok h (lim k') bs" using ok laid_out_mono [OF _ l(1)] by (simp add: heap_ok_def)
      ultimately show ?thesis using l none by (auto simp: malloc_post_def)
    next
      fix k' assume l: "lim k' = lim k + HEADER + ALIGN8 n"
        and r: "request_block brk (ALIGN8 n) (h, k) =
          (lim k, h\<lparr>headers := (headers h)(lim k := \<lparr>bh_size = ALIGN8 n, bh_free = False, bh_next = None\<rparr>)\<rparr>, k')"
      have "malloc brk n (h, k) = Some (Some (lim k + HEADER),
          append_block (lim k) (h\<lparr>headers := (headers h)(lim k := \<lparr>bh_size = ALIGN8 n, bh_free = False, bh_next = None\<rparr>)\<rparr>), k')"
        using n fit None r by (simp add: malloc_def Let_def)
      then show ?thesis using append_post [OF ok _ n63 none refl] l by auto
    qed
  qed
qed

end

lemma process_brk_cases:
  "process_brk i n s = (r, s') \<Longrightarrow> r = heap_end (proc s' i) \<and> heap_end (proc s i) \<le> r \<and> (r = heap_end (proc s i) \<or> r = n)"
  by (auto simp: process_brk_def Let_def upd_proc_def split: if_splits prod.splits)

interpretation kernel_break: program_break "sys_brk i" "\<lambda>s. heap_end (proc s i)" for i
proof
  show "sys_brk i 0 k = (heap_end (proc k i), k)" for k by (simp add: sys_brk_def process_brk_def)
qed (simp add: sys_brk_def process_brk_cases)

lemma free_block: "b + HEADER < 2 ^ 64 \<Longrightarrow> free (b + HEADER) h = set_free True b h"
  by (simp add: free_def usub_def wrap64_def)

section \<open>Properties\<close>

text \<open>C39. The heap of a program. In a heap whose blocks are linked in the order of their addresses below the break of the
  process, a request for \<open>n\<close> bytes returns. It yields a block for at least \<open>n\<close> bytes below the break that no caller has,
  disjoint with its header from every block in use, and leaves all of those as they were; it takes memory from the
  kernel only when no free block is large enough, and fails only when the kernel does not move the break that far.
  Releasing the block keeps the heap in order, and the next request of that size is served without the kernel.\<close>

theorem malloc_free_correct:
  assumes ok: "heap_ok h (heap_end (proc s i)) bs" and n: "0 < n" "0 < heap_end (proc s i)" "heap_end (proc s i) + n + n + 72 \<le> 2 ^ 63"
  shows "\<exists>p h' s'. malloc (sys_brk i) n (h, s) = Some (p, h', s') \<and> malloc_post h bs (heap_end (proc s i)) n p h' (heap_end (proc s' i)) \<and>
    (\<forall>q. p = Some q \<longrightarrow> (\<exists>bs'. heap_ok (free q h') (heap_end (proc s' i)) bs' \<and>
       (\<exists>p2 h2 s2. malloc (sys_brk i) n (free q h', s') = Some (p2, h2, s2) \<and> p2 \<noteq> None \<and> heap_end (proc s2 i) = heap_end (proc s' i))))"
proof -
  let ?l = "\<lambda>s. heap_end (proc s i)"
  obtain p h' s' where m: "malloc (sys_brk i) n (h, s) = Some (p, h', s')" "malloc_post h bs (?l s) n p h' (?l s')" "?l s \<le> ?l s'"
      "?l s' \<le> ?l s + HEADER + ALIGN8 n"
    using kernel_break.malloc_correct [OF ok n(1,2)] n(3) by fastforce
  have again: "\<exists>bs'. heap_ok (free q h') (?l s') bs' \<and>
      (\<exists>p2 h2 s2. malloc (sys_brk i) n (free q h', s') = Some (p2, h2, s2) \<and> p2 \<noteq> None \<and> ?l s2 = ?l s')" if q: "p = Some q" for q
  proof -
    obtain b bs' where b: "q = b + HEADER" "heap_ok h' (?l s') bs'" "b \<in> live h' bs'" "ALIGN8 n \<le> bh_size (headers h' b)" "extent h' b \<subseteq> {..<?l s'}"
      using m(2) unfolding malloc_post_def q by auto
    have al: "ALIGN8 n < n + 8" using ALIGN8_ge [of n] n(3) by simp
    have "b \<in> extent h' b" by (simp add: extent_def)
    then have "b + HEADER < 2 ^ 64" using b(5) m(4) n(3) al by auto
    then have f: "free q h' = set_free True b h'" unfolding b(1) by (rule free_block)
    have ok2: "heap_ok (free q h') (?l s') bs'" unfolding f using b(2) by simp
    have "0 < ?l s'" "?l s' + n + 32 \<le> 2 ^ 63" using m(3,4) n al by simp_all
    from kernel_break.malloc_correct [OF ok2 n(1) this]
    obtain p2 h2 s2 where m2: "malloc (sys_brk i) n (free q h', s') = Some (p2, h2, s2)" "malloc_post (free q h') bs' (?l s') n p2 h2 (?l s2)" by blast
    have fr: "b \<in> set bs'" "bh_free (headers (free q h') b)" "ALIGN8 n \<le> bh_size (headers (free q h') b)"
      using b(3,4) by (simp_all add: f live_def)
    then have "p2 \<noteq> None \<and> ?l s2 = ?l s'" using m2(2) by (cases p2) (auto simp: malloc_post_def)
    then show ?thesis using ok2 m2(1) by blast
  qed
  show ?thesis using m(1,2) again by blast
qed

definition empty_heap :: heap where
  "empty_heap = \<lparr>headers = \<lambda>_. \<lparr>bh_size = 0, bh_free = False, bh_next = None\<rparr>, heap_head = None, heap_tail = None\<rparr>"

theorem malloc_free_correct_witness: "\<exists>p h' s'. malloc (sys_brk 0) 100 (empty_heap, demo_space) = Some (p, h', s')"
proof -
  have "heap_ok empty_heap (heap_end (proc demo_space 0)) []" by (simp add: heap_ok_def empty_heap_def)
  from malloc_free_correct [OF this, of 100] show ?thesis by (auto simp: demo_space)
qed

end
