(* ===== verification/Stubs.thy ===== *)
theory Stubs
  imports ProcMem
begin

text \<open>
  The system call wrappers of the C library (\<^verbatim>\<open>lib/mini_libc.h\<close>): the registers they load before the \<^verbatim>\<open>syscall\<close>
  instruction, as the frame the kernel gets of them. Arguments of type \<^verbatim>\<open>int\<close> are 32-bit words, which the conversion to
  \<^verbatim>\<open>long\<close> extends by their sign; pointers and \<^verbatim>\<open>unsigned long\<close> are 64-bit words.
\<close>

section \<open>Registers\<close>

definition syscall0 :: "nat \<Rightarrow> interrupt_frame \<Rightarrow> interrupt_frame" where
  "syscall0 num f = f\<lparr>f_rax := of_nat num\<rparr>"

definition syscall1 :: "nat \<Rightarrow> u64 \<Rightarrow> interrupt_frame \<Rightarrow> interrupt_frame" where
  "syscall1 num a1 f = f\<lparr>f_rax := of_nat num, f_rdi := a1\<rparr>"

definition syscall2 :: "nat \<Rightarrow> u64 \<Rightarrow> u64 \<Rightarrow> interrupt_frame \<Rightarrow> interrupt_frame" where
  "syscall2 num a1 a2 f = f\<lparr>f_rax := of_nat num, f_rdi := a1, f_rsi := a2\<rparr>"

definition syscall3 :: "nat \<Rightarrow> u64 \<Rightarrow> u64 \<Rightarrow> u64 \<Rightarrow> interrupt_frame \<Rightarrow> interrupt_frame" where
  "syscall3 num a1 a2 a3 f = f\<lparr>f_rax := of_nat num, f_rdi := a1, f_rsi := a2, f_rdx := a3\<rparr>"

definition syscall4 :: "nat \<Rightarrow> u64 \<Rightarrow> u64 \<Rightarrow> u64 \<Rightarrow> u64 \<Rightarrow> interrupt_frame \<Rightarrow> interrupt_frame" where
  "syscall4 num a1 a2 a3 a4 f = f\<lparr>f_rax := of_nat num, f_rdi := a1, f_rsi := a2, f_rdx := a3, f_r10 := a4\<rparr>"

definition syscall6 :: "nat \<Rightarrow> u64 \<Rightarrow> u64 \<Rightarrow> u64 \<Rightarrow> u64 \<Rightarrow> u64 \<Rightarrow> u64 \<Rightarrow> interrupt_frame \<Rightarrow> interrupt_frame" where
  "syscall6 num a1 a2 a3 a4 a5 a6 f =
     f\<lparr>f_rax := of_nat num, f_rdi := a1, f_rsi := a2, f_rdx := a3, f_r10 := a4, f_r8 := a5, f_r9 := a6\<rparr>"

definition c_long :: "u32 \<Rightarrow> u64" where
  "c_long n = scast n"

section \<open>Wrappers\<close>

definition u_write :: "u32 \<Rightarrow> u64 \<Rightarrow> u64 \<Rightarrow> interrupt_frame \<Rightarrow> interrupt_frame" where
  "u_write fd buf len = syscall3 SYS_WRITE (c_long fd) buf len"

definition u_open :: "u64 \<Rightarrow> interrupt_frame \<Rightarrow> interrupt_frame" where
  "u_open pth = syscall3 SYS_OPEN pth 0 0"

definition u_open3 :: "u64 \<Rightarrow> u32 \<Rightarrow> u64 \<Rightarrow> interrupt_frame \<Rightarrow> interrupt_frame" where
  "u_open3 pth flags md = syscall3 SYS_OPEN pth (c_long flags) md"

definition u_read :: "u32 \<Rightarrow> u64 \<Rightarrow> u64 \<Rightarrow> interrupt_frame \<Rightarrow> interrupt_frame" where
  "u_read fd buf len = syscall3 SYS_READ (c_long fd) buf len"

definition u_close :: "u32 \<Rightarrow> interrupt_frame \<Rightarrow> interrupt_frame" where
  "u_close fd = syscall1 SYS_CLOSE (c_long fd)"

definition u_brk :: "u64 \<Rightarrow> interrupt_frame \<Rightarrow> interrupt_frame" where
  "u_brk new_brk = syscall1 SYS_BRK new_brk"

definition u_fork :: "interrupt_frame \<Rightarrow> interrupt_frame" where
  "u_fork = syscall0 SYS_FORK"

definition u_execve :: "u64 \<Rightarrow> u64 \<Rightarrow> u64 \<Rightarrow> interrupt_frame \<Rightarrow> interrupt_frame" where
  "u_execve pth argv envp = syscall3 SYS_EXECVE pth argv envp"

definition u_waitpid :: "u32 \<Rightarrow> u64 \<Rightarrow> interrupt_frame \<Rightarrow> interrupt_frame" where
  "u_waitpid target_pid status = syscall2 SYS_WAITPID (c_long target_pid) status"

definition u_exit :: "u32 \<Rightarrow> interrupt_frame \<Rightarrow> interrupt_frame" where
  "u_exit code = syscall1 SYS_EXIT (c_long code)"

definition u_readdir :: "u64 \<Rightarrow> u32 \<Rightarrow> u64 \<Rightarrow> u64 \<Rightarrow> interrupt_frame \<Rightarrow> interrupt_frame" where
  "u_readdir pth index name_out buf_size = syscall4 SYS_READDIR pth (c_long index) name_out buf_size"

definition u_chdir :: "u64 \<Rightarrow> interrupt_frame \<Rightarrow> interrupt_frame" where
  "u_chdir pth = syscall1 SYS_CHDIR pth"

definition u_getcwd :: "u64 \<Rightarrow> u64 \<Rightarrow> interrupt_frame \<Rightarrow> interrupt_frame" where
  "u_getcwd buf sz = syscall2 SYS_GETCWD buf sz"

definition u_mkdir :: "u64 \<Rightarrow> interrupt_frame \<Rightarrow> interrupt_frame" where
  "u_mkdir pth = syscall1 SYS_MKDIR pth"

definition u_unlink :: "u64 \<Rightarrow> interrupt_frame \<Rightarrow> interrupt_frame" where
  "u_unlink pth = syscall1 SYS_UNLINK pth"

definition u_stat :: "u64 \<Rightarrow> u64 \<Rightarrow> interrupt_frame \<Rightarrow> interrupt_frame" where
  "u_stat pth out = syscall2 SYS_STAT pth out"

definition u_dup2 :: "u32 \<Rightarrow> u32 \<Rightarrow> interrupt_frame \<Rightarrow> interrupt_frame" where
  "u_dup2 oldfd newfd = syscall2 SYS_DUP2 (c_long oldfd) (c_long newfd)"

definition u_pipe :: "u64 \<Rightarrow> interrupt_frame \<Rightarrow> interrupt_frame" where
  "u_pipe fds_out = syscall1 SYS_PIPE fds_out"

definition u_kill :: "u32 \<Rightarrow> u32 \<Rightarrow> interrupt_frame \<Rightarrow> interrupt_frame" where
  "u_kill target_pid sig = syscall2 SYS_KILL (c_long target_pid) (c_long sig)"

definition u_getpid :: "interrupt_frame \<Rightarrow> interrupt_frame" where
  "u_getpid = syscall0 SYS_GETPID"

definition u_chmod :: "u64 \<Rightarrow> u64 \<Rightarrow> interrupt_frame \<Rightarrow> interrupt_frame" where
  "u_chmod pth md = syscall2 SYS_CHMOD pth md"

definition u_chown :: "u64 \<Rightarrow> u64 \<Rightarrow> u64 \<Rightarrow> interrupt_frame \<Rightarrow> interrupt_frame" where
  "u_chown pth uid gid = syscall3 SYS_CHOWN pth uid gid"

definition u_setuid :: "u64 \<Rightarrow> interrupt_frame \<Rightarrow> interrupt_frame" where
  "u_setuid new_uid = syscall1 SYS_SETUID new_uid"

definition u_setgid :: "u64 \<Rightarrow> interrupt_frame \<Rightarrow> interrupt_frame" where
  "u_setgid new_gid = syscall1 SYS_SETGID new_gid"

definition u_getuid :: "interrupt_frame \<Rightarrow> interrupt_frame" where
  "u_getuid = syscall0 SYS_GETUID"

definition u_getgid :: "interrupt_frame \<Rightarrow> interrupt_frame" where
  "u_getgid = syscall0 SYS_GETGID"

definition u_tty_set_raw :: "u32 \<Rightarrow> interrupt_frame \<Rightarrow> interrupt_frame" where
  "u_tty_set_raw enable = syscall1 SYS_TTY_SET_RAW (c_long enable)"

definition u_tty_set_echo :: "u32 \<Rightarrow> interrupt_frame \<Rightarrow> interrupt_frame" where
  "u_tty_set_echo enable = syscall1 SYS_TTY_SET_ECHO (c_long enable)"

definition u_mmap :: "u64 \<Rightarrow> u64 \<Rightarrow> u32 \<Rightarrow> u32 \<Rightarrow> interrupt_frame \<Rightarrow> interrupt_frame" where
  "u_mmap addr_hint len prot flags = syscall6 SYS_MMAP addr_hint len (c_long prot) (c_long flags) (- 1) 0"

definition u_munmap :: "u64 \<Rightarrow> u64 \<Rightarrow> interrupt_frame \<Rightarrow> interrupt_frame" where
  "u_munmap addr len = syscall2 SYS_MUNMAP addr len"

definition u_set_foreground :: "u64 \<Rightarrow> u32 \<Rightarrow> interrupt_frame \<Rightarrow> interrupt_frame" where
  "u_set_foreground pids count = syscall2 SYS_SET_FOREGROUND pids (c_long count)"

definition u_arch_prctl :: "u32 \<Rightarrow> u64 \<Rightarrow> interrupt_frame \<Rightarrow> interrupt_frame" where
  "u_arch_prctl code addr = syscall2 SYS_ARCH_PRCTL (c_long code) addr"


lemmas syscall_defs = syscall0_def syscall1_def syscall2_def syscall3_def syscall4_def syscall6_def

lemma reg_int_c_long [simp]: "reg_int (c_long n) = sint n"
proof -
  have "(ucast (scast n :: u64) :: u32) = n" by (rule bit_word_eqI) (simp add: bit_simps)
  then show ?thesis by (simp add: reg_int_def c_long_def)
qed

lemma sint_c_long [simp]: "sint (c_long n) = sint n"
proof -
  have "- (2 ^ 63) \<le> sint n" "sint n < 2 ^ 63" using sint_greater_eq [of n] sint_less [of n] by simp_all
  then show ?thesis by (simp add: c_long_def signed_scast_eq signed_take_bit_int_eq_self)
qed

lemma reg_int_zero: "reg_int 0 = 0" and reg_int_minus: "reg_int (- 1) = - 1"
proof -
  have "(ucast (- 1 :: u64) :: u32) = - 1" by (rule bit_word_eqI) (simp add: bit_simps)
  then show "reg_int 0 = 0" "reg_int (- 1) = - 1" by (simp_all add: reg_int_def)
qed

lemma syscall_fields:
  "f_rax (syscall0 k f) = of_nat k" "f_rax (syscall1 k a f) = of_nat k" "f_rax (syscall2 k a b f) = of_nat k" "f_rax (syscall3 k a b c f) = of_nat k"
  "f_rax (syscall4 k a b c d f) = of_nat k" "f_rdi (syscall1 k a f) = a" "f_rdi (syscall2 k a b f) = a" "f_rdi (syscall3 k a b c f) = a"
  "f_rdi (syscall4 k a b c d f) = a" "f_rsi (syscall2 k a b f) = b" "f_rsi (syscall3 k a b c f) = b" "f_rsi (syscall4 k a b c d f) = b"
  "f_rdx (syscall3 k a b c f) = c" "f_rdx (syscall4 k a b c d f) = c" "f_r10 (syscall4 k a b c d f) = d"
  by (simp_all add: syscall_defs)

text \<open>The handler on the frame of a wrapper.\<close>

lemma file_calls:
  assumes "process_current s = Some i"
  shows
    "syscall_handler um rp seed n (u_open pth f) s = map_option (ret (u_open pth f)) (process_open i (user_path um pth) 0 s)"
    "syscall_handler um rp seed n (u_open3 pth flags md f) s = map_option (ret (u_open3 pth flags md f)) (process_open i (user_path um pth) (sint flags) s)"
    "syscall_handler um rp seed n (u_close fd f) s = Some (ret (u_close fd f) (process_close i (sint fd) s))"
    "syscall_handler um rp seed n (u_dup2 oldfd newfd f) s = Some (ret (u_dup2 oldfd newfd f) (process_dup2 i (sint oldfd) (sint newfd) s))"
    "syscall_handler um rp seed n (u_chdir pth f) s = map_option (ret (u_chdir pth f)) (process_chdir i (user_path um pth) s)"
    "syscall_handler um rp seed n (u_mkdir pth f) s = map_option (ret (u_mkdir pth f)) (process_mkdir i (user_path um pth) s)"
    "syscall_handler um rp seed n (u_unlink pth f) s = map_option (ret (u_unlink pth f)) (process_unlink i (user_path um pth) s)"
    "syscall_handler um rp seed n (u_chmod pth md f) s = map_option (ret (u_chmod pth md f)) (process_chmod i (user_path um pth) (unat md) s)"
    "syscall_handler um rp seed n (u_chown pth uid gid f) s = map_option (ret (u_chown pth uid gid f)) (process_chown i (user_path um pth) (unat uid) (unat gid) s)"
  using assms by (simp_all add: syscall_handler_def syscall_defs with_proc_def Let_def reg_int_zero reg_int_minus
      u_open_def u_open3_def u_close_def u_dup2_def u_chdir_def u_mkdir_def u_unlink_def u_chmod_def u_chown_def)

lemma process_calls:
  assumes "process_current s = Some i"
  shows
    "syscall_handler um rp seed n (u_fork f) s = map_option (ret (u_fork f)) (do_fork rp (u_fork f) s)"
    "syscall_handler um rp seed n (u_kill target sig f) s = sys_kill (u_kill target sig f) (sint target) (sint sig) s"
    "syscall_handler um rp seed n (u_exit code f) s = Some (SysNever (sys_exit (sint code) s))"
    "syscall_handler um rp seed n (u_getpid f) s = Some (ret (u_getpid f) (pid (proc s i), s))"
    "syscall_handler um rp seed n (u_getuid f) s = Some (ret (u_getuid f) (int (p_uid (proc s i)), s))"
    "syscall_handler um rp seed n (u_getgid f) s = Some (ret (u_getgid f) (int (p_gid (proc s i)), s))"
    "syscall_handler um rp seed n (u_setuid v f) s = Some (ret (u_setuid v f) (process_setuid i (unat v) s))"
    "syscall_handler um rp seed n (u_setgid v f) s = Some (ret (u_setgid v f) (process_setgid i (unat v) s))"
    "syscall_handler um rp seed n (u_tty_set_raw enable f) s = Some (ret (u_tty_set_raw enable f) (0, s\<lparr>k_kbd := tty_set_raw (sint enable) (k_kbd s)\<rparr>))"
    "syscall_handler um rp seed n (u_tty_set_echo enable f) s = Some (ret (u_tty_set_echo enable f) (0, s\<lparr>k_kbd := tty_set_echo (sint enable) (k_kbd s)\<rparr>))"
    "syscall_handler um rp seed n (u_set_foreground pids count f) s = Some (ret (u_set_foreground pids count f) (0, process_set_foreground (\<lambda>k. user_int um (unat pids + 4 * k)) (sint count) s))"
    "syscall_handler um rp seed n (u_brk b f) s = Some (let (e, s1) = process_brk i (unat b) s in ret (u_brk b f) (int e, s1))"
    "syscall_handler um rp seed n (u_mmap hint len prot flags f) s = Some (ret (u_mmap hint len prot flags f) (process_mmap i (unat len) (sint prot) (sint flags) (- 1) s))"
    "syscall_handler um rp seed n (u_munmap a len f) s = Some (ret (u_munmap a len f) (process_munmap i (unat a) (unat len) s))"
  using assms by (simp_all add: syscall_handler_def syscall_defs with_proc_def Let_def reg_int_zero reg_int_minus
      u_fork_def u_kill_def u_exit_def u_getpid_def u_getuid_def u_getgid_def u_setuid_def u_setgid_def u_tty_set_raw_def u_tty_set_echo_def u_set_foreground_def u_brk_def u_mmap_def u_munmap_def)

lemma data_calls:
  assumes "process_current s = Some i"
  shows
    "syscall_handler um rp seed n (u_read fd buf len f) s = (case process_read i (sint fd) (unat len) s of None \<Rightarrow> None
      | Some (Block ch k, s1) \<Rightarrow> Some (SysSleep ch k s1) | Some (Done (Inl e), s1) \<Rightarrow> Some (ret (u_read fd buf len f) (e, s1))
      | Some (Done (Inr bs), s1) \<Rightarrow> Some (ret_store (u_read fd buf len f) (int (length bs)) [(unat buf, bs)] s1))"
    "syscall_handler um rp seed n (u_write fd buf len f) s = (case process_write i (sint fd) (mem_read um (unat buf) (unat len)) n s of None \<Rightarrow> None
      | Some (Block ch k, s1) \<Rightarrow> Some (SysSleep ch k s1) | Some (Done r, s1) \<Rightarrow> Some (ret (u_write fd buf len f) (r, s1)))"
    "syscall_handler um rp seed n (u_pipe ends f) s = Some (case process_pipe i s of (Inl e, s1) \<Rightarrow> ret (u_pipe ends f) (e, s1)
      | (Inr (a, b), s1) \<Rightarrow> ret_store (u_pipe ends f) 0 [(unat ends, int_bytes (int a) @ int_bytes (int b))] s1)"
    "syscall_handler um rp seed n (u_stat pth out f) s = map_option (\<lambda>(r, s1). case r of Inl e \<Rightarrow> ret (u_stat pth out f) (e, s1)
      | Inr st \<Rightarrow> ret_store (u_stat pth out f) 0 [(unat out, stat_bytes st)] s1) (process_stat i (user_path um pth) s)"
    "syscall_handler um rp seed n (u_readdir pth idx buf sz f) s = map_option (\<lambda>((r, name), s1). ret_store (u_readdir pth idx buf sz f) r (case name of None \<Rightarrow> [] | Some nm \<Rightarrow> [(unat buf, c_bytes nm)]) s1)
      (vfs_readdir_path (cwd (proc s i)) (user_path um pth) (sint idx) (unat sz) s)"
    "syscall_handler um rp seed n (u_getcwd buf sz f) s = Some (let c = take (unat sz - 1) (cwd (proc s i)) in ret_store (u_getcwd buf sz f) (int (length c)) [(unat buf, c_bytes c)] s)"
    "syscall_handler um rp seed n (u_waitpid target status f) s = Some (case process_waitpid i (sint target) s of (Block ch k, s1) \<Rightarrow> SysSleep ch k s1
      | (Done (r, st), s1) \<Rightarrow>
          ret_store (u_waitpid target status f) r (case st of Some v \<Rightarrow> if status = 0 then [] else [(unat status, int_bytes v)] | None \<Rightarrow> []) s1)"
    "syscall_handler um rp seed n (u_execve pth argv envp f) s = map_option (\<lambda>(r, s1). case r of ExecRet c f1 \<Rightarrow> ret f1 (c, s1) | ExecWait ch fr cap got \<Rightarrow> SysLoad r s1)
      (do_exec um seed (u_execve pth argv envp f) (user_path um pth) (unat argv) (unat envp) s)"
  unfolding u_read_def u_write_def u_pipe_def u_stat_def u_readdir_def u_getcwd_def u_waitpid_def u_execve_def syscall_handler_def Let_def
    with_proc_def sys_read_def sys_write_def sys_pipe_def sys_stat_def sys_readdir_def sys_getcwd_def sys_waitpid_def sys_execve_def
    syscall_fields reg_int_c_long
  using assms by simp_all

section \<open>Properties\<close>



end
