(* ===== verification/Libc.thy ===== *)
theory Libc
  imports Process
begin

text \<open>
  The C library of user programs: \<^verbatim>\<open>lib/mini_string.c\<close>, \<^verbatim>\<open>lib/mini_printf.c\<close> and \<open>getenv\<close> of
  \<^verbatim>\<open>lib/mini_libc.h\<close>. A buffer that is only ever written at its end is the string written so far;
  \<open>printf\<close> gives the bytes it passes to \<^verbatim>\<open>sys_write\<close>. The arguments of a variadic call are a list; \<open>None\<close> is a
  call whose arguments do not match the format.
\<close>

section \<open>Strings\<close>

fun strlen :: "string \<Rightarrow> nat" where
  "strlen [] = 0"
| "strlen (c # s) = Suc (strlen s)"

lemma strlen_length [simp]: "strlen s = length s"
  by (induction s) simp_all

text \<open>\<^verbatim>\<open>while (*a && *a == *b)\<close>: the terminator reads as 0.\<close>

fun strcmp :: "string \<Rightarrow> string \<Rightarrow> int" where
  "strcmp (a # as) (b # bs) = (if a = b then strcmp as bs else uc a - uc b)"
| "strcmp as bs = (case as of [] \<Rightarrow> 0 | a # _ \<Rightarrow> uc a) - (case bs of [] \<Rightarrow> 0 | b # _ \<Rightarrow> uc b)"

lemma strcmp_kernel: "strcmp a b = k_strcmp a b"
  by (induction a b rule: k_strcmp.induct) simp_all

lemma strcmp_0_iff: "no_nul a \<Longrightarrow> no_nul b \<Longrightarrow> strcmp a b = 0 \<longleftrightarrow> a = b"
  by (simp add: strcmp_kernel k_strcmp_0_iff)

definition c_memcpy :: "nat \<Rightarrow> nat \<Rightarrow> nat \<Rightarrow> mem \<Rightarrow> mem" where
  "c_memcpy dst src n m = memcpy_from 0 dst src n m"

definition c_memset :: "nat \<Rightarrow> int \<Rightarrow> nat \<Rightarrow> mem \<Rightarrow> mem" where
  "c_memset dst val n m = memset_from 0 dst (of_int val) n m"

section \<open>Formatted output\<close>

definition digits :: string where
  "digits = ''0123456789abcdef''"

text \<open>The contents of \<^verbatim>\<open>tmp\<close>, lowest digit first. The bases of the callers are 10 and 16.\<close>

function uint_tmp :: "nat \<Rightarrow> nat \<Rightarrow> string" where
  "uint_tmp base v = (if v > 0 \<and> base \<ge> 2 then digits ! (v mod base) # uint_tmp base (v div base) else [])"
  by pat_completeness auto
termination
  by (relation "measure snd") auto

declare uint_tmp.simps [simp del]

text \<open>\<^verbatim>\<open>while (... && pos < bufsize - 1) buf[pos++] = ...\<close>\<close>

fun put_chars :: "nat \<Rightarrow> string \<Rightarrow> string \<Rightarrow> string" where
  "put_chars bufsize buf [] = buf"
| "put_chars bufsize buf (c # cs) = (if length buf < bufsize - 1 then put_chars bufsize (buf @ [c]) cs else buf)"

definition uint_chars :: "nat \<Rightarrow> nat \<Rightarrow> string" where
  "uint_chars base v = (if v = 0 then [CHR ''0''] else rev (uint_tmp base v))"

definition print_uint :: "string \<Rightarrow> nat \<Rightarrow> nat \<Rightarrow> nat \<Rightarrow> string" where
  "print_uint buf bufsize v base = put_chars bufsize buf (uint_chars base v)"

definition print_int :: "string \<Rightarrow> nat \<Rightarrow> int \<Rightarrow> string" where
  "print_int buf bufsize v =
     (if v < 0 then print_uint (if length buf < bufsize - 1 then buf @ [CHR ''-''] else buf) bufsize (nat (- v)) 10
      else print_uint buf bufsize (nat v) 10)"

datatype vararg = VInt int | VStr string

text \<open>One conversion behind a percent sign.\<close>

definition BUF_SIZE :: nat where "BUF_SIZE = 256"

fun conversion :: "char \<Rightarrow> string \<Rightarrow> vararg list \<Rightarrow> (string \<times> vararg list) option" where
  "conversion d buf ap =
     (if d = CHR ''d'' then (case ap of VInt v # ap' \<Rightarrow> Some (print_int buf BUF_SIZE v, ap') | _ \<Rightarrow> None)
      else if d = CHR ''s'' then (case ap of VStr s # ap' \<Rightarrow> Some (put_chars BUF_SIZE buf s, ap') | _ \<Rightarrow> None)
      else if d = CHR ''x'' then (case ap of VInt v # ap' \<Rightarrow> Some (print_uint buf BUF_SIZE (nat (v mod 2 ^ 32)) 16, ap') | _ \<Rightarrow> None)
      else if d = CHR ''c'' then (case ap of VInt v # ap' \<Rightarrow> Some (buf @ [char_of (nat (v mod 256))], ap') | _ \<Rightarrow> None)
      else if d = CHR ''%'' then Some (buf @ [CHR ''%''], ap)
      else Some (let b = buf @ [CHR ''%''] in if length b < BUF_SIZE - 1 then b @ [d] else b, ap))"

fun printf_loop :: "string \<Rightarrow> vararg list \<Rightarrow> string \<Rightarrow> string option" where
  "printf_loop [] ap buf = Some buf"
| "printf_loop (c # fmt) ap buf =
     (if \<not> length buf < BUF_SIZE - 1 then Some buf
      else if c \<noteq> CHR ''%'' then printf_loop fmt ap (buf @ [c])
      else case fmt of [] \<Rightarrow> Some buf
        | d # fmt' \<Rightarrow> (case conversion d buf ap of None \<Rightarrow> None | Some (b, ap') \<Rightarrow> printf_loop fmt' ap' b))"

definition printf :: "string \<Rightarrow> vararg list \<Rightarrow> string option" where
  "printf fmt ap = printf_loop fmt ap []"

section \<open>The environment\<close>

text \<open>The rest of an entry behind \<open>name=\<close>.\<close>

fun env_match :: "string \<Rightarrow> string \<Rightarrow> string option" where
  "env_match [] (e # es) = (if e = CHR ''='' then Some es else None)"
| "env_match (c # cs) (e # es) = (if e = c then env_match cs es else None)"
| "env_match _ [] = None"

fun env_scan :: "string \<Rightarrow> string list \<Rightarrow> string option" where
  "env_scan name [] = None"
| "env_scan name (e # es) = (case env_match name e of Some v \<Rightarrow> Some v | None \<Rightarrow> env_scan name es)"

definition getenv :: "string \<Rightarrow> string list \<Rightarrow> string option" where
  "getenv name environ = (if name = [] \<or> CHR ''='' \<in> set name then None else env_scan name environ)"

section \<open>What printf prints\<close>

text \<open>The reference: the whole expansion of the format, without a buffer.\<close>

definition int_chars :: "int \<Rightarrow> string" where
  "int_chars v = (if v < 0 then CHR ''-'' # uint_chars 10 (nat (- v)) else uint_chars 10 (nat v))"

definition conv_text :: "char \<Rightarrow> vararg list \<Rightarrow> (string \<times> vararg list) option" where
  "conv_text d ap =
     (if d = CHR ''d'' then (case ap of VInt v # ap' \<Rightarrow> Some (int_chars v, ap') | _ \<Rightarrow> None)
      else if d = CHR ''s'' then (case ap of VStr s # ap' \<Rightarrow> Some (s, ap') | _ \<Rightarrow> None)
      else if d = CHR ''x'' then (case ap of VInt v # ap' \<Rightarrow> Some (uint_chars 16 (nat (v mod 2 ^ 32)), ap') | _ \<Rightarrow> None)
      else if d = CHR ''c'' then (case ap of VInt v # ap' \<Rightarrow> Some ([char_of (nat (v mod 256))], ap') | _ \<Rightarrow> None)
      else if d = CHR ''%'' then Some ([CHR ''%''], ap)
      else Some ([CHR ''%'', d], ap))"

fun expand :: "string \<Rightarrow> vararg list \<Rightarrow> string option" where
  "expand [] ap = Some []"
| "expand (c # fmt) ap =
     (if c \<noteq> CHR ''%'' then map_option ((#) c) (expand fmt ap)
      else case fmt of [] \<Rightarrow> Some []
        | d # fmt' \<Rightarrow> (case conv_text d ap of None \<Rightarrow> None | Some (s, ap') \<Rightarrow> map_option ((@) s) (expand fmt' ap')))"

lemma put_chars_take: "length buf \<le> n - 1 \<Longrightarrow> put_chars n buf s = take (n - 1) (buf @ s)"
  by (induction n buf s rule: put_chars.induct) (auto simp: take_Cons')

lemma put_chars_full: "n - 1 \<le> length buf \<Longrightarrow> put_chars n buf s = buf"
  by (cases s) auto

lemma print_uint_take: "length buf \<le> n - 1 \<Longrightarrow> print_uint buf n v base = take (n - 1) (buf @ uint_chars base v)"
  by (simp add: print_uint_def put_chars_take)

lemma print_int_take: "length buf \<le> n - 1 \<Longrightarrow> print_int buf n v = take (n - 1) (buf @ int_chars v)"
  by (auto simp: print_int_def int_chars_def print_uint_take take_Cons')

lemma take_ext: "take n (take n a @ b) = take n (a @ b)"
  by (cases "length a \<le> n") simp_all

lemma printf_loop_full: "BUF_SIZE - 1 \<le> length buf \<Longrightarrow> printf_loop fmt ap buf = Some buf"
  by (cases fmt) auto

lemma conversion_take:
  "length buf < BUF_SIZE - 1 \<Longrightarrow> conversion d buf ap = map_option (\<lambda>(s, ap'). (take (BUF_SIZE - 1) (buf @ s), ap')) (conv_text d ap)"
proof -
  assume b: "length buf < BUF_SIZE - 1"
  then have le: "length buf \<le> BUF_SIZE - 1" and e: "take (BUF_SIZE - 1) (buf @ [c]) = buf @ [c]" for c by simp_all
  have e2: "take (BUF_SIZE - 1) (buf @ [c, c']) = (if length (buf @ [c]) < BUF_SIZE - 1 then buf @ [c, c'] else buf @ [c])" for c c'
    using b by (auto simp: take_Cons')
  show ?thesis
    unfolding conversion.simps conv_text_def Let_def e2 print_int_take [OF le] print_uint_take [OF le] put_chars_take [OF le]
    by (simp only: if_distrib [where f = "map_option _"] list.case_distrib [where h = "map_option _"] vararg.case_distrib [where h = "map_option _"]
        option.map prod.case e e2 append_assoc append.simps cong: if_cong)
qed

lemma printf_loop_expand:
  "expand fmt ap = Some s \<Longrightarrow> length buf \<le> BUF_SIZE - 1 \<Longrightarrow> printf_loop fmt ap buf = Some (take (BUF_SIZE - 1) (buf @ s))"
proof (induction fmt ap arbitrary: buf s rule: expand.induct)
  case (2 c fmt ap)
  show ?case
  proof (cases "length buf < BUF_SIZE - 1")
    case True
    then have b: "length (buf @ [x]) \<le> BUF_SIZE - 1" for x by simp
    show ?thesis
    proof (cases "c = CHR ''%''")
      case False
      with 2 True b show ?thesis by (auto simp: take_Cons')
    next
      case c: True
      show ?thesis
      proof (cases fmt)
        case Nil
        with "2.prems" c True show ?thesis by simp
      next
        case (Cons d fmt')
        obtain u ap' where u: "conv_text d ap = Some (u, ap')" using "2.prems" c Cons by (auto split: option.splits)
        then obtain s' where s': "expand fmt' ap' = Some s'" "s = u @ s'" using "2.prems" c Cons by auto
        have "printf_loop fmt' ap' (take (BUF_SIZE - 1) (buf @ u)) = Some (take (BUF_SIZE - 1) (take (BUF_SIZE - 1) (buf @ u) @ s'))"
          by (rule "2.IH"(2) [OF _ Cons u refl s'(1)]) (use c in simp_all)
        moreover have "printf_loop (c # fmt) ap buf = printf_loop fmt' ap' (take (BUF_SIZE - 1) (buf @ u))"
          unfolding printf_loop.simps conversion_take [OF True] using c Cons True u by (simp del: take_append)
        ultimately show ?thesis unfolding take_ext s'(2) append_assoc by simp
      qed
    qed
  next
    case False
    with "2.prems" show ?thesis by (simp add: printf_loop_full)
  qed
qed simp

section \<open>Numerals\<close>

lemma digit_value: "n < 16 \<Longrightarrow> hex_value (digits ! n) = n"
  using hex_value_digit [of n] by (simp add: digits_def hex_digit_def)

lemma numeral_value_snoc: "numeral_value b f (s @ [c]) = numeral_value b f s * b + f c"
  by (simp add: numeral_value_def)

lemma uint_tmp_value: "2 \<le> base \<Longrightarrow> base \<le> 16 \<Longrightarrow> numeral_value base hex_value (rev (uint_tmp base v)) = v"
proof (induction base v rule: uint_tmp.induct)
  case (1 base v)
  show ?case
  proof (cases "v = 0")
    case True
    then show ?thesis by (simp add: uint_tmp.simps [of base 0] numeral_value_def)
  next
    case False
    then have "v mod base < 16" using "1.prems" by (meson less_le_trans mod_less_divisor order_less_le_trans zero_less_numeral)
    then show ?thesis using False "1.prems" "1.IH"
      by (simp add: uint_tmp.simps [of base v] numeral_value_snoc digit_value)
  qed
qed

lemma uint_chars_value: "2 \<le> base \<Longrightarrow> base \<le> 16 \<Longrightarrow> numeral_value base hex_value (uint_chars base v) = v"
  using uint_tmp_value by (simp add: uint_chars_def) (simp add: numeral_value_def hex_value_def)

lemma uint_tmp_length: "2 \<le> base \<Longrightarrow> v < base ^ k \<Longrightarrow> length (uint_tmp base v) \<le> k"
proof (induction k arbitrary: v)
  case (Suc k)
  have "v div base < base ^ k" using Suc.prems by (simp add: less_mult_imp_div_less mult.commute)
  then show ?case using Suc by (simp add: uint_tmp.simps [of base v])
qed (simp add: uint_tmp.simps)

section \<open>Properties\<close>

text \<open>C40. \<open>printf\<close> prints the expansion of its format, cut off after 255 bytes: when every conversion finds an argument
  of its kind, the bytes passed to \<open>sys_write\<close> are exactly the first 255 of the expansion, so the 256-byte buffer is
  never overrun. The numerals in it have the value of the argument, and fit the 32-byte scratch buffer.\<close>

theorem printf_expands:
  assumes "expand fmt ap = Some out"
  shows "printf fmt ap = Some (take 255 out) \<and>
    (\<forall>v < 2 ^ 64. numeral_value 10 hex_value (uint_chars 10 v) = v \<and> length (uint_chars 10 v) \<le> 20 \<and>
                 numeral_value 16 hex_value (uint_chars 16 v) = v \<and> length (uint_chars 16 v) \<le> 16)"
proof -
  have "length (uint_chars 10 v) \<le> 20" "length (uint_chars 16 v) \<le> 16" if "v < 2 ^ 64" for v
  proof -
    have "v < 10 ^ 20" "v < 16 ^ 16" using that by simp_all
    then show "length (uint_chars 10 v) \<le> 20" "length (uint_chars 16 v) \<le> 16"
      using uint_tmp_length [of 10 v 20] uint_tmp_length [of 16 v 16] by (simp_all add: uint_chars_def)
  qed
  moreover have "printf fmt ap = Some (take 255 out)"
    using printf_loop_expand [OF assms, of "[]"] by (simp add: printf_def BUF_SIZE_def)
  ultimately show ?thesis using uint_chars_value [of 10] uint_chars_value [of 16] by simp
qed

theorem printf_expands_witness: "printf ''%s=%d, 0x%x%c%%%q'' [VStr ''n'', VInt (- 42), VInt 255, VInt 33] = Some ''n=-42, 0xff!%%q''"
proof -
  have "expand ''%s=%d, 0x%x%c%%%q'' [VStr ''n'', VInt (- 42), VInt 255, VInt 33] = Some ''n=-42, 0xff!%%q''"
    by (simp add: conv_text_def int_chars_def uint_chars_def uint_tmp.simps digits_def char_of_def bit_0)
  then show ?thesis using printf_expands by fastforce
qed

end
