(* ===== verification/ShellTok.thy ===== *)
theory ShellTok
  imports Libc
begin

text \<open>
  The shell \<^verbatim>\<open>bin/sh/main.c\<close>, first part: its environment table, its job table, the tokenizer and the parser of
  pipelines. A text pointer is a string, \<^verbatim>\<open>NULL\<close>, or a pointer past the end of the token arena.
\<close>

section \<open>Strings and the environment\<close>

definition MAX_LINE :: nat where [simp]: "MAX_LINE = 256"
definition MAX_ARGS :: nat where [simp]: "MAX_ARGS = 16"
definition MAX_STAGES :: nat where [simp]: "MAX_STAGES = 8"
definition MAX_TOKENS :: nat where [simp]: "MAX_TOKENS = MAX_ARGS * MAX_STAGES"
definition TOKEN_ARENA_SIZE :: nat where [simp]: "TOKEN_ARENA_SIZE = 512"
definition MAX_ENV :: nat where [simp]: "MAX_ENV = 32"
definition MAX_JOBS :: nat where [simp]: "MAX_JOBS = 16"
definition NAME_SIZE :: nat where [simp]: "NAME_SIZE = 32"
definition VALUE_SIZE :: nat where [simp]: "VALUE_SIZE = 128"

definition copy_bounded :: "nat \<Rightarrow> string \<Rightarrow> string" where
  "copy_bounded dst_size src = take (dst_size - 1) src"

definition between :: "char \<Rightarrow> char \<Rightarrow> char \<Rightarrow> bool" where
  "between lo hi c \<longleftrightarrow> uc lo \<le> uc c \<and> uc c \<le> uc hi"

definition is_var_char :: "char \<Rightarrow> bool" where
  "is_var_char c \<longleftrightarrow> between (CHR ''a'') (CHR ''z'') c \<or> between (CHR ''A'') (CHR ''Z'') c \<or>
     between (CHR ''0'') (CHR ''9'') c \<or> c = CHR ''_''"

fun digits_to_int :: "int \<Rightarrow> string \<Rightarrow> int" where
  "digits_to_int v [] = v"
| "digits_to_int v (c # s) = (if between (CHR ''0'') (CHR ''9'') c then digits_to_int (v * 10 + (uc c - 48)) s else v)"

text \<open>Values outside the range of \<^verbatim>\<open>int\<close> are undefined in the source and are not wrapped here.\<close>

definition str_to_int :: "string \<Rightarrow> int" where
  "str_to_int s = (if s \<noteq> [] \<and> hd s = CHR ''-'' then - digits_to_int 0 (tl s) else digits_to_int 0 s)"

record env_var =
  ev_name :: string
  ev_value :: string
  ev_used :: bool

type_synonym env = "nat \<Rightarrow> env_var"

definition env_named :: "env \<Rightarrow> string \<Rightarrow> nat \<Rightarrow> bool" where
  "env_named e name i \<longleftrightarrow> ev_used (e i) \<and> strcmp (ev_name (e i)) name = 0"

definition env_get :: "env \<Rightarrow> string \<Rightarrow> string option" where
  "env_get e name = map_option (\<lambda>i. ev_value (e i)) (scan_up (env_named e name) 0 MAX_ENV)"

definition env_set :: "string \<Rightarrow> string \<Rightarrow> env \<Rightarrow> env" where
  "env_set name val e =
     (case scan_up (env_named e name) 0 MAX_ENV of
        Some i \<Rightarrow> e(i := (e i)\<lparr>ev_value := copy_bounded VALUE_SIZE val\<rparr>)
      | None \<Rightarrow>
          (case scan_up (\<lambda>i. \<not> ev_used (e i)) 0 MAX_ENV of
             Some i \<Rightarrow> e(i := \<lparr>ev_name = copy_bounded NAME_SIZE name, ev_value = copy_bounded VALUE_SIZE val, ev_used = True\<rparr>)
           | None \<Rightarrow> e))"

definition is_assignment :: "string \<Rightarrow> bool" where
  "is_assignment word = (case word of [] \<Rightarrow> False
     | c # s \<Rightarrow> (between (CHR ''a'') (CHR ''z'') c \<or> between (CHR ''A'') (CHR ''Z'') c \<or> c = CHR ''_'') \<and>
         (case dropWhile is_var_char s of d # _ \<Rightarrow> d = CHR ''='' | [] \<Rightarrow> False))"

definition do_assignment :: "string \<Rightarrow> env \<Rightarrow> env" where
  "do_assignment word e =
     (let name = take (NAME_SIZE - 1) (takeWhile (\<lambda>c. c \<noteq> CHR ''='') word); rest = drop (length name) word
      in env_set name (if rest \<noteq> [] \<and> hd rest = CHR ''='' then tl rest else []) e)"

text \<open>The buffer of an entry has room for the largest name and value.\<close>

definition env_entry :: "env_var \<Rightarrow> string" where
  "env_entry v = take (NAME_SIZE + 1 + VALUE_SIZE - 1) (ev_name v @ CHR ''='' # ev_value v)"

definition build_envp_array :: "env \<Rightarrow> string list" where
  "build_envp_array e = map (\<lambda>i. env_entry (e i)) (filter (\<lambda>i. ev_used (e i)) [0..<MAX_ENV])"

section \<open>Jobs\<close>

record job =
  j_used :: bool
  j_id :: int
  j_pids :: "int list"
  j_stopped :: bool
  j_cmdline :: string

record jobs =
  job_table :: "nat \<Rightarrow> job"
  next_job_id :: int

definition add_job :: "int list \<Rightarrow> string \<Rightarrow> bool \<Rightarrow> jobs \<Rightarrow> int \<times> jobs" where
  "add_job pids cmdline stopped js =
     (case scan_up (\<lambda>i. \<not> j_used (job_table js i)) 0 MAX_JOBS of
        None \<Rightarrow> (- 1, js)
      | Some i \<Rightarrow>
          (next_job_id js,
           \<lparr>job_table = (job_table js)(i := \<lparr>j_used = True, j_id = next_job_id js, j_pids = pids, j_stopped = stopped,
              j_cmdline = copy_bounded MAX_LINE cmdline\<rparr>),
            next_job_id = next_job_id js + 1\<rparr>))"

definition find_job_by_id :: "int \<Rightarrow> jobs \<Rightarrow> nat option" where
  "find_job_by_id n js = scan_up (\<lambda>i. j_used (job_table js i) \<and> j_id (job_table js i) = n) 0 MAX_JOBS"

definition find_most_recent_job :: "jobs \<Rightarrow> nat option" where
  "find_most_recent_job js =
     fold (\<lambda>i best. if j_used (job_table js i) \<and> (case best of None \<Rightarrow> True | Some b \<Rightarrow> j_id (job_table js i) > j_id (job_table js b))
                     then Some i else best) [0..<MAX_JOBS] None"

definition resolve_job_arg :: "string option \<Rightarrow> jobs \<Rightarrow> nat option" where
  "resolve_job_arg arg js = (case arg of None \<Rightarrow> find_most_recent_job js
     | Some a \<Rightarrow> find_job_by_id (str_to_int (if a \<noteq> [] \<and> hd a = CHR ''%'' then tl a else a)) js)"

definition upd_job :: "nat \<Rightarrow> (job \<Rightarrow> job) \<Rightarrow> jobs \<Rightarrow> jobs" where
  "upd_job i f js = js\<lparr>job_table := (job_table js)(i := f (job_table js i))\<rparr>"

section \<open>The tokenizer\<close>

datatype cstr = CStr string | CNull | CWild

datatype token = TOK_WORD cstr | TOK_PIPE | TOK_REDIR_OUT | TOK_REDIR_IN | TOK_AMP

definition is_blank :: "char \<Rightarrow> bool" where
  "is_blank c \<longleftrightarrow> c = CHR '' '' \<or> c = CHR 0x09"

definition is_op :: "char \<Rightarrow> bool" where
  "is_op c \<longleftrightarrow> c = CHR ''|'' \<or> c = CHR ''>'' \<or> c = CHR ''<'' \<or> c = CHR ''&''"

text \<open>Characters appended to the arena, of which \<open>pos\<close> bytes are in use, and to the word \<open>w\<close> that is being built.\<close>

fun arena_put :: "string \<Rightarrow> nat \<times> string \<Rightarrow> nat \<times> string" where
  "arena_put [] (pos, w) = (pos, w)"
| "arena_put (c # s) (pos, w) = (if pos < TOKEN_ARENA_SIZE - 1 then arena_put s (pos + 1, w @ [c]) else (pos, w))"

definition var_name :: "string \<Rightarrow> string" where
  "var_name p = take (NAME_SIZE - 1) (takeWhile is_var_char p)"

function word_loop :: "env \<Rightarrow> string \<Rightarrow> bool \<Rightarrow> bool \<Rightarrow> nat \<times> string \<Rightarrow> string \<times> nat \<times> string" where
  "word_loop e [] in_single in_double a = ([], a)"
| "word_loop e (c # p) in_single in_double a =
     (if \<not> in_single \<and> \<not> in_double \<and> (is_blank c \<or> is_op c) then (c # p, a)
      else if \<not> in_double \<and> c = CHR 0x27 then word_loop e p (\<not> in_single) in_double a
      else if \<not> in_single \<and> c = CHR 0x22 then word_loop e p in_single (\<not> in_double) a
      else if \<not> in_single \<and> c = CHR ''$'' then
        word_loop e (drop (length (var_name p)) p) in_single in_double
          (case env_get e (var_name p) of None \<Rightarrow> a | Some v \<Rightarrow> arena_put v a)
      else word_loop e p in_single in_double (arena_put [c] a))"
  by pat_completeness auto
termination
  by (relation "measure (\<lambda>(e, p, _). length p)") auto

lemma word_loop_shorter: "length (fst (word_loop e p sq dq a)) \<le> length p"
  by (induction e p sq dq a rule: word_loop.induct) (auto simp: le_SucI intro: order_trans)

definition op_token :: "char \<Rightarrow> token" where
  "op_token c = (if c = CHR ''|'' then TOK_PIPE else if c = CHR ''>'' then TOK_REDIR_OUT
     else if c = CHR ''<'' then TOK_REDIR_IN else TOK_AMP)"

text \<open>A word that starts at the end of the arena is a pointer past it.\<close>

function tokenize_loop :: "env \<Rightarrow> nat \<Rightarrow> string \<Rightarrow> nat \<Rightarrow> token list" where
  "tokenize_loop e k p pos =
     (case dropWhile is_blank p of [] \<Rightarrow> []
      | c # q \<Rightarrow>
          if k = 0 then []
          else if is_op c then op_token c # tokenize_loop e (k - 1) q pos
          else
            let (rest, pos1, w) = word_loop e (c # q) False False (pos, []);
                pos2 = (if pos1 < TOKEN_ARENA_SIZE then pos1 + 1 else pos1)
            in TOK_WORD (if pos < TOKEN_ARENA_SIZE then CStr w else CWild) # tokenize_loop e (k - 1) rest pos2)"
  by pat_completeness auto
termination
  by (relation "measure (\<lambda>(e, k, p, pos). k)") auto

declare tokenize_loop.simps [simp del]

definition tokenize :: "env \<Rightarrow> string \<Rightarrow> nat \<Rightarrow> token list" where
  "tokenize e line max_toks = tokenize_loop e max_toks line 0"

section \<open>The parser\<close>

record stage =
  s_argv :: "cstr list"
  redirect_in :: cstr
  redirect_out :: cstr

datatype parse_error = TooManyStages | SyntaxError string

text \<open>One stage: the tokens up to the next pipe.\<close>

fun parse_stage :: "token list \<Rightarrow> stage \<Rightarrow> parse_error + (stage \<times> token list)" where
  "parse_stage [] s = Inr (s, [])"
| "parse_stage (TOK_PIPE # ts) s = Inr (s, TOK_PIPE # ts)"
| "parse_stage (TOK_REDIR_OUT # TOK_WORD w # ts) s = parse_stage ts (s\<lparr>redirect_out := w\<rparr>)"
| "parse_stage (TOK_REDIR_OUT # ts) s = Inl (SyntaxError ''>'')"
| "parse_stage (TOK_REDIR_IN # TOK_WORD w # ts) s = parse_stage ts (s\<lparr>redirect_in := w\<rparr>)"
| "parse_stage (TOK_REDIR_IN # ts) s = Inl (SyntaxError ''<'')"
| "parse_stage (TOK_WORD w # ts) s = parse_stage ts (if length (s_argv s) < MAX_ARGS - 1 then s\<lparr>s_argv := s_argv s @ [w]\<rparr> else s)"
| "parse_stage (TOK_AMP # ts) s = parse_stage ts (if length (s_argv s) < MAX_ARGS - 1 then s\<lparr>s_argv := s_argv s @ [CNull]\<rparr> else s)"

definition empty_stage :: stage where
  "empty_stage = \<lparr>s_argv = [], redirect_in = CNull, redirect_out = CNull\<rparr>"

fun parse_stages :: "nat \<Rightarrow> token list \<Rightarrow> parse_error + stage list" where
  "parse_stages 0 ts = (if ts = [] then Inr [] else Inl TooManyStages)"
| "parse_stages (Suc k) ts =
     (if ts = [] then Inr []
      else case parse_stage ts empty_stage of Inl err \<Rightarrow> Inl err
        | Inr (s, rest) \<Rightarrow>
            (case rest of [] \<Rightarrow> Inr [s]
             | _ # ts' \<Rightarrow> if ts' = [] then Inl (SyntaxError ''|'')
                 else (case parse_stages k ts' of Inl err \<Rightarrow> Inl err | Inr ss \<Rightarrow> Inr (s # ss))))"

definition parse_pipeline :: "token list \<Rightarrow> nat \<Rightarrow> parse_error + stage list" where
  "parse_pipeline ts max_stages = parse_stages max_stages ts"

section \<open>Quoted lines\<close>

text \<open>A token as it can be typed: a word in single quotes, an operator as it is, a blank behind it.\<close>

fun show_token :: "token \<Rightarrow> string" where
  "show_token (TOK_WORD (CStr w)) = CHR 0x27 # w @ [CHR 0x27, CHR '' '']"
| "show_token (TOK_WORD _) = []"
| "show_token TOK_PIPE = ''| ''"
| "show_token TOK_REDIR_OUT = ''> ''"
| "show_token TOK_REDIR_IN = ''< ''"
| "show_token TOK_AMP = ''& ''"

text \<open>A word that can be quoted, and the bytes its text takes in the arena.\<close>

fun quotable :: "token \<Rightarrow> bool" where
  "quotable (TOK_WORD (CStr w)) \<longleftrightarrow> CHR 0x27 \<notin> set w"
| "quotable (TOK_WORD _) \<longleftrightarrow> False"
| "quotable _ \<longleftrightarrow> True"

fun text_size :: "token \<Rightarrow> nat" where
  "text_size (TOK_WORD (CStr w)) = length w + 1"
| "text_size _ = 0"

lemma arena_put_Cons: "arena_put (c # s) a = arena_put s (arena_put [c] a)"
proof -
  have "\<not> fst a < TOKEN_ARENA_SIZE - 1 \<Longrightarrow> arena_put s a = a" by (cases s; cases a) auto
  then show ?thesis by (cases a) auto
qed

lemma arena_put_fits: "pos + length s \<le> TOKEN_ARENA_SIZE - 1 \<Longrightarrow> arena_put s (pos, w) = (pos + length s, w @ s)"
  by (induction s arbitrary: pos w) auto

lemma word_loop_quoted:
  "CHR 0x27 \<notin> set w \<Longrightarrow> word_loop e (w @ CHR 0x27 # rest) True False a = word_loop e rest False False (arena_put w a)"
proof (induction w arbitrary: a)
  case Nil
  then show ?case by (cases a) simp
next
  case (Cons c w)
  then show ?case by (auto simp: arena_put_Cons [of c w] simp del: arena_put.simps)
qed

lemma tokenize_quoted:
  assumes "\<forall>t \<in> set ts. quotable t" "length ts \<le> k" "pos + sum_list (map text_size ts) \<le> TOKEN_ARENA_SIZE"
  shows "tokenize_loop e k (concat (map show_token ts)) pos = ts"
  using assms
proof (induction ts arbitrary: k pos)
  case Nil
  then show ?case by (simp add: tokenize_loop.simps)
next
  case (Cons t ts)
  have k: "k \<noteq> 0" "length ts \<le> k - 1" using Cons.prems(2) by auto
  have skip: "tokenize_loop e j (CHR '' '' # s) p = tokenize_loop e j s p" for j s p
    by (simp add: tokenize_loop.simps [of e j] is_blank_def)
  show ?case
  proof (cases t)
    case (TOK_WORD x)
    then obtain w where t: "t = TOK_WORD (CStr w)" "CHR 0x27 \<notin> set w" using Cons.prems(1) by (cases x) auto
    let ?rest = "CHR '' '' # concat (map show_token ts)"
    have fits: "pos + length w \<le> TOKEN_ARENA_SIZE - 1" using Cons.prems(3) t(1) by simp
    have "word_loop e (CHR 0x27 # w @ CHR 0x27 # ?rest) False False (pos, []) = word_loop e ?rest False False (arena_put w (pos, []))"
      using word_loop_quoted [OF t(2)] by (simp add: is_blank_def is_op_def)
    also have "\<dots> = (?rest, pos + length w, w)" using arena_put_fits [OF fits] by (simp add: is_blank_def)
    finally have wl: "word_loop e (CHR 0x27 # w @ CHR 0x27 # ?rest) False False (pos, []) = (?rest, pos + length w, w)" .
    have ih: "tokenize_loop e (k - 1) (concat (map show_token ts)) (pos + length w + 1) = ts"
      using Cons.prems t(1) k(2) by (intro Cons.IH) auto
    have "tokenize_loop e k (show_token t @ concat (map show_token ts)) pos =
        tokenize_loop e k (CHR 0x27 # w @ CHR 0x27 # ?rest) pos" by (simp add: t(1))
    also have "\<dots> = TOK_WORD (CStr w) # tokenize_loop e (k - 1) ?rest (pos + length w + 1)"
      unfolding tokenize_loop.simps [of e k] using wl fits k(1) by (simp add: is_blank_def is_op_def)
    finally show ?thesis using ih skip t(1) by simp
  qed (use Cons k in \<open>simp_all add: tokenize_loop.simps [of e k] is_blank_def is_op_def op_token_def skip\<close>)
qed

section \<open>Printed pipelines\<close>

text \<open>The tokens of a stage and of a pipeline.\<close>

definition stage_tokens :: "stage \<Rightarrow> token list" where
  "stage_tokens s = map TOK_WORD (s_argv s) @
     (if redirect_in s = CNull then [] else [TOK_REDIR_IN, TOK_WORD (redirect_in s)]) @
     (if redirect_out s = CNull then [] else [TOK_REDIR_OUT, TOK_WORD (redirect_out s)])"

fun pipeline_tokens :: "stage list \<Rightarrow> token list" where
  "pipeline_tokens [] = []"
| "pipeline_tokens [s] = stage_tokens s"
| "pipeline_tokens (s # ss) = stage_tokens s @ TOK_PIPE # pipeline_tokens ss"

definition stage_ok :: "stage \<Rightarrow> bool" where
  "stage_ok s \<longleftrightarrow> s_argv s \<noteq> [] \<and> length (s_argv s) < MAX_ARGS"

lemma parse_words:
  "length (s_argv s) + length ws < MAX_ARGS \<Longrightarrow> parse_stage (map TOK_WORD ws @ ts) s = parse_stage ts (s\<lparr>s_argv := s_argv s @ ws\<rparr>)"
  by (induction ws arbitrary: s) auto

lemma parse_stage_tokens:
  assumes "stage_ok s" "rest = [] \<or> (\<exists>ts. rest = TOK_PIPE # ts)"
  shows "parse_stage (stage_tokens s @ rest) empty_stage = Inr (s, rest)"
proof -
  have stop: "parse_stage rest u = Inr (u, rest)" for u using assms(2) by auto
  have "parse_stage (map TOK_WORD (s_argv s) @ ts) empty_stage = parse_stage ts (empty_stage\<lparr>s_argv := s_argv s\<rparr>)" for ts
    using parse_words [of empty_stage "s_argv s" ts] assms(1) by (simp add: stage_ok_def empty_stage_def)
  then show ?thesis using stop by (simp add: stage_tokens_def empty_stage_def)
qed

lemma pipeline_tokens_Nil: "\<forall>s \<in> set ss. stage_ok s \<Longrightarrow> pipeline_tokens ss = [] \<longleftrightarrow> ss = []"
  by (cases ss rule: pipeline_tokens.cases) (auto simp: stage_tokens_def stage_ok_def)

lemma parse_pipeline_tokens:
  assumes "\<forall>s \<in> set ss. stage_ok s" "length ss \<le> k"
  shows "parse_stages k (pipeline_tokens ss) = Inr ss"
  using assms
proof (induction ss arbitrary: k rule: pipeline_tokens.induct)
  case 1
  then show ?case by (cases k) auto
next
  case (2 s)
  then obtain j where "k = Suc j" by (cases k) auto
  with 2 parse_stage_tokens [of s "[]"] pipeline_tokens_Nil [of "[s]"] show ?case by simp
next
  case (3 s s' ss)
  then obtain j where k: "k = Suc j" "length (s' # ss) \<le> j" by (cases k) auto
  have ih: "parse_stages j (pipeline_tokens (s' # ss)) = Inr (s' # ss)" using 3 k by simp
  have "pipeline_tokens (s' # ss) \<noteq> []" using "3.prems"(1) pipeline_tokens_Nil [of "s' # ss"] by simp
  with parse_stage_tokens [of s "TOK_PIPE # pipeline_tokens (s' # ss)"] ih "3.prems"(1) k(1) show ?case by simp
qed

section \<open>The environment of children\<close>

lemma scan_up_find: "scan_up P lo hi = find P [lo..<hi]"
proof (induction P lo hi rule: scan_up.induct)
  case (1 P lo hi)
  then show ?case by (cases "lo < hi") (simp_all add: scan_up.simps [of P lo hi] upt_conv_Cons)
qed

definition name_ok :: "string \<Rightarrow> bool" where
  "name_ok n \<longleftrightarrow> n \<noteq> [] \<and> no_nul n \<and> CHR ''='' \<notin> set n \<and> length n < NAME_SIZE"

definition env_ok :: "env \<Rightarrow> bool" where
  "env_ok e \<longleftrightarrow> (\<forall>i < MAX_ENV. ev_used (e i) \<longrightarrow> name_ok (ev_name (e i)) \<and> length (ev_value (e i)) < VALUE_SIZE)"

lemma env_named_iff: "env_ok e \<Longrightarrow> name_ok n \<Longrightarrow> i < MAX_ENV \<Longrightarrow> env_named e n i \<longleftrightarrow> ev_used (e i) \<and> ev_name (e i) = n"
  by (auto simp: env_named_def env_ok_def name_ok_def strcmp_0_iff)

lemma env_match_entry:
  "CHR ''='' \<notin> set n \<Longrightarrow> CHR ''='' \<notin> set m \<Longrightarrow> env_match n (m @ CHR ''='' # v) = (if m = n then Some v else None)"
proof (induction n arbitrary: m)
  case Nil
  then show ?case by (cases m) auto
next
  case (Cons c n)
  then show ?case by (cases m) auto
qed

lemma env_scan_find:
  assumes "env_ok e" "name_ok n" "set is \<subseteq> {..<MAX_ENV}"
  shows "env_scan n (map (\<lambda>i. env_entry (e i)) (filter (\<lambda>i. ev_used (e i)) is)) = map_option (\<lambda>i. ev_value (e i)) (find (env_named e n) is)"
  using assms(3)
proof (induction "is")
  case (Cons i "is")
  show ?case
  proof (cases "ev_used (e i)")
    case True
    then have o: "name_ok (ev_name (e i))" "length (ev_value (e i)) < VALUE_SIZE" using assms(1) Cons.prems by (auto simp: env_ok_def)
    then have "env_entry (e i) = ev_name (e i) @ CHR ''='' # ev_value (e i)" by (auto simp: env_entry_def name_ok_def)
    then have "env_match n (env_entry (e i)) = (if ev_name (e i) = n then Some (ev_value (e i)) else None)"
      using o(1) assms(2) by (simp add: env_match_entry name_ok_def)
    then show ?thesis using Cons True env_named_iff [OF assms(1,2), of i] by simp
  next
    case False
    then show ?thesis using Cons by (simp add: env_named_def)
  qed
qed simp

lemma getenv_envp: "env_ok e \<Longrightarrow> name_ok n \<Longrightarrow> getenv n (build_envp_array e) = env_get e n"
  unfolding getenv_def build_envp_array_def env_get_def scan_up_find
  using env_scan_find [of e n "[0..<MAX_ENV]"] by (auto simp: name_ok_def lessThan_atLeast0)

lemma env_set_cases:
  assumes "env_ok e" "name_ok n" "length v < VALUE_SIZE" "(\<exists>i < MAX_ENV. env_named e n i) \<or> (\<exists>i < MAX_ENV. \<not> ev_used (e i))"
  obtains i where "i < MAX_ENV" "env_set n v e = e(i := \<lparr>ev_name = n, ev_value = v, ev_used = True\<rparr>)"
    "\<And>j. j < MAX_ENV \<Longrightarrow> env_named e n j \<Longrightarrow> i \<le> j" "env_named e n i \<or> \<not> ev_used (e i)"
proof (cases "scan_up (env_named e n) 0 MAX_ENV")
  case (Some i)
  note s = scan_up_SomeD [OF Some]
  have "ev_name (e i) = n" "ev_used (e i)" using s env_named_iff [OF assms(1,2)] by auto
  then have "env_set n v e = e(i := \<lparr>ev_name = n, ev_value = v, ev_used = True\<rparr>)"
    using Some assms(3) by (cases "e i") (simp add: env_set_def copy_bounded_def)
  then show ?thesis using that s by (metis linorder_not_le zero_le)
next
  case None
  then have no: "\<not> env_named e n j" if "j < MAX_ENV" for j using that by (auto simp: scan_up_None_iff)
  then obtain i where i: "scan_up (\<lambda>i. \<not> ev_used (e i)) 0 MAX_ENV = Some i"
    using assms(4) by (cases "scan_up (\<lambda>i. \<not> ev_used (e i)) 0 MAX_ENV") (auto simp: scan_up_None_iff)
  have "env_set n v e = e(i := \<lparr>ev_name = n, ev_value = v, ev_used = True\<rparr>)"
    using None i assms(2,3) by (simp add: env_set_def copy_bounded_def name_ok_def)
  then show ?thesis using that scan_up_SomeD [OF i] no by blast
qed

lemma env_set_effect:
  assumes "env_ok e" "name_ok n" "length v < VALUE_SIZE" "(\<exists>i < MAX_ENV. env_named e n i) \<or> (\<exists>i < MAX_ENV. \<not> ev_used (e i))"
  shows "env_ok (env_set n v e)" "env_get (env_set n v e) n = Some v"
    "name_ok m \<Longrightarrow> m \<noteq> n \<Longrightarrow> env_get (env_set n v e) m = env_get e m"
proof -
  obtain i where i: "i < MAX_ENV" "env_set n v e = e(i := \<lparr>ev_name = n, ev_value = v, ev_used = True\<rparr>)"
    "\<And>j. j < MAX_ENV \<Longrightarrow> env_named e n j \<Longrightarrow> i \<le> j" "env_named e n i \<or> \<not> ev_used (e i)"
    using env_set_cases [OF assms] by blast
  show ok: "env_ok (env_set n v e)" using assms(1-3) unfolding i(2) env_ok_def by auto
  have nm: "env_named (env_set n v e) m j \<longleftrightarrow> (if j = i then m = n else env_named e m j)" if "name_ok m" "j < MAX_ENV" for m j
    using env_named_iff [OF ok that] env_named_iff [OF assms(1) that] unfolding i(2) by auto
  have "\<not> env_named (env_set n v e) n j" if "j < i" for j using nm [OF assms(2), of j] i(1) i(3) [of j] that by auto
  then have "scan_up (env_named (env_set n v e) n) 0 MAX_ENV = scan_up (env_named (env_set n v e) n) i MAX_ENV" by (intro scan_up_skip) auto
  also have "\<dots> = Some i" using nm [OF assms(2) i(1)] i(1) by (simp add: scan_up.simps [of _ i])
  finally have "scan_up (env_named (env_set n v e) n) 0 MAX_ENV = Some i" .
  then show "env_get (env_set n v e) n = Some v" by (simp add: env_get_def i(2))
  assume m: "name_ok m" "m \<noteq> n"
  then have "env_named (env_set n v e) m j = env_named e m j" if "j < MAX_ENV" for j
    using nm [OF m(1) that] i(4) env_named_iff [OF assms(1) m(1) i(1)] env_named_iff [OF assms(1,2) i(1)] by auto
  then have "scan_up (env_named (env_set n v e) m) 0 MAX_ENV = scan_up (env_named e m) 0 MAX_ENV" by (intro scan_up_cong) auto
  moreover have "j \<noteq> i" if "scan_up (env_named e m) 0 MAX_ENV = Some j" for j
    using scan_up_SomeD [OF that] i(4) env_named_iff [OF assms(1) m(1) i(1)] env_named_iff [OF assms(1,2) i(1)] m(2) by auto
  ultimately show "env_get (env_set n v e) m = env_get e m"
    by (cases "scan_up (env_named e m) 0 MAX_ENV") (auto simp: env_get_def i(2))
qed

section \<open>Properties\<close>

text \<open>C35. A command line means what was typed. Whatever is in the environment, a pipeline of at most eight stages with
  between one and fifteen arguments each, written with every word in single quotes, is read back by tokenizer and
  parser as exactly that pipeline, with its redirections, as long as the words fit the arena and the token table.\<close>

theorem command_line_roundtrip:
  assumes "ss \<noteq> []" "length ss \<le> MAX_STAGES" "\<forall>s \<in> set ss. stage_ok s" "\<forall>t \<in> set (pipeline_tokens ss). quotable t"
    "length (pipeline_tokens ss) \<le> MAX_TOKENS" "sum_list (map text_size (pipeline_tokens ss)) \<le> TOKEN_ARENA_SIZE"
  shows "parse_pipeline (tokenize e (concat (map show_token (pipeline_tokens ss))) MAX_TOKENS) MAX_STAGES = Inr ss"
  using tokenize_quoted [OF assms(4,5), of 0 e] assms(6) parse_pipeline_tokens [OF assms(3,2)]
  by (simp add: tokenize_def parse_pipeline_def)

definition demo_env :: env where
  "demo_env = (\<lambda>_. \<lparr>ev_name = [], ev_value = [], ev_used = False\<rparr>)"

theorem command_line_roundtrip_witness:
  "parse_pipeline (tokenize demo_env (concat (map show_token [TOK_WORD (CStr ''ls''), TOK_WORD (CStr ''a b|c''), TOK_PIPE,
      TOK_WORD (CStr ''cat''), TOK_REDIR_OUT, TOK_WORD (CStr ''$x'')])) MAX_TOKENS) MAX_STAGES =
   Inr [\<lparr>s_argv = [CStr ''ls'', CStr ''a b|c''], redirect_in = CNull, redirect_out = CNull\<rparr>,
        \<lparr>s_argv = [CStr ''cat''], redirect_in = CNull, redirect_out = CStr ''$x''\<rparr>]"
  using command_line_roundtrip [of "[\<lparr>s_argv = [CStr ''ls'', CStr ''a b|c''], redirect_in = CNull, redirect_out = CNull\<rparr>,
        \<lparr>s_argv = [CStr ''cat''], redirect_in = CNull, redirect_out = CStr ''$x''\<rparr>]" demo_env]
  by (simp add: stage_ok_def stage_tokens_def)



end
