(* ===== verification/UserProg.thy ===== *)
theory UserProg
  imports Libc ProcWait
begin

text \<open>
  User programs. A program is a tree of system calls, each with what follows for every reply of the kernel; it ends
  with a value, by \<^verbatim>\<open>sys_exit\<close>, or in behaviour that C leaves undefined, such as reading through a null pointer.
  The calls are the wrappers of \<^verbatim>\<open>lib/mini_libc.h\<close>, without the register moves around the \<^verbatim>\<open>syscall\<close> instruction.
\<close>

section \<open>Programs\<close>

text \<open>\<open>SysNum\<close> is a call by number with its argument registers.\<close>

datatype sys =
    SysRead int nat
  | SysWrite int string
  | SysOpen3 string int nat
  | SysClose int
  | SysStat string
  | SysPipe
  | SysDup2 int int
  | SysGetpid
  | SysFork
  | SysExecve string "string list" "string list"
  | SysWaitpid int
  | SysKill int int
  | SysGetcwd nat
  | SysChdir string
  | SysMkdir string
  | SysUnlink string
  | SysChmod string nat
  | SysChown string nat nat
  | SysGetuid
  | SysGetgid
  | SysSetuid nat
  | SysSetgid nat
  | SysReaddir string int nat
  | SysSetForeground "int list"
  | SysTtySetRaw int
  | SysTtySetEcho int
  | SysNum nat "int list"

text \<open>The return value and what the kernel stores through the pointers of the call.\<close>

record reply =
  r_ret :: int
  r_data :: string
  r_fds :: "int \<times> int"
  r_status :: int
  r_stat :: vfs_stat

datatype 'a prog = Ret 'a | Call sys "reply \<Rightarrow> 'a prog" | Exit int | Undef

primrec bind :: "'a prog \<Rightarrow> ('a \<Rightarrow> 'b prog) \<Rightarrow> 'b prog" where
  "bind (Ret x) f = f x"
| "bind (Call c k) f = Call c (\<lambda>r. bind (k r) f)"
| "bind (Exit n) f = Exit n"
| "bind Undef f = Undef"

definition call :: "sys \<Rightarrow> reply prog" where
  "call c = Call c Ret"

text \<open>Two programs one after the other, and a loop over a list.\<close>

definition andthen :: "'a prog \<Rightarrow> 'b prog \<Rightarrow> 'b prog" where
  "andthen p q = bind p (\<lambda>_. q)"

primrec for_each :: "'b list \<Rightarrow> ('b \<Rightarrow> 's \<Rightarrow> 's prog) \<Rightarrow> 's \<Rightarrow> 's prog" where
  "for_each [] body s = Ret s"
| "for_each (x # xs) body s = bind (body x s) (for_each xs body)"

definition print :: "string \<Rightarrow> vararg list \<Rightarrow> unit prog" where
  "print fmt ap = (case printf fmt ap of None \<Rightarrow> Undef | Some out \<Rightarrow> Call (SysWrite 1 out) (\<lambda>_. Ret ()))"

text \<open>The calls a program makes when the kernel gives the replies \<open>rs\<close>, and what is left of it.\<close>

primrec interact :: "'a prog \<Rightarrow> reply list \<Rightarrow> sys list \<times> 'a prog" where
  "interact (Ret x) rs = ([], Ret x)"
| "interact (Call c k) rs = (case rs of [] \<Rightarrow> ([c], Call c k)
     | r # rs' \<Rightarrow> (let (cs, p) = interact (k r) rs' in (c # cs, p)))"
| "interact (Exit n) rs = ([], Exit n)"
| "interact Undef rs = ([], Undef)"

section \<open>Reasoning about all replies\<close>

text \<open>\<open>ensures Q R h p\<close>: after the history \<open>h\<close> of calls and replies, every call of \<open>p\<close> satisfies \<open>Q\<close> with the history before it,
  whatever the kernel answers, and if \<open>p\<close> ends with a value, that satisfies \<open>R\<close>.\<close>

type_synonym history = "(sys \<times> reply) list"

primrec ensures :: "(history \<Rightarrow> sys \<Rightarrow> bool) \<Rightarrow> (history \<Rightarrow> 'a \<Rightarrow> bool) \<Rightarrow> 'a prog \<Rightarrow> history \<Rightarrow> bool" where
  "ensures Q R (Ret x) = (\<lambda>h. R h x)"
| "ensures Q R (Call c k) = (\<lambda>h. Q h c \<and> (\<forall>r. ensures Q R (k r) (h @ [(c, r)])))"
| "ensures Q R (Exit n) = (\<lambda>h. True)"
| "ensures Q R Undef = (\<lambda>h. True)"

lemma bind_assoc: "bind (bind p f) g = bind p (\<lambda>x. bind (f x) g)"
  by (induction p) simp_all

lemma ensures_bind [simp]: "ensures Q R (bind p f) h \<longleftrightarrow> ensures Q (\<lambda>h x. ensures Q R (f x) h) p h"
  by (induction p arbitrary: h) auto

lemma ensures_mono:
  "ensures Q R p h \<Longrightarrow> (\<And>h x. R h x \<Longrightarrow> R' h x) \<Longrightarrow> ensures Q R' p h"
  by (induction p arbitrary: h) auto

lemma ensures_andthen [simp]: "ensures Q R (andthen p q) h \<longleftrightarrow> ensures Q (\<lambda>h _. ensures Q R q h) p h"
  by (simp add: andthen_def)

lemma ensures_call [simp]: "ensures Q R (call c) h \<longleftrightarrow> Q h c \<and> (\<forall>r. R (h @ [(c, r)]) r)"
  by (simp add: call_def)

lemma ensures_print:
  "(\<And>out. Q h (SysWrite 1 out)) \<Longrightarrow> (\<And>out r. R (h @ [(SysWrite 1 out, r)]) ()) \<Longrightarrow> ensures Q R (print fmt ap) h"
  by (simp add: print_def split: option.split)

text \<open>A loop keeps an invariant of the history and the state that may depend on what has been done.\<close>

lemma ensures_for_each:
  assumes "I [] h s" "\<And>ys x zs h s. xs = ys @ x # zs \<Longrightarrow> I ys h s \<Longrightarrow> ensures Q (I (ys @ [x])) (body x s) h"
    "\<And>h s. I xs h s \<Longrightarrow> R h s"
  shows "ensures Q R (for_each xs body s) h"
proof -
  have "ensures Q R (for_each zs body s) h" if "xs = ys @ zs" "I ys h s" for ys zs h s
    using that
  proof (induction zs arbitrary: ys h s)
    case Nil
    then show ?case using assms(3) by simp
  next
    case (Cons x zs)
    have "ensures Q (I (ys @ [x])) (body x s) h" by (rule assms(2)) (use Cons.prems in auto)
    then show ?case unfolding for_each.simps ensures_bind by (rule ensures_mono) (rule Cons.IH, use Cons.prems in auto)
  qed
  then show ?thesis using assms(1) by simp
qed

text \<open>Programs that make only calls of a kind.\<close>

primrec only :: "(sys \<Rightarrow> bool) \<Rightarrow> 'a prog \<Rightarrow> bool" where
  "only A (Ret x) \<longleftrightarrow> True"
| "only A (Call c k) \<longleftrightarrow> A c \<and> (\<forall>r. only A (k r))"
| "only A (Exit n) \<longleftrightarrow> True"
| "only A Undef \<longleftrightarrow> True"

lemma only_bind: "only A p \<Longrightarrow> (\<And>x. only A (f x)) \<Longrightarrow> only A (bind p f)"
  by (induction p) auto

lemma only_andthen: "only A p \<Longrightarrow> only A q \<Longrightarrow> only A (andthen p q)"
  by (simp add: andthen_def only_bind)

lemma only_print: "(\<And>out. A (SysWrite 1 out)) \<Longrightarrow> only A (print fmt ap)"
  by (simp add: print_def split: option.split)

lemma only_for_each: "(\<And>x s. only A (body x s)) \<Longrightarrow> only A (for_each xs body s)"
  by (induction xs arbitrary: s) (auto intro: only_bind)

lemmas only_intros = only_bind only_andthen only_print only_for_each

lemma ensures_only:
  assumes "only A p" "S h" "\<And>h c r. S h \<Longrightarrow> A c \<Longrightarrow> Q h c \<and> S (h @ [(c, r)])"
  shows "ensures Q (\<lambda>h _. S h) p h"
  using assms(1,2)
proof (induction p arbitrary: h)
  case (Call c k)
  then show ?case using assms(3) by auto
qed auto

section \<open>Reasoning about given replies\<close>

text \<open>A program that makes the calls \<open>cs\<close> for the replies \<open>rs\<close>, uses them all and ends with a value.\<close>

definition runs :: "'a prog \<Rightarrow> reply list \<Rightarrow> sys list \<Rightarrow> 'a \<Rightarrow> bool" where
  "runs p rs cs x \<longleftrightarrow> interact p rs = (cs, Ret x) \<and> length cs = length rs"

lemma runs_Ret: "runs (Ret x) [] [] x"
  by (simp add: runs_def)

lemma runs_Call: "runs (k r) rs cs x \<Longrightarrow> runs (Call c k) (r # rs) (c # cs) x"
  by (simp add: runs_def)

lemma runs_bind: "runs p rs cs x \<Longrightarrow> runs (f x) rs' cs' y \<Longrightarrow> runs (bind p f) (rs @ rs') (cs @ cs') y"
proof (induction p arbitrary: rs cs)
  case (Call c k)
  then obtain r rs1 where rs: "rs = r # rs1" by (cases rs) (auto simp: runs_def)
  with Call.prems obtain cs1 where cs: "cs = c # cs1" "runs (k r) rs1 cs1 x" by (auto simp: runs_def split: prod.splits)
  have "runs (bind (k r) f) (rs1 @ rs') (cs1 @ cs') y" by (rule Call.IH) (use cs Call.prems in auto)
  then show ?case by (simp add: rs cs runs_Call)
qed (auto simp: runs_def)

lemma runs_andthen: "runs p rs cs x \<Longrightarrow> runs q rs' cs' y \<Longrightarrow> runs (andthen p q) (rs @ rs') (cs @ cs') y"
  by (simp add: andthen_def runs_bind)

definition reply0 :: "int \<Rightarrow> int \<times> int \<Rightarrow> reply" where
  "reply0 n ends = \<lparr>r_ret = n, r_data = [], r_fds = ends, r_status = 0, r_stat = \<lparr>st_type = 0, st_size = 0, st_uid = 0, st_gid = 0, st_mode = 0\<rparr>\<rparr>"

end
