(* ===== verification/Shell.thy ===== *)
theory Shell
  imports ShellTok UserProg
begin

text \<open>
  The shell \<^verbatim>\<open>bin/sh/main.c\<close>, second part: the search for commands, redirections, builtins, the execution of
  pipelines and the main loop, as programs over the system calls.
\<close>

section \<open>Commands\<close>

record sh =
  sh_env :: env
  sh_jobs :: jobs

definition MAX_PATH :: nat where [simp]: "MAX_PATH = 128"

text \<open>Reading through a text pointer.\<close>

definition deref :: "cstr \<Rightarrow> (string \<Rightarrow> 'a prog) \<Rightarrow> 'a prog" where
  "deref p k = (case p of CStr s \<Rightarrow> k s | _ \<Rightarrow> Undef)"

definition path_dir :: "string \<Rightarrow> string" where
  "path_dir p = take (MAX_PATH - 1) (takeWhile (\<lambda>c. c \<noteq> CHR '':'') p)"

definition path_rest :: "string \<Rightarrow> string" where
  "path_rest p = (let rest = drop (length (path_dir p)) p in case rest of c # q \<Rightarrow> if c = CHR '':'' then q else rest | [] \<Rightarrow> [])"

lemma path_rest_shorter [termination_simp]: "p \<noteq> [] \<Longrightarrow> length (path_rest p) < length p"
proof -
  assume p: "p \<noteq> []"
  show ?thesis
  proof (cases "hd p = CHR '':''")
    case True
    with p show ?thesis by (cases p) (auto simp: path_rest_def path_dir_def)
  next
    case False
    with p have "length (path_dir p) > 0" by (cases p) (auto simp: path_dir_def)
    then have "length (drop (length (path_dir p)) p) < length p" using p by simp
    then show ?thesis using p by (auto simp: path_rest_def Let_def split: list.split simp del: length_drop)
  qed
qed

definition candidate_of :: "string \<Rightarrow> string \<Rightarrow> string" where
  "candidate_of dir cmd =
     (let c0 = take (MAX_PATH - 1) dir; c1 = (if c0 = [] \<or> last c0 \<noteq> CHR ''/'' then c0 @ ''/'' else c0)
      in c1 @ take (MAX_PATH - 1 - length c1) cmd)"

text \<open>The terminator of a candidate of 128 characters would be stored behind its buffer.\<close>

fun path_search :: "string \<Rightarrow> string \<Rightarrow> string option prog" where
  "path_search cmd p =
     (if p = [] then Ret None
      else let candidate = candidate_of (path_dir p) cmd in
        if length candidate \<ge> MAX_PATH then Undef
        else Call (SysStat candidate) (\<lambda>r. if r_ret r = 0 \<and> st_type (r_stat r) = 0 then Ret (Some candidate) else path_search cmd (path_rest p)))"

declare path_search.simps [simp del]

definition resolve_command :: "env \<Rightarrow> string \<Rightarrow> nat \<Rightarrow> string option prog" where
  "resolve_command e cmd out_size =
     (if CHR ''/'' \<in> set cmd then Ret (Some (copy_bounded out_size cmd))
      else bind (path_search cmd (case env_get e ''PATH'' of Some p \<Rightarrow> p | None \<Rightarrow> ''/bin''))
             (\<lambda>r. Ret (map_option (copy_bounded out_size) r)))"

definition redirect :: "cstr \<Rightarrow> int \<Rightarrow> nat \<Rightarrow> int \<Rightarrow> string \<Rightarrow> bool prog" where
  "redirect target flags omode fd msg =
     (if target = CNull then Ret True
      else deref target (\<lambda>path. Call (SysOpen3 path flags omode) (\<lambda>r.
        if r_ret r < 0 then andthen (print msg [VStr path]) (Ret False)
        else Call (SysDup2 (r_ret r) fd) (\<lambda>_. Call (SysClose (r_ret r)) (\<lambda>_. Ret True)))))"

definition setup_redirections :: "stage \<Rightarrow> bool prog" where
  "setup_redirections s =
     bind (redirect (redirect_out s) (O_CREAT + 1 + O_TRUNC) 420 1 (''sh: cannot open %s for writing'' @ [CHR 0x0A]))
       (\<lambda>ok. if ok then redirect (redirect_in s) 0 0 0 (''sh: cannot open %s'' @ [CHR 0x0A]) else Ret False)"

section \<open>Builtins\<close>

definition reclaim_foreground :: "unit prog" where
  "reclaim_foreground = Call (SysSetForeground []) (\<lambda>_. Call (SysTtySetRaw 0) (\<lambda>_. Call (SysTtySetEcho 1) (\<lambda>_. Ret ())))"

definition kill_all :: "int list \<Rightarrow> int \<Rightarrow> unit prog" where
  "kill_all pids sig = for_each pids (\<lambda>p _. Call (SysKill p sig) (\<lambda>_. Ret ())) ()"

definition line_of :: "string \<Rightarrow> string" where
  "line_of s = s @ [CHR 0x0A]"

definition wait_all :: "int list \<Rightarrow> bool prog" where
  "wait_all pids = for_each pids (\<lambda>p stopped. Call (SysWaitpid p) (\<lambda>r. Ret (stopped \<or> WIFSTOPPED (r_status r)))) False"

definition builtin_cd :: "string option \<Rightarrow> sh \<Rightarrow> sh prog" where
  "builtin_cd arg st =
     (let target = (case arg of Some t \<Rightarrow> t | None \<Rightarrow> ''/'')
      in Call (SysChdir target) (\<lambda>r. if r_ret r \<noteq> 0 then andthen (print (line_of ''cd: no such directory: %s'') [VStr target]) (Ret st)
                                     else Ret st))"

definition builtin_export :: "string list \<Rightarrow> sh \<Rightarrow> sh prog" where
  "builtin_export args st = Ret (st\<lparr>sh_env := fold (\<lambda>a e. if is_assignment a then do_assignment a e else e) args (sh_env st)\<rparr>)"

definition builtin_env :: "sh \<Rightarrow> sh prog" where
  "builtin_env st = andthen (for_each (filter (\<lambda>i. ev_used (sh_env st i)) [0..<MAX_ENV])
     (\<lambda>i _. print (line_of ''%s=%s'') [VStr (ev_name (sh_env st i)), VStr (ev_value (sh_env st i))]) ()) (Ret st)"

definition kill_usage :: "sh \<Rightarrow> sh prog" where
  "kill_usage st = andthen (print (line_of ''usage: kill [-SIG] <pid|%%job>'') []) (Ret st)"

definition kill_target :: "int \<Rightarrow> string \<Rightarrow> sh \<Rightarrow> sh prog" where
  "kill_target sig target st =
     (if target \<noteq> [] \<and> hd target = CHR ''%'' then
        (case find_job_by_id (str_to_int (tl target)) (sh_jobs st) of
           None \<Rightarrow> andthen (print (line_of ''kill: no such job'') []) (Ret st)
         | Some j \<Rightarrow> andthen (kill_all (j_pids (job_table (sh_jobs st) j)) sig) (Ret st))
      else
        let p = str_to_int target in
        if p \<le> 0 then andthen (print (line_of (''kill: invalid pid '' @ CHR 0x27 # ''%s'' @ [CHR 0x27])) [VStr target]) (Ret st)
        else Call (SysKill p sig) (\<lambda>r.
          if r_ret r < 0 then andthen (print (line_of ''kill: (%d) - no such process or unrecognized signal'') [VInt p]) (Ret st) else Ret st))"

definition builtin_kill :: "cstr list \<Rightarrow> sh \<Rightarrow> sh prog" where
  "builtin_kill args st =
     (case args of [] \<Rightarrow> kill_usage st
      | a # rest \<Rightarrow> deref a (\<lambda>s.
          if s \<noteq> [] \<and> hd s = CHR ''-'' then
            (case rest of [] \<Rightarrow> kill_usage st | b # _ \<Rightarrow> deref b (\<lambda>target. kill_target (str_to_int (tl s)) target st))
          else kill_target SIGTERM s st))"

definition builtin_jobs :: "sh \<Rightarrow> sh prog" where
  "builtin_jobs st = andthen (for_each (filter (\<lambda>i. j_used (job_table (sh_jobs st) i)) [0..<MAX_JOBS])
     (\<lambda>i _. let j = job_table (sh_jobs st) i in
        print (line_of ''[%d]%s %s'') [VInt (j_id j), VStr (if j_stopped j then ''  Stopped'' else ''  Running''), VStr (j_cmdline j)]) ()) (Ret st)"

definition set_job :: "nat \<Rightarrow> (job \<Rightarrow> job) \<Rightarrow> sh \<Rightarrow> sh" where
  "set_job i f st = st\<lparr>sh_jobs := upd_job i f (sh_jobs st)\<rparr>"

definition builtin_fg :: "string option \<Rightarrow> sh \<Rightarrow> sh prog" where
  "builtin_fg arg st =
     (case resolve_job_arg arg (sh_jobs st) of
        None \<Rightarrow> andthen (print (line_of ''fg: no such job'') []) (Ret st)
      | Some i \<Rightarrow>
          let j = job_table (sh_jobs st) i in
          andthen (print (line_of ''%s'') [VStr (j_cmdline j)])
            (andthen (if j_stopped j then kill_all (j_pids j) SIGCONT else Ret ())
              (Call (SysSetForeground (j_pids j)) (\<lambda>_.
                 bind (wait_all (j_pids j)) (\<lambda>stopped.
                   andthen reclaim_foreground
                     (if stopped then andthen (print (line_of ''[%d]+  Stopped %s'') [VInt (j_id j), VStr (j_cmdline j)])
                                        (Ret (set_job i (\<lambda>j. j\<lparr>j_stopped := True\<rparr>) st))
                      else Ret (set_job i (\<lambda>j. j\<lparr>j_used := False, j_stopped := False\<rparr>) st)))))))"

definition builtin_bg :: "string option \<Rightarrow> sh \<Rightarrow> sh prog" where
  "builtin_bg arg st =
     (case resolve_job_arg arg (sh_jobs st) of
        None \<Rightarrow> andthen (print (line_of ''bg: no such job'') []) (Ret st)
      | Some i \<Rightarrow>
          let j = job_table (sh_jobs st) i in
          if \<not> j_stopped j then andthen (print (line_of ''bg: job already running'') []) (Ret st)
          else andthen (kill_all (j_pids j) SIGCONT)
                 (andthen (print (line_of ''[%d]  %s &'') [VInt (j_id j), VStr (j_cmdline j)])
                   (Ret (set_job i (\<lambda>j. j\<lparr>j_stopped := False\<rparr>) st))))"

fun deref_list :: "cstr list \<Rightarrow> (string list \<Rightarrow> 'a prog) \<Rightarrow> 'a prog" where
  "deref_list [] k = k []"
| "deref_list (p # ps) k = deref p (\<lambda>s. deref_list ps (\<lambda>ss. k (s # ss)))"

text \<open>A pointer that may be null.\<close>

definition maybe :: "cstr \<Rightarrow> (string option \<Rightarrow> 'a prog) \<Rightarrow> 'a prog" where
  "maybe p k = (case p of CStr s \<Rightarrow> k (Some s) | CNull \<Rightarrow> k None | CWild \<Rightarrow> Undef)"

definition builtin_exit :: "cstr list \<Rightarrow> 'a prog" where
  "builtin_exit args =
     (let leave = (\<lambda>code. andthen (print (line_of ''bye!'') []) (Exit code))
      in case args of [] \<Rightarrow> leave 0 | a # _ \<Rightarrow> deref a (\<lambda>s. leave (str_to_int s)))"

definition run_builtin :: "stage \<Rightarrow> sh \<Rightarrow> (bool \<times> sh) prog" where
  "run_builtin s st =
     (case s_argv s of [] \<Rightarrow> Ret (True, st)
      | cmd # args \<Rightarrow> deref cmd (\<lambda>name.
          let handled = (\<lambda>p. bind p (\<lambda>st'. Ret (True, st')));
              home = (case env_get (sh_env st) ''HOME'' of Some h \<Rightarrow> CStr h | None \<Rightarrow> CNull);
              arg = (\<lambda>d. case args of [] \<Rightarrow> d | a # _ \<Rightarrow> a)
          in
          if name = ''exit'' then builtin_exit args
          else if name = ''cd'' then handled (maybe (arg home) (\<lambda>a. builtin_cd a st))
          else if name = ''export'' then handled (deref_list args (\<lambda>as. builtin_export as st))
          else if name = ''env'' then handled (builtin_env st)
          else if name = ''kill'' then handled (builtin_kill args st)
          else if name = ''jobs'' then handled (builtin_jobs st)
          else if name = ''fg'' then handled (maybe (arg CNull) (\<lambda>a. builtin_fg a st))
          else if name = ''bg'' then handled (maybe (arg CNull) (\<lambda>a. builtin_bg a st))
          else Ret (False, st)))"

section \<open>Pipelines\<close>

text \<open>The ends of the pipes between the stages; \<open>None\<close> when one cannot be made.\<close>

fun make_pipes :: "nat \<Rightarrow> (int \<times> int) list \<Rightarrow> (int \<times> int) list option prog" where
  "make_pipes 0 ps = Ret (Some ps)"
| "make_pipes (Suc n) ps =
     Call SysPipe (\<lambda>r. if r_ret r \<noteq> 0 then andthen (print (line_of ''sh: pipe failed'') []) (Ret None)
                       else make_pipes n (ps @ [r_fds r]))"

definition close_pipes :: "(int \<times> int) list \<Rightarrow> unit prog" where
  "close_pipes ps = for_each ps (\<lambda>(a, b) _. Call (SysClose a) (\<lambda>_. Call (SysClose b) (\<lambda>_. Ret ()))) ()"

text \<open>The argument vector up to the first null pointer.\<close>

fun exec_args :: "cstr list \<Rightarrow> string list option" where
  "exec_args [] = Some []"
| "exec_args (CNull # ps) = Some []"
| "exec_args (CWild # ps) = None"
| "exec_args (CStr s # ps) = map_option ((#) s) (exec_args ps)"

definition child_exec :: "env \<Rightarrow> stage \<Rightarrow> 'a prog" where
  "child_exec e s =
     (case s_argv s of [] \<Rightarrow> Exit 0
      | cmd # _ \<Rightarrow> deref cmd (\<lambda>name. bind (resolve_command e name MAX_PATH) (\<lambda>found. case found of
          None \<Rightarrow> andthen (print (line_of ''%s: command not found'') [VStr name]) (Exit 127)
        | Some file \<Rightarrow> (case exec_args (s_argv s) of None \<Rightarrow> Undef
            | Some args \<Rightarrow> Call (SysExecve file args (build_envp_array e)) (\<lambda>_.
                andthen (print (line_of ''%s: exec failed'') [VStr name]) (Exit 127))))))"

definition child_stage :: "env \<Rightarrow> (int \<times> int) list \<Rightarrow> nat \<Rightarrow> nat \<Rightarrow> stage \<Rightarrow> 'a prog" where
  "child_stage e ps n i s =
     andthen (if i > 0 then andthen (call (SysDup2 (fst (ps ! (i - 1))) 0)) (Ret ()) else Ret ())
       (andthen (if i < n - 1 then andthen (call (SysDup2 (snd (ps ! i)) 1)) (Ret ()) else Ret ())
         (andthen (close_pipes ps)
           (bind (setup_redirections s) (\<lambda>ok. if ok then child_exec e s else Exit 1))))"

definition fork_stages :: "env \<Rightarrow> (int \<times> int) list \<Rightarrow> stage list \<Rightarrow> int list prog" where
  "fork_stages e ps ss =
     for_each [0..<length ss] (\<lambda>i pids. Call SysFork (\<lambda>r.
       if r_ret r = 0 then child_stage e ps (length ss) i (ss ! i)
       else if r_ret r > 0 then Ret (pids @ [r_ret r])
       else andthen (print (line_of ''sh: fork failed'') []) (Ret (pids @ [- 1])))) []"

definition add_job_sh :: "int list \<Rightarrow> string \<Rightarrow> bool \<Rightarrow> sh \<Rightarrow> int \<times> sh" where
  "add_job_sh pids cmdline stopped st = (let (n, js) = add_job pids cmdline stopped (sh_jobs st) in (n, st\<lparr>sh_jobs := js\<rparr>))"

definition run_background :: "int list \<Rightarrow> string \<Rightarrow> sh \<Rightarrow> sh prog" where
  "run_background pids cmdline st =
     (let (n, st') = add_job_sh pids cmdline False st in
      andthen (print ''[%d]'' [VInt n])
        (andthen (for_each (filter (\<lambda>p. p > 0) pids) (\<lambda>p _. print '' %d'' [VInt p]) ())
          (andthen (print [CHR 0x0A] []) (Ret st'))))"

definition run_foreground :: "int list \<Rightarrow> string \<Rightarrow> sh \<Rightarrow> sh prog" where
  "run_foreground pids cmdline st =
     Call (SysSetForeground pids) (\<lambda>_.
       bind (wait_all (filter (\<lambda>p. p > 0) pids)) (\<lambda>stopped.
         andthen reclaim_foreground
           (if stopped then
              let (n, st') = add_job_sh pids cmdline True st
              in andthen (print (line_of ''[%d]+  Stopped %s'') [VInt n, VStr cmdline]) (Ret st')
            else Ret st)))"

definition run_stages :: "stage list \<Rightarrow> bool \<Rightarrow> string \<Rightarrow> sh \<Rightarrow> sh prog" where
  "run_stages ss background cmdline st =
     bind (make_pipes (length ss - 1) []) (\<lambda>made. case made of None \<Rightarrow> Ret st
       | Some ps \<Rightarrow> bind (fork_stages (sh_env st) ps ss) (\<lambda>pids.
           andthen (close_pipes ps)
             (if background then run_background pids cmdline st else run_foreground pids cmdline st)))"

definition run_pipeline :: "stage list \<Rightarrow> bool \<Rightarrow> string \<Rightarrow> sh \<Rightarrow> sh prog" where
  "run_pipeline ss background cmdline st =
     (case ss of [s] \<Rightarrow> bind (run_builtin s st) (\<lambda>(handled, st'). if handled then Ret st' else run_stages ss background cmdline st')
      | _ \<Rightarrow> run_stages ss background cmdline st)"

section \<open>The main loop\<close>

definition seed_entry :: "string \<Rightarrow> env \<Rightarrow> env" where
  "seed_entry entry_text e =
     (let n = takeWhile (\<lambda>c. c \<noteq> CHR ''='') entry_text in
      if length n = length entry_text then e
      else env_set (take (NAME_SIZE - 1) n) (drop (length n + 1) entry_text) e)"

definition sh_start :: "string list \<Rightarrow> sh" where
  "sh_start envp = \<lparr>sh_env = fold seed_entry envp (env_set ''HOME'' ''/'' (env_set ''PATH'' ''/bin''
       (\<lambda>_. \<lparr>ev_name = [], ev_value = [], ev_used = False\<rparr>))),
     sh_jobs = \<lparr>job_table = (\<lambda>_. \<lparr>j_used = False, j_id = 0, j_pids = [], j_stopped = False, j_cmdline = []\<rparr>), next_job_id = 1\<rparr>\<rparr>"

text \<open>The bytes of a read as a C string: the newline at the end is cut off, and a NUL byte ends it.\<close>

definition input_line :: "string \<Rightarrow> string" where
  "input_line bs = takeWhile (\<lambda>c. c \<noteq> CHR 0x00) (if bs \<noteq> [] \<and> last bs = CHR 0x0A then butlast bs else bs)"

definition parse_message :: "parse_error \<Rightarrow> unit prog" where
  "parse_message err = (case err of
      TooManyStages \<Rightarrow> print (line_of ''sh: too many pipeline stages'') []
    | SyntaxError w \<Rightarrow> print (line_of (''sh: syntax error near '' @ CHR 0x27 # ''%s'' @ [CHR 0x27])) [VStr w])"

definition run_tokens :: "token list \<Rightarrow> bool \<Rightarrow> string \<Rightarrow> sh \<Rightarrow> sh prog" where
  "run_tokens ts background line st =
     (let run = (case parse_pipeline ts MAX_STAGES of
          Inl err \<Rightarrow> andthen (parse_message err) (Ret st)
        | Inr ss \<Rightarrow> if ss = [] then Ret st else run_pipeline ss background line st)
      in case ts of
          [TOK_WORD p] \<Rightarrow> deref p (\<lambda>w. if is_assignment w then Ret (st\<lparr>sh_env := do_assignment w (sh_env st)\<rparr>) else run)
        | _ \<Rightarrow> run)"

definition run_line :: "string \<Rightarrow> sh \<Rightarrow> sh prog" where
  "run_line line st =
     (let ts = tokenize (sh_env st) line MAX_TOKENS in
      if ts = [] then Ret st
      else if last ts = TOK_AMP then (if butlast ts = [] then Ret st else run_tokens (butlast ts) True line st)
      else run_tokens ts False line st)"

text \<open>One turn of the loop of \<open>main\<close>.\<close>

definition sh_turn :: "sh \<Rightarrow> sh prog" where
  "sh_turn st =
     Call SysGetuid (\<lambda>u. andthen (print (if r_ret u = 0 then ''# '' else ''$ '') [])
       (Call (SysRead 0 (MAX_LINE - 1)) (\<lambda>r. if r_ret r \<le> 0 then Ret st else run_line (input_line (r_data r)) st)))"

fun sh_turns :: "nat \<Rightarrow> sh \<Rightarrow> sh prog" where
  "sh_turns 0 st = Ret st"
| "sh_turns (Suc n) st = bind (sh_turn st) (sh_turns n)"

definition sh_main :: "nat \<Rightarrow> string list \<Rightarrow> sh prog" where
  "sh_main n envp =
     andthen (print (CHR 0x0A # line_of ''ISUNUX shell -- type a command (try: ls, echo hi | cat, cat hello.txt > /tmp/copy.txt)'') [])
       (sh_turns n (sh_start envp))"

end
