(* ===== verification/Programs.thy ===== *)
theory Programs
  imports Shell
begin

text \<open>
  The user programs under \<^verbatim>\<open>bin\<close>: \<^verbatim>\<open>echo\<close>, \<^verbatim>\<open>cat\<close>, \<^verbatim>\<open>ls\<close>, \<^verbatim>\<open>mkdir\<close>, \<^verbatim>\<open>rm\<close>, \<^verbatim>\<open>touch\<close>, \<^verbatim>\<open>chmod\<close>, \<^verbatim>\<open>chown\<close>, \<^verbatim>\<open>kill\<close>, \<^verbatim>\<open>pwd\<close>, \<^verbatim>\<open>id\<close>, \<^verbatim>\<open>su\<close>,
  \<^verbatim>\<open>clear\<close>, \<^verbatim>\<open>spin\<close> and \<^verbatim>\<open>shafetch\<close>. A \<^verbatim>\<open>main\<close> is a program over the system calls whose value is the exit status. A loop
  that ends only when the kernel says so has a bound on its turns; when the bound is reached the value is \<open>None\<close>.
\<close>

section \<open>Small programs\<close>

definition c_int :: "int \<Rightarrow> int" where
  "c_int n = signed_take_bit 31 n"

definition write_string :: "int \<Rightarrow> string \<Rightarrow> unit prog" where
  "write_string fd s = Call (SysWrite fd s) (\<lambda>_. Ret ())"

definition clear_main :: "int prog" where
  "clear_main = andthen (write_string 1 [CHR 0x0C]) (Ret 0)"

fun echo_args :: "string list \<Rightarrow> unit prog" where
  "echo_args [] = Ret ()"
| "echo_args (a # as) = andthen (write_string 1 a) (andthen (if as \<noteq> [] then write_string 1 '' '' else Ret ()) (echo_args as))"

definition echo_main :: "string list \<Rightarrow> int prog" where
  "echo_main argv = andthen (echo_args (tl argv)) (andthen (write_string 1 [CHR 0x0A]) (Ret 0))"

definition id_main :: "int prog" where
  "id_main = Call SysGetuid (\<lambda>u. Call SysGetgid (\<lambda>g.
     andthen (print (line_of ''uid=%d gid=%d'') [VInt (c_int (r_ret u)), VInt (c_int (r_ret g))]) (Ret 0)))"

text \<open>The length in the source counts the NUL byte of some messages.\<close>

definition pwd_main :: "int prog" where
  "pwd_main = Call (SysGetcwd 256) (\<lambda>r.
     if r_ret r < 0 then andthen (write_string 2 (line_of ''pwd: failed to get current directory'' @ [CHR 0x00])) (Ret 1)
     else andthen (write_string 1 (take (nat (r_ret r)) (r_data r))) (andthen (write_string 1 [CHR 0x0A]) (Ret 0)))"

text \<open>The first \<open>k\<close> beats.\<close>

fun spin_beats :: "nat \<Rightarrow> int \<Rightarrow> unit prog" where
  "spin_beats 0 n = Ret ()"
| "spin_beats (Suc k) n = andthen (print (line_of ''heartbeat %d'') [VInt (c_int n)]) (spin_beats k (n + 1))"

section \<open>Programs over their arguments\<close>

text \<open>A call for each argument; a failure is reported and makes the status 1.\<close>

definition each_arg :: "(string \<Rightarrow> sys) \<Rightarrow> string \<Rightarrow> string list \<Rightarrow> int prog" where
  "each_arg c msg args = for_each args (\<lambda>a status. Call (c a) (\<lambda>r.
     if r_ret r < 0 then andthen (print msg [VStr a]) (Ret 1) else Ret status)) 0"

definition quoted_s :: "string \<Rightarrow> string" where
  "quoted_s pre = line_of (pre @ CHR 0x27 # ''%s'' @ [CHR 0x27])"

definition mkdir_main :: "string list \<Rightarrow> int prog" where
  "mkdir_main argv =
     (if length argv < 2 then andthen (write_string 2 (line_of ''usage: mkdir <dir>'')) (Ret 1)
      else each_arg SysMkdir (quoted_s ''mkdir: cannot create directory '') (tl argv))"

definition rm_main :: "string list \<Rightarrow> int prog" where
  "rm_main argv =
     (if length argv < 2 then andthen (write_string 2 (line_of ''usage: rm <file>'')) (Ret 1)
      else each_arg SysUnlink (quoted_s ''rm: cannot remove '') (tl argv))"

definition sys_create :: "string \<Rightarrow> int prog" where
  "sys_create pth = Call (SysOpen3 pth (0x40 + 0x80 + 1) 420) (\<lambda>r.
     if r_ret r \<ge> 0 then Call (SysClose (c_int (r_ret r))) (\<lambda>_. Ret (r_ret r)) else Ret (r_ret r))"

fun touch_args :: "string list \<Rightarrow> int prog" where
  "touch_args [] = Ret 0"
| "touch_args (a # as) = Call (SysStat a) (\<lambda>r.
     if r_ret r = 0 then touch_args as
     else bind (sys_create a) (\<lambda>n. if n < 0 then andthen (print (quoted_s ''touch: cannot create '') [VStr a]) (Ret 1) else touch_args as))"

definition touch_main :: "string list \<Rightarrow> int prog" where
  "touch_main argv =
     (if length argv < 2 then andthen (write_string 2 (line_of ''usage: touch <file>'' @ [CHR 0x00])) (Ret 1) else touch_args (tl argv))"

text \<open>Digits of a base up to the first other character, with wrap-around, and the rest.\<close>

fun read_digits :: "nat \<Rightarrow> nat \<Rightarrow> string \<Rightarrow> nat \<times> string" where
  "read_digits base v [] = (v, [])"
| "read_digits base v (c # s) =
     (if 48 \<le> (of_char c :: nat) \<and> of_char c < 48 + base then read_digits base (wrap64 (v * base + (of_char c - 48))) s else (v, c # s))"

definition starts_digit :: "string \<Rightarrow> bool" where
  "starts_digit s \<longleftrightarrow> s \<noteq> [] \<and> between (CHR ''0'') (CHR ''9'') (hd s)"

definition chmod_mode :: "string \<Rightarrow> nat option" where
  "chmod_mode s = (let (m, rest) = read_digits 8 0 s in if rest = s \<or> rest \<noteq> [] then None else Some m)"

definition chmod_main :: "string list \<Rightarrow> int prog" where
  "chmod_main argv =
     (if length argv < 3 then andthen (write_string 2 (line_of ''usage: chmod <octal-mode> <path>...'' @ [CHR 0x00])) (Ret 1)
      else case chmod_mode (argv ! 1) of
        None \<Rightarrow> andthen (print (line_of (''chmod: invalid mode '' @ CHR 0x27 # ''%s'' @ CHR 0x27 # '' (expected octal, e.g. 755)'')) [VStr (argv ! 1)]) (Ret 1)
      | Some m \<Rightarrow> each_arg (\<lambda>a. SysChmod a m) (quoted_s ''chmod: cannot change '') (drop 2 argv))"

text \<open>The owner and the group, or the message of the failure.\<close>

definition chown_spec :: "string \<Rightarrow> string + nat \<times> nat" where
  "chown_spec s =
     (if \<not> starts_digit s then Inl ''chown: invalid owner ''
      else let (uid, p) = read_digits 10 0 s in
        if p \<noteq> [] \<and> hd p = CHR '':'' \<and> \<not> starts_digit (tl p) then Inl ''chown: invalid group ''
        else let (gid, q) = (if p \<noteq> [] \<and> hd p = CHR '':'' then read_digits 10 0 (tl p) else (0, p)) in
          if q \<noteq> [] then Inl ''chown: invalid owner spec '' else Inr (uid, gid))"

definition chown_main :: "string list \<Rightarrow> int prog" where
  "chown_main argv =
     (if length argv < 3 then andthen (write_string 2 (line_of ''usage: chown <uid>[:<gid>] <path>...'' @ [CHR 0x00])) (Ret 1)
      else case chown_spec (argv ! 1) of
        Inl msg \<Rightarrow> andthen (print (quoted_s msg) [VStr (argv ! 1)]) (Ret 1)
      | Inr (uid, gid) \<Rightarrow> each_arg (\<lambda>a. SysChown a uid gid) (quoted_s ''chown: cannot change '') (drop 2 argv))"

text \<open>The process number of an argument of \<^verbatim>\<open>kill\<close>, if it is one.\<close>

definition kill_pid :: "string \<Rightarrow> int option" where
  "kill_pid s =
     (let neg = (s \<noteq> [] \<and> hd s = CHR ''-''); p = (if neg then tl s else s);
          v = digits_to_int 0 p; rest = dropWhile (between (CHR ''0'') (CHR ''9'')) p; n = (if neg then - v else v)
      in if \<not> starts_digit p \<or> rest \<noteq> [] \<or> n \<le> 0 then None else Some n)"

definition kill_main :: "string list \<Rightarrow> int prog" where
  "kill_main argv =
     (if length argv < 2 then andthen (write_string 2 (line_of ''usage: kill <pid> [signum]'' @ [CHR 0x00])) (Ret 1)
      else case kill_pid (argv ! 1) of
        None \<Rightarrow> andthen (print (quoted_s ''kill: invalid pid '') [VStr (argv ! 1)]) (Ret 1)
      | Some p \<Rightarrow> Call (SysKill p (if length argv > 2 then digits_to_int 0 (argv ! 2) else SIGTERM)) (\<lambda>r.
          if r_ret r < 0 then andthen (print (line_of ''kill: (%d) - no such process or unrecognized signal'') [VInt p]) (Ret 1) else Ret 0))"

definition su_switch :: "nat \<Rightarrow> nat \<Rightarrow> string list \<Rightarrow> int prog" where
  "su_switch uid gid envp =
     Call (SysSetgid gid) (\<lambda>_. Call (SysSetuid uid) (\<lambda>r.
       if r_ret r < 0 then andthen (print (line_of ''su: permission denied'') []) (Ret 1)
       else Call (SysExecve ''/bin/sh'' [''sh''] envp) (\<lambda>_. andthen (print (line_of ''su: failed to exec /bin/sh'') []) (Ret 1))))"

definition su_main :: "string list \<Rightarrow> string list \<Rightarrow> int prog" where
  "su_main argv envp =
     (if length argv < 2 then andthen (write_string 2 (line_of ''usage: su <uid> [gid]'')) (Ret 1)
      else if \<not> starts_digit (argv ! 1) then andthen (print (quoted_s ''su: invalid uid '') [VStr (argv ! 1)]) (Ret 1)
      else let uid = fst (read_digits 10 0 (argv ! 1)) in
        if length argv > 2 then
          (if \<not> starts_digit (argv ! 2) then andthen (print (quoted_s ''su: invalid gid '') [VStr (argv ! 2)]) (Ret 1)
           else su_switch uid (fst (read_digits 10 0 (argv ! 2))) envp)
        else su_switch uid uid envp)"

section \<open>Programs that read to the end\<close>

fun copy_fd :: "nat \<Rightarrow> int \<Rightarrow> unit option prog" where
  "copy_fd 0 fd = Ret None"
| "copy_fd (Suc k) fd = Call (SysRead fd 128) (\<lambda>r.
     if r_ret r > 0 then andthen (write_string 1 (take (nat (r_ret r)) (r_data r))) (copy_fd k fd) else Ret (Some ()))"

fun cat_files :: "nat \<Rightarrow> string list \<Rightarrow> int option prog" where
  "cat_files k [] = Ret (Some 0)"
| "cat_files k (a # as) = Call (SysOpen3 a 0 0) (\<lambda>r.
     if r_ret r < 0 then andthen (print (line_of ''cat: cannot open %s'') [VStr a]) (cat_files k as)
     else bind (copy_fd k (c_int (r_ret r))) (\<lambda>d. case d of None \<Rightarrow> Ret None
       | Some _ \<Rightarrow> Call (SysClose (c_int (r_ret r))) (\<lambda>_. cat_files k as)))"

definition cat_main :: "nat \<Rightarrow> string list \<Rightarrow> int option prog" where
  "cat_main k argv =
     (if length argv < 2 then bind (copy_fd k 0) (\<lambda>d. Ret (map_option (\<lambda>_. 0) d)) else cat_files k (tl argv))"

definition format_mode :: "bool \<Rightarrow> nat \<Rightarrow> string" where
  "format_mode is_dir md =
     (if is_dir then CHR ''d'' else CHR ''-'') #
     concat (map (\<lambda>g. let triplet = md div 2 ^ ((2 - g) * 3) mod 8
                       in map (\<lambda>b. if odd (triplet div 2 ^ (2 - b)) then ''rwx'' ! b else CHR ''-'') [0..<3]) [0..<3])"

definition join_path :: "string \<Rightarrow> string \<Rightarrow> nat \<Rightarrow> string" where
  "join_path dir name out_size =
     (let d = take (out_size - 1) dir;
          d1 = (if (d = [] \<or> last d \<noteq> CHR ''/'') \<and> length d + 1 < out_size then d @ ''/'' else d)
      in d1 @ take (out_size - 1 - length d1) name)"

definition ls_entry :: "bool \<Rightarrow> string \<Rightarrow> string \<Rightarrow> unit prog" where
  "ls_entry long_format pth name =
     (if \<not> long_format then print (line_of ''%s'') [VStr name]
      else Call (SysStat (join_path pth name 196)) (\<lambda>r.
        if r_ret r < 0 then print (line_of ''??????????    ?    ?        ? %s'') [VStr name]
        else let st = r_stat r in
          print (line_of ''%s %d %d %d %s'') [VStr (format_mode (st_type st = 1) (st_mode st)), VInt (c_int (int (st_uid st))),
            VInt (c_int (int (st_gid st))), VInt (c_int (int (st_size st))), VStr name]))"

text \<open>The entries from \<open>i\<close> on; the value says whether there was one.\<close>

fun ls_entries :: "nat \<Rightarrow> bool \<Rightarrow> string \<Rightarrow> int \<Rightarrow> bool \<Rightarrow> bool option prog" where
  "ls_entries 0 long_format pth i any = Ret None"
| "ls_entries (Suc k) long_format pth i any = Call (SysReaddir pth i 64) (\<lambda>r.
     if r_ret r \<le> 0 then Ret (Some any)
     else andthen (ls_entry long_format pth (r_data r)) (ls_entries k long_format pth (i + 1) True))"

definition ls_dir :: "nat \<Rightarrow> bool \<Rightarrow> string \<Rightarrow> int option prog" where
  "ls_dir k long_format pth = bind (ls_entries k long_format pth 0 False) (\<lambda>d. case d of None \<Rightarrow> Ret None
     | Some any \<Rightarrow> andthen (if any then Ret () else print (line_of (''ls: %s: not a directory, empty, or doesn'' @ CHR 0x27 # ''t exist'')) [VStr pth])
         (Ret (Some 0)))"

definition ls_main :: "nat \<Rightarrow> string list \<Rightarrow> int option prog" where
  "ls_main k argv =
     (let (long_format, pth) = fold (\<lambda>a (l, p). if a = ''-l'' then (True, p) else (l, Some a)) (tl argv) (False, None)
      in case pth of Some p \<Rightarrow> ls_dir k long_format p
         | None \<Rightarrow> Call (SysGetcwd 128) (\<lambda>r. if r_ret r < 0 then Undef else ls_dir k long_format (r_data r)))"

section \<open>A picture of the system\<close>

definition LOGO_WIDTH :: nat where [simp]: "LOGO_WIDTH = 16"

definition logo :: "string list" where
  "logo = ['' .-----------.'', '' | > _       |'', '' |           |'', CHR '' '' # CHR 0x27 # ''-----------'' @ [CHR 0x27]]"

fun count_entries :: "nat \<Rightarrow> string \<Rightarrow> int \<Rightarrow> int option prog" where
  "count_entries 0 pth i = Ret None"
| "count_entries (Suc k) pth i = Call (SysReaddir pth i 64) (\<lambda>r. if r_ret r \<le> 0 then Ret (Some i) else count_entries k pth (i + 1))"

definition pad :: "nat \<Rightarrow> unit prog" where
  "pad printed = for_each [printed..<LOGO_WIDTH] (\<lambda>_ _. print '' '' []) ()"

definition fetch_text :: "string \<Rightarrow> int \<Rightarrow> nat \<Rightarrow> unit prog" where
  "fetch_text dir bins row =
     (if row = 0 then print (line_of ''root@isunux'') []
      else if row = 1 then print (line_of ''-----------'') []
      else if row = 2 then print (line_of ''OS: ISUNUX x86_64'') []
      else if row = 3 then print (line_of ''Shell: /bin/sh'') []
      else if row = 4 then print (line_of ''CWD: %s'') [VStr dir]
      else if row = 5 then print (line_of ''Bins: %d in /bin'') [VInt bins]
      else print [CHR 0x0A] [])"

definition shafetch_main :: "nat \<Rightarrow> int option prog" where
  "shafetch_main k = Call (SysGetcwd 128) (\<lambda>r.
     let dir = (if r_ret r \<le> 0 then ''/'' else r_data r) in
     bind (count_entries k ''/bin'' 0) (\<lambda>n. case n of None \<Rightarrow> Ret None | Some bins \<Rightarrow>
       andthen (for_each [0..<max (length logo) 6] (\<lambda>row _.
           andthen (if row < length logo then andthen (print ''%s'' [VStr (logo ! row)]) (pad (length (logo ! row))) else pad 0)
             (fetch_text dir bins row)) ())
         (Ret (Some 0))))"

section \<open>Properties\<close>

definition read_pairs :: "(reply \<times> reply) list \<Rightarrow> reply list" where
  "read_pairs rs = concat (map (\<lambda>(r, w). [r, w]) rs)"

definition copied :: "int \<Rightarrow> (reply \<times> reply) list \<Rightarrow> sys list" where
  "copied fd rs = concat (map (\<lambda>(r, w). [SysRead fd 128, SysWrite 1 (take (nat (r_ret r)) (r_data r))]) rs) @ [SysRead fd 128]"

lemma runs_copy_fd:
  "length rs < k \<Longrightarrow> list_all (\<lambda>(r, w). r_ret r > 0) rs \<Longrightarrow> r_ret eof \<le> 0 \<Longrightarrow>
   runs (copy_fd k fd) (read_pairs rs @ [eof]) (copied fd rs) (Some ())"
proof (induction rs arbitrary: k)
  case Nil
  then obtain k' where "k = Suc k'" by (cases k) auto
  with Nil show ?case by (auto simp: read_pairs_def copied_def intro!: runs_Call runs_Ret)
next
  case (Cons x rs)
  obtain r w where x: "x = (r, w)" by (cases x)
  obtain k' where k: "k = Suc k'" "length rs < k'" using Cons.prems(1) by (cases k) auto
  have "runs (copy_fd k' fd) (read_pairs rs @ [eof]) (copied fd rs) (Some ())" using Cons.IH [OF k(2)] Cons.prems by simp
  then have "runs (copy_fd k fd) (r # w # read_pairs rs @ [eof])
      (SysRead fd 128 # SysWrite 1 (take (nat (r_ret r)) (r_data r)) # copied fd rs) (Some ())"
    using Cons.prems by (auto simp: k x andthen_def write_string_def intro!: runs_Call)
  then show ?case by (simp add: x read_pairs_def copied_def)
qed

text \<open>C38. \<^verbatim>\<open>cat\<close> ends and copies. When the kernel delivers its input in any number of pieces and then reports the end, \<^verbatim>\<open>cat\<close>
  writes exactly those pieces in order and ends with status 0, without arguments from its standard input, with a file name
  from the descriptor it got for the file, which it closes.\<close>

theorem cat_copies:
  assumes "length rs < k" "list_all (\<lambda>(r, w). r_ret r > 0) rs" "r_ret eof \<le> 0" "0 \<le> r_ret fd" "r_ret fd < 2 ^ 31"
  shows "interact (cat_main k [a]) (read_pairs rs @ [eof]) = (copied 0 rs, Ret (Some 0)) \<and>
    interact (cat_main k [a, file]) (fd # read_pairs rs @ [eof, cl]) =
      (SysOpen3 file 0 0 # copied (r_ret fd) rs @ [SysClose (r_ret fd)], Ret (Some 0))"
proof -
  have c: "c_int (r_ret fd) = r_ret fd" using assms(4,5) by (simp add: c_int_def signed_take_bit_int_eq_self)
  have "runs (cat_main k [a]) ((read_pairs rs @ [eof]) @ []) (copied 0 rs @ []) (Some 0)"
    unfolding cat_main_def by (simp only: list.size, simp, rule runs_bind [OF runs_copy_fd [OF assms(1-3)], of _ "[]" "[]", simplified]) (simp add: runs_Ret)
  moreover have "runs (cat_main k [a, file]) (fd # (read_pairs rs @ [eof]) @ [cl])
      (SysOpen3 file 0 0 # copied (r_ret fd) rs @ [SysClose (r_ret fd)]) (Some 0)"
  proof -
    have "runs (bind (copy_fd k (r_ret fd)) (\<lambda>d. case d of None \<Rightarrow> Ret None | Some _ \<Rightarrow> Call (SysClose (r_ret fd)) (\<lambda>_. Ret (Some 0))))
        ((read_pairs rs @ [eof]) @ [cl]) (copied (r_ret fd) rs @ [SysClose (r_ret fd)]) (Some 0)"
      by (rule runs_bind [OF runs_copy_fd [OF assms(1-3)]]) (simp add: runs_Call runs_Ret)
    then show ?thesis using assms(4) by (auto simp: cat_main_def c intro!: runs_Call)
  qed
  ultimately show ?thesis by (simp add: runs_def)
qed

theorem cat_copies_witness:
  "interact (cat_main 3 [''cat'']) [(reply0 2 (0, 0))\<lparr>r_data := ''hi''\<rparr>, reply0 2 (0, 0), (reply0 1 (0, 0))\<lparr>r_data := ''!''\<rparr>, reply0 1 (0, 0), reply0 0 (0, 0)] =
     ([SysRead 0 128, SysWrite 1 ''hi'', SysRead 0 128, SysWrite 1 ''!'', SysRead 0 128], Ret (Some 0))"
  using cat_copies [of "[((reply0 2 (0, 0))\<lparr>r_data := ''hi''\<rparr>, reply0 2 (0, 0)), ((reply0 1 (0, 0))\<lparr>r_data := ''!''\<rparr>, reply0 1 (0, 0))]"
      3 "reply0 0 (0, 0)" "reply0 3 (0, 0)" "''cat''" "''f''" "reply0 0 (0, 0)"]
  by (simp add: reply0_def read_pairs_def copied_def)

text \<open>\<^verbatim>\<open>su\<close> and the identity of processes. \<^verbatim>\<open>su\<close> starts the shell exactly when the kernel lets it set the user; the
  shell then runs with the user and group that were asked for if the caller was root, and with the caller's own user
  and group otherwise.\<close>

theorem su_identity:
  assumes "process_setgid i gid s = (g, s1)" "process_setuid i uid s1 = (u, s2)" "r_ret rg = g" "r_ret ru = u"
  shows "(u < 0 \<longleftrightarrow> fst (interact (su_switch uid gid envp) [rg, ru]) = [SysSetgid gid, SysSetuid uid, SysWrite 1 (line_of ''su: permission denied'')]) \<and>
    (u \<ge> 0 \<longleftrightarrow> fst (interact (su_switch uid gid envp) [rg, ru]) = [SysSetgid gid, SysSetuid uid, SysExecve ''/bin/sh'' [''sh''] envp]) \<and>
    (u \<ge> 0 \<longrightarrow> (if p_uid (proc s i) = 0 then p_uid (proc s2 i) = uid \<and> p_gid (proc s2 i) = gid
                else p_uid (proc s2 i) = p_uid (proc s i) \<and> p_gid (proc s2 i) = p_gid (proc s i)))"
proof -
  have pr: "printf (line_of ''su: permission denied'') [] = Some (line_of ''su: permission denied'')"
    by (simp add: printf_def line_of_def BUF_SIZE_def)
  have s1: "s1 = snd (process_setgid i gid s)" and s2: "s2 = snd (process_setuid i uid s1)" "u = fst (process_setuid i uid s1)"
    using assms(1,2) by simp_all
  have id1: "p_uid (proc s1 i) = p_uid (proc s i)" "p_gid (proc s1 i) = (if p_uid (proc s i) = 0 then gid else p_gid (proc s i))"
    unfolding s1 by (simp_all add: process_setgid_def)
  have id2: "u \<ge> 0 \<Longrightarrow> p_uid (proc s2 i) = (if p_uid (proc s1 i) = 0 then uid else p_uid (proc s1 i)) \<and> p_gid (proc s2 i) = p_gid (proc s1 i)"
    unfolding s2 by (simp add: process_setuid_def)
  let ?calls = "fst (interact (su_switch uid gid envp) [rg, ru])"
  have "?calls =
      (if u < 0 then [SysSetgid gid, SysSetuid uid, SysWrite 1 (line_of ''su: permission denied'')]
       else [SysSetgid gid, SysSetuid uid, SysExecve ''/bin/sh'' [''sh''] envp])"
    using assms(4) by (simp add: su_switch_def andthen_def print_def pr)
  then have calls: "u < 0 \<longleftrightarrow> ?calls = [SysSetgid gid, SysSetuid uid, SysWrite 1 (line_of ''su: permission denied'')]"
      "u \<ge> 0 \<longleftrightarrow> ?calls = [SysSetgid gid, SysSetuid uid, SysExecve ''/bin/sh'' [''sh''] envp]" by (cases "u < 0"; simp)+
  have "u \<ge> 0 \<longrightarrow> (if p_uid (proc s i) = 0 then p_uid (proc s2 i) = uid \<and> p_gid (proc s2 i) = gid
                else p_uid (proc s2 i) = p_uid (proc s i) \<and> p_gid (proc s2 i) = p_gid (proc s i))"
    using id1 id2 by simp
  then show ?thesis using calls by blast
qed

theorem su_identity_witness:
  "p_uid (proc (snd (process_setuid 0 1000 (snd (process_setgid 0 100 demo_kst)))) 0) = 1000 \<and>
   p_gid (proc (snd (process_setuid 0 1000 (snd (process_setgid 0 100 demo_kst)))) 0) = 100"
proof -
  have root: "p_uid (proc demo_kst 0) = 0" by (simp add: demo_kst_def process_zero_def)
  let ?g = "process_setgid 0 100 demo_kst" and ?u = "process_setuid 0 1000 (snd (process_setgid 0 100 demo_kst))"
  have "fst ?u \<ge> 0" by (simp add: process_setgid_def process_setuid_def root)
  then show ?thesis
    using su_identity [of 0 100 demo_kst "fst ?g" "snd ?g" 1000 "fst ?u" "snd ?u" "reply0 (fst ?g) (0, 0)" "reply0 (fst ?u) (0, 0)" "[]"] root
    by (simp add: reply0_def)
qed

end
