(* ===== verification/ShellRun.thy ===== *)
theory ShellRun
  imports Shell
begin

text \<open>
  How the shell runs pipelines: whatever the kernel answers, every process of a pipeline is connected to its
  neighbours and holds no other end of a pipe when its program starts or when the shell waits.
\<close>

section \<open>Histories\<close>

definition pipe_ends :: "history \<Rightarrow> (int \<times> int) list" where
  "pipe_ends h = map (\<lambda>(c, r). r_fds r) (filter (\<lambda>(c, r). c = SysPipe) h)"

definition forks :: "history \<Rightarrow> nat" where
  "forks h = length (filter (\<lambda>(c, r). c = SysFork) h)"

definition closed_pipes :: "history \<Rightarrow> bool" where
  "closed_pipes h \<longleftrightarrow> (\<forall>(a, b) \<in> set (pipe_ends h). SysClose a \<in> fst ` set h \<and> SysClose b \<in> fst ` set h)"

text \<open>The child of stage \<open>i\<close> of \<open>n\<close> reads from the pipe before it and writes to the pipe behind it.\<close>

definition connected :: "nat \<Rightarrow> nat \<Rightarrow> history \<Rightarrow> bool" where
  "connected n i h \<longleftrightarrow>
     (0 < i \<longrightarrow> SysDup2 (fst (pipe_ends h ! (i - 1))) 0 \<in> fst ` set h) \<and>
     (i < n - 1 \<longrightarrow> SysDup2 (snd (pipe_ends h ! i)) 1 \<in> fst ` set h)"

definition clean :: "nat \<Rightarrow> history \<Rightarrow> sys \<Rightarrow> bool" where
  "clean n h c \<longleftrightarrow> (case c of
      SysExecve _ _ _ \<Rightarrow> closed_pipes h \<and> connected n (forks h - 1) h
    | SysWaitpid _ \<Rightarrow> closed_pipes h
    | _ \<Rightarrow> True)"

definition quiet :: "sys \<Rightarrow> bool" where
  "quiet c \<longleftrightarrow> (case c of SysPipe \<Rightarrow> False | SysFork \<Rightarrow> False | SysExecve _ _ _ \<Rightarrow> False | _ \<Rightarrow> True)"

lemma history_simps [simp]:
  "pipe_ends [] = []" "forks [] = 0"
  "pipe_ends (h @ h') = pipe_ends h @ pipe_ends h'" "forks (h @ h') = forks h + forks h'"
  "pipe_ends ((c, r) # h) = (if c = SysPipe then r_fds r # pipe_ends h else pipe_ends h)"
  "forks ((c, r) # h) = (if c = SysFork then Suc (forks h) else forks h)"
  by (simp_all add: pipe_ends_def forks_def)

lemma quiet_simps [simp]:
  "\<not> quiet SysPipe" "\<not> quiet SysFork" "\<not> quiet (SysExecve p a e)" "quiet (SysWrite d s)" "quiet (SysOpen3 p fl md)" "quiet (SysClose d)"
  "quiet (SysStat p)" "quiet (SysDup2 x y)" "quiet (SysWaitpid w)" "quiet (SysKill w z)" "quiet (SysChdir p)" "quiet (SysSetForeground ps)"
  "quiet (SysTtySetRaw v)" "quiet (SysTtySetEcho v)"
  by (simp_all add: quiet_def)

lemma quiet_other: "quiet c \<Longrightarrow> c \<noteq> SysPipe \<and> c \<noteq> SysFork"
  by auto

section \<open>Programs without pipes, forks and new programs\<close>

lemma only_deref: "(\<And>s. only A (k s)) \<Longrightarrow> only A (deref p k)"
  by (simp add: deref_def split: cstr.split)

lemma only_maybe: "(\<And>s. only A (k s)) \<Longrightarrow> only A (maybe p k)"
  by (simp add: maybe_def split: cstr.split)

lemma only_deref_list: "(\<And>s. only A (k s)) \<Longrightarrow> only A (deref_list ps k)"
  by (induction ps arbitrary: k) (auto intro: only_deref)

lemma only_path_search: "only quiet (path_search cmd p)"
proof (induction cmd p rule: path_search.induct)
  case (1 cmd p)
  then show ?case by (subst path_search.simps) (auto simp: Let_def)
qed

lemma only_resolve: "only quiet (resolve_command e cmd n)"
  by (auto simp: resolve_command_def intro!: only_bind only_path_search)

lemma only_redirect: "only quiet (redirect t fl md fd msg)"
  by (auto simp: redirect_def intro!: only_deref only_intros)

lemma only_setup: "only quiet (setup_redirections s)"
  by (auto simp: setup_redirections_def intro!: only_bind only_redirect)

lemma only_close_pipes: "only quiet (close_pipes ps)"
  by (auto simp: close_pipes_def intro!: only_for_each)

lemma only_kill_all: "only quiet (kill_all ps s)"
  by (auto simp: kill_all_def intro!: only_for_each)

lemma only_wait_all: "only quiet (wait_all ps)"
  by (auto simp: wait_all_def intro!: only_for_each)

lemma only_reclaim: "only quiet reclaim_foreground"
  by (simp add: reclaim_foreground_def)

lemma only_builtins:
  "only quiet (builtin_cd a st)" "only quiet (builtin_export as st)" "only quiet (builtin_env st)" "only quiet (builtin_kill cs st)"
  "only quiet (builtin_jobs st)" "only quiet (builtin_fg a st)" "only quiet (builtin_bg a st)" "only quiet (builtin_exit cs)"
proof -
  show "only quiet (builtin_cd a st)" by (auto simp: builtin_cd_def Let_def intro!: only_intros)
  show "only quiet (builtin_export as st)" by (simp add: builtin_export_def)
  show "only quiet (builtin_env st)" by (auto simp: builtin_env_def intro!: only_intros)
  have t: "only quiet (kill_target s u st)" for s u
    by (auto simp: kill_target_def Let_def split: option.split intro!: only_intros only_kill_all)
  show "only quiet (builtin_kill cs st)"
    by (auto simp: builtin_kill_def kill_usage_def split: list.split intro!: only_intros only_deref t)
  show "only quiet (builtin_jobs st)" by (auto simp: builtin_jobs_def Let_def intro!: only_intros)
  show "only quiet (builtin_fg a st)"
    by (auto simp: builtin_fg_def Let_def split: option.split intro!: only_intros only_kill_all only_wait_all only_reclaim)
  show "only quiet (builtin_bg a st)" by (auto simp: builtin_bg_def Let_def split: option.split intro!: only_intros only_kill_all)
  show "only quiet (builtin_exit cs)" by (auto simp: builtin_exit_def Let_def split: list.split intro!: only_intros only_deref)
qed

lemma only_if: "only A p \<Longrightarrow> only A q \<Longrightarrow> only A (if b then p else q)"
  by simp

lemma only_handled: "only A p \<Longrightarrow> only A (bind p (\<lambda>st. Ret (True, st)))"
  by (rule only_bind) simp_all

lemma only_run_builtin: "only quiet (run_builtin s st)"
proof (cases "s_argv s")
  case (Cons c cs)
  then show ?thesis
    unfolding run_builtin_def Let_def
    by (simp only: list.case) (intro only_deref only_if only_handled only_maybe only_deref_list only_builtins; simp)
qed (simp add: run_builtin_def)

section \<open>Pipelines\<close>

text \<open>Calls that are neither a pipe, a fork nor a new program keep what is known of the pipes.\<close>

lemma quiet_keeps [simp]:
  "quiet c \<Longrightarrow> pipe_ends (h @ [(c, r)]) = pipe_ends h" "quiet c \<Longrightarrow> forks (h @ [(c, r)]) = forks h"
  by (auto dest: quiet_other)

lemma clean_simps [simp]:
  "clean n h SysPipe" "clean n h SysFork" "clean n h (SysWrite d s)" "clean n h (SysOpen3 p fl md)" "clean n h (SysClose d)"
  "clean n h (SysStat p)" "clean n h (SysDup2 x y)" "clean n h (SysSetForeground ps)"
  by (simp_all add: clean_def)

lemma quiet_clean: "quiet c \<Longrightarrow> closed_pipes h \<Longrightarrow> clean n h c"
  by (cases c) (auto simp: clean_def)

lemma closed_pipes_grows: "quiet c \<Longrightarrow> closed_pipes h \<Longrightarrow> closed_pipes (h @ [(c, r)])"
  by (auto simp: closed_pipes_def)

lemma connected_grows: "quiet c \<Longrightarrow> connected n i h \<Longrightarrow> connected n i (h @ [(c, r)])"
  by (auto simp: connected_def)

text \<open>What holds once the ends are closed lasts through every quiet program.\<close>

lemma quiet_after_close:
  assumes "only quiet p" "closed_pipes h" "connected n (forks h - 1) h"
  shows "ensures (clean n) (\<lambda>h _. closed_pipes h \<and> connected n (forks h - 1) h) p h"
  by (rule ensures_only [OF assms(1)]) (use assms in \<open>auto simp: quiet_clean closed_pipes_grows connected_grows\<close>)

lemma quiet_closed:
  assumes "only quiet p" "closed_pipes h"
  shows "ensures (clean n) (\<lambda>h _. closed_pipes h) p h"
  by (rule ensures_only [OF assms(1)]) (use assms in \<open>auto simp: quiet_clean closed_pipes_grows\<close>)

lemma make_pipes_ensures:
  "pipe_ends h = ps \<Longrightarrow> forks h = 0 \<Longrightarrow>
   ensures (clean n) (\<lambda>h made. case made of None \<Rightarrow> True | Some qs \<Rightarrow> pipe_ends h = qs \<and> forks h = 0) (make_pipes k ps) h"
  by (induction k arbitrary: ps h) (auto intro!: ensures_print)

definition closed_so_far :: "(int \<times> int) list \<Rightarrow> history \<Rightarrow> bool" where
  "closed_so_far ys h \<longleftrightarrow> (\<forall>(a, b) \<in> set ys. SysClose a \<in> fst ` set h \<and> SysClose b \<in> fst ` set h)"

lemma close_pipes_ensures:
  assumes "pipe_ends h = ps" "P h" "\<And>h d r. P h \<Longrightarrow> P (h @ [(SysClose d, r)])"
    "\<And>h. P h \<Longrightarrow> closed_pipes h \<Longrightarrow> pipe_ends h = ps \<Longrightarrow> R h ()"
  shows "ensures (clean n) R (close_pipes ps) h"
  unfolding close_pipes_def
proof (rule ensures_for_each [where I = "\<lambda>ys h _. pipe_ends h = ps \<and> P h \<and> closed_so_far ys h"], goal_cases)
  case 1
  then show ?case using assms by (simp add: closed_so_far_def)
next
  case (2 ys x zs h s)
  have "P (h @ [(SysClose a, r), (SysClose b, r')])" for a b r r'
    using assms(3) [OF assms(3) [of h a r], of b r'] 2 by simp
  with 2 show ?case by (cases x) (auto simp: closed_so_far_def)
next
  case (3 h s)
  then show ?case using assms(4) by (auto simp: closed_so_far_def closed_pipes_def)
qed

text \<open>A child connects itself to its neighbours before it closes the ends, and runs a program only afterwards.\<close>

lemma child_exec_ensures:
  assumes "closed_pipes h" "connected n (forks h - 1) h"
  shows "ensures (clean n) R (child_exec e s) h"
proof (cases "s_argv s")
  case (Cons cmd rest)
  have *: "ensures (clean n) R (child_exec e s) h" if "cmd = CStr name" for name
    unfolding child_exec_def Cons list.case that deref_def cstr.case ensures_bind
    by (rule ensures_mono [OF quiet_after_close [OF only_resolve assms]])
       (auto split: option.split intro!: ensures_print simp: clean_def)
  show ?thesis
  proof (cases cmd)
    case (CStr name)
    then show ?thesis by (rule * )
  qed (simp_all add: child_exec_def Cons deref_def)
qed (simp add: child_exec_def)

lemma child_stage_ensures:
  assumes "pipe_ends h = ps" "forks h = Suc i"
  shows "ensures (clean n) R (child_stage e ps n i s :: 'a prog) h"
proof -
  define q :: "'a prog" where "q = andthen (close_pipes ps) (bind (setup_redirections s) (\<lambda>ok. if ok then child_exec e s else Exit 1))"
  have tail: "ensures (clean n) R q h'"
    if "pipe_ends h' = ps" "forks h' = Suc i" "connected n i h'" for h'
    unfolding q_def ensures_andthen
  proof (rule close_pipes_ensures [where P = "\<lambda>h. forks h = Suc i \<and> connected n i h"], goal_cases)
    case (4 h)
    then show ?case
      by (auto intro!: ensures_mono [OF quiet_after_close [OF only_setup]] intro: child_exec_ensures)
  qed (use that in \<open>auto simp: connected_grows\<close>)
  show ?thesis unfolding child_stage_def q_def [symmetric]
    using assms by (auto intro!: tail simp: connected_def)
qed

lemma upt_split: "[0..<n] = ys @ i # zs \<Longrightarrow> i = length ys"
proof -
  assume u: "[0..<n] = ys @ i # zs"
  then have "length [0..<n] = length (ys @ i # zs)" by (rule arg_cong)
  then have "length ys < n" by simp
  then have "[0..<n] ! length ys = length ys" by simp
  then show ?thesis by (simp add: u)
qed

lemma fork_stages_ensures:
  assumes "pipe_ends h = ps" "forks h = 0" "\<And>h pids. pipe_ends h = ps \<Longrightarrow> R h pids"
  shows "ensures (clean (length ss)) R (fork_stages e ps ss) h"
  unfolding fork_stages_def
proof (rule ensures_for_each [where I = "\<lambda>ys h _. pipe_ends h = ps \<and> forks h = length ys"], goal_cases)
  case (2 ys i zs h pids)
  have "i = length ys" by (rule upt_split) (use 2 in simp)
  with 2 show ?case by (auto intro!: child_stage_ensures ensures_print)
qed (use assms in auto)

lemma run_stages_ensures:
  assumes "pipe_ends h = []" "forks h = 0"
  shows "ensures (clean (length ss)) (\<lambda>_ _. True) (run_stages ss background cmdline st) h"
proof -
  have run: "only quiet (run_background pids cmdline st)" "only quiet (run_foreground pids cmdline st)" for pids
    by (auto simp: run_background_def run_foreground_def Let_def split: prod.split
          intro!: only_intros only_wait_all only_reclaim)
  have fin: "ensures (clean (length ss)) (\<lambda>_ _. True) (run_background pids cmdline st) h"
    "ensures (clean (length ss)) (\<lambda>_ _. True) (run_foreground pids cmdline st) h" if "closed_pipes h" for pids h
    by (rule ensures_mono [OF quiet_closed [OF run(1) that]], simp)
       (rule ensures_mono [OF quiet_closed [OF run(2) that]], simp)
  show ?thesis unfolding run_stages_def ensures_bind
    by (rule ensures_mono [OF make_pipes_ensures])
       (use assms in \<open>auto split: option.splits intro!: fork_stages_ensures close_pipes_ensures [where P = "\<lambda>_. True"] fin\<close>)
qed


section \<open>What the shell itself calls\<close>

lemma runs_make_pipes:
  "list_all (\<lambda>r. r_ret r = 0) rs \<Longrightarrow>
   runs (make_pipes (length rs) ps) rs (replicate (length rs) SysPipe) (Some (ps @ map r_fds rs))"
proof (induction rs arbitrary: ps)
  case (Cons r rs)
  then show ?case using Cons.IH [of "ps @ [r_fds r]"] by (auto intro!: runs_Call)
qed (simp add: runs_Ret)

definition pipe_closes :: "(int \<times> int) list \<Rightarrow> sys list" where
  "pipe_closes ps = concat (map (\<lambda>(a, b). [SysClose a, SysClose b]) ps)"

lemma runs_close_pipes: "length rs = 2 * length ps \<Longrightarrow> runs (close_pipes ps) rs (pipe_closes ps) ()"
proof (induction ps arbitrary: rs)
  case (Cons x ps)
  then obtain r1 r2 rs' where rs: "rs = r1 # r2 # rs'" "length rs' = 2 * length ps"
    by (auto simp: length_Suc_conv)
  show ?case using Cons.IH [OF rs(2)]
    by (cases x) (auto simp: rs close_pipes_def pipe_closes_def intro!: runs_Call)
qed (simp add: close_pipes_def pipe_closes_def runs_Ret)

lemma runs_forks:
  "list_all (\<lambda>r. r_ret r > 0) rs \<Longrightarrow> length rs = length ks \<Longrightarrow>
   runs (for_each ks (\<lambda>i pids. Call SysFork (\<lambda>r.
       if r_ret r = 0 then child i else if r_ret r > 0 then Ret (pids @ [r_ret r])
       else andthen (print msg []) (Ret (pids @ [- 1])))) pids0)
     rs (replicate (length rs) SysFork) (pids0 @ map r_ret rs)"
proof (induction rs arbitrary: ks pids0)
  case (Cons r rs)
  then obtain k ks' where ks: "ks = k # ks'" "length rs = length ks'" by (cases ks) auto
  then show ?case using Cons.IH [of ks' "pids0 @ [r_ret r]"] Cons.prems by (auto intro!: runs_Call)
qed (simp add: runs_Ret)

lemma runs_waits:
  "list_all (\<lambda>r. \<not> WIFSTOPPED (r_status r)) rs \<Longrightarrow> length rs = length ps \<Longrightarrow>
   runs (wait_all ps) rs (map SysWaitpid ps) False"
proof (induction rs arbitrary: ps)
  case (Cons r rs)
  then obtain p ps' where ps: "ps = p # ps'" "length rs = length ps'" by (cases ps) auto
  then show ?case using Cons.IH [of ps'] Cons.prems by (auto simp: wait_all_def intro!: runs_Call)
qed (simp add: runs_Ret wait_all_def)

text \<open>C34. A pipeline in the foreground. When the pipes can be made, every fork succeeds and no stage is stopped, the
  shell makes one pipe between each pair of neighbours, forks once for every stage, closes both ends of every pipe, puts the
  children in the foreground, waits for each of them in order, takes the terminal back in line mode with echo, and keeps
  its environment and jobs.\<close>

theorem pipeline_foreground:
  assumes "length ss > 1" "length pipes = length ss - 1" "list_all (\<lambda>r. r_ret r = 0) pipes"
    "length kids = length ss" "list_all (\<lambda>r. r_ret r > 0) kids"
    "length closes = 2 * length pipes" "length waits = length ss" "list_all (\<lambda>r. \<not> WIFSTOPPED (r_status r)) waits"
  shows "interact (run_pipeline ss False cmdline st) (pipes @ kids @ closes @ [a] @ waits @ [b, c, d]) =
    (replicate (length ss - 1) SysPipe @ replicate (length ss) SysFork @ pipe_closes (map r_fds pipes) @
     [SysSetForeground (map r_ret kids)] @ map SysWaitpid (map r_ret kids) @
     [SysSetForeground [], SysTtySetRaw 0, SysTtySetEcho 1], Ret st)"
proof -
  let ?pids = "map r_ret kids"
  have pos: "filter (\<lambda>p. p > 0) ?pids = ?pids" using assms(5) by (induction kids) auto
  have "runs reclaim_foreground [b, c, d] [SysSetForeground [], SysTtySetRaw 0, SysTtySetEcho 1] ()"
    by (auto simp: reclaim_foreground_def intro!: runs_Call runs_Ret)
  from runs_andthen [OF this runs_Ret]
  have reclaim: "runs (andthen reclaim_foreground (Ret st)) [b, c, d] [SysSetForeground [], SysTtySetRaw 0, SysTtySetEcho 1] st" by simp
  have "runs (run_foreground ?pids cmdline st) (a # waits @ [b, c, d])
     (SysSetForeground ?pids # map SysWaitpid ?pids @ [SysSetForeground [], SysTtySetRaw 0, SysTtySetEcho 1]) st"
    unfolding run_foreground_def pos
    by (rule runs_Call, rule runs_bind [OF runs_waits]) (use assms reclaim in simp_all)
  then have tail: "runs (andthen (close_pipes (map r_fds pipes)) (run_foreground ?pids cmdline st)) (closes @ [a] @ waits @ [b, c, d])
     (pipe_closes (map r_fds pipes) @ [SysSetForeground ?pids] @ map SysWaitpid ?pids @
      [SysSetForeground [], SysTtySetRaw 0, SysTtySetEcho 1]) st"
    using runs_andthen [OF runs_close_pipes [of closes "map r_fds pipes"]] assms by simp
  have "runs (fork_stages (sh_env st) (map r_fds pipes) ss) kids (replicate (length ss) SysFork) ?pids"
    using runs_forks [of kids "[0..<length ss]" _ _ "[]"] assms by (simp add: fork_stages_def)
  from runs_bind [OF this, where f = "\<lambda>pids. andthen (close_pipes (map r_fds pipes)) (run_foreground pids cmdline st)", OF tail]
  have "runs (run_stages ss False cmdline st) (pipes @ kids @ closes @ [a] @ waits @ [b, c, d])
    (replicate (length ss - 1) SysPipe @ replicate (length ss) SysFork @ pipe_closes (map r_fds pipes) @
     [SysSetForeground ?pids] @ map SysWaitpid ?pids @ [SysSetForeground [], SysTtySetRaw 0, SysTtySetEcho 1]) st"
    unfolding run_stages_def assms(2) [symmetric]
    by (intro runs_bind [OF runs_make_pipes [of pipes "[]"]]) (use assms in simp_all)
  moreover have "run_pipeline ss False cmdline st = run_stages ss False cmdline st"
    using assms(1) by (auto simp: run_pipeline_def split: list.split)
  ultimately show ?thesis by (simp add: runs_def)
qed

theorem pipeline_foreground_witness:
  "interact (run_pipeline [empty_stage\<lparr>s_argv := [CStr ''ls'']\<rparr>, empty_stage\<lparr>s_argv := [CStr ''cat'']\<rparr>] False ''ls | cat'' (sh_start []))
     [reply0 0 (3, 4), reply0 7 (0, 0), reply0 8 (0, 0), reply0 0 (0, 0), reply0 0 (0, 0), reply0 0 (0, 0),
      reply0 7 (0, 0), reply0 8 (0, 0), reply0 0 (0, 0), reply0 0 (0, 0), reply0 0 (0, 0)] =
   ([SysPipe, SysFork, SysFork, SysClose 3, SysClose 4, SysSetForeground [7, 8], SysWaitpid 7, SysWaitpid 8,
     SysSetForeground [], SysTtySetRaw 0, SysTtySetEcho 1], Ret (sh_start []))"
  using pipeline_foreground [of "[empty_stage\<lparr>s_argv := [CStr ''ls'']\<rparr>, empty_stage\<lparr>s_argv := [CStr ''cat'']\<rparr>]" "[reply0 0 (3, 4)]"
      "[reply0 7 (0, 0), reply0 8 (0, 0)]" "[reply0 0 (0, 0), reply0 0 (0, 0)]" "[reply0 7 (0, 0), reply0 8 (0, 0)]"
      "''ls | cat''" "sh_start []" "reply0 0 (0, 0)" "reply0 0 (0, 0)" "reply0 0 (0, 0)" "reply0 0 (0, 0)"]
  by (simp add: reply0_def pipe_closes_def WIFSTOPPED_def numeral_2_eq_2)

end
