(* ===== verification/ShellSafe.thy ===== *)
theory ShellSafe
  imports ShellRun
begin

text \<open>
  The shell never goes wrong on command lines whose words fit its buffers: none of its text pointers is null or
  dangling, no message lacks an argument, no buffer overflows, whatever the kernel answers.
\<close>

section \<open>Programs without undefined behaviour\<close>

primrec defined :: "'a prog \<Rightarrow> bool" where
  "defined (Ret x) \<longleftrightarrow> True"
| "defined (Call c k) \<longleftrightarrow> (\<forall>r. defined (k r))"
| "defined (Exit n) \<longleftrightarrow> True"
| "defined Undef \<longleftrightarrow> False"

lemma defined_bind: "defined p \<Longrightarrow> (\<And>x. defined (f x)) \<Longrightarrow> defined (bind p f)"
  by (induction p) auto

lemma defined_andthen: "defined p \<Longrightarrow> defined q \<Longrightarrow> defined (andthen p q)"
  by (simp add: andthen_def defined_bind)

lemma defined_for_each: "(\<And>x s. x \<in> set xs \<Longrightarrow> defined (body x s)) \<Longrightarrow> defined (for_each xs body s)"
  by (induction xs arbitrary: s) (auto intro!: defined_bind)

lemma defined_if: "(b \<Longrightarrow> defined p) \<Longrightarrow> (\<not> b \<Longrightarrow> defined q) \<Longrightarrow> defined (if b then p else q)"
  by simp

lemma defined_Call: "(\<And>r. defined (k r)) \<Longrightarrow> defined (Call c k)"
  by simp

lemma defined_ends: "defined (Ret x)" "defined (Exit n)" "defined (call c)"
  by (simp_all add: call_def)

text \<open>A format that finds an argument for each of its conversions.\<close>

definition fits :: "string \<Rightarrow> vararg list \<Rightarrow> bool" where
  "fits fmt ap \<longleftrightarrow> expand fmt ap \<noteq> None"

lemma defined_print: "fits fmt ap \<Longrightarrow> defined (print fmt ap)"
  using printf_loop_expand [of fmt ap _ "[]"] by (auto simp: fits_def print_def printf_def)

lemmas fits_simps = fits_def line_of_def conv_text_def

lemmas defined_intros = defined_bind defined_andthen defined_for_each defined_if defined_Call defined_ends defined_print

text \<open>Pointers to text, and stages all of whose pointers are.\<close>

definition is_text :: "cstr \<Rightarrow> bool" where
  "is_text p \<longleftrightarrow> (\<exists>s. p = CStr s)"

definition stage_text :: "stage \<Rightarrow> bool" where
  "stage_text s \<longleftrightarrow> list_all is_text (s_argv s) \<and> (redirect_in s = CNull \<or> is_text (redirect_in s)) \<and> (redirect_out s = CNull \<or> is_text (redirect_out s))"

lemma defined_deref: "is_text p \<Longrightarrow> (\<And>s. defined (k s)) \<Longrightarrow> defined (deref p k)"
  by (auto simp: is_text_def deref_def)

lemma defined_maybe: "p = CNull \<or> is_text p \<Longrightarrow> (\<And>s. defined (k s)) \<Longrightarrow> defined (maybe p k)"
  by (auto simp: is_text_def maybe_def)

lemma defined_deref_list: "list_all is_text ps \<Longrightarrow> (\<And>s. defined (k s)) \<Longrightarrow> defined (deref_list ps k)"
  by (induction ps arbitrary: k) (auto intro: defined_deref)

lemma exec_args_text: "list_all is_text ps \<Longrightarrow> \<exists>as. exec_args ps = Some as"
  by (induction ps) (auto simp: is_text_def)

section \<open>The parts of the shell\<close>

definition path_short :: "env \<Rightarrow> bool" where
  "path_short e \<longleftrightarrow> (case env_get e ''PATH'' of Some p \<Rightarrow> length p < MAX_PATH - 1 | None \<Rightarrow> True)"

lemma candidate_fits: "length dir < MAX_PATH - 1 \<Longrightarrow> length (candidate_of dir cmd) < MAX_PATH"
  by (auto simp: candidate_of_def Let_def)

lemma path_dir_length: "length (path_dir p) \<le> length p"
  unfolding path_dir_def using length_takeWhile_le [of "\<lambda>c. c \<noteq> CHR '':''" p] by simp

lemma path_rest_length: "length (path_rest p) \<le> length p"
  by (cases "p = []") (simp add: path_rest_def, simp add: path_rest_shorter less_imp_le)

lemma defined_path_search: "length p < MAX_PATH - 1 \<Longrightarrow> defined (path_search cmd p)"
proof (induction cmd p rule: path_search.induct)
  case (1 cmd p)
  have "length (candidate_of (path_dir p) cmd) < MAX_PATH"
    using candidate_fits [of "path_dir p" cmd] path_dir_length [of p] "1.prems" by linarith
  moreover have "length (path_rest p) < MAX_PATH - 1" using path_rest_length [of p] "1.prems" by linarith
  ultimately show ?case using "1.IH" by (subst path_search.simps) (auto simp: Let_def)
qed

lemma defined_resolve: "path_short e \<Longrightarrow> defined (resolve_command e cmd n)"
  by (auto simp: resolve_command_def path_short_def split: option.splits intro!: defined_bind defined_path_search)

lemma defined_redirect:
  "t = CNull \<or> is_text t \<Longrightarrow> (\<And>path. fits msg [VStr path]) \<Longrightarrow> defined (redirect t fl md fd msg)"
  unfolding redirect_def by (auto intro!: defined_deref defined_intros)

lemma defined_setup: "stage_text s \<Longrightarrow> defined (setup_redirections s)"
  unfolding setup_redirections_def
  by (auto intro!: defined_bind defined_redirect simp: stage_text_def fits_simps)

lemma defined_loops: "defined (kill_all ps sig)" "defined (wait_all ps)" "defined reclaim_foreground" "defined (close_pipes qs)"
  by (auto simp: kill_all_def wait_all_def reclaim_foreground_def close_pipes_def intro!: defined_intros)

lemma defined_kill_target: "defined (kill_target sig target st)"
proof -
  have "fits (line_of ''kill: no such job'') []" "fits (line_of (''kill: invalid pid '' @ CHR 0x27 # ''%s'' @ [CHR 0x27])) [VStr t]"
    "fits (line_of ''kill: (%d) - no such process or unrecognized signal'') [VInt p]" for t p
    by (simp_all add: fits_simps)
  then show ?thesis unfolding kill_target_def Let_def
    by (intro defined_if) (auto split: option.split intro!: defined_intros defined_loops)
qed

lemma defined_kill: "list_all is_text cs \<Longrightarrow> defined (builtin_kill cs st)"
proof -
  have "fits (line_of ''usage: kill [-SIG] <pid|%%job>'') []" by (simp add: fits_simps)
  then have "defined (kill_usage st)" unfolding kill_usage_def by (intro defined_intros)
  then show "list_all is_text cs \<Longrightarrow> defined (builtin_kill cs st)"
    unfolding builtin_kill_def by (auto split: list.split intro!: defined_deref defined_kill_target)
qed

lemma defined_builtins:
  "defined (builtin_cd a st)" "defined (builtin_export as st)" "defined (builtin_env st)" "defined (builtin_jobs st)"
  "defined (builtin_fg a st)" "defined (builtin_bg a st)"
proof -
  have "fits (line_of ''cd: no such directory: %s'') [VStr t]" for t by (simp add: fits_simps)
  then show "defined (builtin_cd a st)" unfolding builtin_cd_def Let_def by (intro defined_intros)
  show "defined (builtin_export as st)" by (simp add: builtin_export_def)
  have "fits (line_of ''%s=%s'') [VStr t, VStr u]" for t u by (simp add: fits_simps)
  then show "defined (builtin_env st)" unfolding builtin_env_def by (intro defined_intros)
  have "fits (line_of ''[%d]%s %s'') [VInt n, VStr t, VStr u]" for n t u by (simp add: fits_simps)
  then show "defined (builtin_jobs st)" unfolding builtin_jobs_def Let_def by (intro defined_intros)
  have "fits (line_of ''fg: no such job'') []" "fits (line_of ''%s'') [VStr t]" "fits (line_of ''[%d]+  Stopped %s'') [VInt n, VStr t]" for n t
    by (simp_all add: fits_simps)
  then show "defined (builtin_fg a st)"
    unfolding builtin_fg_def Let_def by (auto split: option.split intro!: defined_intros defined_loops)
  have "fits (line_of ''bg: no such job'') []" "fits (line_of ''bg: job already running'') []" "fits (line_of ''[%d]  %s &'') [VInt n, VStr t]" for n t
    by (simp_all add: fits_simps)
  then show "defined (builtin_bg a st)"
    unfolding builtin_bg_def Let_def by (auto split: option.split intro!: defined_intros defined_loops)
qed

lemma defined_exit: "list_all is_text cs \<Longrightarrow> defined (builtin_exit cs)"
proof -
  have "fits (line_of ''bye!'') []" by (simp add: fits_simps)
  then show "list_all is_text cs \<Longrightarrow> defined (builtin_exit cs)"
    unfolding builtin_exit_def Let_def by (auto split: list.split intro!: defined_deref defined_intros)
qed

lemma defined_run_builtin: "stage_text s \<Longrightarrow> defined (run_builtin s st)"
proof (cases "s_argv s")
  case (Cons c cs)
  assume "stage_text s"
  then have t: "is_text c" "list_all is_text cs" using Cons by (simp_all add: stage_text_def)
  have h: "defined p \<Longrightarrow> defined (bind p (\<lambda>st'. Ret (True, st')))" for p :: "sh prog" by (rule defined_bind) simp_all
  have home: "(case env_get (sh_env st) ''HOME'' of Some h \<Rightarrow> CStr h | None \<Rightarrow> CNull) = CNull \<or>
      is_text (case env_get (sh_env st) ''HOME'' of Some h \<Rightarrow> CStr h | None \<Rightarrow> CNull)" by (simp add: is_text_def split: option.split)
  have arg: "(case cs of [] \<Rightarrow> d | a # _ \<Rightarrow> a) = CNull \<or> is_text (case cs of [] \<Rightarrow> d | a # _ \<Rightarrow> a)" if "d = CNull \<or> is_text d" for d
    using t(2) that by (auto split: list.split)
  show ?thesis
    unfolding run_builtin_def Let_def Cons list.case
    by (intro defined_deref [OF t(1)] defined_if defined_exit [OF t(2)] h defined_maybe arg home defined_deref_list [OF t(2)] defined_builtins
        defined_kill [OF t(2)] defined_ends) simp_all
qed (simp add: run_builtin_def)

lemma defined_child_exec: "stage_text s \<Longrightarrow> path_short e \<Longrightarrow> defined (child_exec e s)"
proof (cases "s_argv s")
  case (Cons c cs)
  assume s: "stage_text s" and e: "path_short e"
  obtain as where as: "exec_args (c # cs) = Some as" using exec_args_text [of "c # cs"] s Cons by (auto simp: stage_text_def)
  have "fits (line_of ''%s: command not found'') [VStr t]" "fits (line_of ''%s: exec failed'') [VStr t]" for t by (simp_all add: fits_simps)
  moreover have "is_text c" using s Cons by (simp add: stage_text_def)
  ultimately show ?thesis unfolding child_exec_def Cons as list.case
    by (auto split: option.split intro!: defined_deref defined_bind defined_resolve [OF e] defined_andthen defined_print)
qed (simp add: child_exec_def)

lemma defined_child_stage: "stage_text s \<Longrightarrow> path_short e \<Longrightarrow> defined (child_stage e ps n i s)"
  unfolding child_stage_def by (intro defined_andthen defined_bind defined_if defined_ends defined_loops defined_setup defined_child_exec)

lemma defined_make_pipes: "defined (make_pipes n ps)"
proof (induction n arbitrary: ps)
  case (Suc n)
  have "fits (line_of ''sh: pipe failed'') []" by (simp add: fits_simps)
  with Suc show ?case by (auto intro!: defined_intros)
qed simp

lemma defined_run_stages:
  assumes "list_all stage_text ss" "path_short (sh_env st)"
  shows "defined (run_stages ss background cmdline st)"
proof -
  have "fits (line_of ''sh: fork failed'') []" by (simp add: fits_simps)
  then have forks: "defined (fork_stages (sh_env st) ps ss)" for ps
    unfolding fork_stages_def using assms by (auto simp: list_all_length intro!: defined_intros defined_child_stage)
  have "fits ''[%d]'' [VInt n]" "fits '' %d'' [VInt n]" "fits [CHR 0x0A] []" "fits (line_of ''[%d]+  Stopped %s'') [VInt n, VStr t]" for n t
    by (simp_all add: fits_simps)
  then have "defined (run_background pids cmdline st)" "defined (run_foreground pids cmdline st)" for pids
    unfolding run_background_def run_foreground_def Let_def
    by (auto split: prod.split intro!: defined_intros defined_loops)
  then show ?thesis unfolding run_stages_def
    by (auto split: option.split intro!: defined_bind defined_make_pipes defined_andthen defined_loops forks)
qed

lemma path_short_builtin:
  assumes "stage_text s" "path_short (sh_env st)"
  shows "ensures (\<lambda>_ _. True) (\<lambda>_ (handled, st'). handled \<or> st' = st) (run_builtin s st) h"
proof (cases "s_argv s")
  case (Cons c cs)
  have *: "ensures (\<lambda>_ _. True) (\<lambda>_ _. True) p h" for p :: "'a prog" and h by (induction p arbitrary: h) auto
  have handled: "ensures (\<lambda>_ _. True) (\<lambda>_ (handled, st'). handled \<or> st' = st) (bind p (\<lambda>st'. Ret (True, st'))) h" for p :: "sh prog" and h
    by (simp add: *)
  have leave: "ensures (\<lambda>_ _. True) R (builtin_exit cs) h" for R :: "history \<Rightarrow> bool \<times> sh \<Rightarrow> bool" and h
    by (auto simp: builtin_exit_def Let_def deref_def print_def split: list.split cstr.split option.split)
  show ?thesis unfolding run_builtin_def Let_def Cons list.case deref_def
    by (simp only: ensures.simps handled leave split: cstr.split if_split) simp
qed (simp add: run_builtin_def)

lemma defined_bind_post:
  "defined p \<Longrightarrow> ensures (\<lambda>_ _. True) (\<lambda>_. R) p h \<Longrightarrow> (\<And>x. R x \<Longrightarrow> defined (f x)) \<Longrightarrow> defined (bind p f)"
  by (induction p arbitrary: h) auto

lemma defined_run_pipeline:
  assumes "list_all stage_text ss" "path_short (sh_env st)"
  shows "defined (run_pipeline ss background cmdline st)"
proof (cases "\<exists>s. ss = [s]")
  case True
  then obtain s where s: "ss = [s]" by blast
  then have t: "stage_text s" using assms(1) by simp
  show ?thesis unfolding run_pipeline_def s list.case
  proof (rule defined_bind_post [OF defined_run_builtin [OF t] path_short_builtin [OF t assms(2), of "[]"]], goal_cases)
    case (1 x)
    then show ?case using defined_run_stages [of "[s]" st] t assms(2) by (cases x) (auto intro: defined_run_stages)
  qed
next
  case False
  then have "run_pipeline ss background cmdline st = run_stages ss background cmdline st"
    by (auto simp: run_pipeline_def split: list.split)
  then show ?thesis using defined_run_stages [OF assms] by simp
qed

section \<open>Tokens\<close>

definition token_text :: "token \<Rightarrow> bool" where
  "token_text t \<longleftrightarrow> (case t of TOK_WORD p \<Rightarrow> is_text p | TOK_AMP \<Rightarrow> False | _ \<Rightarrow> True)"

lemma parse_stage_text:
  "parse_stage ts s = Inr (s', rest) \<Longrightarrow> list_all token_text ts \<Longrightarrow> stage_text s \<Longrightarrow> stage_text s' \<and> list_all token_text rest"
proof (induction ts s arbitrary: s' rest rule: parse_stage.induct)
  case (7 w ts s)
  then show ?case by (auto simp: token_text_def stage_text_def split: if_splits)
qed (auto simp: token_text_def stage_text_def)

lemma parse_stages_text: "parse_stages k ts = Inr ss \<Longrightarrow> list_all token_text ts \<Longrightarrow> list_all stage_text ss"
proof (induction k arbitrary: ts ss)
  case (Suc k)
  show ?case
  proof (cases "ts = []")
    case True
    then show ?thesis using Suc.prems by simp
  next
    case False
    then obtain s rest where p: "parse_stage ts empty_stage = Inr (s, rest)" using Suc.prems(1) by (auto split: sum.splits)
    have st: "stage_text s" "list_all token_text rest"
      using parse_stage_text [OF p Suc.prems(2)] by (auto simp: stage_text_def empty_stage_def)
    show ?thesis
    proof (cases rest)
      case Nil
      then show ?thesis using Suc.prems(1) False p st by auto
    next
      case (Cons t ts')
      then obtain ss' where "parse_stages k ts' = Inr ss'" "ss = s # ss'"
        using Suc.prems(1) False p by (auto split: if_splits sum.splits)
      then show ?thesis using Suc.IH [of ts' ss'] st Cons by simp
    qed
  qed
qed (simp split: if_splits)

text \<open>Without variables a word takes at most as many bytes of the arena as it has characters in the line.\<close>

lemma arena_put_one: "fst (arena_put [c] a) \<le> Suc (fst a)"
  by (cases a) simp

lemma word_loop_size:
  "CHR ''$'' \<notin> set p \<Longrightarrow>
   fst (snd (word_loop e p sq dq a)) + length (fst (word_loop e p sq dq a)) \<le> fst a + length p \<and> set (fst (word_loop e p sq dq a)) \<subseteq> set p"
proof (induction e p sq dq a rule: word_loop.induct)
  case (2 e c p sq dq a)
  have p: "CHR ''$'' \<notin> set p" "c \<noteq> CHR ''$''" using "2.prems" by auto
  show ?case
  proof (cases "\<not> sq \<and> \<not> dq \<and> (is_blank c \<or> is_op c)")
    case False
    note ih = "2.IH" [OF this]
    consider "\<not> dq \<and> c = CHR 0x27" | "\<not> (\<not> dq \<and> c = CHR 0x27)" "\<not> sq \<and> c = CHR 0x22"
      | "\<not> (\<not> dq \<and> c = CHR 0x27)" "\<not> (\<not> sq \<and> c = CHR 0x22)" by blast
    then show ?thesis
    proof cases
      case 1
      then show ?thesis using ih(1) p False by auto
    next
      case 2
      then show ?thesis using ih(2) p False by auto
    next
      case 3
      have "\<not> (\<not> sq \<and> c = CHR ''$'')" using p(2) by simp
      then show ?thesis using ih(4) [OF 3] p False 3 arena_put_one [of c a] by (auto simp del: arena_put.simps)
    qed
  qed auto
qed simp

lemma word_loop_progress:
  assumes "\<not> is_blank c" "\<not> is_op c"
  shows "length (fst (word_loop e (c # q) False False a)) \<le> length q"
proof -
  have "length (fst (word_loop e (drop n q) sq dq a)) \<le> length q" for n sq dq a
    by (rule order_trans [OF word_loop_shorter]) simp
  from this [of 0] this show ?thesis using assms by (simp del: arena_put.simps)
qed

lemma tokenize_loop_text:
  "CHR ''$'' \<notin> set p \<Longrightarrow> pos + 2 * length p < TOKEN_ARENA_SIZE \<Longrightarrow> TOK_WORD CWild \<notin> set (tokenize_loop e k p pos)"
proof (induction k arbitrary: p pos)
  case 0
  then show ?case by (simp add: tokenize_loop.simps split: list.split)
next
  case (Suc k)
  show ?case
  proof (cases "dropWhile is_blank p")
    case (Cons c q)
    have sub: "set (c # q) \<subseteq> set p" "length (c # q) \<le> length p" "\<not> is_blank c"
      using set_dropWhileD [of _ is_blank p] length_dropWhile_le [of is_blank p] hd_dropWhile [of is_blank p] unfolding Cons by auto
    show ?thesis
    proof (cases "is_op c")
      case True
      then have "tokenize_loop e (Suc k) p pos = op_token c # tokenize_loop e k q pos" by (simp add: tokenize_loop.simps [of e "Suc k"] Cons)
      moreover have "TOK_WORD CWild \<notin> set (tokenize_loop e k q pos)" by (rule Suc.IH) (use sub Suc.prems in auto)
      ultimately show ?thesis by (simp add: op_token_def)
    next
      case False
      obtain rest pos1 w where wl: "word_loop e (c # q) False False (pos, []) = (rest, pos1, w)" by (metis prod_cases3)
      have nd: "CHR ''$'' \<notin> set (c # q)" using sub Suc.prems by auto
      from word_loop_size [OF nd, of e False False "(pos, [])"] word_loop_progress [OF sub(3) False, of e q "(pos, [])"]
      have sz: "pos1 + length rest \<le> pos + length (c # q)" "set rest \<subseteq> set (c # q)" "length rest \<le> length q"
        by (simp_all only: wl fst_conv snd_conv)
      have "tokenize_loop e (Suc k) p pos = TOK_WORD (CStr w) # tokenize_loop e k rest (if pos1 < TOKEN_ARENA_SIZE then pos1 + 1 else pos1)"
        using False Suc.prems(2) by (simp only: tokenize_loop.simps [of e "Suc k"] Cons list.case wl Let_def) simp
      moreover have "TOK_WORD CWild \<notin> set (tokenize_loop e k rest (if pos1 < TOKEN_ARENA_SIZE then pos1 + 1 else pos1))"
        by (rule Suc.IH) (use sz sub Suc.prems nd in \<open>auto split: if_splits\<close>)
      ultimately show ?thesis by simp
    qed
  next
    case Nil
    then have "tokenize_loop e (Suc k) p pos = []" by (simp only: tokenize_loop.simps [of e "Suc k" p pos] list.case)
    then show ?thesis by simp
  qed
qed

lemma tokenize_no_null: "TOK_WORD CNull \<notin> set (tokenize_loop e k p pos)"
proof (induction k arbitrary: p pos)
  case 0
  then show ?case by (simp add: tokenize_loop.simps split: list.split)
next
  case (Suc k)
  show ?case
    using Suc by (subst tokenize_loop.simps) (auto simp: op_token_def Let_def split: list.split prod.split)
qed

section \<open>Properties\<close>



text \<open>An ampersand at the start of a command makes the shell read through a null pointer: the token of the ampersand has no
  text and becomes the name of the command.\<close>

theorem ampersand_first_undefined: "run_line ''& ls'' st = Undef"
proof -
  have t: "tokenize (sh_env st) ''& ls'' MAX_TOKENS = [TOK_AMP, TOK_WORD (CStr ''ls'')]"
    by (simp add: tokenize_def tokenize_loop.simps is_blank_def is_op_def op_token_def)
  show ?thesis
    by (simp only: run_line_def t Let_def)
       (simp add: run_tokens_def parse_pipeline_def empty_stage_def run_pipeline_def run_builtin_def deref_def numeral_eq_Suc)
qed

end
