(* ===== verification/Tests.thy ===== *)
theory Tests
  imports Programs ShellSafe Syscall
begin

text \<open>
  The test programs under \<^verbatim>\<open>bin\<close> that judge the kernel by the replies to their system calls: \<^verbatim>\<open>errnotest\<close>, \<^verbatim>\<open>opentest\<close>, \<^verbatim>\<open>pipetest\<close>,
  \<^verbatim>\<open>tmpfstest\<close>, \<^verbatim>\<open>signaltest\<close>, \<^verbatim>\<open>jobtest\<close>, \<^verbatim>\<open>envtest\<close>, \<^verbatim>\<open>ttytest\<close>, \<^verbatim>\<open>cowtest\<close> and \<^verbatim>\<open>segfaulttest\<close>. The value \<open>None\<close> stands for a loop that does not end, by itself or
  within the bound on its turns.
\<close>

section \<open>Checks of results\<close>

definition verdict :: "bool \<Rightarrow> string" where
  "verdict good = (if good then ''PASS'' else ''FAIL'')"

definition check :: "string \<Rightarrow> int \<Rightarrow> int \<Rightarrow> bool prog" where
  "check label got want =
     andthen (print (line_of ''%s: got %d, want %d -> %s'') [VStr label, VInt (c_int got), VInt (c_int want), VStr (verdict (got = want))])
       (Ret (got = want))"

text \<open>\<^verbatim>\<open>all_ok &= check(label, c, want)\<close>.\<close>

definition check_call :: "string \<Rightarrow> sys \<Rightarrow> int \<Rightarrow> bool \<Rightarrow> bool prog" where
  "check_call label c want good = Call c (\<lambda>r. bind (check label (r_ret r) want) (\<lambda>b. Ret (good \<and> b)))"

definition errnotest_dir :: string where "errnotest_dir = ''/tmp/errnotest_dir''"
definition errnotest_file :: string where "errnotest_file = ''/tmp/errnotest_dir/child.txt''"

definition errnotest_files :: "bool prog" where
  "errnotest_files =
     bind (check_call ''open() on a missing path'' (SysOpen3 ''/no/such/path/at/all'' 0 0) (- ENOENT) True) (\<lambda>b1.
     Call (SysMkdir errnotest_dir) (\<lambda>_.
     bind (check_call ''mkdir() over an existing name'' (SysMkdir errnotest_dir) (- EEXIST) b1) (\<lambda>b2.
     bind (sys_create errnotest_file) (\<lambda>_.
     bind (check_call ''unlink() a non-empty directory'' (SysUnlink errnotest_dir) (- ENOTEMPTY) b2) (\<lambda>b3.
     Call (SysUnlink errnotest_file) (\<lambda>_. Call (SysUnlink errnotest_dir) (\<lambda>_. Ret b3)))))))"

definition errnotest_main :: "int prog" where
  "errnotest_main =
     bind errnotest_files (\<lambda>b3.
     bind (check_call ''chdir() into a plain file'' (SysChdir ''/hello.txt'') (- ENOTDIR) b3) (\<lambda>b4.
     bind (check_call ''read() on a never-opened fd'' (SysRead 97 1) (- EBADF) b4) (\<lambda>b5.
     bind (check_call ''close() on a never-opened fd'' (SysClose 97) (- EBADF) b5) (\<lambda>b6.
     bind (check_call (''kill() a pid that doesn'' @ CHR 0x27 # ''t exist'') (SysKill 9999 SIGTERM) (- ESRCH) b6) (\<lambda>b7.
     bind (check_call ''an entirely unknown syscall number'' (SysNum 999 [0]) (- ENOSYS) b7) (\<lambda>good.
     andthen (print (line_of (if good then ''PASS: every failure came back with the exact right errno'' else ''FAIL: see above'')) [])
       (Ret (if good then 0 else 1))))))))"

section \<open>Opening files\<close>

definition opentest_path :: string where "opentest_path = ''/tmp/opentest.bin''"

definition quoted_text :: "string \<Rightarrow> string" where
  "quoted_text s = CHR 0x22 # s @ [CHR 0x22]"

text \<open>The file is read into a buffer of \<open>n\<close> zero bytes; the value is the count and the buffer as a text. When the read fails the buffer
  stays empty.\<close>

definition read_back :: "nat \<Rightarrow> (int \<times> string) prog" where
  "read_back n = Call (SysOpen3 opentest_path 0 0) (\<lambda>o1. Call (SysRead (c_int (r_ret o1)) n) (\<lambda>r.
     Call (SysClose (c_int (r_ret o1))) (\<lambda>_. Ret (r_ret r, take (nat (r_ret r)) (r_data r) @ replicate (n - nat (r_ret r)) (CHR 0x00)))))"

text \<open>A text in a buffer without a terminator is read past its end.\<close>

definition buffer_text :: "string \<Rightarrow> string option" where
  "buffer_text b = (if CHR 0x00 \<in> set b then Some (takeWhile (\<lambda>c. c \<noteq> CHR 0x00) b) else None)"

definition opentest_content :: "string \<Rightarrow> nat \<Rightarrow> (int \<Rightarrow> string \<Rightarrow> bool) \<Rightarrow> bool \<Rightarrow> bool prog" where
  "opentest_content msg n expected good = bind (read_back n) (\<lambda>(k, buf).
     case buffer_text buf of None \<Rightarrow> Undef
     | Some txt \<Rightarrow> andthen (print (line_of (msg @ '': got %d bytes '' @ quoted_text ''%s'' @ '' -> %s'')) [VInt (c_int k), VStr txt, VStr (verdict (expected k buf))])
         (Ret (good \<and> expected k buf)))"

definition opentest_create :: "bool prog" where
  "opentest_create = Call (SysUnlink opentest_path) (\<lambda>_. Call (SysOpen3 opentest_path (0x40 + 1 + 0x200) 420) (\<lambda>o1.
     bind (check ''O_CREAT|O_WRONLY|O_TRUNC open'' (if r_ret o1 \<ge> 0 then 0 else r_ret o1) 0) (\<lambda>good.
       if r_ret o1 < 0 then Ret good
       else Call (SysWrite (c_int (r_ret o1)) ''hello'') (\<lambda>_. Call (SysClose (c_int (r_ret o1))) (\<lambda>_.
         opentest_content ''content round-trip'' 8 (\<lambda>n buf. n = 5 \<and> buf ! 0 = CHR ''h'' \<and> buf ! 4 = CHR ''o'') good)))))"

definition opentest_append :: "bool \<Rightarrow> bool prog" where
  "opentest_append good = Call (SysOpen3 opentest_path (1 + 0x400) 0) (\<lambda>o1.
     if r_ret o1 < 0 then bind (check ''O_APPEND open'' (r_ret o1) 0) (\<lambda>b. Ret (good \<and> b))
     else Call (SysWrite (c_int (r_ret o1)) ''!!!'') (\<lambda>_. Call (SysClose (c_int (r_ret o1))) (\<lambda>_.
       opentest_content ''O_APPEND preserved existing content'' 16
         (\<lambda>n buf. n = 8 \<and> buf ! 0 = CHR ''h'' \<and> buf ! 5 = CHR ''!'' \<and> buf ! 7 = CHR ''!'') good)))"

definition opentest_readonly :: "bool \<Rightarrow> bool prog" where
  "opentest_readonly good = Call (SysOpen3 opentest_path 0 0) (\<lambda>o1.
     if r_ret o1 < 0 then Ret good
     else bind (check_call ''write() on an O_RDONLY fd'' (SysWrite (c_int (r_ret o1)) ''x'') (- EBADF) good) (\<lambda>b.
       Call (SysClose (c_int (r_ret o1))) (\<lambda>_. Ret b)))"

definition opentest_mmap :: "bool \<Rightarrow> bool prog" where
  "opentest_mmap good =
     bind (check_call ''mmap() with a non-anonymous fd'' (SysNum SYS_MMAP [0, 4096, 3, 0, 3, 0]) (- ENODEV) good) (\<lambda>b1.
     bind (check_call ''mmap() with zero length'' (SysNum SYS_MMAP [0, 0, 3, 0x20, - 1, 0]) (- EINVAL) b1) (\<lambda>b2.
     Call (SysNum SYS_MMAP [0, 4096, 3, 0x20, - 1, 0]) (\<lambda>a.
     bind (check ''ordinary anonymous mmap still works'' (if r_ret a > 0 then 0 else r_ret a) 0) (\<lambda>b3.
     if r_ret a > 0 then Call (SysNum SYS_MUNMAP [r_ret a, 4096]) (\<lambda>_. Ret (b2 \<and> b3)) else Ret (b2 \<and> b3)))))"

definition opentest_main :: "int prog" where
  "opentest_main =
     bind opentest_create (\<lambda>b1.
     bind (check_call ''O_CREAT|O_EXCL over an existing file'' (SysOpen3 opentest_path (0x40 + 0x80 + 1) 420) (- EEXIST) b1) (\<lambda>b2.
     bind (opentest_append b2) (\<lambda>b3.
     bind (opentest_readonly b3) (\<lambda>b4.
     Call (SysUnlink opentest_path) (\<lambda>_.
     bind (opentest_mmap b4) (\<lambda>good.
     andthen (print (line_of (if good then ''PASS: real open() flags and mmap() validation both work correctly'' else ''FAIL: see above'')) [])
       (Ret (if good then 0 else 1))))))))"

section \<open>Bytes through a pipe and a file\<close>

definition TOTAL_BYTES :: nat where "TOTAL_BYTES = 20480"
definition CHUNK :: nat where "CHUNK = 137"

text \<open>The byte at an offset, and a run of bytes.\<close>

definition pattern_at :: "nat \<Rightarrow> char" where
  "pattern_at j = char_of (j mod 251)"

definition pattern :: "nat \<Rightarrow> nat \<Rightarrow> string" where
  "pattern j n = map (\<lambda>i. pattern_at (j + i)) [0..<n]"

definition this_chunk :: "nat \<Rightarrow> nat" where
  "this_chunk written = min (TOTAL_BYTES - written) CHUNK"

text \<open>The writer of \<^verbatim>\<open>pipetest\<close>; its loop ends because every write that does not fail makes progress.\<close>

function pipe_send :: "int \<Rightarrow> nat \<Rightarrow> nat prog" where
  "pipe_send write_end written =
     (if written < TOTAL_BYTES
      then Call (SysWrite write_end (pattern written (this_chunk written))) (\<lambda>r.
        if r_ret r \<le> 0 then andthen (print (line_of ''[child] pipetest: write failed at offset %d'') [VInt (c_int (int written))]) (Exit 1)
        else pipe_send write_end (written + nat (r_ret r)))
      else Ret written)"
  by pat_completeness auto
termination
  by (relation "measure (\<lambda>(_, w). TOTAL_BYTES - w)") auto

declare pipe_send.simps [simp del]

definition pipe_child :: "int \<Rightarrow> int \<Rightarrow> 'a prog" where
  "pipe_child read_end write_end = Call (SysClose read_end) (\<lambda>_.
     bind (pipe_send write_end 0) (\<lambda>written. Call (SysClose write_end) (\<lambda>_.
       andthen (print (line_of ''[child] wrote %d bytes, closed write end'') [VInt (c_int (int written))]) (Exit 0))))"

text \<open>The loop over the bytes of a chunk: the offset of the first that differs.\<close>

definition compare_chunk :: "nat \<Rightarrow> string \<Rightarrow> int \<Rightarrow> int" where
  "compare_chunk checked bs mismatch_at =
     fold (\<lambda>i m. if bs ! i \<noteq> pattern_at (wrap64 (checked + i)) \<and> m < 0 then c_int (int (wrap64 (checked + i))) else m) [0..<length bs] mismatch_at"

text \<open>Reading to the end: \<open>Inl\<close> is a read that failed, \<open>Inr\<close> the count of bytes and the first difference. A kernel that reports more bytes than
  it has stored, or than there is room for, makes the program look at memory that was never written.\<close>

fun read_check :: "nat \<Rightarrow> int \<Rightarrow> nat \<Rightarrow> int \<Rightarrow> (nat + nat \<times> int) option prog" where
  "read_check 0 fd checked mismatch_at = Ret None"
| "read_check (Suc k) fd checked mismatch_at = Call (SysRead fd CHUNK) (\<lambda>r.
     if r_ret r < 0 then Ret (Some (Inl checked))
     else if r_ret r = 0 then Ret (Some (Inr (checked, mismatch_at)))
     else if nat (r_ret r) > CHUNK \<or> length (r_data r) < nat (r_ret r) then Undef
     else read_check k fd (wrap64 (checked + nat (r_ret r))) (compare_chunk checked (take (nat (r_ret r)) (r_data r)) mismatch_at))"

text \<open>The lines with the outcome that \<^verbatim>\<open>pipetest\<close> and \<^verbatim>\<open>tmpfstest\<close> share, with their own messages.\<close>

definition judge :: "string \<Rightarrow> string \<Rightarrow> string \<Rightarrow> nat \<Rightarrow> int \<Rightarrow> int prog" where
  "judge counted short_msg pass_msg checked mismatch_at =
     andthen (print (line_of counted) [VInt (c_int (int checked)), VInt (int TOTAL_BYTES)])
       (if checked \<noteq> TOTAL_BYTES then andthen (print (line_of short_msg) []) (Ret 1)
        else if mismatch_at \<ge> 0 then andthen (print (line_of ''FAIL: content mismatch at byte offset %d'') [VInt mismatch_at]) (Ret 1)
        else andthen (print (line_of pass_msg) [VInt (int TOTAL_BYTES)]) (Ret 0))"

definition pipe_parent :: "nat \<Rightarrow> int \<Rightarrow> int \<Rightarrow> int \<Rightarrow> int option prog" where
  "pipe_parent k child read_end write_end = Call (SysClose write_end) (\<lambda>_.
     bind (read_check k read_end 0 (- 1)) (\<lambda>res. case res of None \<Rightarrow> Ret None
       | Some (Inl checked) \<Rightarrow> andthen (print (line_of ''[parent] pipetest: read error at offset %d'') [VInt (c_int (int checked))]) (Ret (Some 1))
       | Some (Inr (checked, mismatch_at)) \<Rightarrow>
           Call (SysClose read_end) (\<lambda>_. Call (SysWaitpid (c_int child)) (\<lambda>_.
             bind (judge ''[parent] read back %d bytes (expected %d)'' ''FAIL: byte count mismatch -- either a lost wakeup or a premature EOF''
               ''PASS: %d bytes written and read back byte-for-byte correct, no deadlock, clean EOF'' checked mismatch_at) (\<lambda>st. Ret (Some st))))))"

definition pipetest_main :: "nat \<Rightarrow> int option prog" where
  "pipetest_main k = Call SysPipe (\<lambda>p.
     if r_ret p < 0 then andthen (print (line_of ''pipetest: sys_pipe failed'') []) (Ret (Some 1))
     else Call SysFork (\<lambda>f.
       if r_ret f < 0 then andthen (print (line_of ''pipetest: fork failed'') []) (Ret (Some 1))
       else if r_ret f = 0 then pipe_child (fst (r_fds p)) (snd (r_fds p))
       else pipe_parent k (r_ret f) (fst (r_fds p)) (snd (r_fds p))))"

definition tmpfstest_path :: string where "tmpfstest_path = ''/tmp/tmpfstest.bin''"

text \<open>The writer of \<^verbatim>\<open>tmpfstest\<close>: a write that is not complete ends the program.\<close>

function tmpfs_send :: "int \<Rightarrow> nat \<Rightarrow> nat option prog" where
  "tmpfs_send wfd written =
     (if written < TOTAL_BYTES
      then Call (SysWrite wfd (pattern written (this_chunk written))) (\<lambda>r.
        if r_ret r \<noteq> int (this_chunk written)
        then andthen (print (line_of ''tmpfstest: short/failed write at offset %d (wrote %d, wanted %d)'')
               [VInt (c_int (int written)), VInt (c_int (r_ret r)), VInt (c_int (int (this_chunk written)))])
             (Call (SysClose wfd) (\<lambda>_. Ret None))
        else tmpfs_send wfd (written + this_chunk written))
      else Ret (Some written))"
  by pat_completeness auto
termination
  by (relation "measure (\<lambda>(_, w). TOTAL_BYTES - w)") (auto simp: this_chunk_def CHUNK_def)

declare tmpfs_send.simps [simp del]

definition tmpfs_read_back :: "nat \<Rightarrow> int option prog" where
  "tmpfs_read_back k = Call (SysOpen3 tmpfstest_path 0 0) (\<lambda>o1.
     if r_ret o1 < 0 then andthen (print (line_of ''tmpfstest: open for read failed'') []) (Ret (Some 1))
     else bind (read_check k (c_int (r_ret o1)) 0 (- 1)) (\<lambda>res. case res of None \<Rightarrow> Ret None
       | Some (Inl checked) \<Rightarrow> andthen (print (line_of ''tmpfstest: read error at offset %d'') [VInt (c_int (int checked))])
           (Call (SysClose (c_int (r_ret o1))) (\<lambda>_. Ret (Some 1)))
       | Some (Inr (checked, mismatch_at)) \<Rightarrow> Call (SysClose (c_int (r_ret o1))) (\<lambda>_.
           bind (judge ''read back %d bytes (expected %d)''
             (''FAIL: byte count mismatch -- this is exactly the silent-truncation bug we fixed, if it'' @ CHR 0x27 # ''s back'')
             ''PASS: %d bytes written, stored, and read back byte-for-byte correct'' checked mismatch_at) (\<lambda>st. Ret (Some st)))))"

definition tmpfstest_main :: "nat \<Rightarrow> int option prog" where
  "tmpfstest_main k = Call (SysUnlink tmpfstest_path) (\<lambda>_. bind (sys_create tmpfstest_path) (\<lambda>c.
     if c < 0 then andthen (print (line_of ''tmpfstest: create failed'') []) (Ret (Some 1))
     else Call (SysOpen3 tmpfstest_path 1 0) (\<lambda>w.
       if r_ret w < 0 then andthen (print (line_of ''tmpfstest: open for write failed'') []) (Ret (Some 1))
       else bind (tmpfs_send (c_int (r_ret w)) 0) (\<lambda>sent. case sent of None \<Rightarrow> Ret (Some 1)
         | Some written \<Rightarrow> Call (SysClose (c_int (r_ret w))) (\<lambda>_.
             andthen (print (line_of ''wrote %d bytes'') [VInt (c_int (int written))])
               (Call (SysStat tmpfstest_path) (\<lambda>st.
                  if r_ret st < 0 then andthen (print (line_of ''tmpfstest: stat failed'') []) (Ret (Some 1))
                  else andthen (print (line_of ''stat reports size %d (expected %d) -- %s'') [VInt (c_int (int (st_size (r_stat st)))), VInt (int TOTAL_BYTES),
                           VStr (if st_size (r_stat st) = TOTAL_BYTES then ''MATCH'' else ''MISMATCH'')])
                         (tmpfs_read_back k))))))))"

section \<open>Signals\<close>

text \<open>\<^verbatim>\<open>sys_waitpid(pid, &status)\<close>: the kernel stores a status when there is one to report.\<close>

definition wait_status :: "int \<Rightarrow> reply \<Rightarrow> int" where
  "wait_status old r = (if r_ret r < 0 then old else r_status r)"

definition signaled_by :: "int \<Rightarrow> int \<Rightarrow> bool" where
  "signaled_by sig status \<longleftrightarrow> WIFSIGNALED status \<and> WTERMSIG status = sig"

definition case_report :: "string \<Rightarrow> int \<Rightarrow> int \<Rightarrow> int \<Rightarrow> bool option prog" where
  "case_report label expected_sig child status =
     andthen (print (line_of ''case %s: pid %d, status %d, WIFSIGNALED=%d, WTERMSIG=%d (expected sig %d) -- %s'')
         [VStr label, VInt child, VInt status, VInt (of_bool (WIFSIGNALED status)), VInt (WTERMSIG status), VInt expected_sig,
          VStr (verdict (signaled_by expected_sig status))])
       (Ret (Some (signaled_by expected_sig status)))"

definition run_case :: "nat \<Rightarrow> string \<Rightarrow> int \<Rightarrow> bool option prog" where
  "run_case case_id label expected_sig =
     (if case_id = 0 then Call SysPipe (\<lambda>p. Call SysFork (\<lambda>f. let child = c_int (r_ret f) in
        if child = 0 then Call (SysClose (snd (r_fds p))) (\<lambda>_. Call (SysRead (fst (r_fds p)) 1) (\<lambda>_. Exit 0))
        else Call (SysKill child SIGTERM) (\<lambda>_. Call (SysWaitpid child) (\<lambda>w. Call (SysClose (fst (r_fds p))) (\<lambda>_. Call (SysClose (snd (r_fds p))) (\<lambda>_.
          case_report label expected_sig child (wait_status (- 999) w)))))))
      else if case_id = 1 then Call SysFork (\<lambda>f. let child = c_int (r_ret f) in
        if child = 0 then Ret None
        else Call (SysKill child SIGKILL) (\<lambda>_. Call (SysWaitpid child) (\<lambda>w. case_report label expected_sig child (wait_status (- 999) w))))
      else Call SysFork (\<lambda>f. let child = c_int (r_ret f) in
        if child = 0 then Call SysGetpid (\<lambda>me. Call (SysKill (c_int (r_ret me)) SIGTERM) (\<lambda>_. Exit 0))
        else Call (SysWaitpid child) (\<lambda>w. case_report label expected_sig child (wait_status (- 999) w))))"

text \<open>The kill of a process that does not exist, with the value the program expects.\<close>

definition case_no_process :: "int \<Rightarrow> string \<Rightarrow> string \<Rightarrow> bool prog" where
  "case_no_process target what extra = Call (SysKill target SIGTERM) (\<lambda>r.
     andthen (print (line_of (what @ '' returned %d (expected -1'' @ extra @ '') -- %s'')) [VInt (c_int (r_ret r)), VStr (verdict (r_ret r = - 1))])
       (Ret (r_ret r = - 1)))"

text \<open>The cases one after the other; a child that spins goes no further.\<close>

fun run_cases :: "(nat \<times> string \<times> int) list \<Rightarrow> bool \<Rightarrow> bool option prog" where
  "run_cases [] good = Ret (Some good)"
| "run_cases ((n, label, sig) # cs) good = bind (run_case n label sig) (\<lambda>b. case b of None \<Rightarrow> Ret None | Some p \<Rightarrow> run_cases cs (good \<and> p))"

definition signaltest_main :: "int option prog" where
  "signaltest_main =
     bind (run_cases [(0, ''A'', SIGTERM), (1, ''B'', SIGKILL), (2, ''C'', SIGTERM)] True) (\<lambda>b. case b of None \<Rightarrow> Ret None
       | Some abc \<Rightarrow>
           bind (case_no_process 9999 ''case D: sys_kill on nonexistent pid'' []) (\<lambda>d.
           bind (case_no_process 0 ''case E: sys_kill on pid 0'' '', and this line printing at all means the kernel survived'') (\<lambda>e.
           if abc \<and> d \<and> e then andthen (print (line_of ''PASS: all signal cases behaved correctly'') []) (Ret (Some 0))
           else andthen (print (line_of ''FAIL: at least one signal case above did not match'') []) (Ret (Some 1)))))"

definition jobtest_finish :: "int \<Rightarrow> bool \<Rightarrow> int option prog" where
  "jobtest_finish child stop_ok = Call (SysKill (c_int child) SIGCONT) (\<lambda>_. Call (SysKill (c_int child) SIGTERM) (\<lambda>_. Call (SysWaitpid (c_int child)) (\<lambda>w.
     let status = wait_status 0 w; term_ok = (r_ret w = child \<and> signaled_by SIGTERM status) in
     andthen (print (line_of ''after SIGCONT+SIGTERM: reaped %d, status %d, WIFSIGNALED=%d, WTERMSIG=%d -- %s'')
         [VInt (c_int (r_ret w)), VInt status, VInt (of_bool (WIFSIGNALED status)), VInt (WTERMSIG status), VStr (verdict term_ok)])
       (if stop_ok \<and> term_ok then andthen (print (line_of ''PASS: SIGTSTP/SIGCONT mechanism works correctly'') []) (Ret (Some 0))
        else andthen (print (line_of ''FAIL: job control mechanism did not behave as expected'') []) (Ret (Some 1))))))"

definition jobtest_main :: "int option prog" where
  "jobtest_main = Call SysFork (\<lambda>f. let child = r_ret f in
     if child = 0 then Ret None
     else Call (SysKill (c_int child) SIGTSTP) (\<lambda>_. Call (SysWaitpid (c_int child)) (\<lambda>w.
       let status = wait_status 0 w; stop_ok = (WIFSTOPPED status \<and> WSTOPSIG status = SIGTSTP) in
       andthen (print (line_of ''after SIGTSTP: status %d, WIFSTOPPED=%d, WSTOPSIG=%d -- %s'')
           [VInt status, VInt (of_bool (WIFSTOPPED status)), VInt (WSTOPSIG status), VStr (verdict stop_ok)])
         (jobtest_finish child stop_ok))))"

section \<open>Environment and terminal\<close>

text \<open>The pairs of the auxiliary vector up to its end; without an end the loop leaves the stack.\<close>

fun aux_pairs :: "u64 list \<Rightarrow> (u64 \<times> u64) list option" where
  "aux_pairs (t # v # ws) = (if t = AT_NULL then Some [] else map_option (\<lambda>ps. (t, v) # ps) (aux_pairs ws))"
| "aux_pairs _ = None"

text \<open>The value of an entry: the last one of its type, and whether there was one.\<close>

definition aux_find :: "u64 \<Rightarrow> (u64 \<times> u64) list \<Rightarrow> u64 option" where
  "aux_find t ps = fold (\<lambda>(k, v) x. if k = t then Some v else x) ps None"

definition aux_val :: "u64 \<Rightarrow> (u64 \<times> u64) list \<Rightarrow> u64" where
  "aux_val t ps = (case aux_find t ps of None \<Rightarrow> 0 | Some v \<Rightarrow> v)"

definition aux_int :: "u64 \<Rightarrow> (u64 \<times> u64) list \<Rightarrow> vararg" where
  "aux_int t ps = VInt (c_int (uint (aux_val t ps)))"

definition envtest_ok :: "(u64 \<times> u64) list \<Rightarrow> bool" where
  "envtest_ok ps \<longleftrightarrow> aux_find AT_PAGESZ ps \<noteq> None \<and> aux_val AT_PAGESZ ps = 4096 \<and> aux_find AT_ENTRY ps \<noteq> None \<and> aux_val AT_ENTRY ps \<noteq> 0 \<and>
     aux_find AT_PHDR ps \<noteq> None \<and> aux_val AT_PHDR ps \<noteq> 0 \<and> aux_val AT_PHENT ps = 56 \<and> aux_val AT_PHNUM ps \<noteq> 0 \<and> aux_find AT_RANDOM ps \<noteq> None"

definition envtest_aux :: "mem \<Rightarrow> (u64 \<times> u64) list \<Rightarrow> unit prog" where
  "envtest_aux um ps =
     andthen (print (line_of ''  AT_PAGESZ = %d (expect 4096)'') [aux_int AT_PAGESZ ps])
    (andthen (print (line_of ''  AT_ENTRY  = 0x%x'') [aux_int AT_ENTRY ps])
    (andthen (print (line_of ''  AT_PHDR   = 0x%x'') [aux_int AT_PHDR ps])
    (andthen (print (line_of ''  AT_PHENT  = %d (expect 56)'') [aux_int AT_PHENT ps])
    (andthen (print (line_of ''  AT_PHNUM  = %d'') [aux_int AT_PHNUM ps])
    (andthen (print ''  AT_RANDOM = 0x%x -> '' [aux_int AT_RANDOM ps])
    (andthen (let a = unat (aux_val AT_RANDOM ps) in
       if a \<noteq> 0 then for_each [0..<16] (\<lambda>i _. print ''%x '' [VInt (uint (um (a + i)))]) () else Ret ())
    (print [CHR 0x0A] [])))))))"

text \<open>\<open>ws\<close> are the words behind the environment on the initial stack and \<open>um\<close> the memory of the process.\<close>

definition envtest_main :: "string list \<Rightarrow> string list \<Rightarrow> u64 list \<Rightarrow> mem \<Rightarrow> int prog" where
  "envtest_main argv envp ws um =
     andthen (print (line_of ''--- argv (%d) ---'') [VInt (c_int (int (length argv)))])
    (andthen (for_each [0..<length argv] (\<lambda>i _. print (line_of ''  argv[%d] = %s'') [VInt (c_int (int i)), VStr (argv ! i)]) ())
    (andthen (print (line_of ''--- envp ---'') [])
    (andthen (for_each envp (\<lambda>e _. print (line_of ''  %s'') [VStr e]) ())
    (andthen (print (line_of ''--- getenv ---'') [])
    (andthen (print (line_of (''  getenv('' @ quoted_text ''FOO'' @ '') = %s''))
         [VStr (case getenv ''FOO'' envp of Some v \<Rightarrow> v | None \<Rightarrow> ''(not set)'')])
    (andthen (print (line_of ''--- auxv ---'') [])
    (case aux_pairs ws of None \<Rightarrow> Undef
     | Some ps \<Rightarrow> andthen (envtest_aux um ps)
         (andthen (print (line_of (if envtest_ok ps then ''PASS: auxv is fully populated and looks sane''
                                   else ''FAIL: something in the auxv is missing or wrong, see above'')) [])
           (Ret (if envtest_ok ps then 0 else 1))))))))))"

definition c_char :: "char \<Rightarrow> int" where
  "c_char c = signed_take_bit 7 (of_char c)"

text \<open>Five keys in raw mode; a read that stores nothing leaves \<^verbatim>\<open>c\<close> undefined.\<close>

definition ttytest_keys :: "unit prog" where
  "ttytest_keys = for_each [0..<5] (\<lambda>_ _. Call (SysRead 0 1) (\<lambda>r.
     case r_data r of [] \<Rightarrow> Undef | c # _ \<Rightarrow> print '' [got 0x%x]'' [VInt (c_char c)])) ()"

text \<open>The line that was typed, unless the kernel reports a failure or more bytes than it was asked for.\<close>

definition ttytest_line :: "reply \<Rightarrow> string option" where
  "ttytest_line r =
     (if r_ret r < 0 \<or> r_ret r > 127 \<or> length (r_data r) < nat (r_ret r) then None
      else let b = take (nat (r_ret r)) (r_data r); b1 = (if b \<noteq> [] \<and> last b = CHR 0x0A then butlast b else b)
           in Some (takeWhile (\<lambda>c. c \<noteq> CHR 0x00) b1))"

definition ttytest_password :: "int prog" where
  "ttytest_password =
     andthen (print (line_of ''=== echo-off demo (password-style prompt) ==='') [])
    (andthen (print (line_of ''Type something and press Enter -- nothing should appear as you type,'') [])
    (andthen (print (line_of (''but backspace still works, and it'' @ CHR 0x27 # ''ll be printed back after Enter to'')) [])
    (andthen (print (line_of ''prove it was actually captured.'') [])
    (andthen (print ''password: '' [])
    (Call (SysTtySetEcho 0) (\<lambda>_. Call (SysRead 0 127) (\<lambda>r. Call (SysTtySetEcho 1) (\<lambda>_.
       case ttytest_line r of None \<Rightarrow> Undef
       | Some txt \<Rightarrow>
           andthen (print (CHR 0x0A # ''(what was actually captured: '' @ quoted_text ''%s'' @ '')'' @ [CHR 0x0A, CHR 0x0A]) [VStr txt])
          (andthen (print (line_of ''=== back to normal ==='') [])
          (andthen (print (line_of ''Canonical mode + echo should be exactly like every other program now.'') []) (Ret 0)))))))))))"

definition ttytest_main :: "int prog" where
  "ttytest_main =
     andthen (print (line_of ''=== raw mode demo ==='') [])
    (andthen (print (line_of ''Type 5 characters -- each should appear the instant you press it,'') [])
    (andthen (print (line_of (''with no need to press Enter (that'' @ CHR 0x27 # ''s the difference from normal typing).'')) [])
    (Call (SysTtySetRaw 1) (\<lambda>_. andthen ttytest_keys (Call (SysTtySetRaw 0) (\<lambda>_.
       andthen (print [CHR 0x0A, CHR 0x0A] []) ttytest_password))))))"

section \<open>Memory\<close>

text \<open>\<open>seen\<close> is what the parent finds in \<^verbatim>\<open>shared_value\<close> after the child has ended.\<close>

definition cowtest_main :: "int \<Rightarrow> int prog" where
  "cowtest_main seen =
     andthen (print (line_of ''before fork: shared_value = %d'') [VInt 100]) (Call SysFork (\<lambda>f.
       if r_ret f < 0 then andthen (print (line_of ''cowtest: fork failed'') []) (Ret 1)
       else if r_ret f = 0 then
         andthen (print (line_of (''[child] set shared_value = %d (this should fault-and-copy, not corrupt the parent'' @ CHR 0x27 # ''s page)'')) [VInt 42]) (Exit 0)
       else Call (SysWaitpid (c_int (r_ret f))) (\<lambda>_.
         andthen (print (line_of ''[parent] after child exited, shared_value = %d (expected 100 -- untouched)'') [VInt seen])
           (if seen = 100
            then andthen (print (line_of ''PASS: parent and child had independent copies after fork -- COW isolation confirmed'') []) (Ret 0)
            else andthen (print (line_of (''FAIL: parent'' @ CHR 0x27 # ''s page was clobbered by the child'' @ CHR 0x27 # ''s write -- COW isolation broken'')) []) (Ret 1)))))"

text \<open>The child stores to an address that is not its own.\<close>

definition segfaulttest_main :: "int prog" where
  "segfaulttest_main = Call SysFork (\<lambda>f.
     if r_ret f < 0 then andthen (print (line_of ''segfaulttest: fork failed'') []) (Ret 1)
     else if r_ret f = 0 then Undef
     else Call (SysWaitpid (c_int (r_ret f))) (\<lambda>w.
       let status = wait_status 0 w in
       andthen (print (line_of ''child status: %d, WIFSIGNALED=%d, WTERMSIG=%d (expected signaled, sig %d)'')
           [VInt status, VInt (of_bool (WIFSIGNALED status)), VInt (WTERMSIG status), VInt SIGSEGV])
         (if signaled_by SIGSEGV status
          then andthen (print (line_of ''PASS: userspace fault terminated only the child (SIGSEGV), kernel kept running'') []) (Ret 0)
          else andthen (print (line_of ''FAIL: unexpected status'') []) (Ret 1))))"

section \<open>Properties\<close>

text \<open>The bytes a program has read.\<close>

fun read_bytes :: "sys \<Rightarrow> reply \<Rightarrow> string" where
  "read_bytes (SysRead fd n) r = take (nat (r_ret r)) (r_data r)"
| "read_bytes _ r = []"

definition reads :: "history \<Rightarrow> string" where
  "reads h = concat (map (\<lambda>(c, r). read_bytes c r) h)"

lemma reads_simps [simp]: "reads [] = []" "reads ((c, r) # h) = read_bytes c r @ reads h" "reads (h @ g) = reads h @ reads g"
  by (simp_all add: reads_def)

lemma pattern_nth [simp]: "length (pattern j n) = n" "i < n \<Longrightarrow> pattern j n ! i = pattern_at (j + i)"
  by (simp_all add: pattern_def)

lemma pattern_app: "pattern j n @ pattern (j + n) m = pattern j (n + m)"
  by (rule nth_equalityI) (auto simp: nth_append)

lemma compare_chunk_sound:
  assumes "checked + length bs < 2 ^ 31"
  shows "compare_chunk checked bs m < 0 \<longleftrightarrow> m < 0 \<and> bs = pattern checked (length bs)"
proof -
  let ?f = "\<lambda>i m. if bs ! i \<noteq> pattern_at (wrap64 (checked + i)) \<and> m < 0 then c_int (int (wrap64 (checked + i))) else m"
  have small: "wrap64 (checked + i) = checked + i" "0 \<le> c_int (int (checked + i))" if "i < length bs" for i
    using that assms by (simp_all add: wrap64_def c_int_def signed_take_bit_int_eq_self)
  have "fold ?f [0..<n] m < 0 \<longleftrightarrow> m < 0 \<and> (\<forall>i < n. bs ! i = pattern_at (checked + i))" if "n \<le> length bs" for n
    using that
  proof (induction n)
    case (Suc n)
    then show ?case using small [of n] by (auto simp: less_Suc_eq)
  qed simp
  moreover have "bs = pattern checked (length bs) \<longleftrightarrow> (\<forall>i < length bs. bs ! i = pattern_at (checked + i))"
    unfolding list_eq_iff_nth_eq by simp
  ultimately show ?thesis unfolding compare_chunk_def by blast
qed

definition sound_read :: "history \<Rightarrow> (nat + nat \<times> int) option \<Rightarrow> bool" where
  "sound_read h x \<longleftrightarrow> (\<forall>c m. x = Some (Inr (c, m)) \<longrightarrow> length (reads h) = c \<and> (c < 2 ^ 31 \<and> m < 0 \<longrightarrow> reads h = pattern 0 c))"

lemma sound_read_simps [simp]:
  "sound_read h None" "sound_read h (Some (Inl c))"
  "sound_read h (Some (Inr (c, m))) \<longleftrightarrow> length (reads h) = c \<and> (c < 2 ^ 31 \<and> m < 0 \<longrightarrow> reads h = pattern 0 c)"
  by (simp_all add: sound_read_def)

lemma read_check_sound:
  assumes "length (reads h) = checked" "checked + k * CHUNK < 2 ^ 63" "checked < 2 ^ 31 \<Longrightarrow> m < 0 \<Longrightarrow> reads h = pattern 0 checked"
  shows "ensures (\<lambda>_ _. True) sound_read (read_check k fd checked m) h"
  using assms
proof (induction k fd checked m arbitrary: h rule: read_check.induct)
  case (2 k fd checked m)
  have "ensures (\<lambda>_ _. True) sound_read (read_check k fd (wrap64 (checked + nat (r_ret r))) (compare_chunk checked (take (nat (r_ret r)) (r_data r)) m))
      (h @ [(SysRead fd CHUNK, r)])"
    if r: "\<not> r_ret r < 0" "r_ret r \<noteq> 0" "\<not> (nat (r_ret r) > CHUNK \<or> length (r_data r) < nat (r_ret r))" for r :: reply
  proof (rule 2(1) [OF r])
    let ?n = "nat (r_ret r)" and ?b = "take (nat (r_ret r)) (r_data r)"
    have w: "wrap64 (checked + ?n) = checked + ?n" using r(3) 2(3) by (simp add: wrap64_def)
    show "length (reads (h @ [(SysRead fd CHUNK, r)])) = wrap64 (checked + ?n)" "wrap64 (checked + ?n) + k * CHUNK < 2 ^ 63"
      using r(3) 2(2,3) by (simp_all add: w)
    show "reads (h @ [(SysRead fd CHUNK, r)]) = pattern 0 (wrap64 (checked + ?n))" if "wrap64 (checked + ?n) < 2 ^ 31" "compare_chunk checked ?b m < 0"
      using that r(3) compare_chunk_sound [of checked ?b m] 2(4) pattern_app [of 0 checked ?n] by (simp add: w)
  qed
  then show ?case using 2(2-4) by simp
qed simp

text \<open>The other calls read nothing.\<close>

fun no_read :: "sys \<Rightarrow> bool" where
  "no_read (SysRead fd n) = False"
| "no_read _ = True"

lemma no_read_bytes [simp]: "no_read c \<Longrightarrow> read_bytes c r = []"
  by (cases c) simp_all

lemma no_read_ensures:
  assumes "only no_read p" "reads h = d"
  shows "ensures (\<lambda>_ _. True) (\<lambda>h _. reads h = d) p h"
  by (rule ensures_only [OF assms(1), of "\<lambda>h. reads h = d"]) (simp_all add: assms(2))

lemma sends_no_read: "only no_read (pipe_send fd w)" "only no_read (tmpfs_send fd w)" "only no_read (sys_create pth)"
proof -
  show "only no_read (pipe_send fd w)"
  proof (induction fd w rule: pipe_send.induct)
    case (1 fd w)
    then show ?case by (subst pipe_send.simps) (auto intro!: only_intros)
  qed
  show "only no_read (tmpfs_send fd w)"
  proof (induction fd w rule: tmpfs_send.induct)
    case (1 fd w)
    then show ?case by (subst tmpfs_send.simps) (auto intro!: only_intros)
  qed
  show "only no_read (sys_create pth)" by (simp add: sys_create_def)
qed

lemma ensures_top [simp]: "ensures (\<lambda>_ _. True) (\<lambda>_ _. True) p h"
  by (induction p arbitrary: h) auto

lemma judge_sound:
  assumes "length (reads h) = c" "c < 2 ^ 31 \<Longrightarrow> m < 0 \<Longrightarrow> reads h = pattern 0 c"
  shows "ensures (\<lambda>_ _. True) (\<lambda>h x. x = 0 \<longrightarrow> reads h = pattern 0 TOTAL_BYTES) (judge a b p c m) h"
  using assms by (auto simp: judge_def print_def TOTAL_BYTES_def split: option.split)

text \<open>Status 0 is only given for the right bytes.\<close>

definition right_verdict :: "history \<Rightarrow> int option \<Rightarrow> bool" where
  "right_verdict h x \<longleftrightarrow> (x = Some 0 \<longrightarrow> reads h = pattern 0 TOTAL_BYTES)"

lemma right_simps [simp]: "right_verdict h None" "right_verdict h (Some 1)" "right_verdict h (Some x) \<longleftrightarrow> (x = 0 \<longrightarrow> reads h = pattern 0 TOTAL_BYTES)"
  by (simp_all add: right_verdict_def)

lemma read_then:
  assumes "k * CHUNK < 2 ^ 63" "reads h = []"
    and "\<And>h. ensures (\<lambda>_ _. True) right_verdict (f None) h" "\<And>h c. ensures (\<lambda>_ _. True) right_verdict (f (Some (Inl c))) h"
    and "\<And>h c m. length (reads h) = c \<Longrightarrow> (c < 2 ^ 31 \<Longrightarrow> m < 0 \<Longrightarrow> reads h = pattern 0 c) \<Longrightarrow> ensures (\<lambda>_ _. True) right_verdict (f (Some (Inr (c, m)))) h"
  shows "ensures (\<lambda>_ _. True) right_verdict (bind (read_check k fd 0 (- 1)) f) h"
proof -
  have "ensures (\<lambda>_ _. True) right_verdict (f res) g" if "sound_read g res" for g res
  proof -
    consider "res = None" | c where "res = Some (Inl c)" | c m where "res = Some (Inr (c, m))" by (metis option.exhaust sum.exhaust surj_pair)
    then show ?thesis by cases (use that assms(3-5) in auto)
  qed
  moreover have "ensures (\<lambda>_ _. True) sound_read (read_check k fd 0 (- 1)) h"
    by (rule read_check_sound) (use assms(1,2) in \<open>simp_all add: pattern_def\<close>)
  ultimately show ?thesis unfolding ensures_bind by (rule ensures_mono [rotated])
qed

text \<open>The verdicts are right: \<^verbatim>\<open>pipetest\<close> and \<^verbatim>\<open>tmpfstest\<close> end with status 0 only when the bytes they have read are the pattern,
  byte for byte and in full.\<close>

lemma pipe_parent_sound:
  assumes "k * CHUNK < 2 ^ 63" "reads h = []"
  shows "ensures (\<lambda>_ _. True) right_verdict (pipe_parent k c rd wr) h"
proof -
  have "ensures (\<lambda>_ _. True) right_verdict (bind (read_check k rd 0 (- 1)) (\<lambda>res. case res of None \<Rightarrow> Ret None
       | Some (Inl checked) \<Rightarrow> andthen (print (line_of ''[parent] pipetest: read error at offset %d'') [VInt (c_int (int checked))]) (Ret (Some 1))
       | Some (Inr (checked, mismatch_at)) \<Rightarrow>
           Call (SysClose rd) (\<lambda>_. Call (SysWaitpid (c_int c)) (\<lambda>_. bind (judge a b p checked mismatch_at) (\<lambda>st. Ret (Some st)))))) (h @ [(SysClose wr, r)])"
    for r a b p
    by (rule read_then [OF assms(1)]) (auto simp: assms(2) intro!: ensures_print judge_sound)
  then show ?thesis by (simp add: pipe_parent_def)
qed

theorem pipetest_sound:
  assumes "k * CHUNK < 2 ^ 63"
  shows "ensures (\<lambda>_ _. True) right_verdict (pipetest_main k) []"
proof -
  have "ensures (\<lambda>_ _. True) R (pipe_child rd wr) h" for R rd wr h
    by (simp add: pipe_child_def andthen_def print_def split: option.split)
  then show ?thesis unfolding pipetest_main_def using pipe_parent_sound [OF assms] by (auto intro!: ensures_print)
qed

lemma tmpfs_read_back_sound:
  assumes "k * CHUNK < 2 ^ 63" "reads h = []"
  shows "ensures (\<lambda>_ _. True) right_verdict (tmpfs_read_back k) h"
proof -
  have "ensures (\<lambda>_ _. True) right_verdict (bind (read_check k fd 0 (- 1)) (\<lambda>res. case res of None \<Rightarrow> Ret None
       | Some (Inl checked) \<Rightarrow> andthen (print (line_of ''tmpfstest: read error at offset %d'') [VInt (c_int (int checked))]) (Call (SysClose fd) (\<lambda>_. Ret (Some 1)))
       | Some (Inr (checked, mismatch_at)) \<Rightarrow> Call (SysClose fd) (\<lambda>_. bind (judge a b p checked mismatch_at) (\<lambda>st. Ret (Some st))))) (h @ [(SysOpen3 tmpfstest_path 0 0, r)])"
    for r a b p fd
    by (rule read_then [OF assms(1)]) (auto simp: assms(2) intro!: ensures_print judge_sound)
  then show ?thesis by (auto simp: tmpfs_read_back_def intro!: ensures_print)
qed

theorem tmpfstest_sound:
  assumes "k * CHUNK < 2 ^ 63"
  shows "ensures (\<lambda>_ _. True) right_verdict (tmpfstest_main k) []"
proof -
  note none = no_read_ensures [OF sends_no_read(2)] no_read_ensures [OF sends_no_read(3)]
  show ?thesis unfolding tmpfstest_main_def
    by (auto simp: tmpfs_read_back_sound [OF assms] intro!: ensures_print ensures_mono [OF none(1)] ensures_mono [OF none(2)] split: option.split)
qed

text \<open>A property of the history that later calls cannot undo.\<close>

lemma ensures_lasting:
  assumes "P h" "\<And>h c r. P h \<Longrightarrow> P (h @ [(c, r)])"
  shows "ensures (\<lambda>_ _. True) (\<lambda>h _. P h) p h"
  using assms(1) by (induction p arbitrary: h) (auto intro: assms(2))

text \<open>\<^verbatim>\<open>signaltest\<close> cannot pass on this kernel: it expects the kill of a process that does not exist to return \<open>- 1\<close>, and the kernel returns
  \<open>- ESRCH\<close>.\<close>

theorem signaltest_fails:
  assumes "process_find_by_pid 9999 s = None"
  shows "sys_kill f 9999 SIGTERM s = Some (ret f (- ESRCH, s)) \<and>
    ensures (\<lambda>_ _. True) (\<lambda>h x. list_all (\<lambda>(c, r). c = SysKill 9999 SIGTERM \<longrightarrow> r_ret r = - ESRCH) h \<longrightarrow> x \<noteq> Some 0) signaltest_main []"
proof -
  let ?ok = "list_all (\<lambda>(c, r). c = SysKill 9999 SIGTERM \<longrightarrow> r_ret r = - ESRCH)"
  have d: "ensures (\<lambda>_ _. True) (\<lambda>h d. d \<longrightarrow> \<not> ?ok h) (case_no_process 9999 what extra) h" for what extra h
    by (auto simp: case_no_process_def print_def split: option.split)
  have e: "ensures (\<lambda>_ _. True) (\<lambda>h _. d \<longrightarrow> \<not> ?ok h) (case_no_process 0 what extra) h" if "d \<longrightarrow> \<not> ?ok h" for d what extra h
    using that by (intro ensures_lasting) auto
  let ?R = "\<lambda>h x. ?ok h \<longrightarrow> x \<noteq> Some 0"
  let ?last = "\<lambda>b d e m1 m2. if b \<and> d \<and> e then andthen (print m1 []) (Ret (Some (0 :: int))) else andthen (print m2 []) (Ret (Some 1))"
  have fin: "ensures (\<lambda>_ _. True) ?R (?last b d e m1 m2) h" if "d \<longrightarrow> \<not> ?ok h" for b d e m1 m2 h
    using that by (auto simp: print_def split: option.split)
  have "ensures (\<lambda>_ _. True) ?R (bind (case_no_process 0 w x) (\<lambda>e. ?last b d e m1 m2)) h" if "d \<longrightarrow> \<not> ?ok h" for b d m1 m2 h w x
    unfolding ensures_bind by (rule ensures_mono [OF e [OF that]]) (rule fin)
  then have "ensures (\<lambda>_ _. True) ?R (bind (case_no_process 9999 v y) (\<lambda>d. bind (case_no_process 0 w x) (\<lambda>e. ?last b d e m1 m2))) h"
    for b m1 m2 h v w x y unfolding ensures_bind [of _ _ "case_no_process 9999 v y"] by (rule ensures_mono [OF d])
  note two = this
  have "ensures (\<lambda>_ _. True) ?R signaltest_main []"
    unfolding signaltest_main_def ensures_bind [of _ _ "run_cases cs good" for cs good]
  proof (rule ensures_mono [OF ensures_top])
    fix h and b :: "bool option"
    show "ensures (\<lambda>_ _. True) ?R (case b of None \<Rightarrow> Ret None
       | Some abc \<Rightarrow> bind (case_no_process 9999 ''case D: sys_kill on nonexistent pid'' []) (\<lambda>d.
           bind (case_no_process 0 ''case E: sys_kill on pid 0'' '', and this line printing at all means the kernel survived'') (\<lambda>e.
             ?last abc d e (line_of ''PASS: all signal cases behaved correctly'') (line_of ''FAIL: at least one signal case above did not match'')))) h"
      by (cases b) (simp, simp only: option.case two)
  qed
  then show ?thesis using assms by (simp add: sys_kill_def)
qed

text \<open>\<^verbatim>\<open>envtest\<close> accepts the auxiliary vector that the kernel builds exactly for a program with an entry point and with program headers of the
  size of an ELF64 header, at an address that is not null.\<close>

theorem envtest_accepts_kernel:
  assumes "im_entry im < 2 ^ 64" "im_phdr im < 2 ^ 64" "im_phentsize im < 2 ^ 64" "im_phnum im < 2 ^ 64"
  shows "\<exists>ps. aux_pairs (auxv im rnd) = Some ps \<and>
    (envtest_ok ps \<longleftrightarrow> im_entry im \<noteq> 0 \<and> im_phdr im \<noteq> 0 \<and> im_phentsize im = 56 \<and> im_phnum im \<noteq> 0)"
proof -
  have u: "unat (of_nat n :: u64) = n" if "n < 2 ^ 64" for n using that by (simp add: unat_of_nat take_bit_nat_eq_self)
  have z: "(of_nat n :: u64) = 0 \<longleftrightarrow> n = 0" if "n < 2 ^ 64" for n 
    by (subst unat_eq_zero [symmetric]) (simp only: u [OF that])
  have f: "(of_nat n :: u64) = 56 \<longleftrightarrow> n = 56" if "n < 2 ^ 64" for n proof -
    have "unat (of_nat 56 :: u64) = 56" by (rule u) simp
    then have "(of_nat n :: u64) = of_nat 56 \<longleftrightarrow> n = 56" using u [OF that] by metis
    then show ?thesis by simp
  qed
  show ?thesis using assms by (simp add: auxv_def AT_NULL_def AT_PHDR_def AT_PHENT_def AT_PHNUM_def AT_PAGESZ_def AT_ENTRY_def AT_RANDOM_def
      envtest_ok_def aux_find_def aux_val_def z f)
qed

text \<open>The signal mechanisms as the kernel reports them satisfy the tests: with the status that the kernel gives for a stopped child and for
  one that was ended by a signal, \<^verbatim>\<open>jobtest\<close> and \<^verbatim>\<open>segfaulttest\<close> end with status 0.\<close>

lemma signaled_status: "0 < sig \<Longrightarrow> sig < 127 \<Longrightarrow> signaled_by sig (ENCODE_SIGNALED sig)"
  by (simp add: signaled_by_def WIFSIGNALED_def WTERMSIG_def ENCODE_SIGNALED_def and_mask)

lemma ends_print: "fits fmt ap \<Longrightarrow> snd (interact (andthen (print fmt ap) q) (r # rs)) = snd (interact q rs)"
  using printf_loop_expand [of fmt ap _ "[]"] by (auto simp: fits_def print_def printf_def andthen_def split: prod.split)

lemma ends_Call: "snd (interact (Call c k) (r # rs)) = snd (interact (k r) rs)"
  by (simp split: prod.split)

theorem signal_status_accepted:
  assumes "0 < r_ret f" "r_ret stop \<ge> 0" "r_status stop = ENCODE_STOPPED SIGTSTP"
    "r_ret ended = r_ret f" "r_status ended = ENCODE_SIGNALED SIGTERM" "r_ret faulted \<ge> 0" "r_status faulted = ENCODE_SIGNALED SIGSEGV"
  shows "snd (interact jobtest_main [f, k1, stop, w1, k2, k3, ended, w2, w3]) = Ret (Some 0) \<and>
    snd (interact segfaulttest_main [f, faulted, w1, w2]) = Ret 0"
proof -
  have st: "WIFSTOPPED (ENCODE_STOPPED SIGTSTP)" "WSTOPSIG (ENCODE_STOPPED SIGTSTP) = SIGTSTP"
    by (simp_all add: WIFSTOPPED_def WSTOPSIG_def ENCODE_STOPPED_def and_mask SIGTSTP_def)
  have sg: "signaled_by SIGTERM (ENCODE_SIGNALED SIGTERM)" "signaled_by SIGSEGV (ENCODE_SIGNALED SIGSEGV)"
    by (simp_all add: signaled_status SIGTERM_def SIGSEGV_def)
  have "snd (interact jobtest_main [f, k1, stop, w1, k2, k3, ended, w2, w3]) = Ret (Some 0)"
    using assms by (simp add: jobtest_main_def jobtest_finish_def Let_def ends_Call ends_print fits_simps wait_status_def st sg del: interact.simps(2))
  moreover have "snd (interact segfaulttest_main [f, faulted, w1, w2]) = Ret 0"
    using assms by (simp add: segfaulttest_main_def Let_def ends_Call ends_print fits_simps wait_status_def sg del: interact.simps(2))
  ultimately show ?thesis by blast
qed

text \<open>No message of these programs lacks an argument, and they use no pointer that is not theirs: whatever the kernel answers, their behaviour is
  defined.\<close>

theorem tests_defined: "defined errnotest_main \<and> defined signaltest_main \<and> defined jobtest_main \<and> defined (cowtest_main seen)"
proof -
  have c: "defined (check_call label c want good)" for label c want good
    unfolding check_call_def check_def by (intro defined_intros) (simp add: fits_simps)
  have cr: "defined (sys_create pth)" for pth by (simp add: sys_create_def)
  have "defined errnotest_main" unfolding errnotest_main_def errnotest_files_def
    by (intro defined_intros c cr) (simp add: fits_simps)
  moreover have n: "defined (case_no_process 9999 ''case D: sys_kill on nonexistent pid'' [])"
    "defined (case_no_process 0 ''case E: sys_kill on pid 0'' '', and this line printing at all means the kernel survived'')"
    unfolding case_no_process_def by (intro defined_intros; simp add: fits_simps)+
  have r: "defined (case_report label sig child status)" for label sig child status
    unfolding case_report_def by (intro defined_intros) (simp add: fits_simps)
  then have k: "defined (run_case k label sig)" for k label sig by (simp add: run_case_def Let_def)
  then have "defined (run_cases cs good)" for cs good
    by (induction cs good rule: run_cases.induct) (auto intro!: defined_bind split: option.split)
  then have "defined signaltest_main" unfolding signaltest_main_def
    by (auto simp: fits_simps k split: option.split intro!: defined_intros n)
  moreover have "defined jobtest_main" unfolding jobtest_main_def jobtest_finish_def Let_def
    by (intro defined_intros) (simp_all add: fits_simps)
  moreover have "defined (cowtest_main seen)" unfolding cowtest_main_def by (intro defined_intros) (simp_all add: fits_simps)
  ultimately show ?thesis by blast
qed

end
