(* ===== verification/Font.thy ===== *)
theory Font
  imports Main
begin

text \<open>
  The bitmap font of the console, \<^verbatim>\<open>kernel/font8x16.h\<close>: sixteen scan lines for each printable ASCII character, the
  highest bit of a line is its leftmost pixel.
\<close>

definition FONT8X16_FIRST :: nat where [simp]: "FONT8X16_FIRST = 0x20"
definition FONT8X16_LAST :: nat where [simp]: "FONT8X16_LAST = 0x7e"

definition font8x16 :: "nat list list" where
  "font8x16 =
  [[0, 0, 0, 0, 0, 0, 0, 0, 0, 0, 0, 0, 0, 0, 0, 0],
   [0, 0, 0, 24, 24, 24, 24, 16, 16, 0, 24, 24, 0, 0, 0, 0],
   [0, 0, 0, 108, 108, 108, 0, 0, 0, 0, 0, 0, 0, 0, 0, 0],
   [0, 0, 0, 0, 22, 52, 126, 44, 108, 254, 120, 88, 0, 0, 0, 0],
   [0, 0, 0, 16, 60, 116, 112, 60, 28, 22, 92, 60, 16, 16, 0, 0],
   [0, 0, 0, 96, 208, 208, 102, 56, 78, 26, 26, 14, 0, 0, 0, 0],
   [0, 0, 0, 56, 96, 96, 112, 122, 222, 206, 238, 126, 0, 0, 0, 0],
   [0, 0, 0, 24, 24, 24, 0, 0, 0, 0, 0, 0, 0, 0, 0, 0],
   [0, 0, 8, 24, 24, 48, 48, 48, 48, 48, 24, 24, 8, 0, 0, 0],
   [0, 0, 48, 48, 24, 24, 24, 24, 24, 24, 24, 48, 48, 0, 0, 0],
   [0, 0, 0, 16, 84, 60, 60, 84, 16, 0, 0, 0, 0, 0, 0, 0],
   [0, 0, 0, 0, 0, 16, 16, 16, 254, 16, 16, 16, 0, 0, 0, 0],
   [0, 0, 0, 0, 0, 0, 0, 0, 0, 0, 24, 24, 48, 48, 0, 0],
   [0, 0, 0, 0, 0, 0, 0, 60, 60, 0, 0, 0, 0, 0, 0, 0],
   [0, 0, 0, 0, 0, 0, 0, 0, 0, 0, 56, 56, 0, 0, 0, 0],
   [0, 0, 0, 4, 12, 12, 8, 24, 16, 48, 32, 96, 64, 0, 0, 0],
   [0, 0, 0, 56, 108, 108, 102, 126, 102, 108, 108, 56, 0, 0, 0, 0],
   [0, 0, 0, 120, 24, 24, 24, 24, 24, 24, 24, 126, 0, 0, 0, 0],
   [0, 0, 0, 120, 76, 12, 12, 28, 24, 48, 96, 124, 0, 0, 0, 0],
   [0, 0, 0, 56, 76, 12, 12, 56, 12, 6, 76, 124, 0, 0, 0, 0],
   [0, 0, 0, 28, 28, 60, 44, 108, 204, 254, 12, 12, 0, 0, 0, 0],
   [0, 0, 0, 124, 96, 96, 120, 12, 4, 4, 76, 120, 0, 0, 0, 0],
   [0, 0, 0, 60, 100, 96, 124, 108, 102, 102, 108, 60, 0, 0, 0, 0],
   [0, 0, 0, 124, 12, 12, 28, 24, 24, 48, 48, 48, 0, 0, 0, 0],
   [0, 0, 0, 56, 108, 100, 108, 60, 108, 70, 108, 60, 0, 0, 0, 0],
   [0, 0, 0, 56, 108, 76, 78, 110, 126, 4, 76, 56, 0, 0, 0, 0],
   [0, 0, 0, 0, 0, 0, 56, 56, 0, 0, 56, 56, 0, 0, 0, 0],
   [0, 0, 0, 0, 0, 0, 56, 56, 0, 0, 56, 56, 48, 48, 0, 0],
   [0, 0, 0, 0, 0, 6, 62, 240, 240, 62, 6, 0, 0, 0, 0, 0],
   [0, 0, 0, 0, 0, 0, 0, 254, 0, 254, 0, 0, 0, 0, 0, 0],
   [0, 0, 0, 0, 0, 192, 120, 30, 30, 120, 192, 0, 0, 0, 0, 0],
   [0, 0, 0, 60, 76, 12, 24, 16, 48, 0, 48, 48, 0, 0, 0, 0],
   [0, 0, 0, 0, 60, 102, 222, 246, 178, 178, 246, 222, 102, 62, 0, 0],
   [0, 0, 0, 56, 56, 56, 108, 108, 124, 102, 198, 198, 0, 0, 0, 0],
   [0, 0, 0, 124, 108, 102, 108, 124, 102, 102, 102, 124, 0, 0, 0, 0],
   [0, 0, 0, 60, 112, 96, 96, 96, 96, 96, 112, 60, 0, 0, 0, 0],
   [0, 0, 0, 120, 108, 102, 102, 102, 102, 102, 108, 120, 0, 0, 0, 0],
   [0, 0, 0, 126, 96, 96, 96, 124, 96, 96, 96, 126, 0, 0, 0, 0],
   [0, 0, 0, 126, 96, 96, 96, 124, 96, 96, 96, 96, 0, 0, 0, 0],
   [0, 0, 0, 60, 112, 96, 96, 96, 110, 102, 102, 60, 0, 0, 0, 0],
   [0, 0, 0, 102, 102, 102, 102, 126, 102, 102, 102, 102, 0, 0, 0, 0],
   [0, 0, 0, 124, 24, 24, 24, 24, 24, 24, 24, 124, 0, 0, 0, 0],
   [0, 0, 0, 60, 12, 12, 12, 12, 12, 12, 76, 120, 0, 0, 0, 0],
   [0, 0, 0, 102, 108, 120, 120, 120, 120, 108, 110, 102, 0, 0, 0, 0],
   [0, 0, 0, 96, 96, 96, 96, 96, 96, 96, 96, 126, 0, 0, 0, 0],
   [0, 0, 0, 238, 238, 238, 254, 254, 222, 198, 198, 198, 0, 0, 0, 0],
   [0, 0, 0, 102, 102, 118, 118, 86, 94, 78, 78, 78, 0, 0, 0, 0],
   [0, 0, 0, 56, 108, 102, 230, 198, 230, 102, 108, 56, 0, 0, 0, 0],
   [0, 0, 0, 124, 110, 102, 110, 124, 96, 96, 96, 96, 0, 0, 0, 0],
   [0, 0, 0, 56, 108, 102, 230, 198, 230, 102, 108, 60, 12, 0, 0, 0],
   [0, 0, 0, 124, 108, 110, 108, 120, 108, 108, 102, 102, 0, 0, 0, 0],
   [0, 0, 0, 56, 100, 96, 112, 60, 28, 14, 76, 124, 0, 0, 0, 0],
   [0, 0, 0, 254, 24, 24, 24, 24, 24, 24, 24, 24, 0, 0, 0, 0],
   [0, 0, 0, 198, 198, 198, 198, 198, 198, 102, 108, 60, 0, 0, 0, 0],
   [0, 0, 0, 198, 102, 108, 108, 108, 108, 60, 56, 56, 0, 0, 0, 0],
   [0, 0, 0, 194, 198, 222, 254, 254, 126, 110, 110, 108, 0, 0, 0, 0],
   [0, 0, 0, 198, 108, 124, 56, 56, 56, 124, 108, 198, 0, 0, 0, 0],
   [0, 0, 0, 198, 110, 108, 60, 56, 24, 24, 24, 24, 0, 0, 0, 0],
   [0, 0, 0, 126, 14, 12, 28, 56, 48, 112, 96, 126, 0, 0, 0, 0],
   [0, 0, 60, 48, 48, 48, 48, 48, 48, 48, 48, 48, 60, 0, 0, 0],
   [0, 0, 0, 64, 96, 32, 48, 16, 24, 24, 12, 12, 4, 0, 0, 0],
   [0, 0, 56, 24, 24, 24, 24, 24, 24, 24, 24, 24, 56, 0, 0, 0],
   [0, 0, 0, 56, 124, 70, 0, 0, 0, 0, 0, 0, 0, 0, 0, 0],
   [0, 0, 0, 0, 0, 0, 0, 0, 0, 0, 0, 0, 0, 0, 254, 0],
   [0, 0, 32, 16, 0, 0, 0, 0, 0, 0, 0, 0, 0, 0, 0, 0],
   [0, 0, 0, 0, 0, 124, 12, 6, 126, 102, 110, 126, 0, 0, 0, 0],
   [0, 0, 96, 96, 96, 124, 108, 102, 102, 102, 108, 124, 0, 0, 0, 0],
   [0, 0, 0, 0, 0, 60, 116, 96, 96, 96, 116, 60, 0, 0, 0, 0],
   [0, 0, 12, 12, 12, 124, 108, 204, 204, 204, 108, 124, 0, 0, 0, 0],
   [0, 0, 0, 0, 0, 60, 108, 102, 254, 64, 102, 60, 0, 0, 0, 0],
   [0, 0, 28, 24, 48, 124, 48, 48, 48, 48, 48, 48, 0, 0, 0, 0],
   [0, 0, 0, 0, 0, 62, 110, 110, 198, 110, 110, 62, 12, 76, 56, 0],
   [0, 0, 96, 96, 96, 124, 108, 108, 108, 108, 108, 108, 0, 0, 0, 0],
   [0, 0, 24, 24, 0, 120, 24, 24, 24, 24, 24, 126, 0, 0, 0, 0],
   [0, 0, 24, 24, 0, 120, 24, 24, 24, 24, 24, 24, 24, 24, 112, 0],
   [0, 0, 96, 96, 96, 110, 124, 120, 120, 108, 108, 102, 0, 0, 0, 0],
   [0, 0, 240, 48, 48, 48, 48, 48, 48, 48, 48, 30, 0, 0, 0, 0],
   [0, 0, 0, 0, 0, 252, 222, 214, 214, 214, 214, 214, 0, 0, 0, 0],
   [0, 0, 0, 0, 0, 124, 108, 108, 108, 108, 108, 108, 0, 0, 0, 0],
   [0, 0, 0, 0, 0, 56, 108, 102, 198, 102, 108, 56, 0, 0, 0, 0],
   [0, 0, 0, 0, 0, 124, 108, 102, 102, 102, 108, 124, 96, 96, 96, 0],
   [0, 0, 0, 0, 0, 124, 108, 204, 204, 204, 108, 124, 12, 12, 12, 0],
   [0, 0, 0, 0, 0, 62, 50, 48, 48, 48, 48, 48, 0, 0, 0, 0],
   [0, 0, 0, 0, 0, 56, 100, 112, 60, 12, 76, 60, 0, 0, 0, 0],
   [0, 0, 0, 48, 48, 124, 48, 48, 48, 48, 48, 28, 0, 0, 0, 0],
   [0, 0, 0, 0, 0, 108, 108, 108, 108, 108, 108, 124, 0, 0, 0, 0],
   [0, 0, 0, 0, 0, 198, 108, 108, 108, 60, 56, 56, 0, 0, 0, 0],
   [0, 0, 0, 0, 0, 194, 198, 222, 254, 126, 108, 108, 0, 0, 0, 0],
   [0, 0, 0, 0, 0, 110, 124, 56, 56, 56, 108, 110, 0, 0, 0, 0],
   [0, 0, 0, 0, 0, 198, 110, 108, 108, 60, 56, 24, 24, 48, 112, 0],
   [0, 0, 0, 0, 0, 124, 12, 28, 56, 48, 96, 124, 0, 0, 0, 0],
   [0, 0, 28, 24, 24, 24, 48, 112, 48, 24, 24, 24, 28, 0, 0, 0],
   [0, 0, 16, 16, 16, 16, 16, 16, 16, 16, 16, 16, 16, 16, 0, 0],
   [0, 0, 112, 48, 24, 24, 24, 28, 24, 24, 24, 48, 112, 0, 0, 0],
   [0, 0, 0, 0, 0, 0, 0, 0, 114, 156, 0, 0, 0, 0, 0, 0]]"

lemma font8x16_shape: "length font8x16 = 95" "list_all (\<lambda>g. length g = 16 \<and> list_all (\<lambda>b. b < 256) g) font8x16"
  by (simp_all add: font8x16_def)

lemma font8x16_row: "i < 95 \<Longrightarrow> length (font8x16 ! i) = 16"
  using font8x16_shape by (simp add: list_all_length)

end
