(* ===== verification/Console.thy ===== *)
theory Console
  imports Font Vfs
begin

text \<open>
  The text console: the framebuffer \<^verbatim>\<open>kernel/fb.c\<close> and the terminal \<^verbatim>\<open>kernel/term.c\<close> that writes to it and to the
  serial line. The framebuffer is byte memory at the address that the boot loader gives; what it shows is related to a
  screen of character cells. Framebuffers of \<open>2 ^ 32\<close> pixels in a direction, on which the loops would not end, are left out.
\<close>

section \<open>The framebuffer\<close>

definition GLYPH_W :: nat where [simp]: "GLYPH_W = 8"
definition GLYPH_H :: nat where [simp]: "GLYPH_H = 16"

record framebuffer =
  fb_address :: nat
  fb_width :: nat
  fb_height :: nat
  fb_pitch :: nat
  fb_bpp :: nat
  red_mask_size :: nat
  red_mask_shift :: nat
  green_mask_size :: nat
  green_mask_shift :: nat
  blue_mask_size :: nat
  blue_mask_shift :: nat

record console =
  con_fb :: framebuffer
  inited :: bool
  cols :: nat
  rows :: nat
  cursor_col :: nat
  cursor_row :: nat
  fg_color :: u32
  bg_color :: u32
  fbmem :: mem

definition pack_channel :: "nat \<Rightarrow> nat \<Rightarrow> nat \<Rightarrow> u32" where
  "pack_channel val8 mask_size shift =
     (if mask_size = 0 then 0
      else push_bit shift (of_nat (if mask_size \<ge> 8 then val8 else val8 div 2 ^ (8 - mask_size))))"

definition pack_color :: "framebuffer \<Rightarrow> nat \<Rightarrow> nat \<Rightarrow> nat \<Rightarrow> u32" where
  "pack_color f r g b = pack_channel r (red_mask_size f) (red_mask_shift f)
     OR pack_channel g (green_mask_size f) (green_mask_shift f) OR pack_channel b (blue_mask_size f) (blue_mask_shift f)"

definition px_bytes :: "framebuffer \<Rightarrow> nat" where
  "px_bytes f = fb_bpp f div 8"

definition color_byte :: "u32 \<Rightarrow> nat \<Rightarrow> u8" where
  "color_byte color i = ucast (drop_bit (8 * i) color)"

definition fb_putpixel :: "framebuffer \<Rightarrow> nat \<Rightarrow> nat \<Rightarrow> u32 \<Rightarrow> mem \<Rightarrow> mem" where
  "fb_putpixel f x y color m =
     (let dst = fb_address f + y * fb_pitch f + x * px_bytes f
      in fold (\<lambda>i m. m(dst + i := color_byte color i)) [0..<px_bytes f] m)"

definition fb_fill_rows :: "framebuffer \<Rightarrow> nat \<Rightarrow> nat \<Rightarrow> u32 \<Rightarrow> mem \<Rightarrow> mem" where
  "fb_fill_rows f y_start y_end color m =
     fold (\<lambda>y m. fold (\<lambda>x m. fb_putpixel f x y color m) [0..<fb_width f] m) [y_start..<y_end] m"

definition glyph_of :: "char \<Rightarrow> nat list" where
  "glyph_of c = (let n = of_char c in
     if FONT8X16_FIRST \<le> n \<and> n \<le> FONT8X16_LAST then font8x16 ! (n - FONT8X16_FIRST) else replicate GLYPH_H 0)"

definition glyph_color :: "console \<Rightarrow> char \<Rightarrow> nat \<Rightarrow> nat \<Rightarrow> u32" where
  "glyph_color con c row col = (if bit (glyph_of c ! row) (7 - col) then fg_color con else bg_color con)"

definition fb_draw_glyph :: "nat \<Rightarrow> nat \<Rightarrow> char \<Rightarrow> console \<Rightarrow> console" where
  "fb_draw_glyph px py c con =
     con\<lparr>fbmem := fold (\<lambda>row m. fold (\<lambda>col m. fb_putpixel (con_fb con) (px + col) (py + row) (glyph_color con c row col) m)
       [0..<GLYPH_W] m) [0..<GLYPH_H] (fbmem con)\<rparr>"

definition fb_scroll_one_line :: "console \<Rightarrow> console" where
  "fb_scroll_one_line con =
     (let f = con_fb con; row_bytes = wrap64 (fb_pitch f * GLYPH_H); total_bytes = wrap64 (fb_pitch f * fb_height f);
          m = k_memcpy (fb_address f) (fb_address f + row_bytes) (usub total_bytes row_bytes) (fbmem con)
      in con\<lparr>fbmem := fb_fill_rows f (wrap32 (usub (fb_height f) GLYPH_H)) (wrap32 (fb_height f)) (bg_color con) m\<rparr>)"

text \<open>The answer of the boot loader: none, or a list of pointers to framebuffers.\<close>

definition fb_init :: "framebuffer option list option \<Rightarrow> console \<Rightarrow> console" where
  "fb_init response con =
     (case response of
        Some (Some f # _) \<Rightarrow>
          if fb_address f = 0 then con
          else
            let bg = pack_color f 0x00 0x00 0x00
            in con\<lparr>con_fb := f, cols := wrap32 (fb_width f div GLYPH_W), rows := wrap32 (fb_height f div GLYPH_H),
                cursor_col := 0, cursor_row := 0, fg_color := pack_color f 0xAA 0xAA 0xAA, bg_color := bg,
                fbmem := fb_fill_rows f 0 (wrap32 (fb_height f)) bg (fbmem con), inited := True\<rparr>
      | _ \<Rightarrow> con)"

definition fb_clear :: "console \<Rightarrow> console" where
  "fb_clear con =
     (if \<not> inited con then con
      else con\<lparr>fbmem := fb_fill_rows (con_fb con) 0 (wrap32 (fb_height (con_fb con))) (bg_color con) (fbmem con),
               cursor_col := 0, cursor_row := 0\<rparr>)"

definition fb_available :: "console \<Rightarrow> bool" where
  "fb_available con = inited con"

definition fb_newline :: "console \<Rightarrow> console" where
  "fb_newline con =
     (let con1 = con\<lparr>cursor_col := 0\<rparr> in
      if wrap32 (cursor_row con1 + 1) \<ge> rows con1 then fb_scroll_one_line con1
      else con1\<lparr>cursor_row := cursor_row con1 + 1\<rparr>)"

definition fb_putc :: "char \<Rightarrow> console \<Rightarrow> console" where
  "fb_putc c con =
     (if \<not> inited con then con
      else if c = CHR 0x0A then fb_newline con
      else if c = CHR 0x0D then con\<lparr>cursor_col := 0\<rparr>
      else if c = CHR 0x08 then
        let con1 = (if cursor_col con > 0 then con\<lparr>cursor_col := cursor_col con - 1\<rparr>
                    else if cursor_row con > 0 then con\<lparr>cursor_row := cursor_row con - 1, cursor_col := wrap32 (cols con + (2 ^ 32 - 1))\<rparr>
                    else con)
        in fb_draw_glyph (wrap32 (cursor_col con1 * GLYPH_W)) (wrap32 (cursor_row con1 * GLYPH_H)) (CHR '' '') con1
      else
        let con1 = fb_draw_glyph (wrap32 (cursor_col con * GLYPH_W)) (wrap32 (cursor_row con * GLYPH_H)) c con;
            con2 = con1\<lparr>cursor_col := wrap32 (cursor_col con1 + 1)\<rparr>
        in if cursor_col con2 \<ge> cols con2 then fb_newline con2 else con2)"

definition fb_print :: "string \<Rightarrow> console \<Rightarrow> console" where
  "fb_print s con = (if \<not> inited con then con else fold fb_putc s con)"

section \<open>The terminal\<close>

definition term_putc :: "char \<Rightarrow> console \<times> 'a io_scheme \<Rightarrow> console \<times> 'a io_scheme" where
  "term_putc c = (\<lambda>(con, d). if c = CHR 0x0C then (fb_clear con, d) else (fb_putc c con, serial_putc c d))"

definition term_print :: "string \<Rightarrow> console \<times> 'a io_scheme \<Rightarrow> console \<times> 'a io_scheme" where
  "term_print s = fold term_putc s"

section \<open>Pixels\<close>

text \<open>A framebuffer with room for at least one character, whose lines do not overlap.\<close>

definition fb_ok :: "framebuffer \<Rightarrow> bool" where
  "fb_ok f \<longleftrightarrow> 0 < fb_address f \<and> 8 \<le> fb_width f \<and> fb_width f < 2 ^ 32 \<and> 16 \<le> fb_height f \<and> fb_height f < 2 ^ 32 \<and>
     8 \<le> fb_bpp f \<and> fb_bpp f \<le> 32 \<and> fb_width f * px_bytes f \<le> fb_pitch f \<and> fb_pitch f * fb_height f < 2 ^ 64"

definition px_addr :: "framebuffer \<Rightarrow> nat \<Rightarrow> nat \<Rightarrow> nat \<Rightarrow> nat" where
  "px_addr f x y b = fb_address f + y * fb_pitch f + x * px_bytes f + b"

text \<open>Bytes outside of the framebuffer.\<close>

definition beyond :: "framebuffer \<Rightarrow> nat \<Rightarrow> bool" where
  "beyond f a \<longleftrightarrow> a < fb_address f \<or> fb_address f + fb_pitch f * fb_height f \<le> a"

lemma line_offset: "fb_ok f \<Longrightarrow> x < fb_width f \<Longrightarrow> b < px_bytes f \<Longrightarrow> x * px_bytes f + b < fb_pitch f"
proof -
  assume f: "fb_ok f" and x: "x < fb_width f" and b: "b < px_bytes f"
  have "x * px_bytes f + b < Suc x * px_bytes f" using b by simp
  also have "\<dots> \<le> fb_width f * px_bytes f" using x by (intro mult_le_mono1) simp
  finally show ?thesis using f by (simp add: fb_ok_def)
qed

lemma digits_unique:
  fixes a b c d p :: nat
  assumes "a * p + b = c * p + d" "b < p" "d < p"
  shows "a = c" "b = d"
proof -
  have "(a * p + b) div p = a" "(c * p + d) div p = c" "(a * p + b) mod p = b" "(c * p + d) mod p = d"
    using assms(2,3) by simp_all
  then show "a = c" "b = d" using assms(1) by simp_all
qed

lemma px_addr_inj:
  assumes "fb_ok f" "x < fb_width f" "x' < fb_width f" "b < px_bytes f" "b' < px_bytes f"
  shows "px_addr f x y b = px_addr f x' y' b' \<longleftrightarrow> x = x' \<and> y = y' \<and> b = b'"
proof
  assume "px_addr f x y b = px_addr f x' y' b'"
  then have "y * fb_pitch f + (x * px_bytes f + b) = y' * fb_pitch f + (x' * px_bytes f + b')" by (simp add: px_addr_def)
  note eq = digits_unique [OF this line_offset [OF assms(1,2,4)] line_offset [OF assms(1,3,5)]]
  then have "y = y'" "x * px_bytes f + b = x' * px_bytes f + b'" by simp_all
  then show "x = x' \<and> y = y' \<and> b = b'" using digits_unique assms by blast
qed simp

lemma putpixel_mem:
  "fb_putpixel f x y color m a = (if px_addr f x y 0 \<le> a \<and> a < px_addr f x y (px_bytes f) then color_byte color (a - px_addr f x y 0) else m a)"
proof -
  have "fold (\<lambda>i m. m(d + i := color_byte color i)) [0..<n] m a = (if d \<le> a \<and> a < d + n then color_byte color (a - d) else m a)" for d n
    by (induction n) auto
  then show ?thesis by (simp add: fb_putpixel_def px_addr_def Let_def)
qed

lemma putpixel_px:
  assumes "fb_ok f" "x < fb_width f" "x' < fb_width f" "b < px_bytes f"
  shows "fb_putpixel f x y color m (px_addr f x' y' b) = (if x = x' \<and> y = y' then color_byte color b else m (px_addr f x' y' b))"
proof (cases "x = x' \<and> y = y'")
  case True
  then show ?thesis using assms by (auto simp: putpixel_mem px_addr_def)
next
  case False
  have "\<not> (px_addr f x y 0 \<le> px_addr f x' y' b \<and> px_addr f x' y' b < px_addr f x y (px_bytes f))"
  proof
    assume r: "px_addr f x y 0 \<le> px_addr f x' y' b \<and> px_addr f x' y' b < px_addr f x y (px_bytes f)"
    define k where "k = px_addr f x' y' b - px_addr f x y 0"
    have "px_addr f x' y' b = px_addr f x y k" "k < px_bytes f" using r by (auto simp: k_def px_addr_def)
    then show False using px_addr_inj [OF assms(1,3,2,4), of k y' y] False by auto
  qed
  then show ?thesis using False by (auto simp: putpixel_mem)
qed

lemma putpixel_beyond:
  assumes "fb_ok f" "x < fb_width f" "y < fb_height f" "beyond f a"
  shows "fb_putpixel f x y color m a = m a"
proof -
  have "px_addr f x y (px_bytes f) \<le> fb_address f + Suc y * fb_pitch f"
  proof -
    have "Suc x * px_bytes f \<le> fb_width f * px_bytes f" using assms(2) by (intro mult_le_mono1) simp
    then show ?thesis using assms(1) by (simp add: px_addr_def fb_ok_def)
  qed
  also have "\<dots> \<le> fb_address f + fb_pitch f * fb_height f"
    using mult_le_mono1 [of "Suc y" "fb_height f" "fb_pitch f"] assms(3) by (simp add: mult.commute)
  finally show ?thesis using assms(4) by (auto simp: putpixel_mem beyond_def px_addr_def)
qed

text \<open>A line of pixels and a block of lines.\<close>

definition in_block :: "nat \<Rightarrow> nat \<Rightarrow> nat \<Rightarrow> nat \<Rightarrow> nat \<Rightarrow> nat \<Rightarrow> bool" where
  "in_block x0 y0 w h x y \<longleftrightarrow> x0 \<le> x \<and> x < x0 + w \<and> y0 \<le> y \<and> y < y0 + h"

definition paint :: "framebuffer \<Rightarrow> nat \<Rightarrow> nat \<Rightarrow> nat \<Rightarrow> nat \<Rightarrow> (nat \<Rightarrow> nat \<Rightarrow> u32) \<Rightarrow> mem \<Rightarrow> mem" where
  "paint f x0 y0 w h color m =
     fold (\<lambda>row m. fold (\<lambda>col m. fb_putpixel f (x0 + col) (y0 + row) (color row col) m) [0..<w] m) [0..<h] m"

lemma paint_line_px:
  assumes "fb_ok f" "x0 + w \<le> fb_width f" "x < fb_width f" "b < px_bytes f"
  shows "fold (\<lambda>col m. fb_putpixel f (x0 + col) y0 (color col) m) [0..<w] m (px_addr f x y b) =
     (if y = y0 \<and> x0 \<le> x \<and> x < x0 + w then color_byte (color (x - x0)) b else m (px_addr f x y b))"
  using assms(2)
proof (induction w)
  case (Suc w)
  then show ?case using assms(1,3,4) by (auto simp: putpixel_px less_Suc_eq)
qed auto

lemma paint_px:
  assumes "fb_ok f" "x0 + w \<le> fb_width f" "x < fb_width f" "b < px_bytes f"
  shows "paint f x0 y0 w h color m (px_addr f x y b) =
     (if in_block x0 y0 w h x y then color_byte (color (y - y0) (x - x0)) b else m (px_addr f x y b))"
  unfolding paint_def
proof (induction h)
  case (Suc h)
  then show ?case by (auto simp: paint_line_px [OF assms] in_block_def less_Suc_eq)
qed (auto simp: in_block_def)

lemma fold_keeps: "(\<And>x m. x \<in> set xs \<Longrightarrow> g x m a = m a) \<Longrightarrow> fold g xs m a = (m :: mem) a"
  by (induction xs arbitrary: m) auto

lemma paint_beyond:
  assumes "fb_ok f" "x0 + w \<le> fb_width f" "y0 + h \<le> fb_height f" "beyond f a"
  shows "paint f x0 y0 w h color m a = m a"
  unfolding paint_def using assms by (intro fold_keeps) (simp add: putpixel_beyond)

lemma fill_rows_paint: "fb_fill_rows f y0 y1 color m = paint f 0 y0 (fb_width f) (y1 - y0) (\<lambda>_ _. color) m"
proof -
  have "fold g [y0..<y1] m = fold (\<lambda>i. g (y0 + i)) [0..<y1 - y0] m" for g :: "nat \<Rightarrow> mem \<Rightarrow> mem"
  proof (cases "y0 \<le> y1")
    case True
    then have "[y0..<y1] = map ((+) y0) [0..<y1 - y0]" by (intro nth_equalityI) simp_all
    then show ?thesis by (simp add: fold_map comp_def)
  qed simp
  then show ?thesis by (simp add: fb_fill_rows_def paint_def)
qed

lemma memcpy_down:
  "memcpy_from i d (d + k) n m a = (if d + i \<le> a \<and> a < d + i + n then m (a + k) else m a)"
proof (induction n arbitrary: i m)
  case (Suc n)
  then show ?case by (auto simp: add.commute add.left_commute)
qed auto

section \<open>A screen of characters\<close>

record screen =
  grid :: "nat \<Rightarrow> nat \<Rightarrow> char"
  at_row :: nat
  at_col :: nat

definition blank_screen :: screen where
  "blank_screen = \<lparr>grid = (\<lambda>_ _. CHR '' ''), at_row = 0, at_col = 0\<rparr>"

definition put_cell :: "char \<Rightarrow> screen \<Rightarrow> screen" where
  "put_cell c s = s\<lparr>grid := (grid s)(at_row s := (grid s (at_row s))(at_col s := c))\<rparr>"

text \<open>The next line; at the bottom every line moves up and the last one becomes blank.\<close>

definition next_line :: "nat \<Rightarrow> screen \<Rightarrow> screen" where
  "next_line R s =
     (if Suc (at_row s) < R then s\<lparr>at_row := Suc (at_row s), at_col := 0\<rparr>
      else s\<lparr>grid := (\<lambda>r. if Suc r < R then grid s (Suc r) else (\<lambda>_. CHR '' '')), at_col := 0\<rparr>)"

definition screen_putc :: "nat \<Rightarrow> nat \<Rightarrow> char \<Rightarrow> screen \<Rightarrow> screen" where
  "screen_putc R C c s =
     (if c = CHR 0x0C then blank_screen
      else if c = CHR 0x0A then next_line R s
      else if c = CHR 0x0D then s\<lparr>at_col := 0\<rparr>
      else if c = CHR 0x08 then
        put_cell (CHR '' '') (if at_col s > 0 then s\<lparr>at_col := at_col s - 1\<rparr>
          else if at_row s > 0 then s\<lparr>at_row := at_row s - 1, at_col := C - 1\<rparr> else s)
      else let s1 = put_cell c s in
        if Suc (at_col s) < C then s1\<lparr>at_col := Suc (at_col s)\<rparr> else next_line R s1)"

text \<open>What is on the framebuffer: the cells of the screen, and background below the last line of text.\<close>

definition con_ok :: "console \<Rightarrow> bool" where
  "con_ok con \<longleftrightarrow> inited con \<and> fb_ok (con_fb con) \<and> rows con = fb_height (con_fb con) div 16 \<and> cols con = fb_width (con_fb con) div 8 \<and>
     cursor_row con < rows con \<and> cursor_col con < cols con"

definition shown :: "console \<Rightarrow> nat \<Rightarrow> nat \<Rightarrow> u32 \<Rightarrow> bool" where
  "shown con x y color \<longleftrightarrow> (\<forall>b < px_bytes (con_fb con). fbmem con (px_addr (con_fb con) x y b) = color_byte color b)"

definition cell_color :: "console \<Rightarrow> (nat \<Rightarrow> nat \<Rightarrow> char) \<Rightarrow> nat \<Rightarrow> nat \<Rightarrow> u32" where
  "cell_color con g x y =
     (if y < 16 * rows con then glyph_color con (g (y div 16) (x div 8)) (y mod 16) (x mod 8) else bg_color con)"

definition shows_screen :: "console \<Rightarrow> screen \<Rightarrow> bool" where
  "shows_screen con s \<longleftrightarrow> cursor_row con = at_row s \<and> cursor_col con = at_col s \<and>
     (\<forall>x < 8 * cols con. \<forall>y < fb_height (con_fb con). shown con x y (cell_color con (grid s) x y))"

lemma put_cell_at [simp]: "at_row (put_cell c s) = at_row s" "at_col (put_cell c s) = at_col s"
  by (simp_all add: put_cell_def)

lemma glyph_color_mem [simp]: "glyph_color (con\<lparr>fbmem := m\<rparr>) = glyph_color con" "glyph_color (con\<lparr>cursor_col := k\<rparr>) = glyph_color con"
  "glyph_color (con\<lparr>cursor_row := k\<rparr>) = glyph_color con"
  by (simp_all add: fun_eq_iff glyph_color_def)

lemma cell_color_mem [simp]: "cell_color (con\<lparr>fbmem := m\<rparr>) = cell_color con" "cell_color (con\<lparr>cursor_col := k\<rparr>) = cell_color con"
  "cell_color (con\<lparr>cursor_row := k\<rparr>) = cell_color con"
  by (simp_all add: fun_eq_iff cell_color_def)

lemma draw_glyph_paint:
  "fb_draw_glyph px py c con = con\<lparr>fbmem := paint (con_fb con) px py 8 16 (glyph_color con c) (fbmem con)\<rparr>"
  by (simp add: fb_draw_glyph_def paint_def)

lemma blank_glyph: "i < 16 \<Longrightarrow> glyph_color con (CHR '' '') i j = bg_color con"
proof -
  assume i: "i < 16"
  have "glyph_of (CHR '' '') = replicate 16 0" by (simp add: glyph_of_def font8x16_def numeral_eq_Suc)
  then show ?thesis using i by (simp add: glyph_color_def)
qed

lemma con_ok_inside:
  assumes "con_ok con"
  shows "8 * cols con \<le> fb_width (con_fb con)" "16 * rows con \<le> fb_height (con_fb con)" "fb_height (con_fb con) < 16 * rows con + 16"
    "8 * cursor_col con + 8 \<le> fb_width (con_fb con)" "16 * cursor_row con + 16 \<le> fb_height (con_fb con)"
proof -
  show c: "8 * cols con \<le> fb_width (con_fb con)" and r: "16 * rows con \<le> fb_height (con_fb con)"
    and "fb_height (con_fb con) < 16 * rows con + 16"
    using assms by (simp_all add: con_ok_def)
  show "8 * cursor_col con + 8 \<le> fb_width (con_fb con)" "16 * cursor_row con + 16 \<le> fb_height (con_fb con)"
    using assms c r unfolding con_ok_def by linarith+
qed

lemma div_range: "(a * k \<le> x \<and> x < a * k + k) \<longleftrightarrow> x div k = a" if "0 < k" for a k x :: nat
proof
  assume "a * k \<le> x \<and> x < a * k + k"
  then show "x div k = a" by (intro div_nat_eqI) (simp_all add: mult.commute)
next
  assume "x div k = a"
  then have "x = a * k + x mod k" using div_mult_mod_eq [of x k] by simp
  moreover have "x mod k < k" using that by simp
  ultimately show "a * k \<le> x \<and> x < a * k + k" by linarith
qed

lemma in_cell: "in_block (a * 8) (b * 16) 8 16 x y \<longleftrightarrow> x div 8 = a \<and> y div 16 = b"
  using div_range [of 8 a x] div_range [of 16 b y] by (auto simp: in_block_def)

lemma draw_shows:
  assumes "con_ok con" "shows_screen con s"
  shows "shows_screen (fb_draw_glyph (cursor_col con * 8) (cursor_row con * 16) c con) (put_cell c s)"
proof -
  note ok = con_ok_inside [OF assms(1)]
  have f: "fb_ok (con_fb con)" using assms(1) by (simp add: con_ok_def)
  let ?con = "fb_draw_glyph (cursor_col con * 8) (cursor_row con * 16) c con"
  have "shown ?con x y (cell_color con (grid (put_cell c s)) x y)" if xy: "x < 8 * cols con" "y < fb_height (con_fb con)" for x y
  proof -
    have x: "x < fb_width (con_fb con)" using xy ok(1) by simp
    have w: "cursor_col con * 8 + 8 \<le> fb_width (con_fb con)" using ok(4) by simp
    have old: "shown con x y (cell_color con (grid s) x y)" using assms(2) xy by (simp add: shows_screen_def)
    have at: "at_row s = cursor_row con" "at_col s = cursor_col con" using assms(2) by (simp_all add: shows_screen_def)
    show ?thesis
    proof (cases "in_block (cursor_col con * 8) (cursor_row con * 16) 8 16 x y")
      case True
      then have d: "x div 8 = cursor_col con" "x mod 8 = x - cursor_col con * 8" "y div 16 = cursor_row con"
        "y mod 16 = y - cursor_row con * 16" by (auto simp: in_cell minus_div_mult_eq_mod [symmetric])
      moreover have "y < 16 * rows con"
        using d(3) assms(1) div_less_iff_less_mult [of 16 y "rows con"] by (simp add: con_ok_def mult.commute)
      ultimately show ?thesis
        using True by (simp add: shown_def draw_glyph_paint paint_px [OF f w x] cell_color_def put_cell_def at)
    next
      case False
      then have "\<not> (x div 8 = cursor_col con \<and> y div 16 = cursor_row con)" by (simp add: in_cell)
      then have "cell_color con (grid (put_cell c s)) x y = cell_color con (grid s) x y"
        by (auto simp: cell_color_def put_cell_def at)
      then show ?thesis using old False by (simp add: shown_def draw_glyph_paint paint_px [OF f w x])
    qed
  qed
  then show ?thesis using assms(2) by (simp add: shows_screen_def draw_glyph_paint put_cell_def)
qed

text \<open>Scrolling: every pixel takes the color of the one sixteen lines below, the lowest sixteen lines the background.\<close>

lemma usub_small: "a < 2 ^ 64 \<Longrightarrow> b \<le> a \<Longrightarrow> usub a b = a - b"
proof -
  assume ab: "a < 2 ^ 64" "b \<le> a"
  have "usub a b = ((a - b) + 2 ^ 64) mod 2 ^ 64" unfolding usub_def wrap64_def using ab(2) by (intro arg_cong2 [where f = "(mod)"]) simp_all
  also have "\<dots> = a - b" using ab(1) by (simp only: mod_add_self2) simp
  finally show ?thesis .
qed

lemma fb_ok_sizes:
  assumes "fb_ok f"
  shows "wrap64 (fb_pitch f * 16) = fb_pitch f * 16" "wrap64 (fb_pitch f * fb_height f) = fb_pitch f * fb_height f"
    "usub (fb_pitch f * fb_height f) (fb_pitch f * 16) = fb_pitch f * (fb_height f - 16)"
    "usub (fb_height f) 16 = fb_height f - 16" "wrap32 (fb_height f - 16) = fb_height f - 16" "wrap32 (fb_height f) = fb_height f"
proof -
  have t: "fb_pitch f * 16 \<le> fb_pitch f * fb_height f" "fb_pitch f * fb_height f < 2 ^ 64" "16 \<le> fb_height f" "fb_height f < 2 ^ 32"
    using assms by (simp_all add: fb_ok_def)
  have t16: "fb_pitch f * 16 < 2 ^ 64" using t(1,2) by (rule le_less_trans)
  show "wrap64 (fb_pitch f * 16) = fb_pitch f * 16" "wrap64 (fb_pitch f * fb_height f) = fb_pitch f * fb_height f"
    unfolding wrap64_def using t(2) t16 by (simp_all only: mod_less)
  show "usub (fb_pitch f * fb_height f) (fb_pitch f * 16) = fb_pitch f * (fb_height f - 16)"
    using usub_small [OF t(2,1)] by (simp add: diff_mult_distrib2)
  show "usub (fb_height f) 16 = fb_height f - 16" using t(3,4) by (intro usub_small) simp_all
  show "wrap32 (fb_height f - 16) = fb_height f - 16" "wrap32 (fb_height f) = fb_height f"
    using t(4) by (simp_all add: wrap32_def)
qed

lemma scroll_mem:
  assumes "fb_ok (con_fb con)"
  shows "fb_scroll_one_line con = con\<lparr>fbmem := paint (con_fb con) 0 (fb_height (con_fb con) - 16) (fb_width (con_fb con)) 16 (\<lambda>_ _. bg_color con)
     (k_memcpy (fb_address (con_fb con)) (fb_address (con_fb con) + fb_pitch (con_fb con) * 16)
        (fb_pitch (con_fb con) * (fb_height (con_fb con) - 16)) (fbmem con))\<rparr>"
proof -
  have "fb_height (con_fb con) - (fb_height (con_fb con) - 16) = 16" using assms by (simp add: fb_ok_def)
  then show ?thesis using fb_ok_sizes [OF assms] by (simp add: fb_scroll_one_line_def Let_def fill_rows_paint)
qed

lemma scroll_px:
  assumes "fb_ok (con_fb con)" "x < fb_width (con_fb con)" "y < fb_height (con_fb con)" "b < px_bytes (con_fb con)"
  shows "fbmem (fb_scroll_one_line con) (px_addr (con_fb con) x y b) =
     (if y + 16 < fb_height (con_fb con) then fbmem con (px_addr (con_fb con) x (y + 16) b) else color_byte (bg_color con) b)"
proof -
  let ?f = "con_fb con"
  have up: "px_addr ?f x y b < fb_address ?f + fb_pitch ?f * (fb_height ?f - 16)" if "y + 16 < fb_height ?f"
  proof -
    have "px_addr ?f x y b < fb_address ?f + Suc y * fb_pitch ?f" using line_offset [OF assms(1,2,4)] by (simp add: px_addr_def)
    also have "\<dots> \<le> fb_address ?f + (fb_height ?f - 16) * fb_pitch ?f" using that by (intro add_left_mono mult_le_mono1) simp
    finally show ?thesis by (simp add: mult.commute)
  qed
  have "px_addr ?f x y b + fb_pitch ?f * 16 = px_addr ?f x (y + 16) b" by (simp add: px_addr_def algebra_simps)
  moreover have "fb_address ?f \<le> px_addr ?f x y b" by (simp add: px_addr_def)
  ultimately show ?thesis
    using up assms(3) by (auto simp: scroll_mem [OF assms(1)] paint_px [OF assms(1) _ assms(2,4)] in_block_def k_memcpy_def memcpy_down assms(2))
qed

lemma scroll_shows:
  assumes ok: "con_ok con" and sh: "shows_screen con s" and bottom: "\<not> Suc (at_row s) < rows con"
  shows "shows_screen (fb_scroll_one_line (con\<lparr>cursor_col := 0\<rparr>)) (next_line (rows con) s)"
proof -
  note ins = con_ok_inside [OF ok]
  let ?con = "con\<lparr>cursor_col := 0\<rparr>" and ?f = "con_fb con"
  have f: "fb_ok ?f" using ok by (simp add: con_ok_def)
  have "shown (fb_scroll_one_line ?con) x y (cell_color con (grid (next_line (rows con) s)) x y)"
    if xy: "x < 8 * cols con" "y < fb_height ?f" for x y
  proof -
    have x: "x < fb_width ?f" using xy ins(1) by simp
    have old: "shown con x y' (cell_color con (grid s) x y')" if "y' < fb_height ?f" for y'
      using sh xy that by (simp add: shows_screen_def)
    have px: "fbmem (fb_scroll_one_line ?con) (px_addr ?f x y b) =
        (if y + 16 < fb_height ?f then fbmem con (px_addr ?f x (y + 16) b) else color_byte (bg_color con) b)" if "b < px_bytes ?f" for b
      using scroll_px [of ?con x y b] f x xy that by simp
    have new: "cell_color con (grid (next_line (rows con) s)) x y =
        (if y + 16 < 16 * rows con then cell_color con (grid s) x (y + 16) else bg_color con)"
    proof (cases "y + 16 < 16 * rows con")
      case True
      then have "Suc (y div 16) < rows con" using div_less_iff_less_mult [of 16 "y + 16" "rows con"] by (simp add: mult.commute)
      moreover have "(y + 16) div 16 = Suc (y div 16)" by simp
      ultimately show ?thesis using True bottom by (simp add: cell_color_def next_line_def)
    next
      case False
      then have "\<not> Suc (y div 16) < rows con" using div_less_iff_less_mult [of 16 "y + 16" "rows con"] by (simp add: mult.commute)
      then show ?thesis using False bottom by (simp add: cell_color_def next_line_def blank_glyph)
    qed
    show ?thesis
    proof (cases "y + 16 < fb_height ?f")
      case True
      have "cell_color con (grid s) x (y + 16) = cell_color con (grid (next_line (rows con) s)) x y"
        by (simp add: new) (simp add: cell_color_def)
      then show ?thesis using old [OF True] px True by (simp add: shown_def scroll_mem f)
    next
      case False
      then show ?thesis using px new ins(2) by (simp add: shown_def scroll_mem f)
    qed
  qed
  then show ?thesis using sh bottom f by (simp add: shows_screen_def scroll_mem next_line_def)
qed

lemma scroll_beyond:
  assumes "fb_ok (con_fb con)" "beyond (con_fb con) a"
  shows "fbmem (fb_scroll_one_line con) a = fbmem con a"
proof -
  have h: "16 \<le> fb_height (con_fb con)" using assms(1) by (simp add: fb_ok_def)
  have "fb_pitch (con_fb con) * (fb_height (con_fb con) - 16) \<le> fb_pitch (con_fb con) * fb_height (con_fb con)" by simp
  then have "\<not> (fb_address (con_fb con) \<le> a \<and> a < fb_address (con_fb con) + fb_pitch (con_fb con) * (fb_height (con_fb con) - 16))"
    using assms(2) unfolding beyond_def by linarith
  then show ?thesis using h assms by (auto simp: scroll_mem paint_beyond k_memcpy_def memcpy_down)
qed

text \<open>The step of a component that keeps the console well-formed, keeps what is outside of the framebuffer, and shows the
  screen \<open>s\<close>.\<close>

definition console_step :: "console \<Rightarrow> console \<Rightarrow> screen \<Rightarrow> bool" where
  "console_step con con' s \<longleftrightarrow> con_ok con' \<and> shows_screen con' s \<and> con_fb con' = con_fb con \<and>
     (\<forall>a. beyond (con_fb con) a \<longrightarrow> fbmem con' a = fbmem con a)"

lemma console_stepI [intro?]:
  "con_ok con' \<Longrightarrow> shows_screen con' s \<Longrightarrow> con_fb con' = con_fb con \<Longrightarrow>
   (\<And>a. beyond (con_fb con) a \<Longrightarrow> fbmem con' a = fbmem con a) \<Longrightarrow> console_step con con' s"
  by (simp add: console_step_def)

lemma console_step_trans: "console_step con con1 s1 \<Longrightarrow> console_step con1 con2 s2 \<Longrightarrow> console_step con con2 s2"
  by (simp add: console_step_def)

lemma con_ok_rows: "con_ok con \<Longrightarrow> rows con < 2 ^ 28 \<and> cols con < 2 ^ 29 \<and> 0 < rows con \<and> 0 < cols con"
  by (auto simp: con_ok_def fb_ok_def div_less_iff_less_mult)

lemma newline_step:
  assumes "con_ok con" "shows_screen con s"
  shows "console_step con (fb_newline con) (next_line (rows con) s)"
proof
  have f: "fb_ok (con_fb con)" using assms(1) by (simp add: con_ok_def)
  have w: "wrap32 (Suc (cursor_row con)) = Suc (cursor_row con)"
    using assms(1) con_ok_rows [OF assms(1)] by (simp add: con_ok_def wrap32_def)
  have at: "at_row s = cursor_row con" using assms(2) by (simp add: shows_screen_def)
  show "con_ok (fb_newline con)" using assms(1) con_ok_rows [OF assms(1)] f
    by (auto simp: fb_newline_def con_ok_def scroll_mem w Let_def)
  show "shows_screen (fb_newline con) (next_line (rows con) s)"
  proof (cases "Suc (cursor_row con) < rows con")
    case True
    then have "fb_newline con = con\<lparr>cursor_col := 0, cursor_row := Suc (cursor_row con)\<rparr>" by (simp add: fb_newline_def w Let_def)
    then show ?thesis using assms(2) True at by (simp add: shows_screen_def next_line_def shown_def)
  next
    case False
    then show ?thesis using scroll_shows [OF assms] by (simp add: fb_newline_def w at Let_def)
  qed
  show "con_fb (fb_newline con) = con_fb con" using f by (simp add: fb_newline_def scroll_mem Let_def)
  show "fbmem (fb_newline con) a = fbmem con a" if "beyond (con_fb con) a" for a
    using scroll_beyond [of "con\<lparr>cursor_col := 0\<rparr>" a] f that by (simp add: fb_newline_def Let_def)
qed

lemma draw_step:
  assumes "con_ok con" "shows_screen con s"
  shows "console_step con (fb_draw_glyph (wrap32 (cursor_col con * 8)) (wrap32 (cursor_row con * 16)) c con) (put_cell c s)"
proof -
  have w: "wrap32 (cursor_col con * 8) = cursor_col con * 8" "wrap32 (cursor_row con * 16) = cursor_row con * 16"
    using assms(1) con_ok_rows [OF assms(1)] by (simp_all add: con_ok_def wrap32_def)
  show ?thesis unfolding w
  proof
    show "con_ok (fb_draw_glyph (cursor_col con * 8) (cursor_row con * 16) c con)"
      using assms(1) by (simp add: con_ok_def draw_glyph_paint)
    show "shows_screen (fb_draw_glyph (cursor_col con * 8) (cursor_row con * 16) c con) (put_cell c s)"
      by (rule draw_shows [OF assms])
    show "fbmem (fb_draw_glyph (cursor_col con * 8) (cursor_row con * 16) c con) a = fbmem con a" if "beyond (con_fb con) a" for a
      using con_ok_inside(4,5) [OF assms(1)] assms(1) that by (simp add: draw_glyph_paint paint_beyond con_ok_def mult.commute)
  qed (simp add: draw_glyph_paint)
qed

lemma fill_step:
  assumes "con_ok con" "con1 = con\<lparr>fbmem := fb_fill_rows (con_fb con) 0 (wrap32 (fb_height (con_fb con))) (bg_color con) m,
      cursor_col := 0, cursor_row := 0\<rparr>" "\<And>a. beyond (con_fb con) a \<Longrightarrow> m a = fbmem con a"
  shows "console_step con con1 blank_screen"
proof
  have f: "fb_ok (con_fb con)" using assms(1) by (simp add: con_ok_def)
  note h = fb_ok_sizes(6) [OF f]
  show "con_ok con1" using assms(1) con_ok_rows [OF assms(1)] by (simp add: assms(2) con_ok_def)
  have "shown con1 x y (cell_color con (\<lambda>_ _. CHR '' '') x y)" if "x < 8 * cols con" "y < fb_height (con_fb con)" for x y
  proof -
    have x: "x < fb_width (con_fb con)" using that con_ok_inside(1) [OF assms(1)] by simp
    have "cell_color con (\<lambda>_ _. CHR '' '') x y = bg_color con" by (simp add: cell_color_def blank_glyph)
    then show ?thesis using x that by (simp add: shown_def assms(2) h fill_rows_paint paint_px [OF f _ x] in_block_def)
  qed
  then show "shows_screen con1 blank_screen" by (simp add: shows_screen_def blank_screen_def assms(2))
  show "fbmem con1 a = fbmem con a" if "beyond (con_fb con) a" for a
    using that f assms(3) by (simp add: assms(2) h fill_rows_paint paint_beyond)
qed (simp add: assms(2))

lemma column_step:
  assumes "console_step con con1 s" "k < cols con1"
  shows "console_step con (con1\<lparr>cursor_col := k\<rparr>) (s\<lparr>at_col := k\<rparr>)"
proof -
  have "con_ok con1 \<Longrightarrow> con_ok (con1\<lparr>cursor_col := k\<rparr>)" using assms(2) by (simp add: con_ok_def)
  moreover have "shows_screen con1 s \<Longrightarrow> shows_screen (con1\<lparr>cursor_col := k\<rparr>) (s\<lparr>at_col := k\<rparr>)"
    by (simp add: shows_screen_def shown_def)
  ultimately show ?thesis using assms(1) by (simp add: console_step_def)
qed

lemma putc_step:
  assumes "con_ok con" "shows_screen con s" "c \<noteq> CHR 0x0C"
  shows "console_step con (fb_putc c con) (screen_putc (rows con) (cols con) c s)"
proof -
  have i: "inited con" and at: "at_row s = cursor_row con" "at_col s = cursor_col con"
    using assms by (simp_all add: con_ok_def shows_screen_def)
  note dims = con_ok_rows [OF assms(1)]
  consider "c = CHR 0x0A" | "c = CHR 0x0D" | "c = CHR 0x08" | "c \<notin> {CHR 0x0A, CHR 0x0D, CHR 0x08}" by blast
  then show ?thesis
  proof cases
    case 1
    then show ?thesis using newline_step [OF assms(1,2)] by (simp add: fb_putc_def screen_putc_def i)
  next
    case 2
    have "console_step con (con\<lparr>cursor_col := 0\<rparr>) (s\<lparr>at_col := 0\<rparr>)"
      using assms(1,2) dims by (simp add: console_step_def con_ok_def shows_screen_def shown_def)
    then show ?thesis using 2 by (simp add: fb_putc_def screen_putc_def i)
  next
    case 3
    let ?s = "if at_col s > 0 then s\<lparr>at_col := at_col s - 1\<rparr>
          else if at_row s > 0 then s\<lparr>at_row := at_row s - 1, at_col := cols con - 1\<rparr> else s"
    let ?con = "if cursor_col con > 0 then con\<lparr>cursor_col := cursor_col con - 1\<rparr>
          else if cursor_row con > 0 then con\<lparr>cursor_row := cursor_row con - 1, cursor_col := wrap32 (cols con + (2 ^ 32 - 1))\<rparr> else con"
    have "cols con + (2 ^ 32 - 1) = 2 ^ 32 + (cols con - 1)" using dims by simp
    moreover have "cols con - 1 < 2 ^ 32"
      using less_imp_diff_less [of "cols con" "2 ^ 32" 1] dims by simp
    ultimately have w: "wrap32 (cols con + (2 ^ 32 - 1)) = cols con - 1" unfolding wrap32_def by (simp only: mod_add_self1 mod_less)
    have moved: "console_step con ?con ?s"
      using assms(1,2) dims unfolding at w by (auto simp: console_step_def con_ok_def shows_screen_def shown_def)
    then have ok: "con_ok ?con" "shows_screen ?con ?s" by (simp_all only: console_step_def)
    have "fb_putc c con = fb_draw_glyph (wrap32 (cursor_col ?con * 8)) (wrap32 (cursor_row ?con * 16)) (CHR '' '') ?con"
      using 3 i by (simp only: fb_putc_def Let_def GLYPH_W_def GLYPH_H_def) simp
    moreover have "screen_putc (rows con) (cols con) c s = put_cell (CHR '' '') ?s"
      using 3 by (simp only: screen_putc_def) simp
    ultimately show ?thesis using console_step_trans [OF moved draw_step [OF ok]] by simp
  next
    case 4
    let ?con = "fb_draw_glyph (wrap32 (cursor_col con * 8)) (wrap32 (cursor_row con * 16)) c con"
    have d: "console_step con ?con (put_cell c s)" by (rule draw_step [OF assms(1,2)])
    have cc: "cursor_col ?con = cursor_col con" "cols ?con = cols con" "rows ?con = rows con" by (simp_all add: draw_glyph_paint)
    have w: "wrap32 (Suc (cursor_col con)) = Suc (cursor_col con)" using assms(1) dims by (simp add: con_ok_def wrap32_def)
    show ?thesis
    proof (cases "Suc (cursor_col con) < cols con")
      case True
      have "console_step con (?con\<lparr>cursor_col := Suc (cursor_col con)\<rparr>) ((put_cell c s)\<lparr>at_col := Suc (at_col s)\<rparr>)"
        using column_step [OF d] True cc at by simp
      then show ?thesis using 4 True assms(3) by (simp add: fb_putc_def screen_putc_def i Let_def cc w at)
    next
      case False
      have nl: "fb_newline (?con\<lparr>cursor_col := k\<rparr>) = fb_newline ?con" for k by (simp add: fb_newline_def)
      have "console_step con (fb_newline ?con) (next_line (rows con) (put_cell c s))"
      proof -
        have "con_ok ?con" "shows_screen ?con (put_cell c s)" using d unfolding console_step_def by blast+
        from console_step_trans [OF d newline_step [OF this]] show ?thesis by (simp only: cc)
      qed
      then show ?thesis using 4 False assms(3) by (simp add: fb_putc_def screen_putc_def i Let_def cc w at nl)
    qed
  qed
qed

lemma clear_step: "con_ok con \<Longrightarrow> console_step con (fb_clear con) blank_screen"
  by (rule fill_step [where m = "fbmem con"]) (simp_all add: fb_clear_def con_ok_def)

lemma init_step:
  assumes "fb_ok f"
  shows "con_ok (fb_init (Some (Some f # fs)) con)" "con_fb (fb_init (Some (Some f # fs)) con) = f"
    "shows_screen (fb_init (Some (Some f # fs)) con) blank_screen"
    "beyond f a \<Longrightarrow> fbmem (fb_init (Some (Some f # fs)) con) a = fbmem con a"
proof -
  let ?con = "(fb_init (Some (Some f # fs)) con)\<lparr>fbmem := fbmem con\<rparr>"
  have w: "wrap32 (fb_width f div 8) = fb_width f div 8" "wrap32 (fb_height f div 16) = fb_height f div 16"
    unfolding wrap32_def using assms by (simp_all add: fb_ok_def mod_less le_less_trans [OF div_le_dividend])
  have g: "0 < fb_width f div 8" "0 < fb_height f div 16" "fb_address f \<noteq> 0" using assms by (auto simp: fb_ok_def)
  have ok: "con_ok ?con" using assms g w by (simp add: con_ok_def fb_init_def Let_def)
  have "console_step ?con (fb_init (Some (Some f # fs)) con) blank_screen"
    by (rule fill_step [OF ok, where m = "fbmem con"]) (use g in \<open>simp_all add: fb_init_def Let_def\<close>)
  moreover have "con_fb ?con = f" using g by (simp add: fb_init_def Let_def)
  ultimately show "con_ok (fb_init (Some (Some f # fs)) con)" "con_fb (fb_init (Some (Some f # fs)) con) = f"
    "shows_screen (fb_init (Some (Some f # fs)) con) blank_screen"
    "beyond f a \<Longrightarrow> fbmem (fb_init (Some (Some f # fs)) con) a = fbmem con a"
    by (simp_all add: console_step_def)
qed

lemma term_print_step:
  assumes "con_ok con" "shows_screen con s"
  shows "console_step con (fst (term_print out (con, d))) (fold (screen_putc (rows con) (cols con)) out s) \<and>
    klog (snd (term_print out (con, d))) = klog d @ filter (\<lambda>c. c \<noteq> CHR 0x0C) out"
  using assms
proof (induction out arbitrary: con s d)
  case Nil
  then show ?case by (simp add: term_print_def console_step_def)
next
  case (Cons c out)
  define con1 where "con1 = fst (term_putc c (con, d))"
  define d1 where "d1 = snd (term_putc c (con, d))"
  have one: "console_step con con1 (screen_putc (rows con) (cols con) c s)"
    using clear_step [OF Cons.prems(1)] putc_step [OF Cons.prems] by (simp add: con1_def term_putc_def screen_putc_def)
  then have dims: "rows con1 = rows con" "cols con1 = cols con" using Cons.prems(1) by (simp_all add: console_step_def con_ok_def)
  have log: "klog d1 = klog d @ filter (\<lambda>c. c \<noteq> CHR 0x0C) [c]" by (simp add: d1_def term_putc_def serial_putc_def)
  have run: "term_print (c # out) (con, d) = term_print out (con1, d1)" by (simp add: term_print_def con1_def d1_def)
  have "con_ok con1" "shows_screen con1 (screen_putc (rows con) (cols con) c s)" using one by (simp_all add: console_step_def)
  from Cons.IH [OF this, of d1] console_step_trans [OF one] show ?case by (simp add: run dims log)
qed

section \<open>Properties\<close>

text \<open>C15. The screen shows what was printed. After the console is set up on a framebuffer that has room for a character,
  and any text is written to the terminal, the pixels are those of a screen of character cells on which that text
  was typed: line ends, carriage returns, backspaces, form feeds, wrapping at the right margin and scrolling at the bottom.
  The cursor stays on the screen, no byte outside of the framebuffer is written, and the serial line gets the text without
  form feeds.\<close>

theorem console_shows_text:
  assumes "fb_ok f"
  shows "let (con, d') = term_print out (fb_init (Some (Some f # fs)) con0, d) in
    con_ok con \<and> shows_screen con (fold (screen_putc (fb_height f div GLYPH_H) (fb_width f div GLYPH_W)) out blank_screen) \<and>
    (\<forall>a. beyond f a \<longrightarrow> fbmem con a = fbmem con0 a) \<and> klog d' = klog d @ filter (\<lambda>c. c \<noteq> CHR 0x0C) out"
proof -
  let ?con = "fb_init (Some (Some f # fs)) con0"
  note i = init_step [OF assms]
  have "rows ?con = fb_height f div 16" "cols ?con = fb_width f div 8" using i(1,2) [of fs con0] by (simp_all add: con_ok_def)
  then show ?thesis using term_print_step [OF i(1) [of fs con0] i(3) [of fs con0], of out d] i(2) [of fs con0] i(4) [of _ fs con0]
    by (simp add: console_step_def case_prod_beta Let_def)
qed

definition vga :: framebuffer where
  "vga = \<lparr>fb_address = 0xfd000000, fb_width = 1280, fb_height = 800, fb_pitch = 5120, fb_bpp = 32, red_mask_size = 8, red_mask_shift = 16,
     green_mask_size = 8, green_mask_shift = 8, blue_mask_size = 8, blue_mask_shift = 0\<rparr>"

definition con_static :: console where
  "con_static = \<lparr>con_fb = vga, inited = False, cols = 0, rows = 0, cursor_col = 0, cursor_row = 0, fg_color = 0, bg_color = 0, fbmem = \<lambda>_. 0\<rparr>"

theorem console_shows_text_witness:
  "con_ok (fst (term_print ''$ ls'' (fb_init (Some [Some vga]) con_static, \<lparr>hist = [], dev8 = \<lambda>_ _. 0, dev16 = \<lambda>_ _. 0, klog = []\<rparr>)))"
proof -
  have "fb_ok vga" by (simp add: fb_ok_def vga_def px_bytes_def)
  from console_shows_text [OF this, of "''$ ls''" "[]" con_static "\<lparr>hist = [], dev8 = \<lambda>_ _. 0, dev16 = \<lambda>_ _. 0, klog = []\<rparr>"]
  show ?thesis by (simp add: case_prod_beta Let_def)
qed

end
