(* ===== verification/Tables.thy ===== *)
theory Tables
  imports Syscall
begin

text \<open>
  The tables of the processor: segments and the system call registers (\<^verbatim>\<open>kernel/gdt.c\<close>), the task-state segment
  (\<^verbatim>\<open>kernel/tss.c\<close>), interrupt gates (\<^verbatim>\<open>kernel/idt.c\<close>) and the timer (\<^verbatim>\<open>kernel/pit.c\<close>). Addresses of C objects and of the
  entry points in \<^verbatim>\<open>isr.asm\<close> are arguments. What the processor reads out of the tables follows as decoding functions.
\<close>

section \<open>Segments\<close>

definition GDT_KERNEL_CODE :: u64 where "GDT_KERNEL_CODE = 0x08"
definition GDT_KERNEL_DATA :: u64 where "GDT_KERNEL_DATA = 0x10"
definition GDT_USER32_CODE :: u64 where "GDT_USER32_CODE = 0x18"
definition GDT_TSS :: u64 where "GDT_TSS = 0x30"

definition GDT_PRESENT :: u64 where "GDT_PRESENT = push_bit 47 1"
definition GDT_NOTSYS :: u64 where "GDT_NOTSYS = push_bit 44 1"
definition GDT_EXEC :: u64 where "GDT_EXEC = push_bit 43 1"
definition GDT_RW :: u64 where "GDT_RW = push_bit 41 1"
definition GDT_LONGMODE :: u64 where "GDT_LONGMODE = push_bit 53 1"
definition GDT_DPL3 :: u64 where "GDT_DPL3 = push_bit 45 3"

record tss =
  reserved0 :: u32
  rsp0 :: u64
  rsp1 :: u64
  rsp2 :: u64
  reserved1 :: u64
  ist1 :: u64
  ist2 :: u64
  ist3 :: u64
  ist4 :: u64
  ist5 :: u64
  ist6 :: u64
  ist7 :: u64
  reserved2 :: u64
  reserved3 :: u16
  iomap_base :: u16

definition TSS_SIZE :: nat where [simp]: "TSS_SIZE = 104"

record tss_descriptor =
  limit_low :: u16
  base_low :: u16
  base_mid :: u8
  access :: u8
  limit_high_flags :: u8
  base_high :: u8
  base_upper :: u32
  reserved :: u32

record idt_entry =
  offset_low :: u16
  selector :: u16
  ist :: u8
  type_attr :: u8
  offset_mid :: u16
  offset_high :: u32
  zero :: u32

text \<open>The tables, the registers that point to them, the segment registers and the model-specific registers.\<close>

record cpu =
  gdt :: "nat \<Rightarrow> u64"
  kernel_tss :: tss
  idt :: "nat \<Rightarrow> idt_entry"
  gdtr :: "u16 \<times> u64"
  idtr :: "u16 \<times> u64"
  cs_reg :: u64
  data_regs :: u64
  task_reg :: u64
  msr :: "nat \<Rightarrow> u64"

definition tss_init :: "cpu \<Rightarrow> cpu" where
  "tss_init c = c\<lparr>kernel_tss := \<lparr>reserved0 = 0, rsp0 = 0, rsp1 = 0, rsp2 = 0, reserved1 = 0, ist1 = 0, ist2 = 0, ist3 = 0, ist4 = 0,
     ist5 = 0, ist6 = 0, ist7 = 0, reserved2 = 0, reserved3 = 0, iomap_base = of_nat TSS_SIZE\<rparr>\<rparr>"

definition tss_set_kernel_stack :: "u64 \<Rightarrow> cpu \<Rightarrow> cpu" where
  "tss_set_kernel_stack r c = c\<lparr>kernel_tss := (kernel_tss c)\<lparr>rsp0 := r\<rparr>\<rparr>"

definition tss_desc :: "u64 \<Rightarrow> u32 \<Rightarrow> tss_descriptor" where
  "tss_desc base limit =
     \<lparr>limit_low = ucast (limit AND 0xFFFF), base_low = ucast (base AND 0xFFFF), base_mid = ucast (drop_bit 16 base AND 0xFF),
      access = 0x89, limit_high_flags = ucast (drop_bit 16 limit AND 0x0F), base_high = ucast (drop_bit 24 base AND 0xFF),
      base_upper = ucast (drop_bit 32 base), reserved = 0\<rparr>"

text \<open>The packed structure as the two slots it is stored in.\<close>

definition desc_low :: "tss_descriptor \<Rightarrow> u64" where
  "desc_low d = ucast (limit_low d) OR push_bit 16 (ucast (base_low d)) OR push_bit 32 (ucast (base_mid d)) OR
     push_bit 40 (ucast (access d)) OR push_bit 48 (ucast (limit_high_flags d)) OR push_bit 56 (ucast (base_high d))"

definition desc_high :: "tss_descriptor \<Rightarrow> u64" where
  "desc_high d = ucast (base_upper d) OR push_bit 32 (ucast (reserved d))"

definition set_tss_descriptor :: "u64 \<Rightarrow> u32 \<Rightarrow> cpu \<Rightarrow> cpu" where
  "set_tss_descriptor base limit c =
     (let d = tss_desc base limit in c\<lparr>gdt := (gdt c)(6 := desc_low d, 7 := desc_high d)\<rparr>)"

text \<open>The inline assembly loads the table, the code segment, the data segments and the task register.\<close>

definition gdt_init :: "u64 \<Rightarrow> u64 \<Rightarrow> cpu \<Rightarrow> cpu" where
  "gdt_init gdt_at tss_at c =
     (let c1 = c\<lparr>gdt := (gdt c)
            (0 := 0,
             1 := GDT_PRESENT OR GDT_NOTSYS OR GDT_EXEC OR GDT_RW OR GDT_LONGMODE,
             2 := GDT_PRESENT OR GDT_NOTSYS OR GDT_RW,
             3 := GDT_PRESENT OR GDT_NOTSYS OR GDT_EXEC OR GDT_RW OR GDT_DPL3,
             4 := GDT_PRESENT OR GDT_NOTSYS OR GDT_RW OR GDT_DPL3,
             5 := GDT_PRESENT OR GDT_NOTSYS OR GDT_EXEC OR GDT_RW OR GDT_LONGMODE OR GDT_DPL3)\<rparr>;
          c2 = set_tss_descriptor tss_at (of_nat (TSS_SIZE - 1)) (tss_init c1)
      in c2\<lparr>gdtr := (8 * 8 - 1, gdt_at), cs_reg := 0x08, data_regs := 0x10, task_reg := 0x30\<rparr>)"

definition MSR_EFER :: nat where [simp]: "MSR_EFER = 0xC0000080"
definition MSR_STAR :: nat where [simp]: "MSR_STAR = 0xC0000081"
definition MSR_LSTAR :: nat where [simp]: "MSR_LSTAR = 0xC0000082"
definition MSR_FMASK :: nat where [simp]: "MSR_FMASK = 0xC0000084"
definition EFER_SCE :: u64 where "EFER_SCE = push_bit 0 1"

definition wrmsr :: "nat \<Rightarrow> u64 \<Rightarrow> cpu \<Rightarrow> cpu" where
  "wrmsr r v c = c\<lparr>msr := (msr c)(r := v)\<rparr>"

definition syscall_init :: "u64 \<Rightarrow> cpu \<Rightarrow> cpu" where
  "syscall_init syscall_entry c =
     (let efer = msr c MSR_EFER; star = push_bit 48 GDT_USER32_CODE OR push_bit 32 GDT_KERNEL_CODE
      in wrmsr MSR_FMASK 0x300 (wrmsr MSR_LSTAR syscall_entry (wrmsr MSR_STAR star (wrmsr MSR_EFER (efer OR EFER_SCE) c))))"

section \<open>Interrupt gates\<close>

definition idt_set_gate :: "nat \<Rightarrow> u64 \<Rightarrow> u16 \<Rightarrow> u8 \<Rightarrow> cpu \<Rightarrow> cpu" where
  "idt_set_gate vec addr sel attr c =
     c\<lparr>idt := (idt c)(vec := \<lparr>offset_low = ucast (addr AND 0xFFFF), selector = sel, ist = 0, type_attr = attr,
        offset_mid = ucast (drop_bit 16 addr AND 0xFFFF), offset_high = ucast (drop_bit 32 addr AND 0xFFFFFFFF), zero = 0\<rparr>)\<rparr>"

text \<open>\<open>isr\<close> gives the addresses of the labels \<^verbatim>\<open>isr0\<close> to \<^verbatim>\<open>isr47\<close>.\<close>

definition idt_init :: "u64 \<Rightarrow> (nat \<Rightarrow> u64) \<Rightarrow> cpu \<Rightarrow> cpu" where
  "idt_init idt_at isr c =
     (let c1 = fold (\<lambda>i. idt_set_gate i (isr i) 0x08 0x8E) [0..<32] c;
          c2 = fold (\<lambda>i. idt_set_gate (32 + i) (isr (32 + i)) 0x08 0x8E) [0..<16] c1
      in c2\<lparr>idtr := (256 * 16 - 1, idt_at)\<rparr>)"

section \<open>The timer\<close>

definition PIT_CHANNEL0_DATA :: nat where [simp]: "PIT_CHANNEL0_DATA = 0x40"
definition PIT_COMMAND :: nat where [simp]: "PIT_COMMAND = 0x43"
definition PIT_BASE_FREQ :: nat where [simp]: "PIT_BASE_FREQ = 1193182"

text \<open>\<open>None\<close> is the division by zero.\<close>

definition pit_init :: "nat \<Rightarrow> 'a io_scheme \<Rightarrow> 'a io_scheme option" where
  "pit_init freq_hz d =
     (if freq_hz = 0 then None
      else let divisor = PIT_BASE_FREQ div freq_hz
        in Some (outb PIT_CHANNEL0_DATA (divisor div 256 mod 256) (outb PIT_CHANNEL0_DATA (divisor mod 256) (outb PIT_COMMAND 0x36 d))))"

section \<open>What the processor reads\<close>

text \<open>A segment descriptor: its privilege level and its kind.\<close>

datatype segment = Code64 nat | Code32 nat | Data nat | NoSegment

definition dpl :: "u64 \<Rightarrow> nat" where
  "dpl e = unat (drop_bit 45 e AND 3)"

definition segment_of :: "u64 \<Rightarrow> segment" where
  "segment_of e = (if \<not> bit e 47 \<or> \<not> bit e 44 then NoSegment
     else if bit e 43 then (if bit e 53 then Code64 (dpl e) else Code32 (dpl e))
     else if bit e 41 then Data (dpl e) else NoSegment)"

text \<open>The descriptor a selector names; its low three bits are no part of the index.\<close>

definition selected :: "cpu \<Rightarrow> u64 \<Rightarrow> segment" where
  "selected c sel = segment_of (gdt c (unat (drop_bit 3 sel)))"

text \<open>The selectors that \<^verbatim>\<open>syscall\<close> and \<^verbatim>\<open>sysret\<close> derive from the register \<^verbatim>\<open>STAR\<close>.\<close>

definition syscall_cs :: "cpu \<Rightarrow> u64" where "syscall_cs c = drop_bit 32 (msr c MSR_STAR) AND 0xFFFC"
definition syscall_ss :: "cpu \<Rightarrow> u64" where "syscall_ss c = (drop_bit 32 (msr c MSR_STAR) AND 0xFFFF) + 8"
definition sysret_cs :: "cpu \<Rightarrow> u64" where "sysret_cs c = (drop_bit 48 (msr c MSR_STAR) + 16) OR 3"
definition sysret_ss :: "cpu \<Rightarrow> u64" where "sysret_ss c = (drop_bit 48 (msr c MSR_STAR) + 8) OR 3"

text \<open>The base, the limit and the kind of the task-state segment.\<close>

definition tss_base :: "cpu \<Rightarrow> u64" where
  "tss_base c = (drop_bit 16 (gdt c 6) AND 0xFFFFFF) OR push_bit 24 (drop_bit 56 (gdt c 6)) OR push_bit 32 (gdt c 7 AND 0xFFFFFFFF)"

definition tss_limit :: "cpu \<Rightarrow> u64" where
  "tss_limit c = (gdt c 6 AND 0xFFFF) OR push_bit 16 (drop_bit 48 (gdt c 6) AND 0xF)"

definition tss_kind :: "cpu \<Rightarrow> u64" where
  "tss_kind c = drop_bit 40 (gdt c 6) AND 0xFF"

text \<open>The gate of a vector: the handler, its code segment and the privilege needed to call it.\<close>

definition gate :: "cpu \<Rightarrow> nat \<Rightarrow> (u64 \<times> u64 \<times> nat) option" where
  "gate c v = (let e = idt c v in
     if bit (type_attr e) 7 \<and> type_attr e AND 0xF = 0xE then
       Some (ucast (offset_low e) OR push_bit 16 (ucast (offset_mid e)) OR push_bit 32 (ucast (offset_high e)),
             ucast (selector e), unat (drop_bit 5 (type_attr e) AND 3))
     else None)"

lemmas gdt_flag_defs = GDT_PRESENT_def GDT_NOTSYS_def GDT_EXEC_def GDT_RW_def GDT_LONGMODE_def GDT_DPL3_def

lemma and_masks:
  fixes x :: "'a :: len word"
  shows "x AND 0xF = take_bit 4 x" "x AND 0xFF = take_bit 8 x" "x AND 0xFFFF = take_bit 16 x" "x AND 0xFFFFF = take_bit 20 x"
    "x AND 0xFFFFFF = take_bit 24 x" "x AND 0xFFFFFFFF = take_bit 32 x"
  by (simp_all add: take_bit_eq_mask mask_eq_exp_minus_1)

lemma tss_desc_bits:
  fixes base :: u64 and limit :: u32
  defines "lo \<equiv> desc_low (tss_desc base limit)" and "hi \<equiv> desc_high (tss_desc base limit)"
  shows "(drop_bit 16 lo AND 0xFFFFFF) OR push_bit 24 (drop_bit 56 lo) OR push_bit 32 (hi AND 0xFFFFFFFF) = base"
    "(lo AND 0xFFFF) OR push_bit 16 (drop_bit 48 lo AND 0xF) = ucast (limit AND 0xFFFFF)" "drop_bit 40 lo AND 0xFF = 0x89"
proof -
  show "(drop_bit 16 lo AND 0xFFFFFF) OR push_bit 24 (drop_bit 56 lo) OR push_bit 32 (hi AND 0xFFFFFFFF) = base"
  proof (rule bit_word_eqI)
    fix n
    assume "n < LENGTH(64)"
    then consider "n < 16" | "16 \<le> n" "n < 24" | "24 \<le> n" "n < 32" | "32 \<le> n" "n < 64" by fastforce
    then show "bit ((drop_bit 16 lo AND 0xFFFFFF) OR push_bit 24 (drop_bit 56 lo) OR push_bit 32 (hi AND 0xFFFFFFFF)) n = bit base n"
      unfolding lo_def hi_def and_masks
      by cases (auto simp: desc_low_def desc_high_def tss_desc_def and_masks bit_simps)
  qed
  show "(lo AND 0xFFFF) OR push_bit 16 (drop_bit 48 lo AND 0xF) = ucast (limit AND 0xFFFFF)"
  proof (rule bit_word_eqI)
    fix n
    assume "n < LENGTH(64)"
    then consider "n < 16" | "16 \<le> n" "n < 20" | "20 \<le> n" "n < 64" by fastforce
    then show "bit ((lo AND 0xFFFF) OR push_bit 16 (drop_bit 48 lo AND 0xF)) n = bit (ucast (limit AND 0xFFFFF) :: u64) n"
      unfolding lo_def and_masks by cases (auto simp: desc_low_def tss_desc_def and_masks bit_simps)
  qed
  show "drop_bit 40 lo AND 0xFF = 0x89"
  proof (rule bit_word_eqI)
    fix n
    assume "n < LENGTH(64)"
    then consider "n < 8" | "8 \<le> n" "n < 64" by fastforce
    then show "bit (drop_bit 40 lo AND 0xFF) n = bit (0x89 :: u64) n"
    proof cases
      case 1
      then show ?thesis unfolding lo_def and_masks by (simp add: desc_low_def tss_desc_def and_masks bit_simps)
    next
      case 2
      then have "0x89 < (2 :: int) ^ n" using power_increasing [of 8 n "2 :: int"] by simp
      then have "\<not> bit (0x89 :: int) n" by (simp add: bit_iff_odd)
      then show ?thesis using 2 unfolding lo_def and_masks by (auto simp: bit_simps)
    qed
  qed
qed

text \<open>The gates of both loops together.\<close>

lemma idt_gates:
  "idt (fold (\<lambda>i. idt_set_gate (k + i) (isr (k + i)) sel attr) [0..<n] c) v =
     (if k \<le> v \<and> v < k + n then idt (idt_set_gate v (isr v) sel attr c) v else idt c v)"
  by (induction n) (auto simp: idt_set_gate_def)

lemma gate_target:
  "(ucast (ucast (addr AND 0xFFFF :: u64) :: u16) :: u64) OR push_bit 16 (ucast (ucast (drop_bit 16 addr AND 0xFFFF) :: u16)) OR
     push_bit 32 (ucast (ucast (drop_bit 32 addr AND 0xFFFFFFFF) :: u32)) = addr"
proof (rule bit_word_eqI)
  fix n
  assume "n < LENGTH(64)"
  then consider "n < 16" | "16 \<le> n" "n < 32" | "32 \<le> n" "n < 64" by fastforce
  then show "bit ((ucast (ucast (addr AND 0xFFFF :: u64) :: u16) :: u64) OR push_bit 16 (ucast (ucast (drop_bit 16 addr AND 0xFFFF) :: u16)) OR
     push_bit 32 (ucast (ucast (drop_bit 32 addr AND 0xFFFFFFFF) :: u32))) n = bit addr n"
    by cases (auto simp: and_masks bit_simps)
qed

section \<open>Properties\<close>

definition cpu_static :: cpu where
  "cpu_static = \<lparr>gdt = \<lambda>_. 0, kernel_tss = \<lparr>reserved0 = 0, rsp0 = 0, rsp1 = 0, rsp2 = 0, reserved1 = 0, ist1 = 0, ist2 = 0, ist3 = 0, ist4 = 0,
     ist5 = 0, ist6 = 0, ist7 = 0, reserved2 = 0, reserved3 = 0, iomap_base = 0\<rparr>,
     idt = \<lambda>_. \<lparr>offset_low = 0, selector = 0, ist = 0, type_attr = 0, offset_mid = 0, offset_high = 0, zero = 0\<rparr>,
     gdtr = (0, 0), idtr = (0, 0), cs_reg = 0, data_regs = 0, task_reg = 0, msr = \<lambda>_. 0\<rparr>"

text \<open>Interrupts reach their handlers. After the set-up of the interrupt table, the gate of each of the 32 exceptions and
  16 interrupts leads to the handler of that vector, in the kernel's code segment and not callable from user mode; every
  other vector, 0x80 too, has no gate.\<close>

lemma interrupt_gates:
  "gate (idt_init idt_at isr cpu_static) v = (if v < 48 then Some (isr v, GDT_KERNEL_CODE, 0) else None)"
proof -
  have "idt (idt_init idt_at isr cpu_static) v = (if v < 48 then idt (idt_set_gate v (isr v) 0x08 0x8E cpu_static) v else idt cpu_static v)"
    using idt_gates [of 0 isr "0x08" "0x8E" 32 cpu_static v]
    by (auto simp: idt_init_def Let_def idt_gates idt_set_gate_def)
  then show ?thesis by (simp add: gate_def idt_set_gate_def gate_target GDT_KERNEL_CODE_def cpu_static_def)
qed

text \<open>C28. The ways into the kernel. After the segments and the system call registers are set up, a system
  call enters the kernel in a 64-bit code segment and a data segment of privilege 0 with interrupts masked, and its return
  loads exactly the selectors that \<^verbatim>\<open>exec\<close> puts in the frames of processes, a 64-bit code segment and a data segment
  of privilege 3. The task register names an available 64-bit task-state segment with the address of the kernel's, all of
  its 104 bytes inside the limit and the I/O bitmap outside. The gate of each of the 32 exceptions and 16 interrupts leads to
  the handler of that vector, in the kernel's code segment and not callable from user mode; no other vector has a gate.\<close>

theorem kernel_entry_correct:
  "let c = syscall_init syscall_entry (gdt_init gdt_at tss_at cpu0) in
     syscall_cs c = GDT_KERNEL_CODE \<and> syscall_ss c = GDT_KERNEL_DATA \<and> sysret_cs c = GDT_USER_CODE \<and> sysret_ss c = GDT_USER_DATA \<and>
     selected c GDT_KERNEL_CODE = Code64 0 \<and> selected c GDT_KERNEL_DATA = Data 0 \<and> selected c GDT_USER_CODE = Code64 3 \<and>
     selected c GDT_USER_DATA = Data 3 \<and> selected c (cs_reg c) = Code64 0 \<and> selected c (data_regs c) = Data 0 \<and>
     bit (msr c MSR_EFER) 0 \<and> msr c MSR_LSTAR = syscall_entry \<and> bit (msr c MSR_FMASK) 9 \<and>
     task_reg c = GDT_TSS \<and> tss_base c = tss_at \<and> tss_limit c = 103 \<and> tss_kind c = 0x89 \<and> unat (iomap_base (kernel_tss c)) = TSS_SIZE \<and>
     gate (idt_init idt_at isr cpu_static) v = (if v < 48 then Some (isr v, GDT_KERNEL_CODE, 0) else None)"
proof -
  define c where "c = syscall_init syscall_entry (gdt_init gdt_at tss_at cpu0)"
  note defs = c_def syscall_init_def gdt_init_def wrmsr_def set_tss_descriptor_def tss_init_def Let_def
  have "syscall_cs c = GDT_KERNEL_CODE \<and> syscall_ss c = GDT_KERNEL_DATA \<and> sysret_cs c = GDT_USER_CODE \<and> sysret_ss c = GDT_USER_DATA"
    by (simp add: defs syscall_cs_def syscall_ss_def sysret_cs_def sysret_ss_def GDT_KERNEL_CODE_def GDT_KERNEL_DATA_def GDT_USER_CODE_def
        GDT_USER_DATA_def GDT_USER32_CODE_def)
  moreover have "selected c GDT_KERNEL_CODE = Code64 0 \<and> selected c GDT_KERNEL_DATA = Data 0 \<and> selected c GDT_USER_CODE = Code64 3 \<and>
      selected c GDT_USER_DATA = Data 3 \<and> selected c (cs_reg c) = Code64 0 \<and> selected c (data_regs c) = Data 0"
    by (simp add: defs selected_def segment_of_def dpl_def gdt_flag_defs GDT_KERNEL_CODE_def GDT_KERNEL_DATA_def GDT_USER_CODE_def GDT_USER_DATA_def)
  moreover have "bit (msr c MSR_EFER) 0 \<and> msr c MSR_LSTAR = syscall_entry \<and> bit (msr c MSR_FMASK) 9"
    by (simp add: defs EFER_SCE_def bit_simps)
  moreover have "task_reg c = GDT_TSS \<and> tss_base c = tss_at \<and> tss_limit c = 103 \<and> tss_kind c = 0x89 \<and> unat (iomap_base (kernel_tss c)) = TSS_SIZE"
    using tss_desc_bits [of tss_at 103] by (simp add: defs tss_base_def tss_limit_def tss_kind_def GDT_TSS_def)
  ultimately show ?thesis by (simp only: c_def [symmetric] Let_def interrupt_gates)
qed

end
