(* ===== verification/Boot.thy ===== *)
theory Boot
  imports Console Tables VfsPaths
begin

text \<open>
  The start of the kernel (\<^verbatim>\<open>kernel/kernel.c\<close>): the order in which the components are set up, the self-test of the disk,
  the mount of a FAT volume and the first process. The answers of the boot loader, the symbols of the linker and the time
  stamp counter are arguments.
\<close>

section \<open>Arguments and results\<close>

record boot_info =
  base_revision_ok :: bool
  framebuffers :: "framebuffer option list option"
  memmap :: "limine_memmap_entry list option"
  hhdm :: "nat option"
  kaddr :: "(nat \<times> nat) option"
  modules :: "(string \<times> bytes) list"

record symbols =
  gdt_at :: u64
  tss_at :: u64
  idt_at :: u64
  isr_at :: "nat \<Rightarrow> u64"
  syscall_entry_at :: u64
  kernel_start :: nat
  kernel_end :: nat
  trampoline_at :: nat

record machine =
  m_k :: kst
  m_con :: console
  m_cpu :: cpu

text \<open>The kernel halts, is up, or waits for a device in the read of the shell.\<close>

datatype boot = BootHalt machine | BootUp machine | BootWait machine

definition log :: "string \<Rightarrow> kst \<Rightarrow> kst" where
  "log str s = s\<lparr>k_disk := serial_print str (k_disk s)\<rparr>"

section \<open>Processor and memory\<close>

definition boot_cpu :: "boot_info \<Rightarrow> symbols \<Rightarrow> machine \<Rightarrow> machine option" where
  "boot_cpu info sy m =
     (let s0 = (m_k m)\<lparr>k_disk := serial_init (k_disk (m_k m))\<rparr>;
          con = fb_init (framebuffers info) (m_con m);
          c1 = gdt_init (gdt_at sy) (tss_at sy) (m_cpu m);
          s1 = s0\<lparr>k_disk := pic_remap (k_disk s0)\<rparr>;
          c2 = syscall_init (syscall_entry_at sy) (idt_init (idt_at sy) (isr_at sy) c1)
      in map_option (\<lambda>d. \<lparr>m_k = log (''[ok] gdt/idt/pic/pit up, interrupts enabled, syscall/sysret entry live'' @ nl) (s1\<lparr>k_disk := d\<rparr>),
                          m_con = con, m_cpu = c2\<rparr>)
           (pit_init 100 (k_disk s1)))"

definition boot_memory :: "limine_memmap_entry list \<Rightarrow> nat \<Rightarrow> nat \<times> nat \<Rightarrow> symbols \<Rightarrow> kst \<Rightarrow> kst" where
  "boot_memory mmap off ka sy s =
     (let m1 = (k_mm s)\<lparr>frames := pmm_init mmap (frames (k_mm s))\<rparr>
      in log (nl @ ''[ok] pmm + vmm initialized, cr3 on our own kernel tables'' @ nl)
           (s\<lparr>k_mm := vmm_init off (fst ka) (snd ka) (kernel_start sy) (kernel_end sy) m1\<rparr>))"

section \<open>The disk\<close>

definition ATA_SELFTEST_LBA :: nat where [simp]: "ATA_SELFTEST_LBA = 100"

definition selftest_pattern :: bytes where
  "selftest_pattern = map (\<lambda>i. of_nat (i * 3 + 7)) [0..<512]"

definition selftest_passed :: string where
  "selftest_passed = ''[ok] ata read/write self-test passed (sector round-trip verified)'' @ nl"

definition ata_selftest :: "disk \<Rightarrow> disk" where
  "ata_selftest d =
     (let (wrc, d1) = ata_write_sectors ATA_SELFTEST_LBA 1 selftest_pattern d;
          (rdc, read_buf, d2) = (if wrc = 0 then ata_read_sectors ATA_SELFTEST_LBA 1 d1 else (- 1, [], d1));
          match = (if rdc = 0 then (if selftest_pattern = read_buf then 1 else 0) else - 1 :: int)
      in if wrc = 0 \<and> rdc = 0 \<and> match = 1 then
           serial_print selftest_passed d2
         else
           let d3 = serial_print_dec (if wrc = 0 then 0 else 1) (serial_print ''!!! ata read/write self-test FAILED (wrc='' d2);
               d4 = serial_print_dec (if rdc = 0 then 0 else 1) (serial_print '' rdc='' d3);
               d5 = (if match < 0 then serial_print '' match=n/a (never compared)'' d4
                     else serial_print_dec (nat match) (serial_print '' match='' d4))
           in serial_print ('') -- continuing boot anyway, nothing depends on disk yet'' @ nl) d5)"

text \<open>After the probe of the disk: whether a FAT volume is mounted.\<close>

definition boot_disk :: "disk \<times> fat \<Rightarrow> bool \<times> disk \<times> fat" where
  "boot_disk = (\<lambda>(d, f).
     let (rc, d1, f1) = (if ata_present d then fat_mount (d, f) else (- 1, d, f)); fat_ok = (ata_present d \<and> rc = 0)
     in if ata_present d1 \<and> \<not> fat_ok then (fat_ok, ata_selftest d1, f1)
        else if fat_ok then
          (fat_ok, serial_print (''[ata] valid FAT volume present -- skipping destructive write self-test '' @
             ''(a successful FAT mount already proves reads work, and writing test data here could corrupt real files)'' @ nl) d1, f1)
        else (fat_ok, serial_print (''[ata] no disk attached this boot -- fine for now, nothing depends on it yet'' @ nl) d1, f1))"

section \<open>Files\<close>

definition mount_fat :: "kst \<Rightarrow> kst option" where
  "mount_fat s =
     map_option (\<lambda>(r, s1). case r of None \<Rightarrow> s1
         | Some mnt \<Rightarrow>
             let (v, f) = fat_install (vnode_at s1 mnt) (k_fat s1)
             in log (''[ok] FAT16 volume mounted at /mnt'' @ nl) (set_vnode mnt (\<lambda>_. v) (s1\<lparr>k_fat := f\<rparr>)))
       (vfs_resolve_path ''/mnt'' s)"

definition boot_files :: "(string \<times> bytes) list \<Rightarrow> bool \<Rightarrow> kst \<Rightarrow> kst option" where
  "boot_files mods fat_ok s =
     do { s1 \<leftarrow> vfs_init mods s;
          s2 \<leftarrow> (if fat_ok then mount_fat s1 else Some s1);
          let bar = ''========================================'' @ nl;
          Some (log bar (log ('' + scheduler integration + fork()'' @ nl) (log ('' milestone 9, group a: real process table'' @ nl)
            (log (nl @ bar) (log (''[ok] vfs initialized (tmpfs root, seeded /hello.txt)'' @ nl) s2))))) }"

section \<open>The first process\<close>

definition init_argv :: "string list" where "init_argv = [''sh'']"
definition init_envp :: "string list" where "init_envp = [''PATH=/bin'', ''HOME=/'', ''TERM=isunux'']"

text \<open>The stack of the first process: its initial stack pointer. That the frames were there is not checked.\<close>

definition boot_stack :: "u64 \<Rightarrow> nat \<Rightarrow> elf_image \<Rightarrow> mm \<Rightarrow> nat \<times> mm" where
  "boot_stack seed proc_as im m =
     (let (stk, p) = pmm_alloc_pages USER_STACK_PAGES (frames m);
          base = USER_STACK_TOP - USER_STACK_PAGES * PAGE_SIZE;
          m2 = map_run proc_as base stk USER_STACK_PAGES (PTE_WRITE OR PTE_USER) (m\<lparr>frames := p\<rparr>)
      in build_initial_stack stk base (USER_STACK_PAGES * PAGE_SIZE) init_argv init_envp im seed m2)"

text \<open>The assignment of \<^verbatim>\<open>task_create_user\<close> to \<^verbatim>\<open>proc->task\<close>.\<close>

definition set_task :: "nat \<Rightarrow> nat option \<Rightarrow> kst \<Rightarrow> kst" where
  "set_task i slot s = (case slot of None \<Rightarrow> s | Some t \<Rightarrow> upd_proc i (\<lambda>p. p\<lparr>p_task := Some t\<rparr>) s)"

text \<open>What the kernel logs of the first process, and the creation of its task; \<open>False\<close> stands for the halt.\<close>

definition log_built :: "nat \<Rightarrow> elf_image \<Rightarrow> kst \<Rightarrow> kst" where
  "log_built i im s =
     (let d1 = serial_print_dec (nat (pid (proc s i))) (serial_print ''[ok] process pid '' (k_disk s));
          d2 = serial_print_hex (im_entry im) (serial_print '' built: elf loaded, entry '' d1);
          d3 = serial_print nl (serial_print_hex (im_highest im) (serial_print '', heap starts at '' d2))
      in s\<lparr>k_disk := d3\<rparr>)"

definition boot_task :: "symbols \<Rightarrow> nat \<Rightarrow> elf_image \<Rightarrow> nat \<Rightarrow> kst \<Rightarrow> (bool \<times> kst) option" where
  "boot_task sy i im rsp s =
     map_option (\<lambda>(t, slot, m, sc).
        let s1 = set_task i slot (s\<lparr>k_mm := m, k_sched := sc\<rparr>) in
        case t of None \<Rightarrow> (False, kprint ''!!! task_create_user failed. halting.'' s1)
        | Some _ \<Rightarrow>
            (True, log (nl @ ''main now just idles. the timer + scheduler take it from here.'' @ nl @ nl)
               (kprint ''[ok] task created and scheduled -- not running yet, waiting its turn'' s1)))
      (task_create_user (trampoline_at sy) ''init'' i (im_entry im) rsp (k_mm s, k_sched s))"

text \<open>From the loaded image on: the stack, the process and its task.\<close>

definition boot_process :: "symbols \<Rightarrow> u64 \<Rightarrow> nat \<Rightarrow> elf_image \<Rightarrow> kst \<Rightarrow> (bool \<times> kst) option" where
  "boot_process sy seed proc_as im s =
     (let (rsp, m3) = boot_stack seed proc_as im (k_mm s)
      in case process_alloc 0 (s\<lparr>k_mm := m3\<rparr>) of
           (None, s1) \<Rightarrow> Some (False, kprint ''!!! process_alloc failed. halting.'' s1)
         | (Some i, s1) \<Rightarrow> boot_task sy i im rsp (log_built i im (process_init i proc_as (im_highest im) s1)))"

datatype stage_result = Halted kst | Up kst | Waiting kst

definition boot_shell :: "symbols \<Rightarrow> u64 \<Rightarrow> kst \<Rightarrow> stage_result option" where
  "boot_shell sy seed s =
     (let s1 = kprint (''[ok] task_init: current flow of execution is now '' @ CHR 0x27 # ''main'' @ [CHR 0x27]) (s\<lparr>k_sched := task_init (k_sched s)\<rparr>);
          (proc_as, m) = vmm_new_address_space (k_mm s1)
      in do { (r, s2) \<leftarrow> vfs_resolve_path ''/bin/sh'' (s1\<lparr>k_mm := m\<rparr>);
              (case r of None \<Rightarrow> Some (Halted (kprint ''!!! /bin/sh not found. halting.'' s2))
               | Some node \<Rightarrow>
                   do { (ld, s3) \<leftarrow> vfs_read_file_alloc node s2;
                        (case ld of
                           LoadFailed \<Rightarrow> Some (Halted (kprint ''!!! failed to read /bin/sh. halting.'' s3))
                         | LoadWait ch fr cap got \<Rightarrow> Some (Waiting s3)
                         | Loaded buf sz npages \<Rightarrow>
                             if sz = 0 then Some (Halted (kprint ''!!! failed to read /bin/sh. halting.'' s3))
                             else
                               let (im, s4) = elf_load proc_as (buf - vmm_hhdm_offset (k_mm s3)) sz s3; s5 = vfs_read_file_free buf npages s4
                               in (case im of None \<Rightarrow> Some (Halted (kprint ''!!! elf_load failed. halting.'' s5))
                                   | Some im \<Rightarrow> map_option (\<lambda>(ok, s6). if ok then Up s6 else Halted s6) (boot_process sy seed proc_as im s5))) }) })"

section \<open>The kernel\<close>

definition start :: "boot_info \<Rightarrow> symbols \<Rightarrow> u64 \<Rightarrow> machine \<Rightarrow> boot option" where
  "start info sy seed m =
     (if \<not> base_revision_ok info then Some (BootHalt m)
      else do {
        m1 \<leftarrow> boot_cpu info sy m;
        (case (memmap info, hhdm info, kaddr info) of
           (Some mmap, Some off, Some ka) \<Rightarrow>
             let s1 = boot_memory mmap off ka sy (m_k m1);
                 (fat_ok, d, f) = boot_disk (ata_init (k_disk s1), k_fat s1)
             in do { s2 \<leftarrow> boot_files (modules info) fat_ok (s1\<lparr>k_disk := d, k_fat := f\<rparr>);
                     r \<leftarrow> boot_shell sy seed s2;
                     Some (case r of Halted s \<Rightarrow> BootHalt (m1\<lparr>m_k := s\<rparr>) | Up s \<Rightarrow> BootUp (m1\<lparr>m_k := s\<rparr>) | Waiting s \<Rightarrow> BootWait (m1\<lparr>m_k := s\<rparr>)) }
         | _ \<Rightarrow> Some (BootHalt (m1\<lparr>m_k := kprint (''!!! limine didn'' @ CHR 0x27 # ''t answer a request we need. halting.'') (m_k m1)\<rparr>))) })"

section \<open>Properties\<close>

declare serial_print.simps [simp del]

lemma ready_serial:
  assumes "ready d0 S n d"
  shows "ready d0 S n (serial_print str d)" "ready d0 S n (serial_print_dec k d)"
  using assms on_serial unfolding ready_def by (metis found_keeps)+

text \<open>The boot sector of a FAT16 volume as \<^verbatim>\<open>fat_mount\<close> recognises it.\<close>

definition fat16_sector :: "bytes \<Rightarrow> bool" where
  "fat16_sector b \<longleftrightarrow> le16 b 510 = 0xAA55 \<and> le16 b 11 = 512 \<and> le16 b 22 \<noteq> 0"

lemma fat_mount_ready:
  assumes "ready d0 S n d" "0 < n"
  shows "\<exists>r d' f'. fat_mount (d, f) = (r, d', f') \<and> ready d0 S n d' \<and> (r = 0 \<longleftrightarrow> fat16_sector (S 0))"
proof -
  obtain d1 where r: "ata_read_sectors 0 1 d = (0, S 0, d1)" "ready d0 S n d1"
    using ata_read_ready [OF assms(1), of 1 0] assms(2) by (auto simp: sectors_def)
  have "ata_present d" using assms(1) by (simp add: ready_def ata_present_def)
  then show ?thesis unfolding fat_mount_def Let_def prod.case r(1)
    using r(2) by (simp add: fat16_sector_def ready_serial)
qed

lemma selftest_ready:
  assumes "ready d0 S n d"
  shows "ready d0 (if ATA_SELFTEST_LBA < n then S(ATA_SELFTEST_LBA := selftest_pattern) else S) n (ata_selftest d) \<and>
    (ATA_SELFTEST_LBA < n \<longrightarrow>
      (\<exists>d'. ata_selftest d = serial_print selftest_passed d'))"
proof (cases "ATA_SELFTEST_LBA < n")
  case True
  have len: "length selftest_pattern = 512" by (simp add: selftest_pattern_def)
  have put: "put_sectors 100 1 selftest_pattern S = S(100 := selftest_pattern)" by (auto simp: put_sectors_def len)
  obtain d1 where w: "ata_write_sectors 100 1 selftest_pattern d = (0, d1)" "ready d0 (S(100 := selftest_pattern)) n d1"
    using ata_write_ready [OF assms, of 1 100 selftest_pattern] True len put by auto
  obtain d2 where r: "ata_read_sectors 100 1 d1 = (0, selftest_pattern, d2)" "ready d0 (S(100 := selftest_pattern)) n d2"
    using ata_read_ready [OF w(2), of 1 100] True by (auto simp: sectors_def)
  have "ata_selftest d = serial_print selftest_passed d2"
    unfolding ata_selftest_def ATA_SELFTEST_LBA_def w(1) by (simp add: r(1) [unfolded One_nat_def])
  then show ?thesis using True ready_serial(1) [OF r(2)] by auto
next
  case False
  obtain r d1 where w: "ata_write_sectors 100 1 selftest_pattern d = (r, d1)" by (cases "ata_write_sectors 100 1 selftest_pattern d")
  with ata_out_of_range(2) [OF assms, of 1 100 selftest_pattern] False have "r = - 1" "ready d0 S n d1" by auto
  then show ?thesis using False unfolding ata_selftest_def ATA_SELFTEST_LBA_def w by (simp add: ready_serial)
qed

text \<open>C30. The start of the kernel never damages a FAT volume. On a drive that follows the protocol, when the boot sector is that of
  a FAT16 volume it is mounted and every sector stays as it was. Otherwise the kernel writes its test pattern to sector
  100 if the drive has one, the test passes, and every other sector stays as it was.\<close>

theorem boot_disk_safe:
  assumes "ready d0 S n d" "0 < n"
  shows "\<exists>d' f'. boot_disk (d, f) = (fat16_sector (S 0), d', f') \<and>
    ready d0 (if fat16_sector (S 0) \<or> n \<le> ATA_SELFTEST_LBA then S else S(ATA_SELFTEST_LBA := selftest_pattern)) n d' \<and>
    (\<not> fat16_sector (S 0) \<and> ATA_SELFTEST_LBA < n \<longrightarrow>
      (\<exists>d''. d' = serial_print selftest_passed d''))"
proof -
  obtain r d1 f1 where m: "fat_mount (d, f) = (r, d1, f1)" "ready d0 S n d1" "r = 0 \<longleftrightarrow> fat16_sector (S 0)"
    using fat_mount_ready [OF assms] by blast
  have p: "ata_present d" "ata_present d1" using assms(1) m(2) by (simp_all add: ready_def ata_present_def)
  show ?thesis
  proof (cases "fat16_sector (S 0)")
    case True
    then show ?thesis using m p by (simp add: boot_disk_def ready_serial)
  next
    case False
    then have "boot_disk (d, f) = (False, ata_selftest d1, f1)" using m p by (simp add: boot_disk_def)
    then show ?thesis using selftest_ready [OF m(2)] False by (auto simp: not_less)
  qed
qed

theorem boot_disk_safe_witness: "\<exists>d' f'. boot_disk (demo_disk, k_fat demo_kst) = (False, d', f')"
proof -
  have "\<not> fat16_sector (replicate 512 0)" by (simp add: fat16_sector_def le16_def)
  then show ?thesis using boot_disk_safe [OF demo_ready, of "k_fat demo_kst"] by auto
qed

text \<open>The process that runs the shell, and its task.\<close>

definition is_init :: "kst \<Rightarrow> nat \<Rightarrow> nat \<Rightarrow> nat \<Rightarrow> elf_image \<Rightarrow> bool" where
  "is_init s i t pas im \<longleftrightarrow> p_task (proc s i) = Some t \<and> parent_pid (proc s i) = 0 \<and> p_uid (proc s i) = 0 \<and> p_gid (proc s i) = 0 \<and> cwd (proc s i) = ''/'' \<and>
     pml4_phys (proc s i) = pas \<and> heap_start (proc s i) = im_highest im \<and> heap_end (proc s i) = im_highest im \<and>
     (\<forall>fd < 3. fds (proc s i) fd = console_fd) \<and> (\<forall>fd. 3 \<le> fd \<longrightarrow> \<not> fd_used (fds (proc s i) fd))"

definition is_init_task :: "sched \<Rightarrow> nat \<Rightarrow> nat \<Rightarrow> elf_image \<Rightarrow> nat \<Rightarrow> bool" where
  "is_init_task sc t i im rsp \<longleftrightarrow> t_state (tasks sc t) = TASK_READY \<and> t_proc (tasks sc t) = Some i \<and> t_name (tasks sc t) = ''init'' \<and>
     user_entry_rip (tasks sc t) = im_entry im \<and> user_entry_rsp (tasks sc t) = rsp"

lemma create_user_first:
  assumes "task_count s < MAX_TASKS" "current_task s < task_count s"
  shows "\<exists>t m' s'. task_create_user tr name i rip rsp (m, s) = Some (t, Some (task_count s), m', s') \<and>
    (t \<noteq> None \<longleftrightarrow> fst (pmm_alloc_pages USER_KSTACK_PAGES (frames m)) \<noteq> 0) \<and> t_state (tasks s' (task_count s)) = TASK_READY \<and>
    t_proc (tasks s' (task_count s)) = Some i \<and> t_name (tasks s' (task_count s)) = name \<and> user_entry_rip (tasks s' (task_count s)) = rip \<and>
    user_entry_rsp (tasks s' (task_count s)) = rsp \<and> current_task s' = current_task s \<and>
    t_next (tasks s' (current_task s)) = task_count s"
  using assms by (auto simp: task_create_user_def task_alloc_raw_def take_slot_def splice_task_def fresh_task_def install_stack_def Let_def
      split: prod.split)

text \<open>C31. The first process. With an empty process table and a free slot for a task, the start of the shell does not go wrong: it
  succeeds exactly when there are frames for the kernel stack. Then process 0 has the first process number, no parent, the
  identity of root, the root directory, the console as its three descriptors and no other, and its task, at the entry
  point of the image with the prepared stack, is the one the scheduler picks next.\<close>

theorem first_process:
  assumes "pid (proc s 0) = 0" "task_count (k_sched s) < MAX_TASKS" "current_task (k_sched s) < task_count (k_sched s)"
  shows "\<exists>ok s'. boot_process sy seed pas im s = Some (ok, s') \<and>
    (ok \<longleftrightarrow> fst (pmm_alloc_pages USER_KSTACK_PAGES (frames (snd (boot_stack seed pas im (k_mm s))))) \<noteq> 0) \<and>
    (ok \<longrightarrow> pid (proc s' 0) = next_pid (k_procs s) \<and> is_init s' 0 (task_count (k_sched s)) pas im \<and>
      is_init_task (k_sched s') (task_count (k_sched s)) 0 im (fst (boot_stack seed pas im (k_mm s))) \<and>
      pick_next_ready (k_sched s') (current_task (k_sched s')) = Some (Some (task_count (k_sched s))))"
proof -
  obtain rsp m3 where st: "boot_stack seed pas im (k_mm s) = (rsp, m3)" by fastforce
  have "scan_up (\<lambda>i. pid (proc s i) = 0) 0 MAX_PROCESSES = Some 0" using assms(1) by (simp add: scan_up.simps)
  then have pa: "fst (process_alloc 0 (s\<lparr>k_mm := m3\<rparr>)) = Some 0"
    "proc (snd (process_alloc 0 (s\<lparr>k_mm := m3\<rparr>))) 0 = process_zero\<lparr>pid := next_pid (k_procs s), parent_pid := 0\<rparr>"
    "k_mm (snd (process_alloc 0 (s\<lparr>k_mm := m3\<rparr>))) = m3" "k_sched (snd (process_alloc 0 (s\<lparr>k_mm := m3\<rparr>))) = k_sched s"
    by (simp_all add: process_alloc_def upd_proc_def Let_def)
  obtain s1 where s1: "process_alloc 0 (s\<lparr>k_mm := m3\<rparr>) = (Some 0, s1)" by (metis pa(1) prod.collapse)
  obtain t m' sc where tc: "task_create_user (trampoline_at sy) ''init'' 0 (im_entry im) rsp (m3, k_sched s) = Some (t, Some (task_count (k_sched s)), m', sc)"
    "t \<noteq> None \<longleftrightarrow> fst (pmm_alloc_pages USER_KSTACK_PAGES (frames m3)) \<noteq> 0" "is_init_task sc (task_count (k_sched s)) 0 im rsp"
    "current_task sc = current_task (k_sched s)" "t_next (tasks sc (current_task (k_sched s))) = task_count (k_sched s)"
    using create_user_first [OF assms(2,3), of "trampoline_at sy" "''init''" 0 "im_entry im" rsp m3] by (auto simp: is_init_task_def)
  have pick: "pick_next_ready sc (current_task sc) = Some (Some (task_count (k_sched s)))"
    using tc(3,4,5) assms(3) by (simp add: pick_next_ready_def pick_walk.simps is_init_task_def)
  have pr: "proc (process_init 0 pas (im_highest im) s1) 0 = (process_zero\<lparr>pid := next_pid (k_procs s), parent_pid := 0\<rparr>)
      \<lparr>pml4_phys := pas, heap_start := im_highest im, heap_end := im_highest im, mmap_next := MMAP_ARENA_BASE, cwd := ''/'', p_uid := 0, p_gid := 0,
       fs_base := 0, fds := (\<lambda>fd. if fd < 3 then console_fd else fds process_zero fd)\<rparr>"
    using pa(2) by (simp add: s1 process_init_def upd_proc_def cong: if_cong)
  have k: "k_mm (process_init 0 pas (im_highest im) s1) = m3" "k_sched (process_init 0 pas (im_highest im) s1) = k_sched s"
    using pa(3,4) by (simp_all add: s1 process_init_def upd_proc_def)
  define s2 where "s2 = process_init 0 pas (im_highest im) s1"
  have "\<exists>s'. boot_process sy seed pas im s = Some (t \<noteq> None, s') \<and> proc s' 0 = (proc s2 0)\<lparr>p_task := Some (task_count (k_sched s))\<rparr> \<and> k_sched s' = sc"
    by (cases t) (simp_all add: boot_process_def boot_task_def log_built_def st s1 Let_def s2_def [symmetric] k [folded s2_def] tc(1) kprint_def log_def set_task_def upd_proc_def)
  then obtain s' where s': "boot_process sy seed pas im s = Some (t \<noteq> None, s')"
    "proc s' 0 = (proc s2 0)\<lparr>p_task := Some (task_count (k_sched s))\<rparr>" "k_sched s' = sc" by blast
  have "pid (proc s' 0) = next_pid (k_procs s)" "is_init s' 0 (task_count (k_sched s)) pas im"
    unfolding is_init_def s'(2) s2_def pr by (simp_all add: process_zero_def fd_zero_def)
  then show ?thesis using s'(1,3) tc(2,3) pick by (simp add: st)
qed

definition demo_boot :: kst where
  "demo_boot = demo_kst\<lparr>k_procs := (k_procs demo_kst)\<lparr>process_pool := \<lambda>_. process_zero, next_pid := 1\<rparr>, k_sched := task_init sched_static\<rparr>"

theorem first_process_witness:
  "\<exists>ok s'. boot_process \<lparr>gdt_at = 0, tss_at = 0, idt_at = 0, isr_at = \<lambda>_. 0, syscall_entry_at = 0, kernel_start = 0, kernel_end = 0,
       trampoline_at = 0\<rparr> 1 4096 \<lparr>im_entry = 0x400000, im_highest = 0x500000, im_phdr = 0, im_phentsize = 0, im_phnum = 0\<rparr> demo_boot = Some (ok, s')"
proof -
  have "pid (proc demo_boot 0) = 0" "task_count (k_sched demo_boot) < MAX_TASKS" "current_task (k_sched demo_boot) < task_count (k_sched demo_boot)"
    by (simp_all add: demo_boot_def process_zero_def task_init_def sched_static_def Let_def)
  from first_process [OF this] show ?thesis by blast
qed

end
