(* ===== verification/Calm.thy ===== *)
theory Calm
  imports ProcMem
begin

text \<open>
  What the operations on files leave alone. \<open>calm s t\<close>: from \<open>s\<close> to \<open>t\<close> the process table and the references to
  pipes are the same, tasks are at most woken, and what every component keeps of itself is kept. Resolving paths,
  reading, writing, making and removing files, and every change of memory are calm.
\<close>

section \<open>Woken tasks\<close>

definition woken :: "sched \<Rightarrow> sched \<Rightarrow> bool" where
  "woken a b \<longleftrightarrow> task_count b = task_count a \<and> current_task b = current_task a \<and>
     (\<forall>t. t_next (tasks b t) = t_next (tasks a t) \<and> t_proc (tasks b t) = t_proc (tasks a t) \<and>
        (t_state (tasks b t) = t_state (tasks a t) \<or> t_state (tasks a t) = TASK_BLOCKED \<and> t_state (tasks b t) = TASK_READY))"

lemma woken_refl [simp]: "woken a a"
  by (simp add: woken_def)

lemma woken_trans: "woken a b \<Longrightarrow> woken b c \<Longrightarrow> woken a c"
  by (simp add: woken_def) (metis task_state.distinct(1,9))

lemma woken_wake [simp]: "woken a (task_wake ch a)"
proof -
  have one: "woken a (wake_one ch i a)" for i a by (auto simp: wake_one_def woken_def)
  have "woken a (fold (wake_one ch) xs a)" for xs
    by (induction xs rule: rev_induct) (auto intro: woken_trans one)
  then show ?thesis by (simp add: task_wake_def)
qed

lemma woken_state:
  assumes "woken a b"
  shows "t_state (tasks b t) = t_state (tasks a t) \<or> t_state (tasks a t) = TASK_BLOCKED \<and> t_state (tasks b t) = TASK_READY"
    "st \<notin> {TASK_BLOCKED, TASK_READY} \<Longrightarrow> t_state (tasks b t) = st \<longleftrightarrow> t_state (tasks a t) = st"
    "t_proc (tasks b t) = t_proc (tasks a t)" "task_count b = task_count a" "current_task b = current_task a"
  using assms unfolding woken_def by auto metis+

lemma woken_sched: "sched_inv a \<Longrightarrow> woken a b \<Longrightarrow> sched_inv b"
  using ring_cong [of b a] by (auto simp: sched_inv_def woken_def) (metis task_state.distinct(1))

section \<open>The tree of files has no pipes in it\<close>

definition no_pipe :: "vptr option \<Rightarrow> bool" where
  "no_pipe v \<longleftrightarrow> (\<forall>p. v = Some p \<longrightarrow> \<not> is_pipe p)"

lemma is_pipe_simps [simp]:
  "\<not> is_pipe (VTmp i)" "\<not> is_pipe (VFat i)" "\<not> is_pipe VConsole" "\<not> is_pipe VNull" "\<not> is_pipe VZero" "is_pipe (VPipeR i)" "is_pipe (VPipeW i)"
  by (simp_all add: is_pipe_def)

lemma no_pipe_simps [simp]: "no_pipe None" "no_pipe (Some p) \<longleftrightarrow> \<not> is_pipe p" "no_pipe (map_option VTmp r)"
  by (auto simp: no_pipe_def)

definition tmp_tree :: "tmpfs \<Rightarrow> bool" where
  "tmp_tree t \<longleftrightarrow> (\<forall>i. no_pipe (v_parent (n_vnode (node_pool t i))))"

definition fat_tree :: "fat \<Rightarrow> bool" where
  "fat_tree f \<longleftrightarrow> (\<forall>i. no_pipe (v_parent (fnode_pool f i)))"

definition dev_tree :: "devfs \<Rightarrow> bool" where
  "dev_tree d \<longleftrightarrow> no_pipe (v_parent (console_vnode d)) \<and> no_pipe (v_parent (null_vnode d)) \<and> no_pipe (v_parent (zero_vnode d))"

definition parts_ok :: "kst \<Rightarrow> bool" where
  "parts_ok s \<longleftrightarrow> tmp_tree (k_tmp s) \<and> fat_tree (k_fat s) \<and> dev_tree (k_dev s) \<and> \<not> is_pipe (k_root s) \<and>
     (\<forall>k. pipe_inv (k_pipes s k)) \<and> kbd_inv (k_kbd s)"

lemma parent_no_pipe: "parts_ok s \<Longrightarrow> no_pipe (v_parent (vnode_at s v))"
  by (cases v) (auto simp: parts_ok_def tmp_tree_def fat_tree_def dev_tree_def vnode_at_def pipe_vnode_def)

definition calm :: "kst \<Rightarrow> kst \<Rightarrow> bool" where
  "calm s t \<longleftrightarrow> same_refs s t \<and> woken (k_sched s) (k_sched t) \<and> (parts_ok s \<longrightarrow> parts_ok t)"

lemma calm_refl [simp]: "calm s s"
  by (simp add: calm_def)

lemma calm_trans: "calm s t \<Longrightarrow> calm t u \<Longrightarrow> calm s u"
  by (auto simp: calm_def same_refs_def intro: woken_trans)

lemma calm_fields [simp]:
  "calm s (s\<lparr>k_mm := m\<rparr>)" "calm s (s\<lparr>k_disk := d\<rparr>)" "calm s (s\<lparr>k_term := c\<rparr>)"
  "calm s (s\<lparr>k_sched := (k_sched s)\<lparr>msr_fs_base := b\<rparr>\<rparr>)" "calm s (s\<lparr>k_sched := task_wake ch (k_sched s)\<rparr>)"
  using woken_wake by (auto simp: calm_def same_refs_def parts_ok_def) (simp_all add: woken_def)

lemma calm_indifferent [simp]:
  "calm (s\<lparr>k_mm := m\<rparr>) t \<longleftrightarrow> calm s t" "calm s (t\<lparr>k_mm := m\<rparr>) \<longleftrightarrow> calm s t"
  "calm (s\<lparr>k_disk := d\<rparr>) t \<longleftrightarrow> calm s t" "calm s (t\<lparr>k_disk := d\<rparr>) \<longleftrightarrow> calm s t"
  by (simp_all add: calm_def same_refs_def parts_ok_def)

lemma calm_kprint [simp]: "calm s (kprint str s)"
  by (simp add: kprint_def)

lemma calm_procs: "calm s t \<Longrightarrow> k_procs t = k_procs s"
  by (simp add: calm_def same_refs_def)

section \<open>Files\<close>

text \<open>The memory file system: new nodes get a directory as their parent.\<close>

lemma tmp_tree_ops:
  assumes "tmp_tree t"
  shows "tmp_tree (snd (snd (tmpfs_create_file d name (m, t))))" "tmp_tree (snd (tmpfs_create_dir d name t))"
    "tmp_tree (snd (snd (tmpfs_dir_create d name (m, t))))" "tmp_tree (snd (tmpfs_dir_mkdir d name t))"
    "tmp_tree (snd (snd (tmpfs_dir_unlink d name (m, t))))" "tmpfs_file_write i src off (m, t) = Some (r, m', t') \<Longrightarrow> tmp_tree t'"
proof -
  show f: "tmp_tree (snd (snd (tmpfs_create_file d name (m, t))))"
    using assms by (auto simp: tmpfs_create_file_def tmpfs_alloc_node_def link_child_def tmp_tree_def Let_def split: prod.split)
  show g: "tmp_tree (snd (tmpfs_create_dir d name t))"
    using assms by (auto simp: tmpfs_create_dir_def tmpfs_alloc_node_def link_child_def tmp_tree_def Let_def)
  show "tmp_tree (snd (snd (tmpfs_dir_create d name (m, t))))" using f assms by (auto simp: tmpfs_dir_create_def split: prod.splits option.splits)
  show "tmp_tree (snd (tmpfs_dir_mkdir d name t))" using g assms by (auto simp: tmpfs_dir_mkdir_def split: prod.splits option.splits)
  show "tmp_tree (snd (snd (tmpfs_dir_unlink d name (m, t))))"
    using assms by (auto simp: tmpfs_dir_unlink_def unlink_child_def tmp_tree_def Let_def split: option.splits)
  show "tmp_tree t'" if "tmpfs_file_write i src off (m, t) = Some (r, m', t')"
    using that assms by (auto simp: tmp_tree_def tmpfs_file_write_def put_bytes_def Let_def split: if_splits option.splits prod.splits)
qed

text \<open>The FAT file system: only the lookup makes nodes, with the directory as their parent.\<close>

lemma scan_slots_hold:
  assumes "\<And>name e idx lba off c. P c \<Longrightarrow> P (snd (v name e idx lba off c))"
  shows "P c \<Longrightarrow> P (snd (snd (scan_slots v sector lba offs idx c)))"
proof (induction offs arbitrary: idx c)
  case (Cons off offs)
  let ?e = "take 32 (drop off sector)"
  obtain b c1 where v: "v (fat_decode_83_name ?e) ?e idx lba off c = (b, c1)" by fastforce
  have "P c1" using assms [OF Cons.prems, of "fat_decode_83_name ?e" ?e idx lba off] v by simp
  then show ?case using Cons v by (cases b) (simp_all add: Let_def)
qed simp

lemma iter_sectors_hold:
  assumes "\<And>name e idx lba off c. P c \<Longrightarrow> P (snd (v name e idx lba off c))"
  shows "P c \<Longrightarrow> iter_sectors v lbas idx c d = (r, idx1, c1, d1) \<Longrightarrow> P c1"
proof (induction lbas arbitrary: idx c d)
  case (Cons lba lbas)
  obtain x sector d2 where a: "ata_read_sectors lba 1 d = (x, sector, d2)" by (metis surj_pair)
  obtain b idx2 c2 where b: "fat_scan_sector_dirents v sector lba idx c = (b, idx2, c2)" by (metis surj_pair)
  have "P c2" using scan_slots_hold [of P v, OF assms Cons.prems(1), of sector lba slot_offsets idx] b
    by (simp add: fat_scan_sector_dirents_def)
  then show ?case using Cons a b by (cases b) (auto split: if_splits)
qed simp

lemma iter_chain_hold:
  assumes "\<And>name e idx lba off c. P c \<Longrightarrow> P (snd (v name e idx lba off c))" "iter_chain v f cluster idx c d = Some q" "P c"
  shows "P (fst q)"
proof -
  have "v = v \<longrightarrow> P c \<longrightarrow> P (fst q)"
  proof (rule iter_chain.raw_induct [where P = "\<lambda>w f cluster idx c d y. w = v \<longrightarrow> P c \<longrightarrow> P (fst y)", OF _ assms(2)])
    fix chain w f cluster idx c d y
    assume ih: "\<And>w f cluster idx c d y. chain w f cluster idx c d = Some y \<Longrightarrow> w = v \<longrightarrow> P c \<longrightarrow> P (fst y)"
      and y: "(if in_chain cluster
        then case iter_sectors w (cluster_lbas f cluster) idx c d of (s, idx1, c1, d1) \<Rightarrow>
               if s = ScanOn then case fat_next_cluster f cluster d1 of (n, d2) \<Rightarrow> chain w f n idx1 c1 d2 else Some (c1, d1)
        else Some (c, d)) = Some y"
    obtain r idx1 c1 d1 where s: "iter_sectors w (cluster_lbas f cluster) idx c d = (r, idx1, c1, d1)" by (metis surj_pair)
    obtain n d2 where n: "fat_next_cluster f cluster d1 = (n, d2)" by fastforce
    show "w = v \<longrightarrow> P c \<longrightarrow> P (fst y)"
      using y ih [of w f n idx1 c1 d2 y] iter_sectors_hold [of P v c, OF assms(1)] s n by (auto split: if_splits)
  qed
  with assms(3) show ?thesis by simp
qed

lemma fat_iterate_hold:
  assumes "\<And>name e idx lba off c. P c \<Longrightarrow> P (snd (v name e idx lba off c))" "P c" "fat_iterate_dir dir v f c d = Some q"
  shows "P (fst q)"
proof (cases "first_cluster (meta_of dir f) = 0")
  case True
  obtain r idx1 c1 d1 where s: "iter_sectors v (root_lbas f) 0 c d = (r, idx1, c1, d1)" by (metis surj_pair)
  then show ?thesis using True assms(3) iter_sectors_hold [of P v, OF assms(1,2) s] by (auto simp: fat_iterate_dir_def)
next
  case False
  then show ?thesis using assms(3) iter_chain_hold [of P v, OF assms(1) _ assms(2)] by (simp add: fat_iterate_dir_def)
qed

lemma fat_lookup_tree:
  assumes "fat_dir_lookup dir name (d, f) = Some (r, d', f')" "fat_tree f" "\<not> is_pipe dir"
  shows "fat_tree f'" "no_pipe r"
proof -
  let ?P = "\<lambda>c. fat_tree (ctx_fat c) \<and> \<not> is_pipe (ctx_parent c) \<and> no_pipe (found c)"
  have "?P (snd (fat_lookup_visitor display raw idx lba off c))" if "?P c" for display raw idx lba off c
    using that by (auto simp: fat_lookup_visitor_def fat_alloc_node_def fat_tree_def Let_def split: option.split)
  note keep = this
  obtain c where c: "fat_iterate_dir dir fat_lookup_visitor f \<lparr>want_name = name, found = None, ctx_parent = dir, ctx_fat = f\<rparr> d = Some (c, d')"
    "r = found c" "f' = ctx_fat c" using assms(1) by (auto simp: fat_dir_lookup_def split: bind_split_asm)
  have "?P (fst (c, d'))" by (rule fat_iterate_hold [of ?P, OF keep _ c(1)]) (use assms in simp_all)
  then show "fat_tree f'" "no_pipe r" using c by simp_all
qed

lemma fat_others_tree:
  "fat_file_read p n off (d, f) = Some (x, d', f') \<Longrightarrow> f' = f"
  "fat_dir_readdir p idx sz (d, f) = Some (y, d', f') \<Longrightarrow> f' = f"
  "fat_file_write p src off (d, f) = Some (z, d', f') \<Longrightarrow> fnode_pool f' = fnode_pool f"
proof -
  have m: "fnode_pool (set_meta q mt g) = fnode_pool g" for q mt g by (cases q) (simp_all add: set_meta_def)
  show "fat_file_read p n off (d, f) = Some (x, d', f') \<Longrightarrow> f' = f"
    by (auto simp: fat_file_read_def Let_def split: if_splits prod.splits option.splits bind_split_asm)
  show "fat_dir_readdir p idx sz (d, f) = Some (y, d', f') \<Longrightarrow> f' = f"
    by (auto simp: fat_dir_readdir_def split: bind_split_asm)
  show "fat_file_write p src off (d, f) = Some (z, d', f') \<Longrightarrow> fnode_pool f' = fnode_pool f"
    by (auto simp: fat_file_write_def Let_def m split: if_splits prod.splits bind_split_asm)
qed

lemma fat_changes_tree:
  assumes "fat_tree f" "\<not> is_pipe p"
  shows "fat_dir_create p name (d, f) = Some (r, d', f') \<Longrightarrow> fat_tree f'"
    "fat_dir_mkdir p name (d, f) = Some (r, d', f') \<Longrightarrow> fat_tree f'" "fat_dir_unlink p name (d, f) = Some (r, d', f') \<Longrightarrow> fat_tree f'"
proof -
  have tree: "fat_tree g" if "fat_dir_lookup p name (d, f) = Some (h, e, g)" for h e g by (rule fat_lookup_tree(1) [OF that assms])
  show "fat_dir_create p name (d, f) = Some (r, d', f') \<Longrightarrow> fat_tree f'"
    by (auto simp: fat_dir_create_def split: if_splits prod.splits sum.splits bind_split_asm dest: tree)
  show "fat_dir_mkdir p name (d, f) = Some (r, d', f') \<Longrightarrow> fat_tree f'"
    by (auto simp: fat_dir_mkdir_def split: if_splits prod.splits sum.splits bind_split_asm dest: tree)
  show "fat_dir_unlink p name (d, f) = Some (r, d', f') \<Longrightarrow> fat_tree f'"
    by (auto simp: fat_dir_unlink_def Let_def split: if_splits prod.splits option.splits bind_split_asm dest: tree)
qed

section \<open>Operations on vnodes\<close>

lemma calmI:
  assumes "k_procs t = k_procs s" "k_sched t = k_sched s" "k_pipes t = k_pipes s" "parts_ok s \<Longrightarrow> parts_ok t"
  shows "calm s t"
  using assms by (simp add: calm_def same_refs_def)

lemma calm_tmp: "(tmp_tree (k_tmp s) \<Longrightarrow> tmp_tree t) \<Longrightarrow> calm s (s\<lparr>k_mm := m, k_tmp := t\<rparr>)"
  by (rule calmI) (simp_all add: parts_ok_def)

lemma calm_tmp': "(tmp_tree (k_tmp s) \<Longrightarrow> tmp_tree t) \<Longrightarrow> calm s (s\<lparr>k_tmp := t\<rparr>)"
  by (rule calmI) (simp_all add: parts_ok_def)

lemma calm_fat: "(fat_tree (k_fat s) \<Longrightarrow> fat_tree f) \<Longrightarrow> calm s (s\<lparr>k_disk := d, k_fat := f\<rparr>)"
  by (rule calmI) (simp_all add: parts_ok_def)

lemma calm_kbd: "(kbd_inv (k_kbd s) \<Longrightarrow> kbd_inv k) \<Longrightarrow> calm s (s\<lparr>k_kbd := k\<rparr>)"
  by (rule calmI) (simp_all add: parts_ok_def)

lemma calm_with_fat:
  assumes "with_fat op s = Some (r, t)" "\<And>d f r d' f'. op (d, f) = Some (r, d', f') \<Longrightarrow> fat_tree f \<Longrightarrow> fat_tree f'"
  shows "calm s t"
  using assms calm_fat [of s] by (auto simp: with_fat_def)

lemma calm_set_vnode: "(\<And>v. v_parent (g v) = v_parent v) \<Longrightarrow> calm s (set_vnode p g s)"
  by (rule calmI) (cases p; auto simp: set_vnode_def parts_ok_def tmp_tree_def fat_tree_def dev_tree_def)+

lemma pipe_io_inv:
  assumes "pipe_inv p"
  shows "pipe_inv (snd (drain pipe_get n p))" "pipe_inv (fst (snd (write_loop k src n p)))"
proof -
  show "pipe_inv (snd (drain pipe_get n p))" using pipeq.drain_content [OF assms, of n] by (metis prod.collapse)
  show "pipe_inv (fst (snd (write_loop k src n p)))" using assms
  proof (induction k src n p rule: write_loop.induct)
    case (1 k src n p)
    show ?case
    proof (cases "n < length src \<and> read_refcount p \<noteq> 0 \<and> p_count p \<noteq> PIPE_BUF_SIZE")
      case True
      then have "pipe_inv (pipe_put (src ! n) p)" using pipeq.push_inv [of p] "1.prems" by (simp add: pipe_inv_def)
      with True "1.IH" show ?thesis by (subst write_loop.simps) simp
    next
      case False
      then show ?thesis using "1.prems" by (subst write_loop.simps) auto
    qed
  qed
qed

lemma calm_pipe:
  "calm s (snd (with_pipe (pipe_read k n) s))" "calm s (snd (with_pipe (pipe_write k src n) s))"
proof -
  have r: "woken (k_sched s) (k_sched (snd (with_pipe (pipe_read k n) s)))" "woken (k_sched s) (k_sched (snd (with_pipe (pipe_write k src n) s)))"
    by (auto simp: with_pipe_def pipe_read_def pipe_write_def Let_def split: prod.split)
  have "parts_ok s \<longrightarrow> parts_ok (snd (with_pipe (pipe_read k n) s))" "parts_ok s \<longrightarrow> parts_ok (snd (with_pipe (pipe_write k src n) s))"
    using pipe_io_inv [of "k_pipes s k"]
    by (auto simp: parts_ok_def with_pipe_def pipe_read_def pipe_write_def Let_def split: prod.split; metis fst_conv snd_conv)+
  with r show "calm s (snd (with_pipe (pipe_read k n) s))" "calm s (snd (with_pipe (pipe_write k src n) s))"
    using pipe_io_refs by (simp_all add: calm_def)
qed

lemma calm_read_write:
  "vnode_read v n off s = Some (r, t) \<Longrightarrow> calm s t" "vnode_write v src off n s = Some (q, t) \<Longrightarrow> calm s t"
proof -
  note fat = fat_others_tree
  assume "vnode_read v n off s = Some (r, t)"
  moreover have "calm s (snd (console_read n s))"
    using keyboard_ops [of "k_kbd s"] calm_kbd [of s] by (auto simp: console_read_def split: prod.split io.split) (metis snd_conv)+
  ultimately show "calm s t"
    using calm_pipe(1) [of s _ n] calm_with_fat [of "fat_file_read v n off" s] fat(1)
    by (auto simp: vnode_read_def map_prod_def split: option.splits vnode_ops.splits vptr.splits prod.splits) (metis snd_conv)+
next
  assume "vnode_write v src off n s = Some (q, t)"
  moreover have "calm s u" if "with_fat (fat_file_write v src off) s = Some (x, u)" for x u
    using calm_with_fat [OF that] fat_others_tree(3) by (auto simp: fat_tree_def)
  ultimately show "calm s t"
    using calm_pipe(2) [of s _ src n] calm_tmp [of s] tmp_tree_ops(6) [of "k_tmp s"]
    by (auto simp: vnode_write_def console_write_def map_prod_def split: option.splits vnode_ops.splits vptr.splits prod.splits) (metis snd_conv)+
qed

lemma calm_lookup:
  assumes "vnode_lookup v name s = Some (r, t)" "\<not> is_pipe v"
  shows "calm s t" "parts_ok s \<Longrightarrow> no_pipe r"
proof -
  have d: "no_pipe (devfs_lookup name)" by (auto simp: devfs_lookup_def devices_def)
  have f: "calm s t \<and> (parts_ok s \<longrightarrow> no_pipe r)" if "with_fat (fat_dir_lookup v name) s = Some (r, t)"
    using that fat_lookup_tree [of v name "k_disk s" "k_fat s" r] assms(2) calm_fat [of s]
    by (auto simp: with_fat_def parts_ok_def)
  show "calm s t" "parts_ok s \<Longrightarrow> no_pipe r"
    using assms(1) d f by (auto simp: vnode_lookup_def split: option.splits vnode_ops.splits vptr.splits)
qed

lemma calm_dir_ops:
  assumes "\<not> is_pipe v"
  shows "vnode_readdir v idx sz s = Some (a, t) \<Longrightarrow> calm s t" "vnode_mkdir v name s = Some (b, t) \<Longrightarrow> calm s t"
    "vnode_create v name s = Some (b, t) \<Longrightarrow> calm s t" "vnode_unlink v name s = Some (b, t) \<Longrightarrow> calm s t"
proof -
  have f: "calm s u" if "with_fat (fat_dir_readdir v idx sz) s = Some (x, u)" for x u
    using calm_with_fat [OF that] fat_others_tree(2) by blast
  have g: "calm s u" if "with_fat op s = Some (x, u)" "op \<in> {fat_dir_mkdir v name, fat_dir_create v name, fat_dir_unlink v name}" for x u op
    using calm_with_fat [OF that(1)] that(2) fat_changes_tree [OF _ assms] by blast
  have t: "calm s (snd (with_tmp op s))" if "op \<in> {tmpfs_dir_create i name, tmpfs_dir_unlink i name}" for op i
    using that tmp_tree_ops(3,5) [of "k_tmp s" i name "k_mm s"] by (auto simp: with_tmp_def split: prod.split intro!: calm_tmp)
  have m: "calm s (s\<lparr>k_tmp := snd (tmpfs_dir_mkdir i name (k_tmp s))\<rparr>)" for i by (rule calm_tmp' [OF tmp_tree_ops(4)])
  show "vnode_readdir v idx sz s = Some (a, t) \<Longrightarrow> calm s t"
    using f by (auto simp: vnode_readdir_def split: option.splits vnode_ops.splits vptr.splits)
  show "vnode_mkdir v name s = Some (b, t) \<Longrightarrow> calm s t"
    using g [of "fat_dir_mkdir v name"] m by (auto simp: vnode_mkdir_def Let_def split: option.splits vnode_ops.splits vptr.splits prod.splits) (metis snd_conv)+
  show "vnode_create v name s = Some (b, t) \<Longrightarrow> calm s t"
    using g [of "fat_dir_create v name"] t by (auto simp: vnode_create_def split: option.splits vnode_ops.splits vptr.splits) (metis snd_conv)+
  show "vnode_unlink v name s = Some (b, t) \<Longrightarrow> calm s t"
    using g [of "fat_dir_unlink v name"] t by (auto simp: vnode_unlink_def split: option.splits vnode_ops.splits vptr.splits) (metis snd_conv)+
qed

section \<open>Paths\<close>

lemma calm_parts: "calm s t \<Longrightarrow> parts_ok s \<Longrightarrow> parts_ok t"
  by (simp add: calm_def)

lemma calm_walk:
  assumes "walk cs cur s = Some (r, t)" "parts_ok s" "no_pipe cur"
  shows "calm s t \<and> no_pipe r"
  using assms
proof (induction cs cur s rule: walk.induct)
  case (2 cm cs cur s)
  show ?case
  proof (cases "cm = [] \<or> cm = ''.''")
    case False
    then obtain c where c: "cur = Some c" "\<not> is_pipe c" using "2.prems" by (cases cur) auto
    show ?thesis
    proof (cases "cm = ''..'' \<or> \<not> has_op has_lookup c s")
      case True
      then show ?thesis using "2.IH" "2.prems" False c parent_no_pipe [of s c] by (auto split: if_splits)
    next
      case no: False
      obtain q s1 where l: "vnode_lookup c cm s = Some (q, s1)" using "2.prems"(1) False c no by (auto split: option.splits)
      note e = calm_lookup [OF l c(2)]
      have p: "no_pipe q" "parts_ok s1" using e "2.prems"(2) calm_parts by blast+
      show ?thesis
      proof (cases q)
        case None
        then show ?thesis using "2.prems" False c no l e(1) by simp
      next
        case (Some c1)
        have "walk cs (Some c1) s1 = Some (r, t)" using "2.prems" False c no l Some by simp
        then have "calm s1 t \<and> no_pipe r" using "2.IH"(3) [OF False c(1)] no l p Some by auto
        then show ?thesis using calm_trans [OF e(1)] by blast
      qed
    qed
  qed (use 2 in auto)
qed auto

lemma calm_resolve:
  assumes "vfs_resolve_path pth s = Some (r, t)" "parts_ok s"
  shows "calm s t" "no_pipe r" "parts_ok t"
proof -
  have "calm s t \<and> no_pipe r"
    using assms calm_walk [of _ "Some (k_root s)" s r t] by (auto simp: vfs_resolve_path_def parts_ok_def split: list.splits if_splits)
  then show "calm s t" "no_pipe r" "parts_ok t" using assms(2) calm_parts by auto
qed

lemmas calm_resolve_cwd = calm_resolve [of "vfs_combine_path dir pth VFS_MAX_PATH" for dir pth, folded vfs_resolve_path_cwd_def]

lemma calm_readdir_path:
  assumes "vfs_readdir_path dir pth idx sz s = Some (r, t)" "parts_ok s"
  shows "calm s t"
  using assms calm_resolve_cwd [of dir pth s] calm_dir_ops(1) calm_trans
  by (auto simp: vfs_readdir_path_def split: bind_split_asm option.splits if_splits; metis no_pipe_simps(2))

lemma calm_load:
  assumes "read_all node fr cap got s = Some q"
  shows "calm s (snd q)"
proof (rule read_all.raw_induct [where P = "\<lambda>node fr cap got s y. calm s (snd y)", OF _ assms])
  fix ra node fr cap got s y
  assume ih: "\<And>node fr cap got s y. ra node fr cap got s = Some y \<Longrightarrow> calm s (snd y)"
    and y: "(let cap_bytes = cap * PAGE_SIZE in
      case vnode_read node (cap_bytes - got) got s of None \<Rightarrow> None
      | Some (Block ch n, s1) \<Rightarrow> Some (LoadWait ch fr cap got, s1)
      | Some (Done bs, s1) \<Rightarrow>
          if bs = [] then Some (Loaded (vmm_hhdm_offset (k_mm s1) + fr) got cap, s1)
          else
            let m1 = k_mm s1; m2 = m1\<lparr>phys := mem_write (phys m1) (fr + got) bs\<rparr>;
                got1 = got + length bs
            in if got1 = cap_bytes then
                 let (fr2, p) = pmm_alloc_pages (cap * 2) (frames m2) in
                 if fr2 = 0 then
                   Some (LoadFailed, s1\<lparr>k_mm := m2\<lparr>frames := pmm_free_pages fr cap p\<rparr>\<rparr>)
                 else ra node fr2 (cap * 2) got1
                   (s1\<lparr>k_mm := m2\<lparr>phys := k_memcpy fr2 fr got1 (phys m2), frames := pmm_free_pages fr cap p\<rparr>\<rparr>)
               else ra node fr cap got1 (s1\<lparr>k_mm := m2\<rparr>)) = Some y"
  obtain r s1 where v: "vnode_read node (cap * PAGE_SIZE - got) got s = Some (r, s1)" using y by (auto simp: Let_def split: option.splits)
  have c: "calm s s1" by (rule calm_read_write(1) [OF v])
  show "calm s (snd y)"
  proof (cases r)
    case (Done bs)
    have "calm s1 (snd y)" using y v Done by (auto simp: Let_def split: if_splits prod.splits dest!: ih)
    then show ?thesis using c calm_trans by blast
  qed (use y v c in \<open>auto simp: Let_def\<close>)
qed

lemma calm_load_file:
  assumes "vfs_read_file_alloc node s = Some q"
  shows "calm s (snd q)"
proof -
  obtain fr p where a: "pmm_alloc_pages 4 (frames (k_mm s)) = (fr, p)" by fastforce
  show ?thesis using assms a calm_load [of node fr 4 0 "s\<lparr>k_mm := (k_mm s)\<lparr>frames := p\<rparr>\<rparr>" q]
    by (auto simp: vfs_read_file_alloc_def Let_def split: if_splits)
qed

lemma calm_load_free [simp]: "calm s (vfs_read_file_free buf n s)"
  by (simp add: vfs_read_file_free_def)

section \<open>Processes and paths\<close>

lemma calm_parent_dir:
  assumes "resolve_parent_dir i pth s = Some (r, t)" "parts_ok s"
  shows "calm s t" "parts_ok t" "r = Inr (d, name) \<Longrightarrow> \<not> is_pipe d"
  using assms calm_resolve [of _ s]
  by (auto simp: resolve_parent_dir_def Let_def split: prod.splits if_splits bind_split_asm option.splits) force+

lemma calm_in_parent:
  assumes "in_parent f i pth s = Some (r, t)" "parts_ok s"
    and op: "\<And>d name s r t. f d name s = Some (r, t) \<Longrightarrow> \<not> is_pipe d \<Longrightarrow> parts_ok s \<Longrightarrow> calm s t"
  shows "calm s t"
proof -
  obtain q s1 where q: "resolve_parent_dir i pth s = Some (q, s1)" using assms(1) by (auto simp: in_parent_def split: bind_split_asm)
  note e = calm_parent_dir [OF q assms(2)]
  show ?thesis
  proof (cases q)
    case (Inr x)
    obtain d name where x: "x = (d, name)" by fastforce
    have "calm s1 t" using assms(1) q Inr x op [OF _ e(3)] e(2) by (auto simp: in_parent_def split: if_splits)
    then show ?thesis using calm_trans [OF e(1)] by blast
  qed (use assms(1) q e in \<open>auto simp: in_parent_def\<close>)
qed

lemma calm_own_new:
  assumes "own_new i d name (rc, s) = Some (r, t)" "\<not> is_pipe d"
  shows "calm s t"
proof (cases "rc = 0 \<and> has_op has_lookup d s")
  case True
  obtain q s1 where l: "vnode_lookup d name s = Some (q, s1)" using assms(1) True by (auto simp: own_new_def split: bind_split_asm)
  have "calm s1 t" using assms(1) True l by (auto simp: own_new_def intro!: calm_set_vnode split: option.splits)
  then show ?thesis using calm_trans [OF calm_lookup(1) [OF l assms(2)]] by blast
qed (use assms in \<open>auto simp: own_new_def\<close>)

lemma calm_mkdir_create_unlink:
  assumes "parts_ok s"
  shows "process_mkdir i pth s = Some (r, t) \<Longrightarrow> calm s t" "process_create i pth s = Some (r, t) \<Longrightarrow> calm s t"
    "process_unlink i pth s = Some (r, t) \<Longrightarrow> calm s t"
proof -
  note tr = calm_trans [OF calm_dir_ops(2)] calm_trans [OF calm_dir_ops(3)]
  show "process_mkdir i pth s = Some (r, t) \<Longrightarrow> calm s t"
    unfolding process_mkdir_def by (erule calm_in_parent [OF _ assms]) (auto split: bind_split_asm intro: tr calm_own_new)
  show "process_create i pth s = Some (r, t) \<Longrightarrow> calm s t"
    unfolding process_create_def by (erule calm_in_parent [OF _ assms]) (auto split: bind_split_asm intro: tr calm_own_new)
  show "process_unlink i pth s = Some (r, t) \<Longrightarrow> calm s t"
    unfolding process_unlink_def by (erule calm_in_parent [OF _ assms]) (rule calm_dir_ops(4))
qed

lemma calm_attributes:
  assumes "parts_ok s"
  shows "process_stat i pth s = Some (a, t) \<Longrightarrow> calm s t" "process_chmod i pth perm s = Some (b, t) \<Longrightarrow> calm s t"
    "process_chown i pth uid gid s = Some (b, t) \<Longrightarrow> calm s t"
proof -
  note e = calm_resolve_cwd(1) [OF _ assms]
  have v: "calm s (set_vnode n g u)" if "calm s u" "\<And>v. v_parent (g v) = v_parent v" for n g u
    using calm_trans [OF that(1) calm_set_vnode] that(2) by blast
  show "process_stat i pth s = Some (a, t) \<Longrightarrow> calm s t" using e by (auto simp: process_stat_def split: bind_split_asm)
  show "process_chmod i pth perm s = Some (b, t) \<Longrightarrow> calm s t"
    using e by (auto simp: process_chmod_def split: bind_split_asm option.splits if_splits intro!: v)
  show "process_chown i pth uid gid s = Some (b, t) \<Longrightarrow> calm s t"
    using e by (auto simp: process_chown_def split: bind_split_asm option.splits if_splits intro!: v)
qed

end
