(* ===== verification/System.thy ===== *)
theory System
  imports Calm
begin

text \<open>
  The running kernel as one state machine. A step is a system call of the running task, a fault, an interrupt, or the
  rest of a load that had to wait; each step runs the whole handler and, where the handler gives up the processor, the
  scheduler. A task that slept goes on with the call it had made, which is one of the calls the running task may make.
  The invariant ties the tasks of the scheduler to the process table.
\<close>

section \<open>Steps\<close>

text \<open>\<open>False\<close>: nothing is runnable and the processor halts for ever.\<close>

definition k_yield :: "kst \<Rightarrow> (bool \<times> kst) option" where
  "k_yield s = map_option (\<lambda>r. case r of
        Keep sc \<Rightarrow> (True, s\<lparr>k_sched := sc\<rparr>)
      | Switch prev root sc \<Rightarrow> (True, s\<lparr>k_sched := sc, k_mm := vmm_activate root (k_mm s)\<rparr>)
      | Halt sc \<Rightarrow> (False, s\<lparr>k_sched := sc\<rparr>))
     (yield (\<lambda>i. fs_base (proc s i)) (\<lambda>i. pml4_phys (proc s i)) (vmm_kernel_pml4 (k_mm s)) (k_sched s))"

definition k_sleep :: "chan \<Rightarrow> kst \<Rightarrow> kst" where
  "k_sleep ch s = s\<lparr>k_sched := block_current ch (k_sched s)\<rparr>"

text \<open>The running task has a kernel stack, and a process if it is in user mode. A task that was left without a stack by a
  failed \<^verbatim>\<open>fork\<close> cannot run.\<close>

definition user_runs :: "kst \<Rightarrow> bool" where
  "user_runs s \<longleftrightarrow> process_current s \<noteq> None \<and> stack_pages (tasks (k_sched s) (current_task (k_sched s))) \<noteq> 0"

definition kernel_runs :: "kst \<Rightarrow> bool" where
  "kernel_runs s \<longleftrightarrow> process_current s = None \<or> user_runs s"

text \<open>The state is the count of timer ticks and the kernel; \<open>rp\<close> is the address of \<^verbatim>\<open>syscall_return_point\<close>.\<close>

inductive kstep :: "nat \<Rightarrow> nat \<times> kst \<Rightarrow> nat \<times> kst \<Rightarrow> bool" for rp where
  sys_ret: "user_runs s \<Longrightarrow> syscall_handler um rp seed n f s = Some (SysRet f' ws t) \<Longrightarrow> kstep rp (c, s) (c, t)"
| sys_sleep: "user_runs s \<Longrightarrow> syscall_handler um rp seed n f s = Some (SysSleep ch k t) \<Longrightarrow> k_yield (k_sleep ch t) = Some (True, u) \<Longrightarrow>
    kstep rp (c, s) (c, u)"
| sys_yield: "user_runs s \<Longrightarrow> syscall_handler um rp seed n f s = Some (SysYield f' t) \<Longrightarrow> k_yield t = Some (True, u) \<Longrightarrow> kstep rp (c, s) (c, u)"
| sys_never: "user_runs s \<Longrightarrow> syscall_handler um rp seed n f s = Some (SysNever t) \<Longrightarrow> k_yield t = Some (True, u) \<Longrightarrow> kstep rp (c, s) (c, u)"
| sys_load: "user_runs s \<Longrightarrow> syscall_handler um rp seed n f s = Some (SysLoad (ExecWait ch fr cap got) t) \<Longrightarrow>
    k_yield (k_sleep ch t) = Some (True, u) \<Longrightarrow> kstep rp (c, s) (c, u)"
| load_ret: "user_runs s \<Longrightarrow> process_current s = Some i \<Longrightarrow> read_all node fr cap got s = Some q \<Longrightarrow>
    exec_file i argv envp seed f q = (ExecRet r f', t) \<Longrightarrow> kstep rp (c, s) (c, t)"
| load_wait: "user_runs s \<Longrightarrow> process_current s = Some i \<Longrightarrow> read_all node fr cap got s = Some q \<Longrightarrow>
    exec_file i argv envp seed f q = (ExecWait ch fr' cap' got', t) \<Longrightarrow> k_yield (k_sleep ch t) = Some (True, u) \<Longrightarrow> kstep rp (c, s) (c, u)"
| fault_retry: "user_runs s \<Longrightarrow> exception_handler v f s = FaultRetry t \<Longrightarrow> kstep rp (c, s) (c, t)"
| fault_kill: "user_runs s \<Longrightarrow> exception_handler v f s = FaultKill t \<Longrightarrow> k_yield t = Some (True, u) \<Longrightarrow> kstep rp (c, s) (c, u)"
| irq_ret: "kernel_runs s \<Longrightarrow> irq_handler v (c, s) = Some (IrqReturn c' t) \<Longrightarrow> kstep rp (c, s) (c', t)"
| irq_yield: "kernel_runs s \<Longrightarrow> irq_handler v (c, s) = Some (IrqYield c' t) \<Longrightarrow> k_yield t = Some (True, u) \<Longrightarrow> kstep rp (c, s) (c', u)"
| irq_never: "kernel_runs s \<Longrightarrow> irq_handler v (c, s) = Some (IrqNever c' t) \<Longrightarrow> k_yield t = Some (True, u) \<Longrightarrow> kstep rp (c, s) (c', u)"

section \<open>The invariant\<close>

text \<open>Task \<open>t\<close> runs process \<open>i\<close> and has not ended.\<close>

definition task_of :: "kst \<Rightarrow> nat \<Rightarrow> nat \<Rightarrow> bool" where
  "task_of s t i \<longleftrightarrow> t < task_count (k_sched s) \<and> t_proc (tasks (k_sched s) t) = Some i \<and> t_state (tasks (k_sched s) t) \<noteq> TASK_TERMINATED"

definition links_ok :: "kst \<Rightarrow> bool" where
  "links_ok s \<longleftrightarrow> (\<forall>t i. task_of s t i \<longleftrightarrow> alive s i \<and> p_task (proc s i) = Some t) \<and>
     (\<forall>t i. task_of s t i \<longrightarrow> (t_state (tasks (k_sched s) t) = TASK_STOPPED \<longleftrightarrow> is_stopped (proc s i)))"

text \<open>The first task idles: it is never put to sleep and never ends.\<close>

definition main_ok :: "sched \<Rightarrow> bool" where
  "main_ok sc \<longleftrightarrow> 0 < task_count sc \<and> t_proc (tasks sc 0) = None \<and> t_state (tasks sc 0) \<in> {TASK_READY, TASK_RUNNING}"

definition kinv :: "kst \<Rightarrow> bool" where
  "kinv s \<longleftrightarrow> sched_inv (k_sched s) \<and> main_ok (k_sched s) \<and> pids_ok s \<and> fd_inv s \<and> links_ok s \<and> parts_ok s"

definition runs_now :: "kst \<Rightarrow> bool" where
  "runs_now s \<longleftrightarrow> t_state (tasks (k_sched s) (current_task (k_sched s))) = TASK_RUNNING"

text \<open>A change that leaves identities, links and the scheduler alone but for tasks that are woken.\<close>

definition mild :: "kst \<Rightarrow> kst \<Rightarrow> bool" where
  "mild s t \<longleftrightarrow> next_pid (k_procs t) = next_pid (k_procs s) \<and> process_count (k_procs t) = process_count (k_procs s) \<and>
     (\<forall>j. pid (proc t j) = pid (proc s j) \<and> is_zombie (proc t j) = is_zombie (proc s j) \<and>
        is_stopped (proc t j) = is_stopped (proc s j) \<and> p_task (proc t j) = p_task (proc s j)) \<and>
     woken (k_sched s) (k_sched t) \<and> (parts_ok s \<longrightarrow> parts_ok t)"

lemma mild_refl [simp]: "mild s s"
  by (simp add: mild_def)

lemma mild_trans: "mild s t \<Longrightarrow> mild t u \<Longrightarrow> mild s u"
  by (auto simp: mild_def intro: woken_trans)

lemma calm_mild: "calm s t \<Longrightarrow> mild s t"
  by (simp add: mild_def calm_def same_refs_def)

lemma mild_alive: "mild s t \<Longrightarrow> alive t i \<longleftrightarrow> alive s i"
  by (simp add: mild_def alive_def)

lemma mild_task_of: "mild s t \<Longrightarrow> task_of t k i \<longleftrightarrow> task_of s k i"
  using woken_state [of "k_sched s" "k_sched t"] by (simp add: mild_def task_of_def)

lemma mild_links:
  assumes "links_ok s" "mild s t"
  shows "links_ok t"
proof -
  have st: "t_state (tasks (k_sched t) k) = TASK_STOPPED \<longleftrightarrow> t_state (tasks (k_sched s) k) = TASK_STOPPED" for k
    using woken_state(2) [of "k_sched s" "k_sched t" TASK_STOPPED] assms(2) by (simp add: mild_def)
  show ?thesis using assms(1) mild_task_of [OF assms(2)] mild_alive [OF assms(2)] assms(2) st
    by (simp add: links_ok_def) (simp add: mild_def)
qed

lemma woken_main: "main_ok a \<Longrightarrow> woken a b \<Longrightarrow> main_ok b"
  using woken_state(1,3) [of a b 0] woken_state(4) [of a b] by (auto simp: main_ok_def)

lemma kinv_mild:
  assumes "kinv s" "mild s t" "fd_inv t"
  shows "kinv t"
  using assms mild_links [OF _ assms(2)] woken_sched [of "k_sched s" "k_sched t"] woken_main [of "k_sched s" "k_sched t"] pids_same [of s t]
  by (auto simp: kinv_def mild_def)

lemma calm_kinv: "kinv s \<Longrightarrow> calm s t \<Longrightarrow> kinv t"
  by (rule kinv_mild [OF _ calm_mild]) (auto simp: kinv_def calm_def intro: same_refs_inv)

lemma mild_runs: "mild s t \<Longrightarrow> runs_now s \<Longrightarrow> runs_now t"
  using woken_state [of "k_sched s" "k_sched t"] by (simp add: mild_def runs_now_def)

lemma mild_current: "mild s t \<Longrightarrow> process_current t = process_current s"
  by (simp add: mild_def woken_def process_current_def)

declare serial_print.simps [simp del]

section \<open>Descriptors\<close>

lemma mild_upd:
  assumes "\<And>p. pid (f p) = pid p" "\<And>p. is_zombie (f p) = is_zombie p" "\<And>p. is_stopped (f p) = is_stopped p" "\<And>p. p_task (f p) = p_task p"
  shows "mild s (upd_proc i f s)"
  using assms by (simp add: mild_def parts_ok_def) (simp add: upd_proc_def)

lemma kinv_upd:
  assumes "kinv s" "\<And>p. pid (f p) = pid p" "\<And>p. is_zombie (f p) = is_zombie p" "\<And>p. is_stopped (f p) = is_stopped p"
    "\<And>p. p_task (f p) = p_task p" "\<And>p. fds (f p) = fds p"
  shows "kinv (upd_proc i f s)"
  by (rule kinv_mild [OF assms(1) mild_upd upd_proc_inv]) (use assms in \<open>simp_all add: kinv_def\<close>)

lemma mild_set_fd: "mild s (set_fd i fd f s)"
  unfolding set_fd_def by (rule mild_upd) simp_all

lemma pipe_refs_inv [simp]:
  "pipe_inv (p\<lparr>read_refcount := a\<rparr>) \<longleftrightarrow> pipe_inv p" "pipe_inv (p\<lparr>write_refcount := a\<rparr>) \<longleftrightarrow> pipe_inv p"
  "pipe_inv (p\<lparr>p_in_use := b\<rparr>) \<longleftrightarrow> pipe_inv p" "pipe_inv new_pipe"
  by (simp_all add: pipe_inv_def new_pipe_def PIPE_BUF_SIZE_def)

lemma mild_vnode: "mild s (vnode_dup v s)" "mild s (vnode_close v s)"
  by (cases v; auto simp: mild_def parts_ok_def vnode_dup_def vnode_close_def with_pipe_def pipe_read_dup_def pipe_write_dup_def
      pipe_read_close_def pipe_write_close_def Let_def)+

lemma mild_dup_entry: "mild s (dup_entry e s)"
  by (auto simp: dup_entry_def mild_vnode split: option.split)

lemma mild_close_node: "mild s (close_node v s)"
  by (auto simp: close_node_def mild_vnode split: option.split)

lemma mild_close: "mild s (snd (process_close i fd s))"
  using mild_trans [OF mild_close_node mild_set_fd] by (simp add: process_close_def)

lemma mild_close_all: "mild s (close_all i s)"
proof -
  have "mild s (fold (\<lambda>fd s. snd (process_close i (int fd) s)) xs s)" for xs
    by (induction xs rule: rev_induct) (auto intro: mild_trans mild_close)
  then show ?thesis by (simp add: close_all_def)
qed

lemma mild_dup2: "mild s (snd (process_dup2 i a b s))"
proof -
  have "mild s (dup_entry e (set_fd i fd f s))" "mild s (dup_entry e (set_fd i fd f (snd (process_close i b s))))" for e fd f
    by (rule mild_trans [OF mild_set_fd mild_dup_entry], rule mild_trans [OF mild_close mild_trans [OF mild_set_fd mild_dup_entry]])
  then show ?thesis by (simp add: process_dup2_def Let_def)
qed

lemma mild_pipe: "mild s (snd (process_pipe i s))"
proof (cases "pipe_create (k_pipes s)")
  case (Pair r ps)
  have "mild s (s\<lparr>k_pipes := ps\<rparr>)" using Pair by (auto simp: mild_def parts_ok_def pipe_create_def split: option.splits)
  note step = mild_trans [OF this]
  have "mild s (put_end i w v (put_end i q u (s\<lparr>k_pipes := ps\<rparr>)))" "mild s (vnode_close v (vnode_close u (s\<lparr>k_pipes := ps\<rparr>)))" for w v q u
    unfolding put_end_def by (rule step, rule mild_trans [OF mild_set_fd mild_set_fd], rule step, rule mild_trans [OF mild_vnode(2) mild_vnode(2)])
  then show ?thesis using Pair step [OF mild_refl] by (auto simp: process_pipe_def Let_def split: sum.split option.split)
qed

lemma mild_read_write:
  "process_read i fd n s = Some (r, t) \<Longrightarrow> mild s t" "process_write i fd src n s = Some (q, t) \<Longrightarrow> mild s t"
proof -
  note rd = calm_mild [OF calm_read_write(1)] and wr = calm_mild [OF calm_read_write(2)]
  show "process_read i fd n s = Some (r, t) \<Longrightarrow> mild s t"
    by (auto simp: process_read_def split: if_splits option.splits io.splits prod.splits dest: rd intro: mild_trans [OF _ mild_set_fd])
  show "process_write i fd src n s = Some (q, t) \<Longrightarrow> mild s t"
    by (auto simp: process_write_def split: if_splits option.splits io.splits prod.splits dest: wr intro: mild_trans [OF _ mild_set_fd])
qed

lemma kinv_fds:
  assumes "kinv s" "alive s i"
  shows "kinv (snd (process_close i fd s))" "kinv (snd (process_dup2 i fd fd2 s))" "kinv (snd (process_pipe i s))"
    "process_read i fd n s = Some (r, t) \<Longrightarrow> kinv t" "process_write i fd src n s = Some (q, t) \<Longrightarrow> kinv t"
proof -
  have i: "i < MAX_PROCESSES" and f: "fd_inv s" using assms by (simp_all add: alive_def kinv_def)
  note k = kinv_mild [OF assms(1)]
  show "kinv (snd (process_close i fd s))" "kinv (snd (process_dup2 i fd fd2 s))" "kinv (snd (process_pipe i s))"
    by (rule k [OF mild_close close_inv [OF f i]], rule k [OF mild_dup2 dup2_inv [OF f assms(2)]], rule k [OF mild_pipe pipe_op_inv [OF f assms(2)]])
  show "process_read i fd n s = Some (r, t) \<Longrightarrow> kinv t" "process_write i fd src n s = Some (q, t) \<Longrightarrow> kinv t"
    using k [OF mild_read_write(1)] k [OF mild_read_write(2)] read_write_inv [OF f i] by blast+
qed

lemma kinv_open_node:
  assumes "kinv s" "alive s i" "\<not> is_pipe node"
  shows "kinv (snd (open_node i node flags acc s)) \<and> mild s (snd (open_node i node flags acc s))"
proof -
  have m: "mild s (snd (open_node i node flags acc s))" by (auto simp: open_node_def mild_set_fd Let_def split: option.split)
  moreover have "fd_inv (snd (open_node i node flags acc s))" using open_inv [OF _ assms(2,3)] assms(1) by (simp add: kinv_def)
  ultimately show ?thesis using kinv_mild [OF assms(1)] by blast
qed

text \<open>Opening: the calm part, then the slot.\<close>

definition opens :: "nat \<Rightarrow> kst \<Rightarrow> kst \<Rightarrow> bool" where
  "opens i s t \<longleftrightarrow> (\<exists>u node flags acc. calm s u \<and> parts_ok u \<and> (t = u \<or> \<not> is_pipe node \<and> t = snd (open_node i node flags acc u)))"

lemma opens_refl: "parts_ok s \<Longrightarrow> opens i s s"
  unfolding opens_def using calm_refl by blast

lemma opens_calm: "calm s u \<Longrightarrow> opens i u t \<Longrightarrow> opens i s t"
  unfolding opens_def using calm_trans by blast

lemma opens_again:
  assumes "open_again i pth (\<lambda>node s. Some (open_node i node flags acc s)) s = Some (r, t)" "parts_ok s"
  shows "opens i s t"
proof -
  obtain e s1 where c: "process_create i pth s = Some (e, s1)" using assms(1) by (auto simp: open_again_def split: bind_split_asm)
  note k = calm_mkdir_create_unlink(2) [OF assms(2) c]
  have p: "parts_ok s1" using k assms(2) calm_parts by blast
  show ?thesis
  proof (cases "e < 0")
    case True
    then show ?thesis using assms(1) c k p by (auto simp: open_again_def opens_def)
  next
    case False
    obtain q s2 where q: "vfs_resolve_path_cwd (cwd (proc s1 i)) pth s1 = Some (q, s2)"
      using assms(1) c False by (auto simp: open_again_def split: bind_split_asm)
    note e = calm_resolve_cwd [OF q p]
    have "opens i s1 t" using assms(1) c False q e by (cases q) (auto simp: open_again_def opens_def, metis snd_conv)
    then show ?thesis by (rule opens_calm [OF k])
  qed
qed

lemma opens_open:
  assumes "process_open i pth flags s = Some (r, t)" "parts_ok s"
  shows "opens i s t"
proof -
  let ?acc = "nat (and flags O_ACCMODE)"
  obtain q s1 where q: "vfs_resolve_path_cwd (cwd (proc s i)) pth s = Some (q, s1)"
    using assms(1) by (auto simp: process_open_def Let_def split: bind_split_asm)
  note e = calm_resolve_cwd [OF q assms(2)]
  have again: "opens i u t" if "open_again i pth (\<lambda>node s. Some (open_node i node flags ?acc s)) u = Some (r, t)" "parts_ok u" for u
    by (rule opens_again [OF that])
  have "opens i s1 t"
  proof (cases q)
    case None
    then show ?thesis using assms(1) q e(3) again [of s1] opens_refl by (auto simp: process_open_def Let_def split: if_splits)
  next
    case (Some node)
    have un: "opens i s1 t" if "process_unlink i pth s1 = Some (d, s2)"
      "(if d < 0 then Some (d, s2) else open_again i pth (\<lambda>node s. Some (open_node i node flags ?acc s)) s2) = Some (r, t)" for d s2
      using that calm_mkdir_create_unlink(3) [OF e(3) that(1)] e(3) calm_parts again [of s2] opens_calm opens_refl by (auto split: if_splits)
    have "\<not> is_pipe node" using e(2) Some by simp
    then have fin: "opens i s1 t" if "open_node i node flags ?acc s1 = (r, t)"
      unfolding opens_def using that e(3) by (metis calm_refl snd_conv)
    show ?thesis using assms(1) q Some un fin e(3) opens_refl [of s1 i]
      by (auto simp: process_open_def Let_def split: if_splits bind_split_asm)
  qed
  then show ?thesis by (rule opens_calm [OF e(1)])
qed

lemma kinv_opens:
  assumes "kinv s" "alive s i" "opens i s t"
  shows "kinv t" "mild s t"
proof -
  obtain u node flags acc where u: "calm s u" "t = u \<or> \<not> is_pipe node \<and> t = snd (open_node i node flags acc u)"
    using assms(3) by (auto simp: opens_def)
  have k: "kinv u" "alive u i" using calm_kinv [OF assms(1) u(1)] mild_alive [OF calm_mild [OF u(1)]] assms(2) by simp_all
  then have "kinv t \<and> mild u t" using u(2) kinv_open_node [OF k] by auto
  then show "kinv t" "mild s t" using mild_trans [OF calm_mild [OF u(1)]] by blast+
qed

section \<open>Ending and stopping processes\<close>

lemma links_unique: "links_ok s \<Longrightarrow> task_of s t i \<Longrightarrow> task_of s u i \<Longrightarrow> u = t"
  by (auto simp: links_ok_def)

lemma task_of_nonzero: "main_ok (k_sched s) \<Longrightarrow> task_of s t i \<Longrightarrow> t \<noteq> 0"
  by (rule notI) (simp add: main_ok_def task_of_def)

lemma set_state_sched: "sched_inv (k_sched s) \<Longrightarrow> st \<noteq> TASK_RUNNING \<Longrightarrow> sched_inv (k_sched (set_task_state t st s))"
  by (auto simp: sched_inv_def set_task_state_def)

lemma set_state_main: "main_ok (k_sched s) \<Longrightarrow> t \<noteq> 0 \<Longrightarrow> main_ok (k_sched (set_task_state t st s))"
  by (auto simp: main_ok_def set_task_state_def)

lemma state_set [simp]: "tasks (k_sched (set_task_state t st s)) k = (if k = t then (tasks (k_sched s) t)\<lparr>t_state := st\<rparr> else tasks (k_sched s) k)"
  "task_count (k_sched (set_task_state t st s)) = task_count (k_sched s)" "current_task (k_sched (set_task_state t st s)) = current_task (k_sched s)"
  by (simp_all add: set_task_state_def)

lemma parts_set_state [simp]: "parts_ok (set_task_state t st s) \<longleftrightarrow> parts_ok s"
  by (simp add: set_task_state_def parts_ok_def)

text \<open>One task and its process change state together.\<close>

lemma kinv_pair:
  assumes "kinv s" "task_of s t i" "fd_inv u" "pids_ok u" "parts_ok u" "woken (k_sched s) sc" "st \<noteq> TASK_RUNNING"
    and sc: "k_sched u = upd_task t (\<lambda>x. x\<lparr>t_state := st\<rparr>) sc"
    and others: "\<And>j. j \<noteq> i \<Longrightarrow> pid (proc u j) = pid (proc s j) \<and> is_zombie (proc u j) = is_zombie (proc s j) \<and>
      is_stopped (proc u j) = is_stopped (proc s j) \<and> p_task (proc u j) = p_task (proc s j)"
    and self: "pid (proc u i) = pid (proc s i)" "p_task (proc u i) = p_task (proc s i)" "is_zombie (proc u i) \<longleftrightarrow> st = TASK_TERMINATED"
      "st \<noteq> TASK_TERMINATED \<Longrightarrow> is_stopped (proc u i) \<longleftrightarrow> st = TASK_STOPPED"
  shows "kinv u"
proof -
  note w = woken_state [OF assms(6)]
  have L: "links_ok s" "main_ok (k_sched s)" "sched_inv (k_sched s)" using assms(1) by (simp_all add: kinv_def)
  have t: "alive s i" "p_task (proc s i) = Some t" "t \<noteq> 0" using L assms(2) task_of_nonzero by (auto simp: links_ok_def)
  have st: "t_state (tasks (k_sched u) k) = (if k = t then st else t_state (tasks sc k))" "t_proc (tasks (k_sched u) k) = t_proc (tasks (k_sched s) k)"
    "task_count (k_sched u) = task_count (k_sched s)" for k using w by (auto simp: sc)
  have own: "t_proc (tasks (k_sched s) t) = Some i" "t < task_count (k_sched s)" using assms(2) by (simp_all add: task_of_def)
  have other: "task_of u k j \<longleftrightarrow> task_of s k j" if "k \<noteq> t" for k j using that w(2) [of TASK_TERMINATED k] by (simp add: task_of_def st)
  have al: "alive u j \<longleftrightarrow> alive s j" if "j \<noteq> i" for j using others [OF that] by (simp add: alive_def)
  have mine: "task_of u t j \<longleftrightarrow> j = i \<and> st \<noteq> TASK_TERMINATED" for j using own by (auto simp: task_of_def st)
  have ali: "alive u i \<longleftrightarrow> st \<noteq> TASK_TERMINATED" using t(1) self by (simp add: alive_def)
  have "task_of u k j \<longleftrightarrow> alive u j \<and> p_task (proc u j) = Some k" for k j
  proof (cases "j = i")
    case True
    then show ?thesis using mine ali self(2) t other [of k i] links_unique [OF L(1) assms(2), of k] by (cases "k = t") auto
  next
    case False
    have "task_of s k j \<longleftrightarrow> alive s j \<and> p_task (proc s j) = Some k" using L(1) by (simp add: links_ok_def)
    then show ?thesis using mine [of j] other [of k j] al [OF False] others [OF False] False own by (cases "k = t") (auto simp: task_of_def)
  qed
  moreover have "t_state (tasks (k_sched u) k) = TASK_STOPPED \<longleftrightarrow> is_stopped (proc u j)" if "task_of u k j" for k j
  proof (cases "k = t")
    case True
    then show ?thesis using that mine self(4) by (auto simp: st)
  next
    case False
    then have "task_of s k j" "j \<noteq> i" using that other links_unique [OF L(1) assms(2)] by auto
    then show ?thesis using L(1) others w(2) [of TASK_STOPPED k] False by (auto simp: links_ok_def st)
  qed
  ultimately have "links_ok u" by (auto simp: links_ok_def)
  moreover have "main_ok (k_sched u)" using woken_main [OF L(2) assms(6)] t(3) by (auto simp: main_ok_def sc)
  moreover have "sched_inv (k_sched u)" using woken_sched [OF L(3) assms(6)] assms(7) by (auto simp: sched_inv_def sc)
  ultimately show ?thesis using assms by (simp add: kinv_def)
qed

lemma mild_wake_parent: "mild s (wake_parent i s)"
  by (auto simp: wake_parent_def intro!: calm_mild split: option.split)

lemma kinv_terminate:
  assumes "kinv s" "task_of s t i"
  shows "kinv (process_terminate i t c s)" "current_task (k_sched (process_terminate i t c s)) = current_task (k_sched s)"
    "k \<noteq> t \<Longrightarrow> t_state (tasks (k_sched s) k) = TASK_RUNNING \<Longrightarrow> t_state (tasks (k_sched (process_terminate i t c s)) k) = TASK_RUNNING"
proof -
  let ?u = "upd_proc i (\<lambda>p. p\<lparr>exit_code := c, is_zombie := True\<rparr>) (close_all i s)"
  let ?t = "process_terminate i t c s"
  have al: "alive s i" using assms by (auto simp: kinv_def links_ok_def)
  have f: "fd_inv s" "i < MAX_PROCESSES" "pids_ok s" "parts_ok s" using assms(1) al by (simp_all add: kinv_def alive_def)
  have sc: "k_sched ?t = upd_task t (\<lambda>x. x\<lparr>t_state := TASK_TERMINATED\<rparr>) (k_sched (wake_parent i ?u))"
    by (simp add: process_terminate_def process_mark_zombie_def set_task_state_def)
  have w: "woken (k_sched s) (k_sched (wake_parent i ?u))"
    using mild_close_all [of s i] mild_wake_parent [of ?u i] by (auto simp: mild_def intro: woken_trans)
  have tk: "p_task (proc ?t j) = p_task (proc s j)" for j
  proof -
    have "p_task (proc (close_all i s) j) = p_task (proc s j)" using mild_close_all [of s i] by (simp add: mild_def)
    then show ?thesis by (auto simp: terminate_procs)
  qed
  have parts: "parts_ok ?t"
  proof -
    have "parts_ok (close_all i s)" using mild_close_all [of s i] f(4) by (simp add: mild_def)
    then have "parts_ok ?u" by (simp add: parts_ok_def) (simp add: upd_proc_def)
    then have "parts_ok (wake_parent i ?u)" using mild_wake_parent [of ?u i] by (simp add: mild_def)
    then show ?thesis by (simp add: process_terminate_def process_mark_zombie_def)
  qed
  show "kinv ?t"
  proof (rule kinv_pair [OF assms(1,2) terminate_inv [OF f(1,2)] terminate_pids [OF f(1,2,3)] parts w _ sc])
    show "pid (proc ?t j) = pid (proc s j) \<and> is_zombie (proc ?t j) = is_zombie (proc s j) \<and>
        is_stopped (proc ?t j) = is_stopped (proc s j) \<and> p_task (proc ?t j) = p_task (proc s j)" if "j \<noteq> i" for j
      using that by (simp add: terminate_slots [OF f(1,2)] tk)
  qed (simp_all add: terminate_slots [OF f(1,2)] tk)
  show "current_task (k_sched ?t) = current_task (k_sched s)" using woken_state(5) [OF w] by (simp add: sc)
  show "k \<noteq> t \<Longrightarrow> t_state (tasks (k_sched s) k) = TASK_RUNNING \<Longrightarrow> t_state (tasks (k_sched ?t) k) = TASK_RUNNING"
    using woken_state(2) [OF w, of TASK_RUNNING k] by (simp add: sc)
qed

lemma kinv_stop_cont:
  assumes "kinv s" "task_of s t i"
  shows "kinv (set_task_state t TASK_STOPPED (wake_parent i (upd_proc i (\<lambda>p. p\<lparr>is_stopped := True, stop_signal := sg, stop_reported := b\<rparr>) s)))"
    (is "kinv ?a")
    "kinv (set_task_state t TASK_READY (upd_proc i (\<lambda>p. p\<lparr>is_stopped := False\<rparr>) s))" (is "kinv ?b")
proof -
  have al: "alive s i" using assms by (auto simp: kinv_def links_ok_def)
  have f: "fd_inv s" "pids_ok s" "parts_ok s" using assms(1) by (simp_all add: kinv_def)
  have z: "\<not> is_zombie (proc s i)" using al by (simp add: alive_def)
  let ?u = "upd_proc i (\<lambda>p. p\<lparr>is_stopped := True, stop_signal := sg, stop_reported := b\<rparr>) s"
  let ?v = "upd_proc i (\<lambda>p. p\<lparr>is_stopped := False\<rparr>) s"
  have u: "fd_inv ?u" "fd_inv ?v" by (rule upd_proc_inv [OF f(1)]; simp)+
  have v: "pids_ok ?u" "pids_ok ?v" "parts_ok ?u" "parts_ok ?v"
    using f(3) by (auto intro: pids_same [OF f(2)] simp: parts_ok_def upd_proc_def)
  have w: "woken (k_sched s) (k_sched (wake_parent i ?u))" using mild_wake_parent [of ?u i] by (simp add: mild_def)
  have fa: "fd_inv ?a" by (rule same_refs_inv [OF u(1)]) (simp add: same_refs_def)
  have fb: "fd_inv ?b" by (rule same_refs_inv [OF u(2)]) (simp add: same_refs_def)
  show "kinv ?a"
  proof (rule kinv_pair [OF assms fa _ _ w])
    show "pids_ok ?a" by (rule pids_same [OF v(1)]) simp_all
    show "parts_ok ?a" using mild_wake_parent [of ?u i] v(3) by (simp add: mild_def)
  qed (use z in \<open>simp_all add: set_task_state_def\<close>)
  show "kinv ?b"
  proof (rule kinv_pair [OF assms fb _ _ woken_refl])
    show "pids_ok ?b" by (rule pids_same [OF v(2)]) simp_all
    show "parts_ok ?b" using v(4) by simp
  qed (use z in \<open>auto simp: set_task_state_def task_state.distinct\<close>)
qed

lemma links_stopped: "kinv s \<Longrightarrow> task_of s t i \<Longrightarrow> t_state (tasks (k_sched s) t) = TASK_STOPPED \<longleftrightarrow> is_stopped (proc s i)"
  unfolding kinv_def links_ok_def by blast

lemma runs_set_state:
  assumes "woken (k_sched s) (k_sched w)" "runs_now s" "t \<noteq> current_task (k_sched s)"
  shows "runs_now (set_task_state t x w)"
  using woken_state(2) [OF assms(1), of TASK_RUNNING] woken_state(5) [OF assms(1)] assms(2,3) by (auto simp: runs_now_def)

lemma kinv_signal:
  assumes "kinv s" "i < MAX_PROCESSES" "pid (proc s i) \<noteq> 0" "process_send_signal i sig s = Some (a, u)"
  shows "kinv u \<and> (runs_now s \<and> a \<le> 0 \<longrightarrow> runs_now u) \<and> a \<in> {0, 1, 2, - EINVAL}"
proof -
  let ?p = "proc s i" and ?me = "current_task (k_sched s)"
  have own: "task_of s t i" if "\<not> is_zombie ?p" "p_task ?p = Some t" for t
    using assms(1,2,3) that by (simp add: kinv_def links_ok_def alive_def)
  note kill = kinv_terminate [OF assms(1)] and stop = kinv_stop_cont [OF assms(1)]
  have not_me: "t \<noteq> ?me" if "runs_now s" "is_stopped ?p" "task_of s t i" for t
    using that links_stopped [OF assms(1) that(3)] by (auto simp: runs_now_def)
  let ?q = "\<lambda>p :: process. p\<lparr>is_stopped := True, stop_signal := SIGTSTP, stop_reported := False\<rparr>"
  have wp: "woken (k_sched s) (k_sched (wake_parent i (upd_proc i ?q s)))" using mild_wake_parent [of "upd_proc i ?q s" i] by (simp add: mild_def)
  consider (kill) t where "\<not> is_zombie ?p" "p_task ?p = Some t" "a = (if t = ?me then 1 else 0)" "u = process_terminate i t (ENCODE_SIGNALED sig) s"
    | (stop) t where "\<not> is_zombie ?p" "p_task ?p = Some t" "a = (if t = ?me then 2 else 0)"
        "u = set_task_state t TASK_STOPPED (wake_parent i (upd_proc i ?q s))"
    | (cont) t where "\<not> is_zombie ?p" "is_stopped ?p" "p_task ?p = Some t" "a = 0" "u = set_task_state t TASK_READY (upd_proc i (\<lambda>p. p\<lparr>is_stopped := False\<rparr>) s)"
    | (same) "a \<in> {0, - EINVAL}" "u = s"
  proof (cases "is_zombie ?p \<or> p_task ?p = None")
    case True
    then have "a \<in> {0, - EINVAL} \<and> u = s"
      using assms(4) by (auto simp: process_send_signal_def Let_def split: if_splits)
    then show ?thesis by (intro same) auto
  next
    case False
    then obtain t where t: "\<not> is_zombie ?p" "p_task ?p = Some t" by auto
    consider "sig \<in> {SIGKILL, SIGTERM, SIGINT}" | "sig \<notin> {SIGKILL, SIGTERM, SIGINT}" "sig = SIGTSTP"
      | "sig \<notin> {SIGKILL, SIGTERM, SIGINT}" "sig \<noteq> SIGTSTP" by blast
    then show ?thesis
    proof cases
      case 1
      then show ?thesis using assms(4) t by (intro kill [OF t]) (auto simp: process_send_signal_def Let_def)
    next
      case 2
      show ?thesis
      proof (cases "is_stopped ?p")
        case True
        then show ?thesis using assms(4) t 2 by (intro same) (simp_all add: process_send_signal_def Let_def)
      next
        case False
        then show ?thesis using assms(4) t 2 by (intro stop [OF t]) (simp_all add: process_send_signal_def Let_def)
      qed
    next
      case 3
      show ?thesis
      proof (cases "is_stopped ?p \<and> sig = SIGCONT")
        case True
        then show ?thesis using assms(4) t 3 by (intro cont [OF t(1) _ t(2)]) (simp_all add: process_send_signal_def Let_def)
      next
        case False
        then show ?thesis using assms(4) t 3 by (intro same) (auto simp: process_send_signal_def Let_def split: if_splits)
      qed
    qed
  qed
  then show ?thesis
  proof cases
    case (kill t)
    note k = kinv_terminate [OF assms(1) own [OF kill(1,2)]]
    show ?thesis using k(1) [of "ENCODE_SIGNALED sig"] k(2) [of "ENCODE_SIGNALED sig"] k(3) [of _ "ENCODE_SIGNALED sig"] kill(3,4)
      by (auto simp: runs_now_def)
  next
    case (stop t)
    show ?thesis using kinv_stop_cont(1) [OF assms(1) own [OF stop(1,2)]] runs_set_state [OF wp] stop(3,4) by auto
  next
    case (cont t)
    have o: "task_of s t i" by (rule own [OF cont(1,3)])
    show ?thesis using kinv_stop_cont(2) [OF assms(1) o] runs_set_state [of s "upd_proc i (\<lambda>p. p\<lparr>is_stopped := False\<rparr>) s" t TASK_READY]
        not_me [OF _ cont(2) o] cont(4,5) by auto
  qed (use assms(1) in auto)
qed

lemma kinv_signal_pids:
  assumes "kinv s" "signal_pids ns sig act s = Some (a, u)" "act \<in> {0, 1, 2}" "act = 0 \<longrightarrow> runs_now s"
  shows "kinv u \<and> a \<in> {0, 1, 2} \<and> (a = 0 \<longrightarrow> runs_now u)"
  using assms
proof (induction ns sig act s rule: signal_pids.induct)
  case (2 n ns sig act s)
  show ?case
  proof (cases "process_find_by_pid n s")
    case (Some i)
    obtain b s1 where b: "process_send_signal i sig s = Some (b, s1)" "signal_pids ns sig (if b > 0 then b else act) s1 = Some (a, u)"
      using "2.prems"(2) Some by (auto split: bind_split_asm)
    have i: "i < MAX_PROCESSES" "pid (proc s i) \<noteq> 0"
      using Some by (auto simp: process_find_by_pid_def split: if_splits dest: scan_up_SomeD)
    note k = kinv_signal [OF "2.prems"(1) i b(1)]
    have "(if b > 0 then b else act) \<in> {0, 1, 2}" "(if b > 0 then b else act) = 0 \<longrightarrow> runs_now s1"
      using k "2.prems"(3,4) by auto
    then show ?thesis using "2.IH"(2) [OF Some b(1) refl] k b(2) by blast
  qed (use 2 in auto)
qed simp

section \<open>Children\<close>

lemma kinv_wait:
  assumes "kinv s"
  shows "kinv (snd (process_waitpid i target s)) \<and> k_sched (snd (process_waitpid i target s)) = k_sched s"
proof (cases "scan_up (\<lambda>j. is_child i target s j \<and> has_event (proc s j)) 0 MAX_PROCESSES")
  case None
  then show ?thesis using assms by (simp add: process_waitpid_def)
next
  case (Some j)
  show ?thesis
  proof (cases "is_zombie (proc s j)")
    case True
    define t where "t = snd (process_waitpid i target s)"
    note r = waitpid_reap(2) [OF Some True, folded t_def]
    have sc: "k_sched t = k_sched s" "parts_ok t \<longleftrightarrow> parts_ok s" using Some True by (simp_all add: t_def process_waitpid_def Let_def parts_ok_def upd_proc_def)
    have "alive t k = alive s k" "alive s k \<Longrightarrow> proc t k = proc s k" for k unfolding alive_def r using True by (auto simp: process_zero_def)
    moreover have "task_of t k l = task_of s k l" for k l by (simp add: task_of_def sc)
    ultimately have "links_ok t" using assms unfolding kinv_def links_ok_def sc by (metis (no_types, lifting))
    then show ?thesis using assms waitpid_inv [of s i target] waitpid_pids [of s i target] sc by (simp add: kinv_def t_def)
  next
    case False
    then show ?thesis using Some kinv_upd [OF assms, of "\<lambda>p. p\<lparr>stop_reported := True\<rparr>" j] by (simp add: process_waitpid_def Let_def)
  qed
qed

text \<open>A new task takes a slot that no process uses.\<close>

lemma unlink_procs: "unlink_task_from_ring t s = Some s' \<Longrightarrow> t_proc (tasks s' k) = t_proc (tasks s k)"
  by (auto simp: unlink_task_from_ring_def split: if_splits)

lemma alloc_raw_procs:
  assumes "task_alloc_raw name (p, s) = Some (Some t, q, s')"
  shows "t_proc (tasks s' k) = (if k = t then None else t_proc (tasks s k))" "task_count s \<le> task_count s'"
    "task_count s' = task_count s \<or> t = task_count s \<and> task_count s' = task_count s + 1"
proof -
  obtain s1 where s1: "take_slot (p, s) = Some (Some t, q, s1)" "s' = splice_task t name s1"
    using assms by (auto simp: task_alloc_raw_def split: option.splits)
  have u: "task_count s2 = task_count s" if "unlink_task_from_ring t s = Some s2" for s2
    using that by (auto simp: unlink_task_from_ring_def split: if_splits)
  have "t_proc (tasks s1 k) = t_proc (tasks s k)" "task_count s1 = task_count s \<or> t = task_count s \<and> task_count s1 = task_count s + 1" for k
    using s1(1) unlink_procs [of t s s1 k] u [of s1] by (auto simp: take_slot_def split: if_splits option.splits)
  then show "t_proc (tasks s' k) = (if k = t then None else t_proc (tasks s k))" "task_count s \<le> task_count s'"
    "task_count s' = task_count s \<or> t = task_count s \<and> task_count s' = task_count s + 1"
    by (auto simp: s1(2) splice_task_def fresh_task_def Let_def)
qed

text \<open>A process that has no task yet is given one.\<close>

lemma kinv_new_task:
  assumes "kinv s" "alive s c" "p_task (proc s c) = None \<and> \<not> is_stopped (proc s c)" "task_alloc_raw name (p, k_sched s) = Some (Some t, q, sc)"
    and u: "k_sched u = upd_task t (\<lambda>x. g (x\<lparr>t_proc := Some c\<rparr>)) sc"
    and g: "\<And>x. t_state x = TASK_READY \<Longrightarrow> t_state (g x) = TASK_READY" "\<And>x. t_proc (g x) = t_proc x" "\<And>x. t_next (g x) = t_next x"
    and procs: "\<And>j. proc u j = (if j = c then (proc s c)\<lparr>p_task := Some t\<rparr> else proc s j)"
    and rest: "fd_inv u" "pids_ok u" "parts_ok u"
  shows "kinv u" "runs_now s \<Longrightarrow> runs_now u" "process_current u = process_current s"
proof -
  note K = assms(1) [unfolded kinv_def]
  have inv: "sched_inv (k_sched s)" "main_ok (k_sched s)" "links_ok s" using K by simp_all
  have slot: "sched_inv sc \<and> t_state (tasks sc t) = TASK_READY \<and> t \<noteq> current_task sc \<and> t < task_count sc \<and> current_task sc = current_task (k_sched s) \<and>
      (t < task_count (k_sched s) \<longrightarrow> t_state (tasks (k_sched s) t) = TASK_TERMINATED) \<and> (\<forall>i. i \<noteq> t \<longrightarrow> t_state (tasks sc i) = t_state (tasks (k_sched s) i))"
    by (rule alloc_raw_cases [OF inv(1), of name p]) (use assms(4) in auto)
  note pr = alloc_raw_procs [OF assms(4)]
  have st: "t_state (tasks (k_sched u) k) = (if k = t then TASK_READY else t_state (tasks (k_sched s) k))"
    "t_proc (tasks (k_sched u) k) = (if k = t then Some c else t_proc (tasks (k_sched s) k))" for k
    using slot pr(1) by (auto simp: u g)
  have cnt: "task_count (k_sched u) = task_count sc" "current_task (k_sched u) = current_task (k_sched s)" using slot by (simp_all add: u)
  have t0: "t \<noteq> 0" by (rule notI) (use slot inv(2) pr(3) in \<open>auto simp: main_ok_def\<close>)
  have none: "\<not> task_of s t i" for i using slot by (auto simp: task_of_def)
  have other: "task_of u k i \<longleftrightarrow> task_of s k i" if "k \<noteq> t" for k i using that pr(2,3) by (auto simp: task_of_def st cnt)
  have mine: "task_of u t i \<longleftrightarrow> i = c" for i using slot by (auto simp: task_of_def st cnt)
  have al: "alive u i = alive s i" for i by (simp add: alive_def procs)
  have old: "task_of s k i \<longleftrightarrow> alive s i \<and> p_task (proc s i) = Some k" for k i using inv(3) by (simp add: links_ok_def)
  have "task_of u k i \<longleftrightarrow> alive u i \<and> p_task (proc u i) = Some k" for k i
    using other [of k i] mine [of i] al [of i] old [of k i] none [of i] assms(2,3) by (cases "k = t") (auto simp: procs old)
  moreover have "t_state (tasks (k_sched u) k) = TASK_STOPPED \<longleftrightarrow> is_stopped (proc u i)" if "task_of u k i" for k i
    using links_stopped [OF assms(1), of k i] that other [of k i] mine [of i] assms(3) by (cases "k = t") (auto simp: st procs)
  ultimately have "links_ok u" by (auto simp: links_ok_def)
  moreover have "sched_inv (k_sched u)"
  proof -
    have "ring (k_sched u) x xs = ring sc x xs" for x xs by (rule ring_cong) (simp_all add: u g)
    then show ?thesis using slot st by (auto simp: sched_inv_def u split: if_splits)
  qed
  moreover have "main_ok (k_sched u)" using inv(2) t0 pr(2) by (simp add: main_ok_def st cnt)
  ultimately show "kinv u" using rest by (simp add: kinv_def)
  show "runs_now u" if "runs_now s" using that slot by (simp add: runs_now_def st cnt)
  show "process_current u = process_current s" using slot by (simp add: process_current_def st cnt)
qed

lemma kinv_alloc:
  assumes "kinv s" "process_alloc par s = (Some c, t)"
  shows "kinv t" "alive t c" "k_sched t = k_sched s" "p_task (proc t c) = None \<and> \<not> is_stopped (proc t c)"
    "\<forall>fd < MAX_FDS. \<not> fd_used (fds (proc t c) fd)" "alive s i \<Longrightarrow> i \<noteq> c"
proof -
  note a = alloc_slot [OF assms(2)]
  have n: "next_pid (k_procs s) \<noteq> 0" using assms(1) by (simp add: kinv_def pids_ok_def)
  show "\<forall>fd < MAX_FDS. \<not> fd_used (fds (proc t c) fd)" using a(6) by simp
  show al: "alive t c" "p_task (proc t c) = None \<and> \<not> is_stopped (proc t c)" "k_sched t = k_sched s"
    using a n by (simp_all add: alive_def process_zero_def)
  have dead: "\<not> alive s c" using a(2) by (simp add: alive_def)
  show "alive s i \<Longrightarrow> i \<noteq> c" using dead by auto
  have o: "alive t j = alive s j" "proc t j = proc s j" if "j \<noteq> c" for j using that a(6) by (simp_all add: alive_def)
  have tk: "task_of t k j = task_of s k j" for k j by (simp add: task_of_def a(4))
  have old: "task_of s k j \<longleftrightarrow> alive s j \<and> p_task (proc s j) = Some k" for k j using assms(1) by (simp add: kinv_def links_ok_def)
  have "task_of t k j \<longleftrightarrow> alive t j \<and> p_task (proc t j) = Some k" for k j
    using tk old [of k j] o [of j] dead al(2) by (cases "j = c") auto
  moreover have "t_state (tasks (k_sched t) k) = TASK_STOPPED \<longleftrightarrow> is_stopped (proc t j)" if "task_of t k j" for k j
    using that tk links_stopped [OF assms(1), of k j] old [of k j] o [of j] dead by (cases "j = c") (auto simp: a(4))
  ultimately have "links_ok t" by (auto simp: links_ok_def)
  moreover have "parts_ok t \<longleftrightarrow> parts_ok s"
    using assms(2) by (auto simp: process_alloc_def Let_def parts_ok_def upd_proc_def split: option.splits)
  ultimately show "kinv t" using assms(1) alloc_inv [OF _ assms(2)] alloc_pids(1) [OF _ assms(2)] by (simp add: kinv_def a(4))
qed

lemma mild_clone: "mild s (process_clone_into c i root s)"
proof -
  have one: "mild u (clone_fd c i fd u)" for fd u unfolding clone_fd_def Let_def
    by (rule mild_trans [OF mild_upd mild_dup_entry]) simp_all
  have "mild u (fold (clone_fd c i) xs u)" for xs u by (induction xs rule: rev_induct) (auto intro: mild_trans one)
  note folds = this
  show ?thesis unfolding process_clone_into_def Let_def by (rule mild_trans [OF mild_upd folds]) simp_all
qed

lemma kinv_with_task:
  assumes "kinv s" "runs_now s" "alive s c" "p_task (proc s c) = None \<and> \<not> is_stopped (proc s c)" "task_alloc_raw name (p, k_sched s) = Some (Some t, q, sc)"
    and "k_sched u = upd_task t (\<lambda>x. g (x\<lparr>t_proc := Some c\<rparr>)) sc"
    and "\<And>x. t_state x = TASK_READY \<Longrightarrow> t_state (g x) = TASK_READY" "\<And>x. t_proc (g x) = t_proc x" "\<And>x. t_next (g x) = t_next x"
    and u: "k_procs u = k_procs (upd_proc c (\<lambda>q. q\<lparr>p_task := Some t\<rparr>) s)" "k_pipes u = k_pipes s" "parts_ok u \<longleftrightarrow> parts_ok s"
  shows "kinv u \<and> runs_now u \<and> process_current u = process_current s"
proof -
  have f: "fd_inv (upd_proc c (\<lambda>q. q\<lparr>p_task := Some t\<rparr>) s)" by (rule upd_proc_inv) (use assms(1) in \<open>simp_all add: kinv_def\<close>)
  have "fd_inv u" by (rule same_refs_inv [OF f]) (simp add: same_refs_def u upd_proc_def)
  moreover have "pids_ok u" by (rule pids_same [of s]) (use assms(1) in \<open>simp_all add: kinv_def u upd_proc_def\<close>)
  moreover have "proc u j = (if j = c then (proc s c)\<lparr>p_task := Some t\<rparr> else proc s j)" for j by (simp add: u(1) upd_proc_def)
  ultimately show ?thesis using kinv_new_task [OF assms(1,3-9)] assms(1,2) u(3) by (simp add: kinv_def)
qed

lemma kinv_fork_task:
  assumes "kinv s" "runs_now s" "alive s c" "p_task (proc s c) = None \<and> \<not> is_stopped (proc s c)" "fork_task rp f c s = Some (r, u)"
  shows "kinv u \<and> runs_now u \<and> process_current u = process_current s"
proof -
  obtain ot p sc where a: "task_alloc_raw ''forked'' (frames (k_mm s), k_sched s) = Some (ot, p, sc)"
    using assms(5) by (auto simp: fork_task_def split: option.splits)
  show ?thesis
  proof (cases ot)
    case None
    have "sc = k_sched s"
      by (rule alloc_raw_cases [of "k_sched s" "''forked''" "frames (k_mm s)"]) (use assms(1) a None in \<open>auto simp: kinv_def\<close>)
    then have "calm s u" using assms(5) a None by (auto simp: fork_task_def kprint_def)
    then show ?thesis using assms(1,2) calm_kinv mild_runs [OF calm_mild] mild_current [OF calm_mild] by blast
  next
    case (Some t)
    let ?s = "upd_proc c (\<lambda>q. q\<lparr>p_task := Some t\<rparr>) s"
    obtain stk p2 where stk: "pmm_alloc_pages FORK_KSTACK_PAGES p = (stk, p2)" by fastforce
    obtain g where g: "k_sched u = upd_task t (\<lambda>x. g (x\<lparr>t_proc := Some c\<rparr>)) sc" "\<And>x. t_state x = TASK_READY \<Longrightarrow> t_state (g x) = TASK_READY"
      "\<And>x. t_proc (g x) = t_proc x" "\<And>x. t_next (g x) = t_next x" and u: "k_procs u = k_procs ?s" "k_pipes u = k_pipes s" "parts_ok u \<longleftrightarrow> parts_ok s"
    proof (cases "stk = 0")
      case True
      then show ?thesis using assms(5) a Some stk
        by (intro that [of "\<lambda>x. x"]) (auto simp: fork_task_def kprint_def upd_proc_def Let_def parts_ok_def)
    next
      case False
      let ?top = "vmm_hhdm_offset (k_mm s) + (stk + 4 * PAGE_SIZE)"
      show ?thesis using False assms(5) a Some stk
        by (intro that [of "\<lambda>x. x\<lparr>stack_phys := stk, stack_pages := 4, kernel_stack_top := ?top, t_rsp := ?top - 176 - 56, t_state := TASK_READY\<rparr>"])
          (auto simp: fork_task_def upd_proc_def Let_def parts_ok_def vmm_hhdm_offset_def)
    qed
    show ?thesis by (rule kinv_with_task [OF assms(1-4) a [unfolded Some] g u])
  qed
qed

lemma kinv_fork:
  assumes "kinv s" "runs_now s" "process_current s = Some i" "alive s i" "do_fork rp f s = Some (r, u)"
  shows "kinv u \<and> runs_now u \<and> process_current u = process_current s"
proof (cases "process_alloc (pid (proc s i)) s")
  case (Pair oc s1)
  show ?thesis
  proof (cases oc)
    case None
    then have "s1 = s" using Pair by (auto simp: process_alloc_def Let_def split: option.splits)
    then have "u = kprint ''[fork] out of process slots'' s" using assms(3,5) Pair None by (simp add: do_fork_def)
    then show ?thesis using assms(1,2) calm_kinv mild_runs [OF calm_mild] mild_current [OF calm_mild] calm_kprint by metis
  next
    case (Some c)
    note a = kinv_alloc [OF assms(1) Pair [unfolded Some]]
    obtain root m1 where nr: "vmm_new_address_space (k_mm s1) = (root, m1)" by fastforce
    define s1m where "s1m = s1\<lparr>k_mm := vmm_clone_lower_half root (pml4_phys (proc s1 i)) m1\<rparr>"
    define s2 where "s2 = process_clone_into c i root s1m"
    have k1: "kinv s1m" by (rule calm_kinv [OF a(1)]) (simp add: s1m_def)
    have al: "alive s1m c" "i < MAX_PROCESSES" "i \<noteq> c" "\<forall>fd < MAX_FDS. \<not> fd_used (fds (proc s1m c) fd)"
      using a(2,5) a(6) [OF assms(4)] assms(4) by (simp_all add: s1m_def alive_def)
    have m2: "mild s1m s2" unfolding s2_def by (rule mild_clone)
    have k2: "kinv s2" using kinv_mild [OF k1 m2] clone_into_inv(1) [OF _ al] k1 by (simp add: s2_def kinv_def)
    have c2: "alive s2 c" "p_task (proc s2 c) = None \<and> \<not> is_stopped (proc s2 c)"
      using mild_alive [OF m2] al(1) m2 a(4) by (simp_all add: mild_def s1m_def)
    have r2: "runs_now s2" using mild_runs [OF m2] assms(2) a(3) by (simp add: runs_now_def s1m_def)
    have pc: "process_current s2 = process_current s" using mild_current [OF m2] a(3) by (simp add: process_current_def s1m_def)
    have "do_fork rp f s = fork_task rp f c s2" using assms(3) Pair Some nr by (simp add: do_fork_def s2_def s1m_def)
    then show ?thesis using kinv_fork_task [OF k2 r2 c2] assms(5) pc by metis
  qed
qed

section \<open>Programs and memory\<close>

text \<open>What a system call that returns has to show.\<close>

definition good_step :: "kst \<Rightarrow> kst \<Rightarrow> bool" where
  "good_step s t \<longleftrightarrow> (kinv s \<longrightarrow> kinv t) \<and> (kinv s \<and> runs_now s \<longrightarrow> runs_now t \<and> process_current t = process_current s)"

lemma good_trans: "good_step s t \<Longrightarrow> good_step t u \<Longrightarrow> good_step s u"
  by (auto simp: good_step_def)

lemma good_calm: "calm s t \<Longrightarrow> good_step s t"
  unfolding good_step_def using calm_kinv mild_runs [OF calm_mild] mild_current [OF calm_mild] by blast

lemma good_refl [simp]: "good_step s s"
  by (simp add: good_step_def)

lemma good_mild: "(kinv s \<Longrightarrow> mild s t) \<Longrightarrow> (kinv s \<Longrightarrow> kinv t) \<Longrightarrow> good_step s t"
  unfolding good_step_def using mild_runs mild_current by blast

lemma good_upd:
  assumes "\<And>p. pid (f p) = pid p" "\<And>p. is_zombie (f p) = is_zombie p" "\<And>p. is_stopped (f p) = is_stopped p"
    "\<And>p. p_task (f p) = p_task p" "\<And>p. fds (f p) = fds p"
  shows "good_step s (upd_proc i f s)"
  by (rule good_mild [OF mild_upd kinv_upd]) (use assms in simp_all)

lemma calm_log_segment: "calm s (log_segment ph s)"
  by (simp add: log_segment_def Let_def)

lemma calm_segments: "calm s (snd (load_segments pml4 data eh is highest phdr s))"
proof (induction "is" arbitrary: highest phdr s)
  case (Cons i "is")
  have step: "calm s (snd (load_segments pml4 data eh is h p (log_segment ph (s\<lparr>k_mm := m\<rparr>))))" for h p ph m
    by (rule calm_trans [OF _ Cons.IH], rule calm_trans [OF _ calm_log_segment]) simp
  show ?case using Cons.IH step by (auto simp: Let_def kprint_def split: prod.split)
qed simp

lemma calm_elf: "calm s (snd (elf_load pml4 data sz s))"
  using calm_segments [of s pml4 data] by (auto simp: elf_load_def Let_def split: prod.split option.split) (metis snd_conv)+

lemma good_exec_image: "good_step s (snd (exec_image i buf sz npages argv envp seed f s))"
proof -
  obtain root m1 where nr: "vmm_new_address_space (k_mm s) = (root, m1)" by fastforce
  obtain im s1 where el: "elf_load root (buf - vmm_hhdm_offset m1) sz (s\<lparr>k_mm := m1\<rparr>) = (im, s1)" by fastforce
  define s2 where "s2 = vfs_read_file_free buf npages s1"
  have c1: "calm s s1" using calm_elf [of "s\<lparr>k_mm := m1\<rparr>" root "buf - vmm_hhdm_offset m1" sz] el by simp
  have c2: "calm s s2" unfolding s2_def by (rule calm_trans [OF c1 calm_load_free])
  obtain stk p where stk: "pmm_alloc_pages USER_STACK_PAGES (frames (k_mm s2)) = (stk, p)" by fastforce
  have mm: "good_step u (u\<lparr>k_mm := m\<rparr>)" for u m by (simp add: good_calm)
  have new: "good_step s ((upd_proc i (\<lambda>q. q\<lparr>pml4_phys := root, heap_start := h, heap_end := h, fs_base := 0\<rparr>)
      (s2\<lparr>k_sched := (k_sched s2)\<lparr>msr_fs_base := 0\<rparr>\<rparr>))\<lparr>k_mm := m\<rparr>)" for h m
    by (rule good_trans [OF good_trans [OF good_calm [OF calm_trans [OF c2 calm_fields(4)]] good_upd] mm]) simp_all
  show ?thesis
  proof (cases im)
    case None
    then show ?thesis using nr el calm_trans [OF c2 calm_kprint] by (simp add: exec_image_def Let_def s2_def [symmetric] good_calm)
  next
    case (Some x)
    have "good_step s (kprint str (s2\<lparr>k_mm := m\<rparr>))" for str m by (rule good_calm) (simp add: c2 kprint_def)
    then show ?thesis using nr el Some stk new
      by (cases "stk = 0") (simp_all add: exec_image_def Let_def s2_def [symmetric] case_prod_beta)
  qed
qed

lemma good_exec_file: "good_step (snd q) (snd (exec_file i argv envp seed f q))"
proof (cases q)
  case (Pair ld s)
  have "good_step s (vfs_read_file_free buf n (kprint str s))" for buf n str by (rule good_calm [OF calm_trans [OF calm_kprint calm_load_free]])
  then show ?thesis using good_exec_image [of s] by (cases ld) (auto simp: exec_file_def Pair intro: good_calm)
qed

lemma good_exec:
  assumes "do_exec um seed f pth av ev s = Some (r, t)" "parts_ok s"
  shows "good_step s t"
proof (cases "process_current s")
  case (Some i)
  obtain q s1 where q: "vfs_resolve_path_cwd (cwd (proc s i)) pth s = Some (q, s1)"
    using assms(1) Some by (auto simp: do_exec_def Let_def split: bind_split_asm)
  have c: "calm s s1" by (rule calm_resolve_cwd(1) [OF q assms(2)])
  have "good_step s1 t"
  proof (cases q)
    case None
    then show ?thesis using assms(1) Some q by (auto simp: do_exec_def Let_def intro: good_calm)
  next
    case (Some node)
    have load: "good_step s1 (snd (exec_file i argv envp seed f x))" if "vfs_read_file_alloc node s1 = Some x" for x argv envp
      by (rule good_trans [OF good_calm [OF calm_load_file [OF that]] good_exec_file])
    show ?thesis using assms(1) \<open>process_current s = Some i\<close> q Some load
      by (auto simp: do_exec_def Let_def split: if_splits intro: good_calm) (metis snd_conv)
  qed
  then show ?thesis by (rule good_trans [OF good_calm [OF c]])
qed (use assms in \<open>simp add: do_exec_def\<close>)

lemma good_memory:
  "good_step s (snd (process_brk i b s))" "good_step s (snd (process_mmap i len prot fl fd s))" "good_step s (snd (process_munmap i a len s))"
proof -
  have u: "good_step s (upd_proc i g (s\<lparr>k_mm := m\<rparr>))" if "\<And>p. pid (g p) = pid p \<and> is_zombie (g p) = is_zombie p \<and> is_stopped (g p) = is_stopped p \<and>
      p_task (g p) = p_task p \<and> fds (g p) = fds p" for g m
    by (rule good_trans [OF good_calm good_upd]) (use that in simp_all)
  show "good_step s (snd (process_brk i b s))" "good_step s (snd (process_mmap i len prot fl fd s))" "good_step s (snd (process_munmap i a len s))"
    by (auto simp: process_brk_def process_mmap_def process_munmap_def Let_def case_prod_beta intro!: good_calm u)
qed

section \<open>System calls\<close>

definition good_result :: "nat \<Rightarrow> sys_result \<Rightarrow> bool" where
  "good_result i r = (case r of
      SysRet f ws t \<Rightarrow> kinv t \<and> runs_now t
    | SysSleep ch k t \<Rightarrow> kinv t \<and> runs_now t \<and> process_current t = Some i
    | SysYield f t \<Rightarrow> kinv t
    | SysNever t \<Rightarrow> kinv t
    | SysLoad x t \<Rightarrow> kinv t \<and> runs_now t \<and> process_current t = Some i)"

definition in_user :: "kst \<Rightarrow> nat \<Rightarrow> bool" where
  "in_user s i \<longleftrightarrow> kinv s \<and> runs_now s \<and> process_current s = Some i"

lemma user_task:
  assumes "in_user s i"
  shows "task_of s (current_task (k_sched s)) i" "alive s i" "parts_ok s" "kinv s"
proof -
  have "current_task (k_sched s) < task_count (k_sched s)" using assms by (auto simp: in_user_def kinv_def sched_inv_def ring_def)
  then show t: "task_of s (current_task (k_sched s)) i" using assms by (simp add: in_user_def task_of_def process_current_def runs_now_def)
  show "kinv s" "parts_ok s" using assms by (simp_all add: in_user_def kinv_def)
  show "alive s i" using t assms by (simp add: in_user_def kinv_def links_ok_def)
qed

lemma good_results:
  assumes "in_user s i" "good_step s t"
  shows "good_result i (ret f (c, t))" "good_result i (ret_store f c ws t)" "good_result i (SysSleep ch k t)" "good_result i (SysLoad x t)"
    "good_result i (SysRet f ws t)"
  using assms by (simp_all add: good_result_def in_user_def good_step_def ret_def ret_store_def)

lemma good_fds:
  assumes "alive s i"
  shows "good_step s (snd (process_close i fd s))" "good_step s (snd (process_dup2 i fd fd2 s))" "good_step s (snd (process_pipe i s))"
    "process_read i fd n s = Some (r, t) \<Longrightarrow> good_step s t" "process_write i fd src n s = Some (q, t) \<Longrightarrow> good_step s t"
proof -
  note k = kinv_fds [OF _ assms]
  show "good_step s (snd (process_close i fd s))" by (rule good_mild [OF mild_close]) (rule k(1))
  show "good_step s (snd (process_dup2 i fd fd2 s))" by (rule good_mild [OF mild_dup2]) (rule k(2))
  show "good_step s (snd (process_pipe i s))" by (rule good_mild [OF mild_pipe]) (rule k(3))
  show "good_step s t" if "process_read i fd n s = Some (r, t)" by (rule good_mild [OF mild_read_write(1) [OF that]]) (rule k(4) [OF _ that])
  show "good_step s t" if "process_write i fd src n s = Some (q, t)" by (rule good_mild [OF mild_read_write(2) [OF that]]) (rule k(5) [OF _ that])
qed

lemma good_open:
  assumes "alive s i" "process_open i pth flags s = Some (r, t)"
  shows "good_step s t"
proof -
  have o: "opens i s t" if "kinv s" by (rule opens_open [OF assms(2)]) (use that in \<open>simp add: kinv_def\<close>)
  show ?thesis
  proof (rule good_mild)
    assume k: "kinv s"
    show "mild s t" "kinv t" by (rule kinv_opens [OF k assms(1) o [OF k]])+
  qed
qed

lemma good_paths:
  assumes "parts_ok s"
  shows "process_mkdir i pth s = Some (r, t) \<Longrightarrow> good_step s t" "process_unlink i pth s = Some (r, t) \<Longrightarrow> good_step s t"
    "process_stat i pth s = Some (a, t) \<Longrightarrow> good_step s t" "process_chmod i pth perm s = Some (r, t) \<Longrightarrow> good_step s t"
    "process_chown i pth uid gid s = Some (r, t) \<Longrightarrow> good_step s t" "vfs_readdir_path dir pth idx sz s = Some (b, t) \<Longrightarrow> good_step s t"
    "process_chdir i pth s = Some (r, t) \<Longrightarrow> good_step s t"
proof -
  show "process_chdir i pth s = Some (r, t) \<Longrightarrow> good_step s t"
  proof -
    assume c: "process_chdir i pth s = Some (r, t)"
    then obtain q s1 where q: "vfs_resolve_path (vfs_combine_path (cwd (proc s i)) pth VFS_MAX_PATH) s = Some (q, s1)"
      by (auto simp: process_chdir_def split: bind_split_asm)
    have "good_step s1 t" using c q by (auto simp: process_chdir_def split: option.splits if_splits bind_split_asm intro!: good_upd)
    then show ?thesis using good_trans [OF good_calm [OF calm_resolve(1) [OF q assms]]] by blast
  qed
qed (rule good_calm, erule calm_mkdir_create_unlink [OF assms] calm_attributes [OF assms] calm_readdir_path [OF _ assms])+

lemma good_ids: "good_step s (snd (process_setuid i u s))" "good_step s (snd (process_setgid i u s))"
  by (auto simp: process_setuid_def process_setgid_def intro!: good_upd)

lemma good_wait: "good_step s (snd (process_waitpid i target s))"
  using kinv_wait [of s i target] by (auto simp: good_step_def runs_now_def process_current_def)

lemma good_tty: "good_step s (s\<lparr>k_kbd := tty_set_raw e (k_kbd s)\<rparr>)" "good_step s (s\<lparr>k_kbd := tty_set_echo e (k_kbd s)\<rparr>)"
  using keyboard_ops by (auto intro!: good_calm calm_kbd)

lemma good_foreground: "good_step s (process_set_foreground pids count s)"
proof (rule good_mild)
  show m: "mild s (process_set_foreground pids count s)" by (simp add: mild_def process_set_foreground_def Let_def parts_ok_def)
  assume k: "kinv s"
  have p: "process_pool (k_procs (process_set_foreground pids count s)) = process_pool (k_procs s)"
    "k_pipes (process_set_foreground pids count s) = k_pipes s" by (simp_all add: process_set_foreground_def Let_def)
  have i: "fd_inv s" "idle_ok s" using k by (simp_all add: kinv_def fd_inv_def)
  have "fd_inv (process_set_foreground pids count s)"
    by (rule fd_inv_same [OF i(1)]) (use i(2) in \<open>simp_all only: holders_def idle_ok_def p simp_thms\<close>)
  then show "kinv (process_set_foreground pids count s)" by (rule kinv_mild [OF k m])
qed

lemma handler_calls:
  assumes "in_user s i"
  shows "sys_write um n i f s = Some r \<Longrightarrow> good_result i r" "sys_read i f s = Some r \<Longrightarrow> good_result i r" "good_result i (sys_waitpid i f s)"
    "sys_readdir um i f s = Some r \<Longrightarrow> good_result i r" "good_result i (sys_getcwd i f s)" "sys_stat um i f s = Some r \<Longrightarrow> good_result i r"
    "good_result i (sys_pipe i f s)" "good_result i (sys_arch_prctl (Some i) f s)" "sys_execve um seed f s = Some r \<Longrightarrow> good_result i r"
    "sys_kill f target sig s = Some r \<Longrightarrow> good_result i r" "good_result i (SysNever (sys_exit code s))"
proof -
  note u = user_task [OF assms] and g = good_results [OF assms]
  note fds = good_fds [OF u(2)]
  show "good_result i r" if "sys_write um n i f s = Some r"
    using that fds(5) g by (auto simp: sys_write_def split: option.splits io.splits prod.splits)
  show "good_result i r" if "sys_read i f s = Some r"
    using that fds(4) g by (auto simp: sys_read_def split: option.splits io.splits prod.splits sum.splits)
  show "good_result i (sys_waitpid i f s)"
    using good_wait [of s i "reg_int (f_rdi f)"] g by (auto simp: sys_waitpid_def split: io.split prod.split)
  show "good_result i r" if "sys_readdir um i f s = Some r" using that good_paths(6) [OF u(3)] g by (auto simp: sys_readdir_def)
  show "good_result i (sys_getcwd i f s)" using g [OF good_refl] by (simp add: sys_getcwd_def Let_def)
  show "good_result i r" if "sys_stat um i f s = Some r" using that good_paths(3) [OF u(3)] g by (auto simp: sys_stat_def split: sum.split)
  show "good_result i (sys_pipe i f s)" using fds(3) g by (auto simp: sys_pipe_def split: sum.split prod.split)
  show "good_result i r" if "sys_execve um seed f s = Some r"
    using that good_exec [OF _ u(3)] g by (auto simp: sys_execve_def split: exec_result.split)
  have "good_step s ((upd_proc i (\<lambda>p. p\<lparr>fs_base := a\<rparr>) s)\<lparr>k_sched := (k_sched (upd_proc i (\<lambda>p. p\<lparr>fs_base := a\<rparr>) s))\<lparr>msr_fs_base := a\<rparr>\<rparr>)" for a
    by (rule good_trans [OF good_upd good_calm [OF calm_fields(4)]]) simp_all
  then show "good_result i (sys_arch_prctl (Some i) f s)" using g g [OF good_refl] by (simp add: sys_arch_prctl_def Let_def)
  show "good_result i (SysNever (sys_exit code s))"
  proof -
    define s1 where "s1 = s\<lparr>k_disk := serial_print ('')'' @ nl) (serial_print_dec (nat \<bar>code\<bar>) (serial_print ''[syscall] exit('' (k_disk s)))\<rparr>"
    have c: "calm s s1" and sc: "k_sched s1 = k_sched s" by (simp_all add: s1_def)
    have k: "kinv s1" "task_of s1 (current_task (k_sched s1)) i" "process_current s1 = Some i"
      using calm_kinv [OF u(4) c] mild_task_of [OF calm_mild [OF c]] u(1) assms by (simp_all add: sc process_current_def in_user_def)
    show ?thesis unfolding sys_exit_def Let_def s1_def [symmetric] using kinv_terminate(1) [OF k(1,2)] k(3) by (simp add: good_result_def)
  qed
  show "good_result i r" if r: "sys_kill f target sig s = Some r"
  proof (cases "process_find_by_pid target s")
    case None
    then show ?thesis using r g [OF good_refl] by (auto simp: sys_kill_def)
  next
    case (Some j)
    then obtain a s1 where a: "process_send_signal j sig s = Some (a, s1)" using r by (auto simp: sys_kill_def split: bind_split_asm)
    have j: "j < MAX_PROCESSES" "pid (proc s j) \<noteq> 0" using Some by (auto simp: process_find_by_pid_def split: if_splits dest: scan_up_SomeD)
    show ?thesis using kinv_signal [OF u(4) j a] assms r Some a
      by (auto simp: sys_kill_def good_result_def ret_def in_user_def split: if_splits)
  qed
qed

lemma handler_good:
  assumes u: "in_user s i" and h: "syscall_handler um rp seed n f s = Some r"
  shows "good_result i r"
proof -
  have pc: "process_current s = Some i" and al: "alive s i" and po: "parts_ok s" using u user_task [OF u] by (simp_all add: in_user_def)
  note g = good_results [OF u] and c = handler_calls [OF u] and paths = good_paths [OF po]
  have opt: "good_result i r" if "map_option (ret f) x = Some r" "\<And>v t. x = Some (v, t) \<Longrightarrow> good_step s t" for x
    using that g(1) by auto
  have pair: "good_result i (ret f x)" if "good_step s (snd x)" for x using g(1) [OF that, of f "fst x"] by simp
  have fork: "good_step s t" if "do_fork rp f s = Some (v, t)" for v t
    using kinv_fork [OF _ _ pc al that] u by (simp add: good_step_def in_user_def)
  have brk: "good_result i (let (b, s1) = process_brk i x s in ret f (int b, s1))" for x
    using g(1) [OF good_memory(1) [of s i x]] by (simp add: case_prod_beta)
  have log: "good_step s (s\<lparr>k_disk := d\<rparr>)" for d by (rule good_calm) simp
  show ?thesis
    using h unfolding syscall_handler_def Let_def with_proc_def pc option.case
    by (auto simp only: option.inject Let_def split: if_split_asm
        intro: c fork brk [unfolded Let_def] pair good_fds(1,2) [OF al] good_memory(2,3) good_ids good_open [OF al] paths
          g(1) [OF good_refl] g(1) [OF good_foreground] g(1) [OF good_tty(1)] g(1) [OF good_tty(2)] g(1) [OF log]
        elim!: opt)
qed

section \<open>Giving up the processor\<close>

lemma kinv_sched:
  assumes "kinv s" "sched_inv sc" "main_ok sc" "task_count sc = task_count (k_sched s)"
    "\<And>t. t_proc (tasks sc t) = t_proc (tasks (k_sched s) t)"
    "\<And>t. t_state (tasks sc t) = TASK_TERMINATED \<longleftrightarrow> t_state (tasks (k_sched s) t) = TASK_TERMINATED"
    "\<And>t. t_state (tasks sc t) = TASK_STOPPED \<longleftrightarrow> t_state (tasks (k_sched s) t) = TASK_STOPPED"
  shows "kinv (s\<lparr>k_sched := sc\<rparr>)"
proof -
  have t: "task_of (s\<lparr>k_sched := sc\<rparr>) k i = task_of s k i" for k i using assms(4,5,6) by (simp add: task_of_def)
  have "links_ok (s\<lparr>k_sched := sc\<rparr>)" using assms(1,7) unfolding kinv_def links_ok_def t by (simp add: alive_def)
  moreover have "fd_inv (s\<lparr>k_sched := sc\<rparr>)" by (rule same_refs_inv [of s]) (use assms(1) in \<open>simp_all add: kinv_def same_refs_def\<close>)
  moreover have "pids_ok (s\<lparr>k_sched := sc\<rparr>)" by (rule pids_same [of s]) (use assms(1) in \<open>simp_all add: kinv_def\<close>)
  ultimately show ?thesis using assms(1,2,3) by (simp add: kinv_def parts_ok_def)
qed

lemma kinv_sleep:
  assumes "in_user s i"
  shows "kinv (k_sleep ch s)"
proof -
  have k: "kinv s" and run: "t_state (tasks (k_sched s) (current_task (k_sched s))) = TASK_RUNNING"
    and c: "t_proc (tasks (k_sched s) (current_task (k_sched s))) = Some i" using assms by (simp_all add: in_user_def runs_now_def process_current_def)
  have n: "current_task (k_sched s) \<noteq> 0" by (rule notI) (use k c in \<open>simp add: kinv_def main_ok_def\<close>)
  show ?thesis unfolding k_sleep_def
  proof (rule kinv_sched [OF k])
    show "sched_inv (block_current ch (k_sched s))" using k block_current_inv by (simp add: kinv_def)
    show "main_ok (block_current ch (k_sched s))" using k n by (simp add: kinv_def main_ok_def block_current_def)
  qed (use run in \<open>auto simp: block_current_def\<close>)
qed

text \<open>The scheduler always finds a task, the idling one if no other is ready.\<close>

lemma kinv_yield:
  assumes "kinv s"
  shows "\<exists>u. k_yield s = Some (True, u) \<and> kinv u \<and> runs_now u"
proof -
  let ?sc = "k_sched s" and ?fs = "\<lambda>i. fs_base (proc s i)" and ?pt = "\<lambda>i. pml4_phys (proc s i)" and ?kp = "vmm_kernel_pml4 (k_mm s)"
  have inv: "sched_inv ?sc" "main_ok ?sc" using assms by (simp_all add: kinv_def)
  obtain xs where r: "ring ?sc (current_task ?sc) xs" using inv(1) by (auto simp: sched_inv_def)
  have "0 \<in> set (current_task ?sc # xs)"
    using r inv(2) by (simp only: ring_def main_ok_def lessThan_iff)
  then have mem: "0 = current_task ?sc \<or> 0 \<in> set xs" by simp
  from r show ?thesis
  proof (cases rule: yield_cases [of _ _ ?fs ?pt ?kp])
    case (keep sc)
    have "sched_inv sc" using yield_inv [OF inv(1) keep(1)] by (simp add: after_def)
    moreover have "main_ok sc" using inv(2) by (auto simp: keep(4) main_ok_def)
    ultimately have "kinv (s\<lparr>k_sched := sc\<rparr>)" by (rule kinv_sched [OF assms]) (use keep(3) in \<open>auto simp: keep(4)\<close>)
    then show ?thesis by (simp add: k_yield_def keep(1)) (simp add: runs_now_def keep(4))
  next
    case halt
    have "t_state (tasks ?sc 0) = TASK_READY" if "0 \<noteq> current_task ?sc"
      using that inv by (auto simp: main_ok_def sched_inv_def)
    then have "False" using mem halt(2,3) inv(2) by (cases "0 = current_task ?sc") (auto simp: find_None_iff main_ok_def)
    then show ?thesis ..
  next
    case (switch n m sc)
    have rdy: "t_state (tasks ?sc n) = TASK_READY" using switch(2) by (auto simp: find_Some_iff)
    have "sched_inv sc" using yield_inv [OF inv(1) switch(1)] by (simp add: after_def)
    moreover have "main_ok sc" using inv(2) switch(9) [of 0] switch(10) [of 0] by (auto simp: main_ok_def switch(6))
    ultimately have "kinv (s\<lparr>k_sched := sc\<rparr>)"
      by (rule kinv_sched [OF assms]) (use rdy in \<open>auto simp: switch(6,9,10)\<close>)
    then have "kinv (s\<lparr>k_sched := sc, k_mm := vmm_activate m (k_mm s)\<rparr>)" by (rule calm_kinv) simp
    then show ?thesis by (simp add: k_yield_def switch(1)) (simp add: runs_now_def switch(3,9))
  qed
qed

section \<open>Faults and interrupts\<close>

lemma calm_cow: "calm s (snd (try_handle_cow_fault v e s))"
  by (auto simp: try_handle_cow_fault_def Let_def split: option.split prod.split)

lemma fault_good:
  assumes "in_user s i"
  shows "exception_handler v f s = FaultRetry t \<Longrightarrow> kinv t \<and> runs_now t" "exception_handler v f s = FaultKill t \<Longrightarrow> kinv t"
proof -
  define b s1 where "b = fst (if f_int_no f = 14 then try_handle_cow_fault v (f_err_code f) s else (False, s))"
    and "s1 = snd (if f_int_no f = 14 then try_handle_cow_fault v (f_err_code f) s else (False, s))"
  have bs: "(if f_int_no f = 14 then try_handle_cow_fault v (f_err_code f) s else (False, s)) = (b, s1)" by (simp add: b_def s1_def)
  have "calm s s1" by (simp add: s1_def calm_cow)
  then have u: "in_user s1 i" using good_calm [of s s1] assms by (simp add: good_step_def in_user_def)
  have d: "in_user (s1\<lparr>k_disk := d\<rparr>) i" for d using u good_calm [OF calm_fields(2) [of s1 d]] by (simp add: good_step_def in_user_def)
  have pc: "process_current s1 = Some i" using u by (simp add: in_user_def)
  show "exception_handler v f s = FaultRetry t \<Longrightarrow> kinv t \<and> runs_now t"
    using u by (cases b) (auto simp: exception_handler_def bs pc Let_def in_user_def split: if_splits)
  show "exception_handler v f s = FaultKill t \<Longrightarrow> kinv t"
    using kinv_terminate(1) [OF user_task(4,1) [OF d]] d
    by (cases b) (auto simp: exception_handler_def bs pc Let_def split: if_splits)
qed

lemma irq_good:
  assumes "kinv s" "runs_now s" "irq_handler v (c, s) = Some r"
  shows "case r of IrqReturn c' t \<Rightarrow> kinv t \<and> runs_now t | IrqYield c' t \<Rightarrow> kinv t | IrqNever c' t \<Rightarrow> kinv t"
proof -
  have ok: "kinv t \<and> runs_now t" if "calm s t" for t using good_calm [OF that] assms(1,2) by (simp add: good_step_def)
  have eoi: "calm s (eoi q s)" for q by (simp add: eoi_def)
  let ?irq = "usub v 32"
  consider "?irq = 0" | "?irq = 1" | "?irq \<noteq> 0" "?irq \<noteq> 1" by blast
  then show ?thesis
  proof cases
    case 1
    then show ?thesis using assms(3) ok [OF eoi] by (auto simp: irq_handler_def Let_def)
  next
    case 2
    obtain b d where b: "inb KEYBOARD_DATA_PORT (k_disk s) = (b, d)" by fastforce
    define s1 where "s1 = eoi 1 (s\<lparr>k_disk := d\<rparr>)"
    obtain ec act k where k: "keyboard_handle_scancode b (k_kbd s1) = (ec, act, k)" by (metis surj_pair)
    define s2 where "s2 = s1\<lparr>k_kbd := k, k_term := k_term s1 @ ec\<rparr>"
    have c1: "calm s s1" by (simp add: s1_def eoi_def)
    have "kbd_inv (k_kbd s1) \<Longrightarrow> kbd_inv k" using keyboard_ops [of "k_kbd s1" b] k by simp
    then have "calm s1 s2" unfolding s2_def using calm_trans [OF calm_kbd [of s1 k] calm_fields(3)] by simp
    then have c2: "calm s s2" by (rule calm_trans [OF c1])
    have run: "irq_handler v (c, s) = (case act of KNone \<Rightarrow> Some (IrqReturn c s2)
           | KWake \<Rightarrow> Some (IrqReturn c (s2\<lparr>k_sched := task_wake ChKbd (k_sched s2)\<rparr>))
           | KSignal sig \<Rightarrow>
               do { (a, s3) \<leftarrow> process_signal_foreground sig s2;
                    Some (if a = 1 then IrqNever c s3 else if a = 2 then IrqYield c s3 else IrqReturn c s3) })"
      using 2 b k by (cases act) (simp_all add: irq_handler_def Let_def s1_def s2_def)
    show ?thesis
    proof (cases act)
      case KWake
      then show ?thesis using assms(3) run ok [OF calm_trans [OF c2 calm_fields(5)]] by auto
    next
      case (KSignal sig)
      obtain a s3 where a: "process_signal_foreground sig s2 = Some (a, s3)" using assms(3) run KSignal by (auto split: bind_split_asm)
      have "kinv s3 \<and> a \<in> {0, 1, 2} \<and> (a = 0 \<longrightarrow> runs_now s3)"
        using kinv_signal_pids [OF _ a [unfolded process_signal_foreground_def]] ok [OF c2] by simp
      then show ?thesis using assms(3) run KSignal a by (auto split: if_splits)
    qed (use assms(3) run ok [OF c2] in auto)
  next
    case 3
    then show ?thesis using assms(3) ok [OF eoi] by (auto simp: irq_handler_def Let_def)
  qed
qed

section \<open>Reachable states\<close>

lemma user_runsD: "user_runs s \<Longrightarrow> kinv s \<Longrightarrow> runs_now s \<Longrightarrow> \<exists>i. in_user s i"
  by (auto simp: user_runs_def in_user_def)

lemma yield_then: "kinv t \<Longrightarrow> k_yield t = Some (True, u) \<Longrightarrow> kinv u \<and> runs_now u"
  using kinv_yield [of t] by auto

lemma sleep_then: "kinv t \<Longrightarrow> runs_now t \<Longrightarrow> process_current t = Some i \<Longrightarrow> k_yield (k_sleep ch t) = Some (True, u) \<Longrightarrow> kinv u \<and> runs_now u"
  by (rule yield_then [OF kinv_sleep]) (simp_all add: in_user_def)

lemma kstep_inv:
  assumes "kstep rp x y" "kinv (snd x)" "runs_now (snd x)"
  shows "kinv (snd y) \<and> runs_now (snd y)"
  using assms
proof (induction rule: kstep.induct)
  case (sys_ret s um seed n f f' ws t c)
  then obtain i where "in_user s i" using user_runsD by auto
  from handler_good [OF this sys_ret(2)] show ?case by (simp add: good_result_def)
next
  case (sys_sleep s um seed n f ch k t u c)
  then obtain i where "in_user s i" using user_runsD by auto
  from handler_good [OF this sys_sleep(2)] show ?case using sleep_then sys_sleep(3) by (auto simp: good_result_def)
next
  case (sys_yield s um seed n f f' t u c)
  then obtain i where "in_user s i" using user_runsD by auto
  from handler_good [OF this sys_yield(2)] show ?case using yield_then sys_yield(3) by (auto simp: good_result_def)
next
  case (sys_never s um seed n f t u c)
  then obtain i where "in_user s i" using user_runsD by auto
  from handler_good [OF this sys_never(2)] show ?case using yield_then sys_never(3) by (auto simp: good_result_def)
next
  case (sys_load s um seed n f ch fr cap got t u c)
  then obtain i where "in_user s i" using user_runsD by auto
  from handler_good [OF this sys_load(2)] show ?case using sleep_then sys_load(3) by (auto simp: good_result_def)
next
  case (load_ret s i node fr cap got q argv envp seed f r f' t c)
  have "good_step s t" using good_trans [OF good_calm [OF calm_load [OF load_ret(3)]] good_exec_file [of q i argv envp seed f]] load_ret(4) by simp
  then show ?case using load_ret by (simp add: good_step_def)
next
  case (load_wait s i node fr cap got q argv envp seed f ch fr' cap' got' t u c)
  have "good_step s t" using good_trans [OF good_calm [OF calm_load [OF load_wait(3)]] good_exec_file [of q i argv envp seed f]] load_wait(4) by simp
  then have "kinv t" "runs_now t" "process_current t = Some i" using load_wait by (simp_all add: good_step_def)
  then show ?case using sleep_then [of t i ch u] load_wait(5) by simp
next
  case (fault_retry s v f t c)
  then obtain i where "in_user s i" using user_runsD by auto
  from fault_good(1) [OF this fault_retry(2)] show ?case by simp
next
  case (fault_kill s v f t u c)
  then obtain i where "in_user s i" using user_runsD by auto
  from fault_good(2) [OF this fault_kill(2)] show ?case using yield_then fault_kill(3) by simp
next
  case (irq_ret s v c c' t)
  then show ?case using irq_good [of s v c "IrqReturn c' t"] by simp
next
  case (irq_yield s v c c' t u)
  then have "kinv t" using irq_good [of s v c "IrqYield c' t"] by simp
  then show ?case using yield_then irq_yield(3) by simp
next
  case (irq_never s v c c' t u)
  then have "kinv t" using irq_good [of s v c "IrqNever c' t"] by simp
  then show ?case using yield_then irq_never(3) by simp
qed

lemma reach_inv:
  assumes "(kstep rp)\<^sup>*\<^sup>* x y" "kinv (snd x)" "runs_now (snd x)"
  shows "kinv (snd y) \<and> runs_now (snd y)"
  using assms by (induction rule: rtranclp_induct) (auto dest: kstep_inv)

end
