(* ===== verification/Running.thy ===== *)
theory Running
  imports Boot System
begin

text \<open>
  From the start of the kernel to its running: the first process is set up with the invariant of \<open>System\<close>, so every state
  that the kernel can reach has it.
\<close>

section \<open>The first process\<close>

text \<open>The state in which the kernel builds the first process: no processes, no pipes, and the idling task alone.\<close>

definition fresh :: "kst \<Rightarrow> bool" where
  "fresh s \<longleftrightarrow> process_pool (k_procs s) = (\<lambda>_. process_zero) \<and> process_count (k_procs s) = 0 \<and> next_pid (k_procs s) = 1 \<and>
     (\<forall>k. read_refcount (k_pipes s k) = 0 \<and> write_refcount (k_pipes s k) = 0 \<and> \<not> p_in_use (k_pipes s k)) \<and> parts_ok s \<and>
     task_count (k_sched s) = 1 \<and> current_task (k_sched s) = 0 \<and> t_next (tasks (k_sched s) 0) = 0 \<and>
     t_proc (tasks (k_sched s) 0) = None \<and> t_state (tasks (k_sched s) 0) = TASK_RUNNING"

lemma fresh_kinv:
  assumes "fresh s"
  shows "kinv s" "runs_now s"
proof -
  have p: "proc s i = process_zero" for i using assms by (simp add: fresh_def)
  have al: "\<not> alive s i" for i by (simp add: alive_def p process_zero_def)
  have tk: "\<not> task_of s t i" for t i
  proof
    assume "task_of s t i"
    moreover from this have "t = 0" using assms by (simp add: fresh_def task_of_def)
    ultimately show False using assms by (simp add: fresh_def task_of_def)
  qed
  have h: "holders s v = {}" for v by (simp add: holders_def p)
  have r: "refs s v = 0" for v using assms by (cases v) (simp_all add: refs_def fresh_def)
  have "fd_inv s" using assms by (simp add: fd_inv_def refs_ok_def h r in_use_ok_def idle_ok_def p) (simp add: fresh_def)
  moreover have "pids_ok s" using assms by (simp add: pids_ok_def live_slots_def p process_zero_def) (simp add: fresh_def)
  moreover have "sched_inv (k_sched s)" using assms
    by (auto simp: fresh_def sched_inv_def ring_def intro!: exI [of _ "[]"])
  moreover have "main_ok (k_sched s)" using assms by (simp add: fresh_def main_ok_def)
  ultimately show "kinv s" using assms al tk by (simp add: kinv_def links_ok_def fresh_def)
  show "runs_now s" using assms by (simp add: fresh_def runs_now_def)
qed

lemma kinv_process_init:
  assumes "kinv s" "alive s i" "\<forall>fd < MAX_FDS. \<not> fd_used (fds (proc s i) fd)"
  shows "kinv (process_init i pml4 heap s)" "mild s (process_init i pml4 heap s)"
proof -
  show m: "mild s (process_init i pml4 heap s)" unfolding process_init_def by (rule mild_upd) simp_all
  let ?t = "process_init i pml4 heap s"
  have f: "fds (proc ?t j) fd = (if j = i \<and> fd < 3 then console_fd else fds (proc s j) fd)" for j fd by (simp add: process_init_def)
  have c: "fd_node console_fd = Some VConsole" by (simp add: console_fd_def devfs_console_vnode_def)
  have h: "holders ?t w = holders s w" if "is_pipe w" for w
    using that assms(3) unfolding holders_def f by (auto simp: c split: if_splits)
  have d: "idle_ok ?t"
  proof -
    have q: "pid (proc ?t j) = pid (proc s j)" "is_zombie (proc ?t j) = is_zombie (proc s j)" for j using m by (simp_all add: mild_def)
    have "idle_ok s" using assms(1) by (simp add: kinv_def fd_inv_def)
    then show ?thesis unfolding idle_ok_def q f using assms(2) by (simp add: alive_def) blast
  qed
  have "k_pipes ?t = k_pipes s" by (simp add: process_init_def upd_proc_def)
  moreover have "fd_inv s" using assms(1) by (simp add: kinv_def)
  ultimately have "fd_inv ?t" using h d fd_inv_same by blast
  then show "kinv ?t" by (rule kinv_mild [OF assms(1) m])
qed

lemma boot_task_inv:
  assumes "kinv s" "runs_now s" "alive s i" "p_task (proc s i) = None \<and> \<not> is_stopped (proc s i)" "boot_task sy i im rsp s = Some (ok, u)"
  shows "kinv u \<and> runs_now u \<and> process_current u = process_current s"
proof -
  obtain t slot m sc where tc: "task_create_user (trampoline_at sy) ''init'' i (im_entry im) rsp (k_mm s, k_sched s) = Some (t, slot, m, sc)"
    using assms(5) by (auto simp: boot_task_def)
  define w where "w = set_task i slot (s\<lparr>k_mm := m, k_sched := sc\<rparr>)"
  have wu: "calm w u" using assms(5) by (cases t) (auto simp: boot_task_def tc w_def kprint_def log_def Let_def)
  have "kinv w \<and> runs_now w \<and> process_current w = process_current s"
  proof (rule alloc_raw_cases [of "k_sched s" "''init''" "frames (k_mm s)"])
    show "sched_inv (k_sched s)" using assms(1) by (simp add: kinv_def)
  next
    assume full: "task_alloc_raw ''init'' (frames (k_mm s), k_sched s) = Some (None, frames (k_mm s), k_sched s)"
    then have "calm s w" using tc by (auto simp: task_create_user_def w_def set_task_def)
    then show ?thesis using assms(1,2) calm_kinv mild_runs [OF calm_mild] mild_current [OF calm_mild] by metis
  next
    fix k q s' assume a: "task_alloc_raw ''init'' (frames (k_mm s), k_sched s) = Some (Some k, q, s')"
    obtain stk p2 where stk: "pmm_alloc_pages USER_KSTACK_PAGES q = (stk, p2)" by fastforce
    let ?e = "\<lambda>x::task. x\<lparr>user_entry_rip := im_entry im, user_entry_rsp := rsp\<rparr>"
    obtain g where g: "sc = upd_task k (\<lambda>x. g (x\<lparr>t_proc := Some i\<rparr>)) s'" "\<And>x. t_state x = TASK_READY \<Longrightarrow> t_state (g x) = TASK_READY"
      "\<And>x. t_proc (g x) = t_proc x" "\<And>x. t_next (g x) = t_next x" and sl: "slot = Some k"
    proof (cases "stk = 0")
      case True
      then show ?thesis using tc a stk by (intro that [of ?e]) (auto simp: task_create_user_def Let_def)
    next
      case False
      let ?top = "hhdm_offset_g (k_mm s) + (stk + USER_KSTACK_PAGES * PAGE_SIZE)"
      show ?thesis using False tc a stk
        by (intro that [of "\<lambda>x. (?e x)\<lparr>stack_phys := stk, stack_pages := USER_KSTACK_PAGES, kernel_stack_top := ?top, t_rsp := ?top - 64\<rparr>"])
          (auto simp: task_create_user_def Let_def install_stack_def)
    qed
    have w: "w = upd_proc i (\<lambda>q. q\<lparr>p_task := Some k\<rparr>) (s\<lparr>k_mm := m, k_sched := sc\<rparr>)" by (simp add: w_def sl set_task_def)
    show ?thesis using kinv_with_task [OF assms(1-4) a, of w g] g by (simp add: w upd_proc_def parts_ok_def)
  qed
  then show ?thesis using wu calm_kinv mild_runs [OF calm_mild] mild_current [OF calm_mild] by metis
qed

lemma boot_process_inv:
  assumes "kinv s" "runs_now s" "boot_process sy seed pas im s = Some (ok, u)"
  shows "kinv u \<and> runs_now u \<and> process_current u = process_current s"
proof -
  obtain rsp m3 where st: "boot_stack seed pas im (k_mm s) = (rsp, m3)" by fastforce
  define s0 where "s0 = s\<lparr>k_mm := m3\<rparr>"
  have c0: "calm s s0" by (simp add: s0_def)
  note k0 = calm_kinv [OF assms(1) c0] mild_runs [OF calm_mild [OF c0] assms(2)]
  have pc0: "process_current s0 = process_current s" by (rule mild_current [OF calm_mild [OF c0]])
  obtain oi s1 where al: "process_alloc 0 s0 = (oi, s1)" by fastforce
  show ?thesis
  proof (cases oi)
    case None
    then have "s1 = s0" using al by (auto simp: process_alloc_def Let_def split: option.splits)
    then have "u = kprint ''!!! process_alloc failed. halting.'' s0" using assms(3) st al None by (simp add: boot_process_def s0_def)
    then have "calm s0 u" by simp
    then show ?thesis using k0 pc0 calm_kinv mild_runs [OF calm_mild] mild_current [OF calm_mild] by metis
  next
    case (Some i)
    note a = kinv_alloc [OF k0(1) al [unfolded Some]]
    define s2 where "s2 = process_init i pas (im_highest im) s1"
    note k2 = kinv_process_init [OF a(1,2,5), of pas "im_highest im", folded s2_def]
    define s3 where "s3 = log_built i im s2"
    have c3: "calm s2 s3" by (simp add: s3_def log_built_def Let_def)
    have m3': "mild s1 s3" by (rule mild_trans [OF k2(2) calm_mild [OF c3]])
    have r1: "runs_now s1" using k0(2) a(3) by (simp add: runs_now_def)
    have k3: "kinv s3" "runs_now s3" "alive s3 i" "p_task (proc s3 i) = None \<and> \<not> is_stopped (proc s3 i)"
      using calm_kinv [OF k2(1) c3] mild_runs [OF m3' r1] mild_alive [OF m3'] a(2,4) m3' by (simp_all add: mild_def)
    have "boot_task sy i im rsp s3 = Some (ok, u)" using assms(3) st al Some by (simp add: boot_process_def s3_def s2_def s0_def)
    moreover have "process_current s3 = process_current s" using mild_current [OF m3'] pc0 a(3) by (simp add: process_current_def)
    ultimately show ?thesis using boot_task_inv [OF k3] by metis
  qed
qed

lemma boot_process_returns:
  assumes "kinv s"
  shows "\<exists>ok u. boot_process sy seed pas im s = Some (ok, u)"
proof -
  obtain rsp m3 where st: "boot_stack seed pas im (k_mm s) = (rsp, m3)" by fastforce
  obtain oi s1 where al: "process_alloc 0 (s\<lparr>k_mm := m3\<rparr>) = (oi, s1)" by fastforce
  show ?thesis
  proof (cases oi)
    case None
    then show ?thesis using st al by (auto simp: boot_process_def)
  next
    case (Some i)
    have "k_sched s1 = k_sched s" using kinv_alloc(3) [OF calm_kinv [OF assms] al [unfolded Some]] by simp
    then have sc: "k_sched (log_built i im (process_init i pas (im_highest im) s1)) = k_sched s"
      by (simp add: log_built_def process_init_def upd_proc_def Let_def)
    have inv: "sched_inv (k_sched s)" using assms by (simp add: kinv_def)
    have "task_create_user tr name i rip rsp (m, k_sched s) \<noteq> None" for tr name rip m
      by (rule alloc_raw_cases [OF inv, of name "frames m"]) (simp_all add: task_create_user_def)
    then have "boot_process sy seed pas im s \<noteq> None" using st al Some sc by (simp add: boot_process_def boot_task_def)
    then show ?thesis by auto
  qed
qed

section \<open>From the power-on to the first process\<close>

text \<open>The memory of the kernel as the boot loader leaves it, with its static data.\<close>

definition powered_on :: "kst \<Rightarrow> bool" where
  "powered_on s \<longleftrightarrow> process_pool (k_procs s) = (\<lambda>_. process_zero) \<and> process_count (k_procs s) = 0 \<and> next_pid (k_procs s) = 1 \<and>
     (\<forall>k. read_refcount (k_pipes s k) = 0 \<and> write_refcount (k_pipes s k) = 0 \<and> \<not> p_in_use (k_pipes s k)) \<and> parts_ok s \<and>
     task_count (k_sched s) = 0"

lemma powered_calm: "powered_on s \<Longrightarrow> calm s t \<Longrightarrow> powered_on t"
  using woken_state(4) [of "k_sched s" "k_sched t"] by (simp add: powered_on_def calm_def same_refs_def)

lemma powered_fresh: "powered_on s \<Longrightarrow> fresh (s\<lparr>k_sched := task_init (k_sched s)\<rparr>)"
  by (simp add: powered_on_def fresh_def task_init_def Let_def parts_ok_def)

lemma calm_log [simp]: "calm s (log str s)"
  by (simp add: log_def)

lemma calm_boot_disk:
  assumes "boot_disk (d, k_fat s) = (b, d', f)"
  shows "calm s (s\<lparr>k_disk := d', k_fat := f\<rparr>)"
proof -
  have "fnode_pool (snd (snd (fat_mount (x, g)))) = fnode_pool g" for x g
    by (simp add: fat_mount_def Let_def split: prod.split)
  then have "fnode_pool f = fnode_pool (k_fat s)"
    using assms by (auto simp: boot_disk_def Let_def split: if_splits prod.splits) (metis snd_conv)+
  then show ?thesis by (intro calm_fat) (simp add: fat_tree_def)
qed

lemma calm_seed_file:
  assumes "seed_file dir name bs s = Some (f, t)"
  shows "calm s t"
proof -
  obtain r s1 where c: "with_tmp (tmpfs_create_file dir name) s = (r, s1)" by fastforce
  have "calm s (snd (with_tmp (tmpfs_create_file dir name) s))"
    using tmp_tree_ops(1) [of "k_tmp s" dir name "k_mm s"] by (auto simp: with_tmp_def split: prod.split intro!: calm_tmp)
  then have "calm s s1" by (simp add: c)
  then show ?thesis using assms c calm_read_write(2) calm_trans by (auto simp: seed_file_def split: option.splits bind_split_asm)
qed

lemma calm_seed_modules: "seed_modules dir mds s = Some t \<Longrightarrow> calm s t"
proof (induction mds arbitrary: s)
  case (Cons md mds)
  obtain f s1 where f: "seed_file dir (basename_of (fst md)) (snd md) s = Some (f, s1)"
    "seed_modules dir mds (set_vnode (VTmp f) (\<lambda>v. v\<lparr>v_mode := VFS_DEFAULT_EXEC_MODE\<rparr>) s1) = Some t"
    using Cons.prems by (cases md) (auto simp: seed_module_def split: bind_split_asm)
  have "calm s (set_vnode (VTmp f) (\<lambda>v. v\<lparr>v_mode := VFS_DEFAULT_EXEC_MODE\<rparr>) s1)"
    by (rule calm_trans [OF calm_seed_file [OF f(1)] calm_set_vnode]) simp
  then show ?case using Cons.IH [OF f(2)] calm_trans by blast
qed simp

lemma calm_seed_dir: "calm s (snd (seed_dir name s))"
  using calm_tmp' [OF tmp_tree_ops(2)] by (simp add: seed_dir_def split: prod.split) (metis snd_conv)

lemma calm_devfs: "calm s (devfs_install (VTmp d) s)"
proof -
  have "calm u (set_vnode v (\<lambda>v. v\<lparr>v_parent := Some (VTmp d)\<rparr>) u)" for u v
    by (rule calmI) (cases v; auto simp: set_vnode_def parts_ok_def tmp_tree_def fat_tree_def dev_tree_def)+
  note par = this
  show ?thesis unfolding devfs_install_def Let_def
    by (rule calm_trans [OF calm_trans [OF calm_trans [OF par par] par] calm_set_vnode]) simp
qed

lemma calm_vfs_init:
  assumes "vfs_init mods s = Some t"
  shows "calm s t"
proof -
  obtain u where u: "tmpfs_init (k_tmp s) = Some u" using assms by (auto simp: vfs_init_def split: bind_split_asm)
  have c1: "calm s (s\<lparr>k_tmp := u, k_root := tmpfs_get_root u\<rparr>)"
    using u by (intro calmI) (auto simp: parts_ok_def tmpfs_init_def tmpfs_alloc_node_def tmp_tree_def tmpfs_get_root_def set_name_def split: if_splits)
  have dirs: "calm v (fold (\<lambda>n s. snd (seed_dir n s)) ns v)" for ns v
    by (induction ns rule: rev_induct) (auto intro: calm_trans calm_seed_dir)
  obtain h s2 where h: "seed_file (tmp_root u) ''hello.txt'' hello_content (s\<lparr>k_tmp := u, k_root := tmpfs_get_root u\<rparr>) = Some (h, s2)"
    using assms u by (auto simp: vfs_init_def split: bind_split_asm)
  obtain b s3 where b: "seed_dir ''bin'' s2 = (b, s3)" by fastforce
  have c3: "calm s s3" using calm_trans [OF c1 calm_trans [OF calm_seed_file [OF h] calm_seed_dir [of s2 "''bin''"]]] b by simp
  obtain s4 where s4: "(case b of None \<Rightarrow> (if mods = [] then Some s3 else None) | Some b \<Rightarrow> seed_modules b mods s3) = Some s4"
    using assms u h b by (auto simp: vfs_init_def split: bind_split_asm)
  have "calm s3 s4" using s4 calm_seed_modules by (auto split: option.splits if_splits)
  note c4 = calm_trans [OF calm_trans [OF c3 this] dirs]
  obtain d s6 where d: "seed_dir ''dev'' (fold (\<lambda>n s. snd (seed_dir n s)) [''tmp'', ''etc'', ''home'', ''mnt''] s4) = (Some d, s6)" "t = devfs_install (VTmp d) s6"
    using assms u h b s4 by (auto simp: vfs_init_def split: bind_split_asm option.splits prod.splits)
  show ?thesis using calm_trans [OF c4 calm_trans [OF calm_seed_dir [of _ "''dev''"] calm_devfs]] d by (metis snd_conv)
qed

lemma calm_mount_fat:
  assumes "mount_fat s = Some t" "parts_ok s"
  shows "calm s t"
proof -
  obtain r s1 where r: "vfs_resolve_path ''/mnt'' s = Some (r, s1)" using assms(1) by (auto simp: mount_fat_def)
  note c = calm_resolve(1) [OF r assms(2)]
  show ?thesis
  proof (cases r)
    case None
    then show ?thesis using assms(1) r c by (simp add: mount_fat_def)
  next
    case (Some mnt)
    obtain v f where i: "fat_install (vnode_at s1 mnt) (k_fat s1) = (v, f)" by fastforce
    then have vf: "v_parent v = v_parent (vnode_at s1 mnt)" "fnode_pool f = fnode_pool (k_fat s1)" by (auto simp: fat_install_def split: if_splits)
    have "calm s1 (set_vnode mnt (\<lambda>_. v) (s1\<lparr>k_fat := f\<rparr>))"
      by (rule calmI) (cases mnt; auto simp: set_vnode_def vnode_at_def vf parts_ok_def tmp_tree_def fat_tree_def dev_tree_def)+
    moreover have "t = log (''[ok] FAT16 volume mounted at /mnt'' @ nl) (set_vnode mnt (\<lambda>_. v) (s1\<lparr>k_fat := f\<rparr>))"
      using assms(1) r Some i by (simp add: mount_fat_def)
    ultimately show ?thesis using calm_trans [OF c] by (simp add: log_def)
  qed
qed

lemma calm_boot_files:
  assumes "boot_files mods fat_ok s = Some t" "parts_ok s"
  shows "calm s t"
proof -
  obtain s1 where i: "vfs_init mods s = Some s1" using assms(1) by (auto simp: boot_files_def split: bind_split_asm)
  note c = calm_vfs_init [OF i]
  obtain s2 where m: "(if fat_ok then mount_fat s1 else Some s1) = Some s2" using assms(1) i by (auto simp: boot_files_def split: bind_split_asm)
  have "calm s1 s2" using m calm_mount_fat calm_parts [OF c assms(2)] by (auto split: if_splits)
  note c2 = calm_trans [OF c this]
  have "calm s2 t" using assms(1) i m by (auto simp: boot_files_def log_def Let_def split: bind_split_asm)
  then show ?thesis by (rule calm_trans [OF c2])
qed

lemma boot_shell_inv:
  assumes "powered_on s" "boot_shell sy seed s = Some (Up u)"
  shows "kinv u \<and> runs_now u"
proof -
  define s0 where "s0 = s\<lparr>k_sched := task_init (k_sched s)\<rparr>"
  define s1 where "s1 = kprint (''[ok] task_init: current flow of execution is now '' @ CHR 0x27 # ''main'' @ [CHR 0x27]) s0"
  obtain pas m where as: "vmm_new_address_space (k_mm s1) = (pas, m)" by fastforce
  note run = assms(2) [unfolded boot_shell_def Let_def, folded s0_def, folded s1_def, unfolded as prod.case]
  note k0 = fresh_kinv [OF powered_fresh [OF assms(1)], folded s0_def]
  obtain r s2 where r: "vfs_resolve_path ''/bin/sh'' (s1\<lparr>k_mm := m\<rparr>) = Some (r, s2)"
    using run by (auto split: bind_split_asm)
  have p: "parts_ok (s1\<lparr>k_mm := m\<rparr>)" using k0(1) by (simp add: s1_def kprint_def kinv_def parts_ok_def)
  have "calm (s1\<lparr>k_mm := m\<rparr>) s2" using calm_resolve(1) [OF r p] .
  then have c2: "calm s0 s2" using calm_trans [of s0 s1 s2] by (simp add: s1_def)
  obtain node where node: "r = Some node"
    using run r by (cases r) auto
  obtain ld s3 where ld: "vfs_read_file_alloc node s2 = Some (ld, s3)"
    using run r node by (auto split: bind_split_asm)
  have c3: "calm s0 s3" using calm_trans [OF c2] calm_load_file [OF ld] by simp
  obtain buf sz np where l: "ld = Loaded buf sz np" "sz \<noteq> 0"
    using run r node ld by (cases ld) (auto split: if_splits)
  obtain im s4 where e: "elf_load pas (buf - vmm_hhdm_offset (k_mm s3)) sz s3 = (im, s4)" by fastforce
  have c5: "calm s0 (vfs_read_file_free buf np s4)" using calm_trans [OF calm_trans [OF c3]] calm_elf [of s3 pas "buf - vmm_hhdm_offset (k_mm s3)" sz] e by simp
  obtain i where "boot_process sy seed pas i (vfs_read_file_free buf np s4) = Some (True, u)"
    using run r node ld l e by (cases im) (auto split: if_splits)
  from boot_process_inv [OF calm_kinv [OF k0(1) c5] mild_runs [OF calm_mild [OF c5] k0(2)] this] show ?thesis by simp
qed

text \<open>When the kernel is up, the invariant holds: the properties below hold of a kernel that was started by \<^verbatim>\<open>_start\<close>.\<close>

lemma start_inv:
  assumes "powered_on (m_k m)" "start info sy seed m = Some (BootUp m')" "(kstep rp)\<^sup>*\<^sup>* (c, m_k m') (n, t)"
  shows "kinv t" "runs_now t"
proof -
  obtain m1 where c: "boot_cpu info sy m = Some m1" using assms(2) by (auto simp: start_def split: if_splits bind_split_asm)
  have "calm (m_k m) (m_k m1)" using c by (auto simp: boot_cpu_def log_def Let_def)
  note p1 = powered_calm [OF assms(1) this]
  obtain mmap off ka where a: "memmap info = Some mmap" "hhdm info = Some off" "kaddr info = Some ka"
    using assms(2) c by (auto simp: start_def split: if_splits bind_split_asm option.splits)
  define s1 where "s1 = boot_memory mmap off ka sy (m_k m1)"
  have "calm (m_k m1) s1" by (simp add: s1_def boot_memory_def log_def Let_def)
  note p2 = powered_calm [OF p1 this]
  obtain b d f where d: "boot_disk (ata_init (k_disk s1), k_fat s1) = (b, d, f)" by (metis surj_pair)
  note p3 = powered_calm [OF p2 calm_boot_disk [OF d]]
  obtain s2 where s2: "boot_files (modules info) b (s1\<lparr>k_disk := d, k_fat := f\<rparr>) = Some s2"
    using assms(2) c a d by (auto simp: start_def s1_def Let_def split: if_splits bind_split_asm)
  note p4 = powered_calm [OF p3 calm_boot_files [OF s2]]
  have "boot_shell sy seed s2 = Some (Up (m_k m'))"
    using assms(2) c a d s2 by (auto simp: start_def s1_def Let_def split: if_splits bind_split_asm stage_result.splits)
  from boot_shell_inv [OF p4 this] show "kinv t" "runs_now t" using p3 reach_inv [OF assms(3)] by (simp_all add: powered_on_def)
qed

section \<open>Properties\<close>

text \<open>C1. The invariant of the running kernel. Take the state in which the kernel starts its first process and any sequence of steps
  after that: system calls with any numbers, registers and memory of the caller, loads of programs that wait, faults, timer
  ticks and keys, each with its whole handler and the switch to another task it ends in. In every state reached the tasks form one ring that the idling
  task is in; the process numbers are distinct and the count of processes is right; every reference count of a
  pipe is the number of descriptors that are open on it; the tasks that have not ended and the live processes refer to each
  other, stopped tasks belonging to stopped processes; and the current task is a running one.\<close>

theorem system_invariant:
  assumes "fresh s" "boot_process sy seed pas im s = Some (ok, s0)" "(kstep rp)\<^sup>*\<^sup>* (0, s0) (n, t)"
  shows "sched_inv (k_sched t) \<and> main_ok (k_sched t) \<and> pids_ok t \<and> fd_inv t \<and> links_ok t \<and> parts_ok t \<and> runs_now t"
  using reach_inv [OF assms(3)] boot_process_inv [OF fresh_kinv [OF assms(1)] assms(2)] by (simp add: kinv_def)

definition demo_fresh :: kst where
  "demo_fresh = demo_boot\<lparr>k_procs := (k_procs demo_boot)\<lparr>process_count := 0\<rparr>\<rparr>"

lemma demo_fresh: "fresh demo_fresh"
proof -
  have "parts_ok demo_fresh"
    by (simp add: parts_ok_def demo_fresh_def demo_boot_def demo_kst_def tmp_tree_def demo_tree_def demo_dir_def node_zero_def vnode_zero_def fat_tree_def
        dev_tree_def devfs_static_def device_vnode_def pipe_inv_def PIPE_BUF_SIZE_def new_pipe_def kbd_static_inv)
  then show ?thesis
    by (simp add: fresh_def demo_fresh_def demo_boot_def demo_kst_def new_pipe_def task_init_def sched_static_def Let_def)
qed

lemma demo_runs:
  "\<exists>ok s0. boot_process sy seed pas im demo_fresh = Some (ok, s0) \<and> kstep rp (0, s0) (1, eoi 0 s0)"
proof -
  note k = fresh_kinv [OF demo_fresh]
  obtain ok s0 where b: "boot_process sy seed pas im demo_fresh = Some (ok, s0)" using boot_process_returns [OF k(1)] by blast
  have "process_current demo_fresh = None"
    by (simp add: process_current_def demo_fresh_def demo_boot_def task_init_def sched_static_def Let_def)
  then have "kernel_runs s0" using boot_process_inv [OF k b] by (simp add: kernel_runs_def)
  moreover have "irq_handler 32 (0, s0) = Some (IrqReturn 1 (eoi 0 s0))" by (simp add: irq_handler_def usub_def wrap64_def)
  ultimately have "kstep rp (0, s0) (1, eoi 0 s0)" by (rule irq_ret)
  then show ?thesis using b by blast
qed

definition demo_symbols :: symbols where
  "demo_symbols = \<lparr>gdt_at = 0, tss_at = 0, idt_at = 0, isr_at = \<lambda>_. 0, syscall_entry_at = 0, kernel_start = 0, kernel_end = 0, trampoline_at = 0\<rparr>"

definition demo_image :: elf_image where
  "demo_image = \<lparr>im_entry = 0x400000, im_highest = 0x500000, im_phdr = 0, im_phentsize = 0, im_phnum = 0\<rparr>"

theorem system_invariant_witness:
  "\<exists>ok s0. boot_process demo_symbols 1 4096 demo_image demo_fresh = Some (ok, s0) \<and> kstep 0 (0, s0) (1, eoi 0 s0) \<and>
     fd_inv (eoi 0 s0) \<and> links_ok (eoi 0 s0) \<and> runs_now (eoi 0 s0)"
proof -
  obtain ok s0 where b: "boot_process demo_symbols 1 4096 demo_image demo_fresh = Some (ok, s0)" "kstep 0 (0, s0) (1, eoi 0 s0)"
    using demo_runs by blast
  show ?thesis using system_invariant [OF demo_fresh b(1) r_into_rtranclp [of "kstep 0", OF b(2)]] b by blast
qed

text \<open>The processor goes to a task that runs: not to the halt of a scheduler that finds none.\<close>

definition finds_task :: "kst \<Rightarrow> bool" where
  "finds_task s = (case k_yield s of Some (True, u) \<Rightarrow> runs_now u | _ \<Rightarrow> False)"

definition call_goes_on :: "sys_result \<Rightarrow> bool" where
  "call_goes_on r = (case r of
      SysRet f ws t \<Rightarrow> runs_now t
    | SysSleep ch k t \<Rightarrow> finds_task (k_sleep ch t)
    | SysYield f t \<Rightarrow> finds_task t
    | SysNever t \<Rightarrow> finds_task t
    | SysLoad x t \<Rightarrow> (case x of ExecRet c f \<Rightarrow> runs_now t | ExecWait ch fr cap got \<Rightarrow> finds_task (k_sleep ch t)))"

definition fault_goes_on :: "fault_result \<Rightarrow> bool" where
  "fault_goes_on r = (case r of FaultRetry t \<Rightarrow> runs_now t | FaultKill t \<Rightarrow> finds_task t | FaultHalt t \<Rightarrow> False)"

definition irq_goes_on :: "irq_result \<Rightarrow> bool" where
  "irq_goes_on r = (case r of IrqReturn c t \<Rightarrow> runs_now t | IrqYield c t \<Rightarrow> finds_task t | IrqNever c t \<Rightarrow> finds_task t)"

lemma kinv_finds: "kinv s \<Longrightarrow> finds_task s"
  using kinv_yield [of s] by (auto simp: finds_task_def)

lemma call_goes:
  assumes "good_result i r"
  shows "call_goes_on r"
proof -
  have sl: "finds_task (k_sleep ch t)" if "kinv t" "runs_now t" "process_current t = Some i" for ch t
    by (rule kinv_finds [OF kinv_sleep [of t i]]) (use that in \<open>simp add: in_user_def\<close>)
  show ?thesis using assms kinv_finds sl by (auto simp: good_result_def call_goes_on_def split: sys_result.splits exec_result.splits)
qed

lemma fault_goes:
  assumes "in_user s i" "f_cs f AND 3 = 3"
  shows "fault_goes_on (exception_handler v f s)"
proof -
  define q where "q = (if f_int_no f = 14 then try_handle_cow_fault v (f_err_code f) s else (False, s))"
  have "calm s (snd q)" by (simp add: q_def calm_cow)
  then have pc: "process_current (snd q) = Some i" using mild_current [OF calm_mild] assms(1) by (simp add: in_user_def)
  have "exception_handler v f s \<noteq> FaultHalt t" for t
    using pc assms(2) by (cases q; cases "fst q") (simp_all add: exception_handler_def q_def [symmetric] Let_def)
  then show ?thesis using fault_good [OF assms(1)] kinv_finds
    by (cases "exception_handler v f s") (auto simp: fault_goes_on_def)
qed

text \<open>C2. The kernel keeps running. In every state that can be reached from the start of the first process, the running process is alive, is not
  stopped and is the one its task points back to; whatever system call it makes, and whatever fault it has in user mode, either it goes
  on as the running task or the scheduler finds another one: the wait for an interrupt with nothing to run, and the halt
  of the exception handler, are never reached from there. The same holds of every interrupt. (The task that is found may be one that a failed
  \<^verbatim>\<open>fork\<close> has left without a kernel stack; the machine has no step from there.)\<close>

theorem kernel_keeps_running:
  assumes "fresh s" "boot_process sy seed pas im s = Some (ok, s0)" "(kstep rp)\<^sup>*\<^sup>* (0, s0) (n, t)"
  shows "(\<forall>i. process_current t = Some i \<longrightarrow>
      alive t i \<and> \<not> is_stopped (proc t i) \<and> p_task (proc t i) = Some (current_task (k_sched t)) \<and>
      (\<forall>um q k f r. syscall_handler um rp q k f t = Some r \<longrightarrow> call_goes_on r) \<and>
      (\<forall>v f. f_cs f AND 3 = 3 \<longrightarrow> fault_goes_on (exception_handler v f t))) \<and>
    (\<forall>v r. irq_handler v (n, t) = Some r \<longrightarrow> irq_goes_on r)"
proof -
  have k: "kinv t" "runs_now t" using reach_inv [OF assms(3)] boot_process_inv [OF fresh_kinv [OF assms(1)] assms(2)] by simp_all
  have user: "alive t i \<and> \<not> is_stopped (proc t i) \<and> p_task (proc t i) = Some (current_task (k_sched t)) \<and>
      (\<forall>um q k f r. syscall_handler um rp q k f t = Some r \<longrightarrow> call_goes_on r) \<and>
      (\<forall>v f. f_cs f AND 3 = 3 \<longrightarrow> fault_goes_on (exception_handler v f t))" if "process_current t = Some i" for i
  proof -
    have u: "in_user t i" using k that by (simp add: in_user_def)
    note tk = user_task(1) [OF u]
    have "\<not> is_stopped (proc t i)" using links_stopped [OF k(1) tk] k(2) by (simp add: runs_now_def)
    moreover have "p_task (proc t i) = Some (current_task (k_sched t))" using tk k(1) by (simp add: kinv_def links_ok_def)
    ultimately show ?thesis using user_task(2) [OF u] call_goes [OF handler_good [OF u]] fault_goes [OF u] by blast
  qed
  have "irq_goes_on r" if "irq_handler v (n, t) = Some r" for v r
    using irq_good [OF k that] kinv_finds by (auto simp: irq_goes_on_def split: irq_result.splits)
  then show ?thesis using user by blast
qed

theorem kernel_keeps_running_witness:
  "\<exists>ok s0. boot_process demo_symbols 1 4096 demo_image demo_fresh = Some (ok, s0) \<and> kstep 0 (0, s0) (1, eoi 0 s0) \<and>
     irq_goes_on (IrqReturn 2 (eoi 0 (eoi 0 s0)))"
proof -
  obtain ok s0 where b: "boot_process demo_symbols 1 4096 demo_image demo_fresh = Some (ok, s0)" "kstep 0 (0, s0) (1, eoi 0 s0)"
    using demo_runs by blast
  have "irq_handler 32 (1, eoi 0 s0) = Some (IrqReturn 2 (eoi 0 (eoi 0 s0)))" by (simp add: irq_handler_def usub_def wrap64_def)
  then show ?thesis using kernel_keeps_running [OF demo_fresh b(1) r_into_rtranclp [of "kstep 0", OF b(2)]] b by blast
qed

end
