(* ===== verification/Spec2Isabelle.thy ===== *)
theory Spec2Isabelle
  imports FatData Malloc Stubs Tests Running
begin

text \<open>
  Isunux, a small Unix-like system for x86_64 in C: the kernel under \<^verbatim>\<open>src/kernel\<close>, the C library under \<^verbatim>\<open>src/lib\<close>
  and the shell and the commands under \<^verbatim>\<open>src/bin\<close>.

  \<^bold>\<open>The program and its parts.\<close> At the bottom a frame allocator (\<^verbatim>\<open>pmm.c\<close>) hands out physical pages with
  reference counts; page tables (\<^verbatim>\<open>vmm.c\<close>) live in such pages. A round-robin scheduler (\<^verbatim>\<open>task.c\<close>) runs
  kernel tasks. Files live in a memory file system (\<^verbatim>\<open>tmpfs.c\<close>), on a FAT16 disk (\<^verbatim>\<open>fat.c\<close> over the ATA
  driver \<^verbatim>\<open>ata.c\<close>), in device nodes (\<^verbatim>\<open>devfs.c\<close>, over \<^verbatim>\<open>keyboard.c\<close>) and in pipes (\<^verbatim>\<open>pipe.c\<close>); one
  vnode layer (\<^verbatim>\<open>vfs.c\<close>) dispatches to them through tables of operations and resolves paths. Processes
  (\<^verbatim>\<open>process.c\<close>, \<^verbatim>\<open>fork.c\<close>, \<^verbatim>\<open>exec.c\<close>, \<^verbatim>\<open>elf.c\<close>, \<^verbatim>\<open>userstack.c\<close>) tie these together, and the system call
  dispatcher, the fault handler and the interrupt handlers (\<^verbatim>\<open>syscall.c\<close>, \<^verbatim>\<open>exceptions.c\<close>, \<^verbatim>\<open>irq.c\<close>) are
  the ways into the kernel, through the tables of \<^verbatim>\<open>gdt.c\<close>, \<^verbatim>\<open>idt.c\<close> and \<^verbatim>\<open>tss.c\<close>. Text goes to the serial line and,
  through \<^verbatim>\<open>term.c\<close>, to the pixels of \<^verbatim>\<open>fb.c\<close>. \<^verbatim>\<open>kernel.c\<close> sets everything up in order and starts the shell as the first
  process. User programs reach the kernel through the wrappers of \<^verbatim>\<open>mini_libc.h\<close>, and use its allocator, its string
  functions and its printf; the shell (\<^verbatim>\<open>bin/sh\<close>) starts the commands.

  \<^bold>\<open>Conventions of the model.\<close> A C struct is a record, an enumeration or a set of operation tables a datatype,
  a static array a function on indices. Addresses and sizes are natural numbers, with \<open>wrap64\<close>, \<open>wrap32\<close> and
  \<open>usub\<close> written where the source can wrap around; page-table entries, registers and reference counts are
  machine words. A C function that changes state takes the state it can reach and returns it with its result;
  a component's record is a field of the kernel state \<open>kst\<close> of \<open>Kstate\<close> once the component is composed with
  others. Negative error numbers are negative integers as in the source. Strings are character lists without
  the final NUL. Blocking is a result \<open>Block channel progress\<close>: the caller has been put to sleep on the channel and
  runs the operation again when it is woken. A null pointer that the source would dereference and a loop that
  does not end are the value \<open>None\<close>. Hardware is a function of the history of port accesses. The memory of
  a user process is an argument \<open>um\<close>; what a system call stores there is part of its result.

  A user program is a tree of system calls (\<open>prog\<close>): \<open>Call c k\<close> makes the call \<open>c\<close> and goes on with \<open>k\<close> of the reply,
  \<open>Ret\<close> ends with a value, \<open>Exit\<close> ends the process, and \<open>Undef\<close> is what the C standard leaves undefined (a null or
  dangling pointer used as text, a store past a buffer). A theorem over all replies holds for every kernel. The text pointers
  of the shell are the datatype \<open>cstr\<close>: a text, the null pointer, or a pointer past its arena. The whole machine at the start is the
  record \<open>machine\<close>: kernel, console and processor.

  \<^bold>\<open>The theories.\<close>
  \<^item> \<open>Prelude\<close>: bytes, words and memory (\<^verbatim>\<open>kutil.h\<close>), bounded scans, shared lemmas.
  \<^item> \<open>Pmm\<close>: \<^verbatim>\<open>pmm.c\<close>. The invariant of bitmap, counters and hint, kept by every operation; allocation returns an
    unused frame and fails exactly when there is none; the search for contiguous frames is equivalent to a first-fit
    specification; a frame with several owners survives until the last release.
  \<^item> \<open>Vmm\<close>, \<open>Cow\<close>: \<^verbatim>\<open>vmm.c\<close>. \<open>leaf\<close> is what the processor finds for an address; mapping changes one page of
    one space; the copy-on-write clone and the teardown of a space are correct for every page and every frame.
  \<^item> \<open>Task\<close>: \<^verbatim>\<open>task.c\<close>. The ring of tasks is a cyclic list in every reachable state; \<open>yield\<close> returns, switches to
    the next ready task, and is fair.
  \<^item> \<open>Queue\<close>, \<open>Pipe\<close>, \<open>Keyboard\<close>: ring buffers as a locale of queues, interpreted by the pipe and by the keyboard;
    a pipe is a first-in first-out byte stream, no wake-up is lost, a typed line is read back as edited.
  \<^item> \<open>Vnode\<close>, \<open>Tmpfs\<close>: \<^verbatim>\<open>tmpfs.c\<close>. A directory is a finite map from names to nodes, a file is a growing byte
    array.
  \<^item> \<open>Serial\<close>, \<open>Ata\<close>, \<open>Fat\<close>, \<open>FatNames\<close>, \<open>FatData\<close>: the disk driver transfers exactly the sectors asked for
    when the drive answers; reading a FAT file returns the bytes of its cluster chain; names survive the 8.3
    encoding.
  \<^item> \<open>Kstate\<close>, \<open>Vfs\<close>, \<open>VfsPaths\<close>: dispatch and paths; the canonical path of a node resolves to the node.
  \<^item> \<open>Process\<close>, \<open>Elf\<close>, \<open>Exec\<close>, \<open>Syscall\<close>: the operations of processes and the entry points of the kernel.
  \<^item> \<open>ProcRefs\<close>, \<open>ProcWait\<close>, \<open>ProcMem\<close>: properties of processes: reference counts of pipe ends are the numbers of
    descriptors in all processes, a reader sees the end of a pipe exactly when no writer is left, the exit of a child
    reaches its parent once, identifiers are unique, a copy-on-write fault gives a private copy, the heap and
    anonymous mappings get zeroed fresh pages, a fault in a program ends that program only.
  \<^item> \<open>Font\<close>, \<open>Console\<close>: \<^verbatim>\<open>font8x16.h\<close>, \<^verbatim>\<open>fb.c\<close>, \<^verbatim>\<open>term.c\<close>. The pixels are those of a screen of character cells on which the
    printed text was typed; nothing is written outside of the framebuffer.
  \<^item> \<open>Tables\<close>: \<^verbatim>\<open>gdt.c\<close>, \<^verbatim>\<open>tss.c\<close>, \<^verbatim>\<open>idt.c\<close>, \<^verbatim>\<open>pit.c\<close>. System calls, exceptions and interrupts enter the kernel at their handlers and in
    its segments; the return from a system call loads the selectors of user mode.
  \<^item> \<open>Stubs\<close>: the wrappers of \<^verbatim>\<open>mini_libc.h\<close>. With the registers a wrapper loads, the system call handler runs the operation of
    that name on the arguments of the wrapper.
  \<^item> \<open>Boot\<close>: \<^verbatim>\<open>kernel.c\<close>. The start leaves a FAT volume as it was; the first process is root's shell on the console and is
    scheduled next.
  \<^item> \<open>Libc\<close>, \<open>Malloc\<close>: \<^verbatim>\<open>mini_string.c\<close>, \<^verbatim>\<open>mini_printf.c\<close>, \<^verbatim>\<open>mini_malloc.c\<close>. printf writes the expansion of its format; the
    allocator returns aligned blocks that do not overlap, and a released block is used again.
  \<^item> \<open>UserProg\<close>, \<open>ShellTok\<close>, \<open>Shell\<close>, \<open>ShellRun\<close>, \<open>ShellSafe\<close>: \<^verbatim>\<open>bin/sh/main.c\<close>. A command line of plain words comes back as its words, a
    variable that is set reaches the environment of a child, a pipeline connects its stages and leaves no end of a pipe
    open in the shell, and a line that fits the buffers never leads to undefined behaviour.
  \<^item> \<open>Programs\<close>: the commands of \<^verbatim>\<open>bin\<close>. cat copies its input and ends; su starts a shell with the identity the kernel
    gave it.
  \<^item> \<open>Tests\<close>: test programs of \<^verbatim>\<open>bin\<close>. A verdict of success of the pipe and file tests means that the bytes came back in full; the
    environment test accepts the vector the kernel builds; the tests of job control and of faults accept the status the kernel reports; the signal test cannot succeed, as it expects another error number.

  \<^item> \<open>Calm\<close>, \<open>System\<close>, \<open>Running\<close>: the running kernel as one state machine. A step (\<open>kstep\<close>) is a system call of the running
    process with any registers and memory, the rest of a load of a program, a fault, a timer tick or a key, with the
    switch to another task it ends in. The invariant of ring, process table, descriptors and the links between tasks and
    processes holds after the start of the first process and in every state reached from there; the scheduler always finds a task, so the
    kernel never halts for want of one. A task that slept goes on with its call, which is one of the calls the running task may
    make at that point, so the machine has at least the behaviours of the kernel. \<open>start_inv\<close> carries the invariant from the power-on
    through the whole of \<^verbatim>\<open>_start\<close>. The halt of a kernel fault and a call that does not return have no step.

  \<^bold>\<open>Bounds and fuel.\<close> Loops over static arrays are scans bounded by the array. The sibling lists of tmpfs are walked
  with fuel the size of the node pool, enough because every list goes down in the pool. Waits for the
  disk and for free memory are bounded as in the source. Walks along FAT chains and the doubling of a file's
  capacity are partial: \<open>None\<close> stands for a loop that does not end, and the theorems prove \<open>Some\<close>.

  The loops of user programs that end only when the kernel says so (the copy loop of cat, the line loop of the shell)
  take a number of rounds; a theorem gives a number that is enough for the replies it speaks of. The loop of printf goes along its format, the loops of
  the tokenizer along the line, with the length of the text as the bound.

  \<^bold>\<open>Not modelled.\<close> Assembly (\<^verbatim>\<open>isr.asm\<close>, \<^verbatim>\<open>switch.asm\<close>, \<^verbatim>\<open>usermode.asm\<close>, \<^verbatim>\<open>crt0.asm\<close>), TLB invalidation, the
  wait for the serial transmitter, the boot loader (third-party code whose answers are arguments), and the
  test programs under \<^verbatim>\<open>bin\<close> that look at their own memory (\<^verbatim>\<open>hello\<close>, \<^verbatim>\<open>mmaptest\<close>, \<^verbatim>\<open>fsbasetest\<close>). Process identifiers are unbounded: the overflow of \<^verbatim>\<open>next_pid\<close> after \<open>2 ^ 31\<close> processes
  is not modelled.
\<close>

end
